(* ===== verification/Prelude.thy ===== *)
theory Prelude
  imports Main "HOL-Library.Word" "HOL-Library.Sublist"
begin

text \<open>
  Shared vocabulary of the development: the Go standard library functions on strings the
  program uses, written out on byte strings, with the lemmas the components share, and the
  fixed-width integers of the source.

  A Go \<open>string\<close> is a byte sequence, here a \<open>char list\<close>.  \<open>strings.ToLower\<close>,
  \<open>strings.ToUpper\<close>, \<open>strings.EqualFold\<close> and the whitespace functions are written out for
  ASCII bytes; a byte above 127 is left alone and is not white space.  DNS names reach the
  program in presentation form, which escapes every byte outside the printable ASCII range.
\<close>

section \<open>Fixed-width integers\<close>

type_synonym u8 = "8 word"
type_synonym u16 = "16 word"
type_synonym u32 = "32 word"
type_synonym u64 = "64 word"

text \<open>Times are nanoseconds since the epoch and durations nanoseconds, as \<open>time.Time\<close> and
  \<open>time.Duration\<close> count them.\<close>

abbreviation Second :: int where "Second \<equiv> 1000000000"

definition UnixMilli :: "int \<Rightarrow> int" where
  "UnixMilli t = t div 1000000"

named_theorems go_strings \<open>unfolding rules of the string functions\<close>

section \<open>The string functions\<close>

definition HasPrefix :: "string \<Rightarrow> string \<Rightarrow> bool" where
  [go_strings]: "HasPrefix s p \<longleftrightarrow> take (length p) s = p"

definition HasSuffix :: "string \<Rightarrow> string \<Rightarrow> bool" where
  [go_strings]: "HasSuffix s t \<longleftrightarrow> length t \<le> length s \<and> drop (length s - length t) s = t"

definition TrimPrefix :: "string \<Rightarrow> string \<Rightarrow> string" where
  [go_strings]: "TrimPrefix s p = (if HasPrefix s p then drop (length p) s else s)"

definition TrimSuffix :: "string \<Rightarrow> string \<Rightarrow> string" where
  [go_strings]: "TrimSuffix s t = (if HasSuffix s t then take (length s - length t) s else s)"

definition CutPrefix :: "string \<Rightarrow> string \<Rightarrow> string option" where
  [go_strings]: "CutPrefix s p = (if HasPrefix s p then Some (drop (length p) s) else None)"

definition CutSuffix :: "string \<Rightarrow> string \<Rightarrow> string option" where
  [go_strings]:
  "CutSuffix s t = (if HasSuffix s t then Some (take (length s - length t) s) else None)"

definition lower_char :: "char \<Rightarrow> char" where
  "lower_char c = (if 65 \<le> (of_char c :: nat) \<and> (of_char c :: nat) \<le> 90
                   then char_of ((of_char c :: nat) + 32) else c)"

definition upper_char :: "char \<Rightarrow> char" where
  "upper_char c = (if 97 \<le> (of_char c :: nat) \<and> (of_char c :: nat) \<le> 122
                   then char_of ((of_char c :: nat) - 32) else c)"

definition ToLower :: "string \<Rightarrow> string" where
  "ToLower s = map lower_char s"

definition ToUpper :: "string \<Rightarrow> string" where
  "ToUpper s = map upper_char s"

definition EqualFold :: "string \<Rightarrow> string \<Rightarrow> bool" where
  "EqualFold s t \<longleftrightarrow> ToLower s = ToLower t"

text \<open>\<open>strings.Split\<close> with a one-byte separator, \<open>strings.Join\<close> and \<open>strings.IndexByte\<close>.\<close>

fun Split :: "string \<Rightarrow> char \<Rightarrow> string list" where
  "Split [] c = [[]]"
| "Split (x # xs) c =
     (if x = c then [] # Split xs c
      else (case Split xs c of [] \<Rightarrow> [[x]] | y # ys \<Rightarrow> (x # y) # ys))"

fun Join :: "string list \<Rightarrow> string \<Rightarrow> string" where
  "Join [] sep = []"
| "Join [x] sep = x"
| "Join (x # y # ys) sep = x @ sep @ Join (y # ys) sep"

text \<open>\<open>strings.Index\<close>.\<close>

fun IndexStr :: "string \<Rightarrow> string \<Rightarrow> nat option" where
  "IndexStr [] t = (if t = [] then Some 0 else None)"
| "IndexStr (x # xs) t = (if HasPrefix (x # xs) t then Some 0 else map_option Suc (IndexStr xs t))"

fun IndexByte :: "string \<Rightarrow> char \<Rightarrow> nat option" where
  "IndexByte [] c = None"
| "IndexByte (x # xs) c = (if x = c then Some 0 else map_option Suc (IndexByte xs c))"

lemma IndexByte_None: "IndexByte q c = None \<longleftrightarrow> c \<notin> set q"
  by (induction q) auto

definition ContainsAny :: "string \<Rightarrow> string \<Rightarrow> bool" where
  "ContainsAny s cs \<longleftrightarrow> list_ex (\<lambda>c. c \<in> set cs) s"

definition is_space :: "char \<Rightarrow> bool" where
  "is_space c \<longleftrightarrow> c \<in> set [CHR 0x09, CHR 0x0A, CHR 0x0B, CHR 0x0C, CHR 0x0D, CHR 0x20]"

definition TrimSpace :: "string \<Rightarrow> string" where
  "TrimSpace s = rev (dropWhile is_space (rev (dropWhile is_space s)))"

text \<open>\<open>strings.Fields\<close>: the maximal runs of non-space bytes; the accumulator holds the run
  being read, reversed.\<close>

fun fields_acc :: "string \<Rightarrow> string \<Rightarrow> string list" where
  "fields_acc acc [] = (if acc = [] then [] else [rev acc])"
| "fields_acc acc (x # xs) =
     (if is_space x then (if acc = [] then fields_acc [] xs else rev acc # fields_acc [] xs)
      else fields_acc (x # acc) xs)"

definition Fields :: "string \<Rightarrow> string list" where
  "Fields s = fields_acc [] s"

text \<open>Decimal rendering, \<open>strconv.Itoa\<close> and the verb \<open>%d\<close> on non-negative values.\<close>

fun dec :: "nat \<Rightarrow> string" where
  "dec n = (if n < 10 then [char_of (48 + n)] else dec (n div 10) @ [char_of (48 + n mod 10)])"

declare dec.simps [simp del]

text \<open>Reading digits back: the value of a digit string, with the value of what was read before.\<close>

fun undec :: "nat \<Rightarrow> string \<Rightarrow> nat option" where
  "undec n [] = Some n"
| "undec n (c # cs) =
     (if 48 \<le> (of_char c :: nat) \<and> (of_char c :: nat) \<le> 57
      then undec (10 * n + (of_char c - 48)) cs else None)"

text \<open>\<open>strconv.ParseInt(s, 10, 64)\<close>.\<close>

definition undec_int64 :: "string \<Rightarrow> int option" where
  "undec_int64 s =
     (let neg = (s \<noteq> [] \<and> hd s = CHR ''-''); digits = (if s \<noteq> [] \<and> (hd s = CHR ''-'' \<or> hd s = CHR ''+'') then tl s else s)
      in if digits = [] then None
         else case undec 0 digits of
                None \<Rightarrow> None
              | Some n \<Rightarrow> if neg then (if n \<le> 2 ^ 63 then Some (- int n) else None)
                          else (if n < 2 ^ 63 then Some (int n) else None))"

definition FormatInt :: "int \<Rightarrow> string" where
  "FormatInt i = (if i < 0 then ''-'' @ dec (nat (- i)) else dec (nat i))"

section \<open>Case folding\<close>

lemma lower_char_idem [simp]: "lower_char (lower_char c) = lower_char c"
  by (auto simp: lower_char_def)

lemma lower_char_dot [simp]: "lower_char c = CHR ''.'' \<longleftrightarrow> c = CHR ''.''"
proof
  assume *: "lower_char c = CHR ''.''"
  show "c = CHR ''.''"
  proof (cases "65 \<le> (of_char c :: nat) \<and> (of_char c :: nat) \<le> 90")
    case True
    with * have "(of_char (char_of ((of_char c :: nat) + 32)) :: nat) = of_char CHR ''.''"
      by (simp add: lower_char_def)
    with True show ?thesis by simp
  next
    case False
    with * show ?thesis by (simp add: lower_char_def split: if_splits)
  qed
qed (simp add: lower_char_def)

lemma ToLower_simps [simp]:
  "ToLower [] = []" "ToLower (x # xs) = lower_char x # ToLower xs"
  "ToLower (xs @ ys) = ToLower xs @ ToLower ys"
  by (simp_all add: ToLower_def)

lemma ToLower_idem [simp]: "ToLower (ToLower s) = ToLower s"
  by (simp add: ToLower_def)

lemma length_ToLower [simp]: "length (ToLower s) = length s"
  by (simp add: ToLower_def)

lemma ToLower_eq_Nil [simp]: "ToLower s = [] \<longleftrightarrow> s = []"
  by (simp add: ToLower_def)

lemma EqualFold_refl [simp]: "EqualFold s s"
  by (simp add: EqualFold_def)

lemma EqualFold_sym: "EqualFold s t \<Longrightarrow> EqualFold t s"
  by (simp add: EqualFold_def)

lemma EqualFold_trans: "EqualFold s t \<Longrightarrow> EqualFold t u \<Longrightarrow> EqualFold s u"
  by (simp add: EqualFold_def)

section \<open>Prefixes and suffixes\<close>

lemma HasPrefix_prefix: "HasPrefix s p \<longleftrightarrow> prefix p s"
  by (metis HasPrefix_def append_take_drop_id append_eq_conv_conj prefix_def)

lemma HasSuffix_suffix: "HasSuffix s t \<longleftrightarrow> suffix t s"
proof
  assume "HasSuffix s t"
  then have "s = take (length s - length t) s @ t"
    by (metis HasSuffix_def append_take_drop_id)
  then show "suffix t s" by (metis suffix_def)
qed (auto simp: HasSuffix_def suffix_def)

lemma HasSuffix_append [simp]: "HasSuffix (s @ t) t"
  by (simp add: HasSuffix_def)

lemma TrimSuffix_append [simp]: "TrimSuffix (s @ t) t = s"
  by (simp add: TrimSuffix_def)

lemma TrimPrefix_append [simp]: "TrimPrefix (p @ s) p = s"
  by (simp add: TrimPrefix_def HasPrefix_def)

lemma TrimSuffix_none: "\<not> HasSuffix s t \<Longrightarrow> TrimSuffix s t = s"
  by (simp add: TrimSuffix_def)

lemma length_TrimSuffix: "length (TrimSuffix s t) \<le> length s"
  by (simp add: TrimSuffix_def)

lemma set_TrimSuffix: "set (TrimSuffix s t) \<subseteq> set s"
  by (auto simp: TrimSuffix_def dest: in_set_takeD)

lemma CutPrefix_Some: "CutPrefix s p = Some r \<longleftrightarrow> s = p @ r"
proof
  assume "CutPrefix s p = Some r"
  then show "s = p @ r"
    by (auto simp: CutPrefix_def HasPrefix_def split: if_splits)
       (metis append_take_drop_id)
qed (simp add: CutPrefix_def HasPrefix_def)

section \<open>Splitting and joining\<close>

lemma Split_not_Nil [simp]: "Split s c \<noteq> []"
  by (induction s) (auto split: list.splits)

lemma Split_no_sep: "l \<in> set (Split s c) \<Longrightarrow> c \<notin> set l"
  by (induction s arbitrary: l) (auto split: if_splits list.splits)

lemma Join_Cons: "ls \<noteq> [] \<Longrightarrow> Join (l # ls) sep = l @ sep @ Join ls sep"
  by (cases ls) auto

lemma Join_Split [simp]: "Join (Split s c) [c] = s"
proof (induction s)
  case (Cons x xs)
  show ?case
  proof (cases "x = c")
    case True
    with Cons show ?thesis by (simp add: Join_Cons)
  next
    case False
    obtain y ys where "Split xs c = y # ys" by (cases "Split xs c") auto
    with Cons False show ?thesis by (cases ys) auto
  qed
qed simp

lemma Split_prepend: "c \<notin> set l \<Longrightarrow> Split (l @ c # s) c = l # Split s c"
  by (induction l) auto

lemma Split_single: "c \<notin> set l \<Longrightarrow> Split l c = [l]"
  by (induction l) auto

lemma Split_Join:
  "ls \<noteq> [] \<Longrightarrow> \<forall>l \<in> set ls. c \<notin> set l \<Longrightarrow> Split (Join ls [c]) c = ls"
proof (induction ls rule: induct_list012)
  case (3 x y zs)
  then show ?case by (simp add: Split_prepend)
qed (auto simp: Split_single)

lemma Join_append:
  "xs \<noteq> [] \<Longrightarrow> ys \<noteq> [] \<Longrightarrow> Join (xs @ ys) sep = Join xs sep @ sep @ Join ys sep"
proof (induction xs rule: induct_list012)
  case (2 x)
  then show ?case by (simp add: Join_Cons)
qed (auto simp: Join_Cons)

lemma ToLower_Join: "ToLower (Join ls sep) = Join (map ToLower ls) (ToLower sep)"
  by (induction ls sep rule: Join.induct) simp_all

lemma Split_ToLower_dot: "Split (ToLower s) CHR ''.'' = map ToLower (Split s CHR ''.'')"
  by (induction s) (auto split: list.splits)

text \<open>A name is left of a dot exactly when the labels are: the string reading and the label
  reading of \<open>suffix at a label boundary\<close> agree.\<close>

lemma suffix_labels_iff:
  "suffix (Split t c) (Split s c) \<longleftrightarrow> s = t \<or> suffix (c # t) s"
proof
  assume "suffix (Split t c) (Split s c)"
  then obtain ls where ls: "Split s c = ls @ Split t c" by (auto simp: suffix_def)
  show "s = t \<or> suffix (c # t) s"
  proof (cases "ls = []")
    case True
    with ls have "Join (Split s c) [c] = Join (Split t c) [c]" by simp
    then show ?thesis by simp
  next
    case False
    then have "Join (Split s c) [c] = Join ls [c] @ [c] @ Join (Split t c) [c]"
      by (simp only: ls Join_append Split_not_Nil not_False_eq_True)
    then have "s = Join ls [c] @ (c # t)" by simp
    then show ?thesis by (metis suffix_def)
  qed
next
  assume "s = t \<or> suffix (c # t) s"
  then show "suffix (Split t c) (Split s c)"
  proof
    assume "suffix (c # t) s"
    then obtain p where p: "s = p @ c # t" by (auto simp: suffix_def)
    have "Split (p @ c # t) c = Split p c @ Split t c"
    proof (induction p)
      case (Cons x p)
      then show ?case by (cases "Split p c") (auto split: list.splits)
    qed simp
    with p show ?thesis by (auto simp: suffix_def)
  qed simp
qed

lemma suffix_drop_iff: "suffix ys xs \<longleftrightarrow> (\<exists>i \<le> length xs. ys = drop i xs)"
proof
  assume "suffix ys xs"
  then obtain zs where zs: "xs = zs @ ys" by (auto simp: suffix_def)
  then show "\<exists>i \<le> length xs. ys = drop i xs" by (intro exI [of _ "length zs"]) simp
qed (auto intro: suffix_drop)

section \<open>White space\<close>

lemma set_TrimSpace: "set (TrimSpace s) \<subseteq> set s"
  by (auto simp: TrimSpace_def dest!: set_dropWhileD)

lemma fields_acc_nonempty: "[] \<notin> set (fields_acc acc s)"
  by (induction acc s rule: fields_acc.induct) simp_all

lemma Fields_nonempty: "f \<in> set (Fields s) \<Longrightarrow> f \<noteq> []"
  using fields_acc_nonempty [of "[]" s] by (auto simp: Fields_def)

lemma fields_acc_no_space:
  "list_all (\<lambda>c. \<not> is_space c) acc \<Longrightarrow>
   list_all (list_all (\<lambda>c. \<not> is_space c)) (fields_acc acc s)"
proof (induction acc s rule: fields_acc.induct)
  case (2 acc x xs)
  then show ?case by (cases "is_space x"; cases "acc = []") (simp_all add: list_all_rev)
qed (simp add: list_all_rev)

lemma Fields_no_space: "f \<in> set (Fields s) \<Longrightarrow> c \<in> set f \<Longrightarrow> \<not> is_space c"
  using fields_acc_no_space [of "[]" s] by (auto simp: Fields_def list_all_iff)

section \<open>First match in a list\<close>

text \<open>The loop \<open>for i := range xs { if p(xs[i:]) { return } }\<close> over the tails of a list, longest
  first, which \<open>Index.Find\<close>, \<open>closestEncloser\<close>, \<open>referral\<close> and \<open>ReverseZoneFor\<close> share.\<close>

fun first_tail :: "('a list \<Rightarrow> 'b option) \<Rightarrow> 'a list \<Rightarrow> 'b option" where
  "first_tail f [] = None"
| "first_tail f (x # xs) = (case f (x # xs) of Some y \<Rightarrow> Some y | None \<Rightarrow> first_tail f xs)"

lemma first_tail_Some:
  "first_tail f xs = Some y \<longleftrightarrow>
     (\<exists>i < length xs. f (drop i xs) = Some y \<and> (\<forall>j < i. f (drop j xs) = None))"
proof (induction xs)
  case (Cons x xs)
  show ?case
  proof (cases "f (x # xs)")
    case None
    have "(\<exists>i < length (x # xs). f (drop i (x # xs)) = Some y
             \<and> (\<forall>j < i. f (drop j (x # xs)) = None)) \<longleftrightarrow>
          (\<exists>i < length xs. f (drop i xs) = Some y \<and> (\<forall>j < i. f (drop j xs) = None))"
      (is "?l \<longleftrightarrow> ?r")
    proof
      assume ?l
      then obtain i where i: "i < length (x # xs)" "f (drop i (x # xs)) = Some y"
        "\<forall>j < i. f (drop j (x # xs)) = None" by blast
      with None obtain k where k: "i = Suc k" by (cases i) auto
      have "f (drop j xs) = None" if "j < k" for j
        using i(3) [rule_format, of "Suc j"] that k by simp
      with i k show ?r by auto
    next
      assume ?r
      then obtain i where i: "i < length xs" "f (drop i xs) = Some y"
        "\<forall>j < i. f (drop j xs) = None" by blast
      have "f (drop j (x # xs)) = None" if "j < Suc i" for j
        using i(3) None that by (cases j) auto
      with i show ?l by (intro exI [of _ "Suc i"]) auto
    qed
    with None Cons show ?thesis by simp
  next
    case (Some a)
    have "i = 0" if "\<forall>j < i. f (drop j (x # xs)) = None" for i
      using that [rule_format, of 0] Some by (cases i) auto
    with Some show ?thesis by (force intro: exI [of _ 0])
  qed
qed simp

lemma first_tail_None:
  "first_tail f xs = None \<longleftrightarrow> (\<forall>i < length xs. f (drop i xs) = None)"
proof (induction xs)
  case (Cons x xs)
  show ?case
  proof (cases "f (x # xs)")
    case None
    have "(\<forall>i < length (x # xs). f (drop i (x # xs)) = None) \<longleftrightarrow>
          (\<forall>i < length xs. f (drop i xs) = None)"
      by (auto simp: less_Suc_eq_0_disj None)
    with None Cons show ?thesis by simp
  qed auto
qed simp

section \<open>Maps of lists\<close>

text \<open>Go's \<open>m[k] = append(m[k], v)\<close> on a map that is also ranged over: an association list that
  keeps each key once.\<close>

fun append_at :: "'k \<Rightarrow> 'v \<Rightarrow> ('k \<times> 'v list) list \<Rightarrow> ('k \<times> 'v list) list" where
  "append_at k v [] = [(k, [v])]"
| "append_at k v ((k', vs) # m) =
     (if k = k' then (k', vs @ [v]) # m else (k', vs) # append_at k v m)"

definition lookup_list :: "('k \<times> 'v list) list \<Rightarrow> 'k \<Rightarrow> 'v list" where
  "lookup_list m k = (case map_of m k of Some vs \<Rightarrow> vs | None \<Rightarrow> [])"

lemma lookup_list_Nil [simp]: "lookup_list [] k = []"
  by (simp add: lookup_list_def)

lemma lookup_append_at [simp]:
  "lookup_list (append_at k v m) k' = (if k' = k then lookup_list m k @ [v] else lookup_list m k')"
  by (induction m rule: append_at.induct [of _ k v]) (auto simp: lookup_list_def)

lemma keys_append_at [simp]: "fst ` set (append_at k v m) = insert k (fst ` set m)"
  by (induction k v m rule: append_at.induct) auto

lemma append_at_no_Nil: "[] \<notin> snd ` set m \<Longrightarrow> [] \<notin> snd ` set (append_at k v m)"
  by (induction k v m rule: append_at.induct) auto

lemma lookup_list_not_Nil:
  "[] \<notin> snd ` set m \<Longrightarrow> lookup_list m k \<noteq> [] \<longleftrightarrow> k \<in> fst ` set m"
  by (induction m) (auto simp: lookup_list_def split: option.splits)

lemma in_set_map_filter: "y \<in> set (List.map_filter f xs) \<longleftrightarrow> (\<exists>x \<in> set xs. f x = Some y)"
  by (induction xs) (auto simp: List.map_filter_simps split: option.splits)

section \<open>Decimal numbers\<close>

lemma undec_append: "undec k (xs @ ys) = Option.bind (undec k xs) (\<lambda>m. undec m ys)"
  by (induction xs arbitrary: k) auto

lemma digit_char: "d < 10 \<Longrightarrow> (of_char (char_of (48 + d)) :: nat) = 48 + d"
  by simp

lemma undec_dec [simp]: "undec 0 (dec n) = Some n"
proof (induction n rule: dec.induct)
  case (1 n)
  have step: "undec m [char_of (48 + d)] = Some (10 * m + d)" if "d < 10" for m d
    using digit_char [OF that] that by simp
  show ?case
  proof (cases "n < 10")
    case True
    then show ?thesis using step [of n 0] by (simp add: dec.simps [of n])
  next
    case False
    have "undec 0 (dec n) = Option.bind (undec 0 (dec (n div 10))) (\<lambda>m. undec m [char_of (48 + n mod 10)])"
      using False by (simp only: dec.simps [of n] if_False undec_append)
    also have "\<dots> = Some (10 * (n div 10) + n mod 10)" using 1 [OF False] step [of "n mod 10"] by simp
    finally show ?thesis by simp
  qed
qed

lemma dec_not_Nil [simp]: "dec n \<noteq> []"
  by (simp add: dec.simps [of n])

definition is_digit :: "char \<Rightarrow> bool" where
  "is_digit c \<longleftrightarrow> 48 \<le> (of_char c :: nat) \<and> (of_char c :: nat) \<le> 57"

lemma dec_digits: "c \<in> set (dec n) \<Longrightarrow> is_digit c"
proof (induction n rule: dec.induct)
  case (1 n)
  show ?case
  proof (cases "n < 10")
    case True
    with 1(2) have "c = char_of (48 + n)" by (simp add: dec.simps [of n])
    with True digit_char [of n] show ?thesis by (simp add: is_digit_def)
  next
    case False
    with 1(2) have "c \<in> set (dec (n div 10)) \<or> c = char_of (48 + n mod 10)" by (auto simp: dec.simps [of n])
    then show ?thesis using 1(1) [OF False] digit_char [of "n mod 10"] by (auto simp: is_digit_def)
  qed
qed

lemma dec_leading_zero: "hd (dec n) = CHR ''0'' \<Longrightarrow> n = 0"
proof (induction n rule: dec.induct)
  case (1 n)
  show ?case
  proof (cases "n < 10")
    case True
    with 1(2) have "(of_char (char_of (48 + n) :: char) :: nat) = of_char CHR ''0''" by (simp add: dec.simps [of n])
    with True digit_char [of n] show ?thesis by simp
  next
    case False
    with 1(2) have "hd (dec (n div 10)) = CHR ''0''" by (simp add: dec.simps [of n])
    with 1(1) [OF False] have "n div 10 = 0" by simp
    with False show ?thesis by simp
  qed
qed

lemma dec_0 [simp]: "dec 0 = ''0''"
  by code_simp

lemma TrimSpace_id: "\<forall>c \<in> set s. \<not> is_space c \<Longrightarrow> TrimSpace s = s"
proof -
  assume s: "\<forall>c \<in> set s. \<not> is_space c"
  have "dropWhile is_space t = t" if "set t = set s" for t
    using s that by (cases t) auto
  then show "TrimSpace s = s" by (simp add: TrimSpace_def)
qed

lemma list_all_upt: "list_all P [0..<n] \<Longrightarrow> d < n \<Longrightarrow> P d"
  by (simp add: list_all_iff)

lemma digit_in: "is_digit c \<Longrightarrow> c \<in> set ''0123456789''"
proof -
  assume c: "is_digit c"
  then have "of_char c \<in> set [48..<58 :: nat]" unfolding is_digit_def set_upt atLeastLessThan_iff by linarith
  moreover have "list_all (\<lambda>k. char_of (k :: nat) \<in> set ''0123456789'') [48..<58]" by code_simp
  ultimately have "char_of (of_char c :: nat) \<in> set ''0123456789''" unfolding list_all_iff by blast
  then show "c \<in> set ''0123456789''" by simp
qed

end
