(* ===== verification/Serial.thy ===== *)
theory Serial
  imports Prelude
begin

text \<open>
  Zone serial arithmetic, \<open>internal/zones/serial.go\<close>: the RFC 1982 comparison of 32-bit
  serials by one wrapping subtraction, at its width.
\<close>

definition SerialNewer :: "u32 \<Rightarrow> u32 \<Rightarrow> bool" where
  "SerialNewer a b = (let d = a - b in d \<noteq> 0 \<and> d < 2 ^ 31)"

text \<open>\<open>bumpSerialSQL\<close>: the column is a 64-bit integer and the statement advances it modulo \<open>2^32\<close>;
  the row is read back as a \<open>uint32\<close>.\<close>

definition bumpSerial :: "int \<Rightarrow> int" where
  "bumpSerial soa_serial = (soa_serial + 1) mod 4294967296"

text \<open>RFC 1982 section 3.2, on the values: \<open>s1\<close> is greater than \<open>s2\<close>.\<close>

definition rfc1982_gt :: "int \<Rightarrow> int \<Rightarrow> bool" where
  "rfc1982_gt s1 s2 \<longleftrightarrow>
     s1 \<noteq> s2 \<and> ((s1 < s2 \<and> s2 - s1 > 2 ^ 31) \<or> (s1 > s2 \<and> s1 - s2 < 2 ^ 31))"

lemma SerialNewer_uint:
  "SerialNewer a b \<longleftrightarrow> (uint a - uint b) mod 2 ^ 32 \<noteq> 0 \<and> (uint a - uint b) mod 2 ^ 32 < 2 ^ 31"
proof -
  have "uint (a - b) = (uint a - uint b) mod 2 ^ 32"
    by (simp add: uint_word_ariths)
  moreover have "a - b \<noteq> 0 \<longleftrightarrow> uint (a - b) \<noteq> 0"
    by (metis uint_0_iff)
  moreover have "a - b < 2 ^ 31 \<longleftrightarrow> uint (a - b) < 2 ^ 31"
    by (simp add: word_less_def)
  ultimately show ?thesis by (simp add: SerialNewer_def Let_def)
qed

lemma uint32_bounds: "0 \<le> uint (a :: u32)" "uint (a :: u32) < 2 ^ 32"
  using uint_lt2p [of a] by simp_all

lemma SerialNewer_rfc1982_aux: "SerialNewer a b \<longleftrightarrow> rfc1982_gt (uint a) (uint b)"
proof -
  let ?x = "uint a" and ?y = "uint b"
  have x: "0 \<le> ?x" "?x < 2 ^ 32" and y: "0 \<le> ?y" "?y < 2 ^ 32"
    using uint32_bounds by blast+
  show ?thesis
  proof (cases "?y \<le> ?x")
    case True
    with x y have "(?x - ?y) mod 2 ^ 32 = ?x - ?y"
      by (intro mod_pos_pos_trivial) linarith+
    with True show ?thesis by (auto simp: SerialNewer_uint rfc1982_gt_def)
  next
    case False
    have "(?x - ?y) mod 2 ^ 32 = (?x - ?y + 2 ^ 32) mod 2 ^ 32" by simp
    also have "\<dots> = ?x - ?y + 2 ^ 32"
      using False x y by (intro mod_pos_pos_trivial) linarith+
    finally have "(?x - ?y) mod 2 ^ 32 = ?x - ?y + 2 ^ 32" .
    moreover have "?x - ?y + 2 ^ 32 > 0" using x y by linarith
    ultimately have "SerialNewer a b \<longleftrightarrow> ?x - ?y + 2 ^ 32 < 2 ^ 31"
      by (simp only: SerialNewer_uint) linarith
    moreover have "rfc1982_gt ?x ?y \<longleftrightarrow> ?y - ?x > 2 ^ 31"
      using False unfolding rfc1982_gt_def by linarith
    moreover have "?x - ?y + 2 ^ 32 < 2 ^ 31 \<longleftrightarrow> ?y - ?x > 2 ^ 31" by simp linarith
    ultimately show ?thesis by (simp only:)
  qed
qed

section \<open>Properties\<close>

text \<open>The single wrapping subtraction is exactly the circular comparison RFC 1982 section 3.2 defines
  by cases on the two values.\<close>

theorem SerialNewer_rfc1982: "SerialNewer a b \<longleftrightarrow> rfc1982_gt (uint a) (uint b)"
  by (rule SerialNewer_rfc1982_aux)

text \<open>Two serials are ordered one way at most, and the only pairs with no order are equal serials and
  those exactly \<open>2^31\<close> apart, for which the answer is false in both directions.\<close>

theorem SerialNewer_partial:
  "\<not> (SerialNewer a b \<and> SerialNewer b a) \<and>
   (\<not> SerialNewer a b \<and> \<not> SerialNewer b a \<longleftrightarrow> uint a = uint b \<or> \<bar>uint a - uint b\<bar> = 2 ^ 31)"
  unfolding SerialNewer_rfc1982_aux rfc1982_gt_def by linarith

text \<open>Advancing a stored serial always makes it newer, the wrap from 4294967295 to 0 included, and the
  stored value stays in the range of a \<open>uint32\<close>, so the row stays readable.\<close>

theorem bumpSerial_newer:
  "0 \<le> bumpSerial (uint s) \<and> bumpSerial (uint s) < 2 ^ 32 \<and>
   SerialNewer (word_of_int (bumpSerial (uint s))) s"
proof -
  have r: "0 \<le> bumpSerial (uint s)" "bumpSerial (uint s) < 2 ^ 32"
    by (simp_all add: bumpSerial_def)
  have "word_of_int (bumpSerial (uint s)) = (s + 1 :: u32)"
    by (rule word_uint_eqI) (simp add: bumpSerial_def uint_word_ariths uint_word_of_int)
  then show ?thesis using r by (simp add: SerialNewer_def)
qed

end
