(* ===== verification/Domain_Set.thy ===== *)
theory Domain_Set
  imports Prelude
begin

text \<open>
  The domain set of \<open>internal/filter/domainset.go\<close>: a flat set of normalised names matched by a
  walk over the suffixes of the queried name.  The filter's rules and lists and the forwarder's
  conditional routing table are built on it.
\<close>

definition normalize_d :: "string \<Rightarrow> string" where
  "normalize_d d = ToLower (TrimSuffix d ''.'')"

type_synonym domain_set = "string list"

definition NewDomainSet :: domain_set where
  "NewDomainSet = []"

definition Add :: "domain_set \<Rightarrow> string \<Rightarrow> domain_set" where
  "Add s domain = List.insert (normalize_d domain) s"

text \<open>The loop of \<open>Match\<close>: stop at the first suffix in the set, go on past the next dot.\<close>

function match_from :: "domain_set \<Rightarrow> string \<Rightarrow> string option" where
  "match_from s q =
     (if q \<in> set s then Some q
      else case IndexByte q CHR ''.'' of
             None \<Rightarrow> None
           | Some i \<Rightarrow> match_from s (drop (i + 1) q))"
  by pat_completeness auto

lemma IndexByte_lt: "IndexByte q c = Some i \<Longrightarrow> i < length q"
  by (induction q arbitrary: i) (auto split: if_splits)

termination match_from
  by (relation "measure (\<lambda>(s, q). length q)") (auto dest: IndexByte_lt)

declare match_from.simps [simp del]

definition Match :: "domain_set \<Rightarrow> string \<Rightarrow> string option" where
  "Match s qname = match_from s (normalize_d qname)"

definition Len :: "domain_set \<Rightarrow> nat" where
  "Len s = length s"

section \<open>The walk visits exactly the label suffixes\<close>

lemma IndexByte_Some: "IndexByte q c = Some i \<longleftrightarrow> i < length q \<and> q ! i = c \<and> c \<notin> set (take i q)"
proof (induction q arbitrary: i)
  case (Cons x q)
  then show ?case by (cases i) (auto split: if_splits)
qed simp

lemma Split_IndexByte:
  "IndexByte q c = Some i \<Longrightarrow> Split q c = take i q # Split (drop (i + 1) q) c"
proof (induction q arbitrary: i)
  case (Cons x q)
  then show ?case by (cases "x = c") auto
qed simp

lemma Split_no_dot: "IndexByte q c = None \<Longrightarrow> Split q c = [q]"
  by (simp add: IndexByte_None Split_single)

text \<open>\<open>match_from\<close> is the search for the longest run of trailing labels that is in the set.\<close>

lemma match_from_labels:
  "match_from s q =
     first_tail (\<lambda>ls. if Join ls ''.'' \<in> set s then Some (Join ls ''.'') else None) (Split q CHR ''.'')"
proof (induction s q rule: match_from.induct)
  case (1 s q)
  show ?case
  proof (cases "q \<in> set s")
    case True
    obtain x xs where "Split q CHR ''.'' = x # xs" by (cases "Split q CHR ''.''") auto
    moreover from this have "Join (x # xs) ''.'' = q" using Join_Split [of q "CHR ''.''"] by simp
    ultimately show ?thesis using True by (simp add: match_from.simps [of s q])
  next
    case False
    show ?thesis
    proof (cases "IndexByte q CHR ''.''")
      case None
      with False show ?thesis by (simp add: match_from.simps [of s q] Split_no_dot)
    next
      case (Some i)
      note split = Split_IndexByte [OF Some]
      have "Join (Split q CHR ''.'') ''.'' = q" by simp
      with 1 False Some split show ?thesis
        by (simp add: match_from.simps [of s q] del: Join_Split)
    qed
  qed
qed

section \<open>The interface\<close>

text \<open>A name covers another when it is that name or one of its parents, on whole labels.\<close>

definition covers :: "string \<Rightarrow> string \<Rightarrow> bool" where
  "covers d q \<longleftrightarrow> q = d \<or> HasSuffix q (''.'' @ d)"

lemma covers_labels: "covers d q \<longleftrightarrow> suffix (Split d CHR ''.'') (Split q CHR ''.'')"
  by (auto simp: covers_def HasSuffix_suffix suffix_labels_iff)

lemma covers_refl [simp]: "covers d d"
  by (simp add: covers_def)

lemma covers_trans: "covers a b \<Longrightarrow> covers b c \<Longrightarrow> covers a c"
  by (auto simp: covers_labels intro: suffix_order.trans)

text \<open>What the clients of the set rely on: \<open>members\<close> is the set of names a state stands for.\<close>

locale suffix_matcher =
  fixes empty :: 's
    and add :: "'s \<Rightarrow> string \<Rightarrow> 's"
    and mtch :: "'s \<Rightarrow> string \<Rightarrow> string option"
    and members :: "'s \<Rightarrow> string set"
  assumes members_empty: "members empty = {}"
    and members_add: "members (add s d) = insert (normalize_d d) (members s)"
    and match_sound: "mtch s q = Some m \<Longrightarrow> m \<in> members s \<and> covers m (normalize_d q)"
    and match_longest: "mtch s q = Some m \<Longrightarrow> m' \<in> members s \<Longrightarrow> covers m' (normalize_d q) \<Longrightarrow> covers m' m"
    and match_complete: "mtch s q = None \<Longrightarrow> m \<in> members s \<Longrightarrow> \<not> covers m (normalize_d q)"
begin

lemma match_iff: "mtch s q \<noteq> None \<longleftrightarrow> (\<exists>m \<in> members s. covers m (normalize_d q))"
  using match_sound match_complete by (metis not_None_eq)

lemma match_None: "mtch s q = None \<longleftrightarrow> (\<forall>m \<in> members s. \<not> covers m (normalize_d q))"
  using match_iff by (metis option.distinct(1))

lemma members_fold: "members (fold (\<lambda>d s. add s d) ds s) = normalize_d ` set ds \<union> members s"
  by (induction ds arbitrary: s) (auto simp: members_add)

lemma match_fold:
  "mtch (fold (\<lambda>d s. add s d) ds empty) q \<noteq> None \<longleftrightarrow>
     (\<exists>d \<in> set ds. covers (normalize_d d) (normalize_d q))"
  by (simp only: match_iff members_fold members_empty) auto

end

lemma set_Add: "set (Add s d) = insert (normalize_d d) (set s)"
  by (simp add: Add_def)

lemma Match_Some:
  "Match s q = Some m \<longleftrightarrow>
     (\<exists>i < length (Split (normalize_d q) CHR ''.'').
        m = Join (drop i (Split (normalize_d q) CHR ''.'')) ''.'' \<and> m \<in> set s \<and>
        (\<forall>j < i. Join (drop j (Split (normalize_d q) CHR ''.'')) ''.'' \<notin> set s))"
  by (auto simp: Match_def match_from_labels first_tail_Some split: if_splits)

lemma Match_None:
  "Match s q = None \<longleftrightarrow>
     (\<forall>i < length (Split (normalize_d q) CHR ''.''). Join (drop i (Split (normalize_d q) CHR ''.'')) ''.'' \<notin> set s)"
  by (auto simp: Match_def match_from_labels first_tail_None)

lemma Split_Join_drop:
  "i < length (Split q c) \<Longrightarrow> Split (Join (drop i (Split q c)) [c]) c = drop i (Split q c)"
  by (rule Split_Join) (auto dest: in_set_dropD Split_no_sep)

lemma covers_drop:
  "covers m q \<longleftrightarrow> (\<exists>i < length (Split q CHR ''.''). m = Join (drop i (Split q CHR ''.'')) ''.'')"
proof
  assume "covers m q"
  then obtain i where i: "i \<le> length (Split q CHR ''.'')" "Split m CHR ''.'' = drop i (Split q CHR ''.'')"
    by (auto simp: covers_labels suffix_drop_iff)
  from i(2) have "i < length (Split q CHR ''.'')"
    by (metis Split_not_Nil drop_eq_Nil not_le)
  moreover have "m = Join (drop i (Split q CHR ''.'')) ''.''"
    by (simp add: i(2) [symmetric])
  ultimately show "\<exists>i < length (Split q CHR ''.''). m = Join (drop i (Split q CHR ''.'')) ''.''" by blast
next
  assume "\<exists>i < length (Split q CHR ''.''). m = Join (drop i (Split q CHR ''.'')) ''.''"
  then show "covers m q" by (auto simp: covers_labels Split_Join_drop suffix_drop)
qed

interpretation dset: suffix_matcher NewDomainSet Add Match set
proof unfold_locales
  show "set NewDomainSet = {}" by (simp add: NewDomainSet_def)
next
  fix s d
  show "set (Add s d) = insert (normalize_d d) (set s)" by (rule set_Add)
next
  fix s q m
  assume "Match s q = Some m"
  then show "m \<in> set s \<and> covers m (normalize_d q)" by (auto simp: Match_Some covers_drop)
next
  fix s q m m'
  assume "Match s q = Some m" and m': "m' \<in> set s" "covers m' (normalize_d q)"
  then obtain i where i: "i < length (Split (normalize_d q) CHR ''.'')"
    "m = Join (drop i (Split (normalize_d q) CHR ''.'')) ''.''"
    "\<forall>j < i. Join (drop j (Split (normalize_d q) CHR ''.'')) ''.'' \<notin> set s" by (auto simp: Match_Some)
  from m' obtain j where j: "j < length (Split (normalize_d q) CHR ''.'')"
    "m' = Join (drop j (Split (normalize_d q) CHR ''.'')) ''.''" by (auto simp: covers_drop)
  with i(3) m'(1) have "i \<le> j" by (meson not_le)
  then have "drop j (Split (normalize_d q) CHR ''.'') = drop (j - i) (drop i (Split (normalize_d q) CHR ''.''))"
    by simp
  then have "suffix (drop j (Split (normalize_d q) CHR ''.'')) (drop i (Split (normalize_d q) CHR ''.''))"
    by (simp only: suffix_drop)
  with i j show "covers m' m" by (simp add: covers_labels Split_Join_drop)
next
  fix s q m
  assume "Match s q = None" "m \<in> set s"
  then show "\<not> covers m (normalize_d q)" by (auto simp: Match_None covers_drop)
qed

section \<open>Properties\<close>

text \<open>A domain set matches on whole labels and returns the most specific entry.  \<open>Match\<close> returns an
  entry exactly when some entry is the queried name or a parent of it, the entry it returns is one
  of those, and every other such entry is a parent of (or equal to) the returned one.\<close>

theorem Match_most_specific:
  "(Match s q \<noteq> None \<longleftrightarrow> (\<exists>d \<in> set s. covers d (normalize_d q))) \<and>
   (\<forall>m. Match s q = Some m \<longrightarrow> m \<in> set s \<and> covers m (normalize_d q) \<and>
      (\<forall>d \<in> set s. covers d (normalize_d q) \<longrightarrow> covers d m))"
  using dset.match_iff dset.match_sound dset.match_longest by blast

theorem Match_most_specific_witness:
  "Match [''com'', ''ads.example.com''] ''X.ads.example.com.'' = Some ''ads.example.com'' \<and>
   covers ''com'' ''ads.example.com''"
proof -
  have m: "Match [''com'', ''ads.example.com''] ''X.ads.example.com.'' = Some ''ads.example.com''"
    by code_simp
  have c: "''com'' \<in> set [''com'', ''ads.example.com'']" "covers ''com'' (normalize_d ''X.ads.example.com.'')"
    by code_simp+
  show ?thesis
    using m c Match_most_specific [of "[''com'', ''ads.example.com'']" "''X.ads.example.com.''"] by blast
qed

end
