(* ===== verification/Ruleset.thy ===== *)
theory Ruleset
  imports Domain_Set
begin

text \<open>
  The filter's rule evaluation, \<open>internal/filter/ruleset.go\<close>: manual allow and block rules, regular
  expression rules and compiled lists, in their order of precedence.  Go's \<open>regexp\<close> enters through
  two arguments: \<open>ok\<close> tells whether a pattern compiles, \<open>mt\<close> whether a compiled pattern matches a
  string.
\<close>

record store_rule =
  sr_id :: int
  sr_group :: int
  sr_action :: string
  sr_pattern :: string
  sr_regex :: bool

record Verdict =
  v_action :: string
  v_rule :: int
  v_list :: int
  v_matched :: string

record CompiledList =
  cl_id :: int
  cl_kind :: string
  cl_set :: domain_set
  cl_except :: "domain_set option"

record regexRule =
  rx_id :: int
  rx_action :: string
  rx_re :: string

record Ruleset =
  manualAllow :: domain_set
  manualBlock :: domain_set
  manualAllowID :: "string \<Rightarrow> int option"
  manualBlockID :: "string \<Rightarrow> int option"
  regexes :: "regexRule list"
  rlists :: "CompiledList list"

definition compile_rule :: "(string \<Rightarrow> bool) \<Rightarrow> store_rule \<Rightarrow> Ruleset \<Rightarrow> Ruleset" where
  "compile_rule ok r rs =
     (if sr_regex r then
        (if \<not> ok (sr_pattern r) then rs
         else rs\<lparr>regexes := regexes rs @ [\<lparr>rx_id = sr_id r, rx_action = sr_action r, rx_re = sr_pattern r\<rparr>]\<rparr>)
      else if sr_action r = ''allow'' then
        rs\<lparr>manualAllow := Add (manualAllow rs) (sr_pattern r),
           manualAllowID := (manualAllowID rs)(normalize_d (sr_pattern r) \<mapsto> sr_id r)\<rparr>
      else
        rs\<lparr>manualBlock := Add (manualBlock rs) (sr_pattern r),
           manualBlockID := (manualBlockID rs)(normalize_d (sr_pattern r) \<mapsto> sr_id r)\<rparr>)"

definition Compile :: "(string \<Rightarrow> bool) \<Rightarrow> store_rule list \<Rightarrow> CompiledList list \<Rightarrow> Ruleset" where
  "Compile ok rules ls =
     fold (compile_rule ok) rules
       \<lparr>manualAllow = NewDomainSet, manualBlock = NewDomainSet, manualAllowID = (\<lambda>_. None),
        manualBlockID = (\<lambda>_. None), regexes = [], rlists = ls\<rparr>"

text \<open>A map read in Go yields 0 for a missing key.\<close>

definition id_of :: "(string \<Rightarrow> int option) \<Rightarrow> string \<Rightarrow> int" where
  "id_of m k = (case m k of Some i \<Rightarrow> i | None \<Rightarrow> 0)"

definition find_regex :: "(string \<Rightarrow> string \<Rightarrow> bool) \<Rightarrow> string \<Rightarrow> string \<Rightarrow> regexRule list \<Rightarrow> regexRule option" where
  "find_regex mt action qname rxs = List.find (\<lambda>rr. rx_action rr = action \<and> mt (rx_re rr) qname) rxs"

definition list_hit :: "string \<Rightarrow> string \<Rightarrow> CompiledList \<Rightarrow> string option" where
  "list_hit kind qname l =
     (if cl_kind l \<noteq> kind then None
      else if kind = ''block'' \<and> (case cl_except l of None \<Rightarrow> False | Some ex \<Rightarrow> Match ex qname \<noteq> None) then None
      else Match (cl_set l) qname)"

fun first_list :: "string \<Rightarrow> string \<Rightarrow> CompiledList list \<Rightarrow> (CompiledList \<times> string) option" where
  "first_list kind qname [] = None"
| "first_list kind qname (l # ls) =
     (case list_hit kind qname l of Some m \<Rightarrow> Some (l, m) | None \<Rightarrow> first_list kind qname ls)"

definition Evaluate :: "(string \<Rightarrow> string \<Rightarrow> bool) \<Rightarrow> Ruleset \<Rightarrow> string \<Rightarrow> Verdict" where
  "Evaluate mt rs qname =
     (case Match (manualAllow rs) qname of
        Some m \<Rightarrow> \<lparr>v_action = ''allow'', v_rule = id_of (manualAllowID rs) m, v_list = 0, v_matched = m\<rparr>
      | None \<Rightarrow>
     (case find_regex mt ''allow'' qname (regexes rs) of
        Some rr \<Rightarrow> \<lparr>v_action = ''allow'', v_rule = rx_id rr, v_list = 0, v_matched = rx_re rr\<rparr>
      | None \<Rightarrow>
     (case Match (manualBlock rs) qname of
        Some m \<Rightarrow> \<lparr>v_action = ''block'', v_rule = id_of (manualBlockID rs) m, v_list = 0, v_matched = m\<rparr>
      | None \<Rightarrow>
     (case find_regex mt ''block'' qname (regexes rs) of
        Some rr \<Rightarrow> \<lparr>v_action = ''block'', v_rule = rx_id rr, v_list = 0, v_matched = rx_re rr\<rparr>
      | None \<Rightarrow>
     (case first_list ''allow'' qname (rlists rs) of
        Some (l, m) \<Rightarrow> \<lparr>v_action = ''allow'', v_rule = 0, v_list = cl_id l, v_matched = m\<rparr>
      | None \<Rightarrow>
     (case first_list ''block'' qname (rlists rs) of
        Some (l, m) \<Rightarrow> \<lparr>v_action = ''block'', v_rule = 0, v_list = cl_id l, v_matched = m\<rparr>
      | None \<Rightarrow> \<lparr>v_action = ''none'', v_rule = 0, v_list = 0, v_matched = []\<rparr>))))))"

section \<open>The specification\<close>

text \<open>What the stored rules and lists say about a name, before they are compiled.\<close>

definition rule_matches :: "(string \<Rightarrow> bool) \<Rightarrow> (string \<Rightarrow> string \<Rightarrow> bool) \<Rightarrow> string \<Rightarrow> store_rule \<Rightarrow> bool" where
  "rule_matches ok mt q r \<longleftrightarrow>
     (if sr_regex r then ok (sr_pattern r) \<and> mt (sr_pattern r) q
      else covers (normalize_d (sr_pattern r)) (normalize_d q))"

definition rule_allows :: "store_rule \<Rightarrow> bool" where
  "rule_allows r \<longleftrightarrow> sr_action r = ''allow''"

definition rule_blocks :: "store_rule \<Rightarrow> bool" where
  "rule_blocks r \<longleftrightarrow> (if sr_regex r then sr_action r = ''block'' else sr_action r \<noteq> ''allow'')"

definition list_names :: "domain_set \<Rightarrow> string \<Rightarrow> bool" where
  "list_names s q \<longleftrightarrow> (\<exists>d \<in> set s. covers d (normalize_d q))"

definition list_allows :: "string \<Rightarrow> CompiledList \<Rightarrow> bool" where
  "list_allows q l \<longleftrightarrow> cl_kind l = ''allow'' \<and> list_names (cl_set l) q"

definition list_blocks :: "string \<Rightarrow> CompiledList \<Rightarrow> bool" where
  "list_blocks q l \<longleftrightarrow> cl_kind l = ''block'' \<and> list_names (cl_set l) q \<and>
     \<not> (case cl_except l of None \<Rightarrow> False | Some ex \<Rightarrow> list_names ex q)"

section \<open>Compilation keeps what the rules say\<close>

lemma fold_compile:
  "set (manualAllow (fold (compile_rule ok) rules rs)) =
     set (manualAllow rs) \<union> (\<lambda>r. normalize_d (sr_pattern r)) ` {r \<in> set rules. \<not> sr_regex r \<and> sr_action r = ''allow''}"
  "set (manualBlock (fold (compile_rule ok) rules rs)) =
     set (manualBlock rs) \<union> (\<lambda>r. normalize_d (sr_pattern r)) ` {r \<in> set rules. \<not> sr_regex r \<and> sr_action r \<noteq> ''allow''}"
  "set (regexes (fold (compile_rule ok) rules rs)) =
     set (regexes rs) \<union>
     (\<lambda>r. \<lparr>rx_id = sr_id r, rx_action = sr_action r, rx_re = sr_pattern r\<rparr>) `
       {r \<in> set rules. sr_regex r \<and> ok (sr_pattern r)}"
  "rlists (fold (compile_rule ok) rules rs) = rlists rs"
proof (induction rules arbitrary: rs)
  case (Cons r rules)
  {
    case 1
    show ?case using Cons(1) by (auto simp: compile_rule_def set_Add)
  next
    case 2
    show ?case using Cons(2) by (auto simp: compile_rule_def set_Add)
  next
    case 3
    show ?case using Cons(3) by (auto simp: compile_rule_def)
  next
    case 4
    show ?case using Cons(4) by (auto simp: compile_rule_def)
  }
qed auto

lemma Match_list_names: "Match s q \<noteq> None \<longleftrightarrow> list_names s q"
  unfolding list_names_def by (rule dset.match_iff)

lemma find_regex_hit:
  "find_regex mt a q rxs \<noteq> None \<longleftrightarrow> (\<exists>x \<in> set rxs. rx_action x = a \<and> mt (rx_re x) q)"
  unfolding find_regex_def find_None_iff by blast

lemma Compile_allow:
  "Match (manualAllow (Compile ok rules ls)) q \<noteq> None \<or>
   find_regex mt ''allow'' q (regexes (Compile ok rules ls)) \<noteq> None \<longleftrightarrow>
   (\<exists>r \<in> set rules. rule_allows r \<and> rule_matches ok mt q r)"
proof -
  have 1: "Match (manualAllow (Compile ok rules ls)) q \<noteq> None \<longleftrightarrow>
      (\<exists>r \<in> set rules. \<not> sr_regex r \<and> rule_allows r \<and> rule_matches ok mt q r)"
    unfolding Match_list_names list_names_def Compile_def fold_compile NewDomainSet_def
    by (auto simp: rule_allows_def rule_matches_def)
  have 2: "find_regex mt ''allow'' q (regexes (Compile ok rules ls)) \<noteq> None \<longleftrightarrow>
      (\<exists>r \<in> set rules. sr_regex r \<and> rule_allows r \<and> rule_matches ok mt q r)"
    unfolding find_regex_hit Compile_def fold_compile
    by (auto simp: rule_allows_def rule_matches_def)
  show ?thesis unfolding 1 2 by blast
qed

lemma Compile_block:
  "Match (manualBlock (Compile ok rules ls)) q \<noteq> None \<or>
   find_regex mt ''block'' q (regexes (Compile ok rules ls)) \<noteq> None \<longleftrightarrow>
   (\<exists>r \<in> set rules. rule_blocks r \<and> rule_matches ok mt q r)"
proof -
  have 1: "Match (manualBlock (Compile ok rules ls)) q \<noteq> None \<longleftrightarrow>
      (\<exists>r \<in> set rules. \<not> sr_regex r \<and> rule_blocks r \<and> rule_matches ok mt q r)"
    unfolding Match_list_names list_names_def Compile_def fold_compile NewDomainSet_def
    by (auto simp: rule_blocks_def rule_matches_def)
  have 2: "find_regex mt ''block'' q (regexes (Compile ok rules ls)) \<noteq> None \<longleftrightarrow>
      (\<exists>r \<in> set rules. sr_regex r \<and> rule_blocks r \<and> rule_matches ok mt q r)"
    unfolding find_regex_hit Compile_def fold_compile
    by (auto simp: rule_blocks_def rule_matches_def)
  show ?thesis unfolding 1 2 by blast
qed

lemma first_list_None: "first_list kind q ls = None \<longleftrightarrow> (\<forall>l \<in> set ls. list_hit kind q l = None)"
  by (induction ls) (auto split: option.splits)

lemma list_hit_allow: "list_hit ''allow'' q l \<noteq> None \<longleftrightarrow> list_allows q l"
  by (auto simp: list_hit_def list_allows_def Match_list_names [symmetric])

lemma list_hit_block: "list_hit ''block'' q l \<noteq> None \<longleftrightarrow> list_blocks q l"
  by (auto simp: list_hit_def list_blocks_def Match_list_names [symmetric] split: option.splits)

lemma first_list_hit:
  "first_list ''allow'' q ls \<noteq> None \<longleftrightarrow> (\<exists>l \<in> set ls. list_allows q l)"
  "first_list ''block'' q ls \<noteq> None \<longleftrightarrow> (\<exists>l \<in> set ls. list_blocks q l)"
  using first_list_None list_hit_allow list_hit_block by metis+

lemma Evaluate_action:
  "v_action (Evaluate mt rs q) =
     (if Match (manualAllow rs) q \<noteq> None \<or> find_regex mt ''allow'' q (regexes rs) \<noteq> None then ''allow''
      else if Match (manualBlock rs) q \<noteq> None \<or> find_regex mt ''block'' q (regexes rs) \<noteq> None then ''block''
      else if first_list ''allow'' q (rlists rs) \<noteq> None then ''allow''
      else if first_list ''block'' q (rlists rs) \<noteq> None then ''block''
      else ''none'')"
  by (auto simp: Evaluate_def split: option.splits)

section \<open>Attribution\<close>

lemma fold_compile_ids:
  assumes "\<forall>m i. manualAllowID rs m = Some i \<longrightarrow> (\<exists>r \<in> R. sr_id r = i \<and> \<not> sr_regex r \<and> rule_allows r \<and> normalize_d (sr_pattern r) = m)"
    and "\<forall>m i. manualBlockID rs m = Some i \<longrightarrow> (\<exists>r \<in> R. sr_id r = i \<and> \<not> sr_regex r \<and> rule_blocks r \<and> normalize_d (sr_pattern r) = m)"
    and "set (manualAllow rs) = dom (manualAllowID rs)" "set (manualBlock rs) = dom (manualBlockID rs)"
    and "set rules \<subseteq> R"
  shows "(\<forall>m i. manualAllowID (fold (compile_rule ok) rules rs) m = Some i \<longrightarrow> (\<exists>r \<in> R. sr_id r = i \<and> \<not> sr_regex r \<and> rule_allows r \<and> normalize_d (sr_pattern r) = m)) \<and>
    (\<forall>m i. manualBlockID (fold (compile_rule ok) rules rs) m = Some i \<longrightarrow> (\<exists>r \<in> R. sr_id r = i \<and> \<not> sr_regex r \<and> rule_blocks r \<and> normalize_d (sr_pattern r) = m)) \<and>
    set (manualAllow (fold (compile_rule ok) rules rs)) = dom (manualAllowID (fold (compile_rule ok) rules rs)) \<and>
    set (manualBlock (fold (compile_rule ok) rules rs)) = dom (manualBlockID (fold (compile_rule ok) rules rs))"
  using assms
proof (induction rules arbitrary: rs)
  case (Cons r rules)
  have r: "r \<in> R" "set rules \<subseteq> R" using Cons.prems(5) by auto
  show ?case
    unfolding fold_Cons comp_def
    by (rule Cons.IH; use Cons.prems r in \<open>auto simp: compile_rule_def set_Add rule_allows_def rule_blocks_def\<close>)
qed simp

lemma Compile_ids:
  "Match (manualAllow (Compile ok rules ls)) q = Some m \<Longrightarrow>
     \<exists>r \<in> set rules. id_of (manualAllowID (Compile ok rules ls)) m = sr_id r \<and> rule_allows r \<and> rule_matches ok mt q r"
  "Match (manualBlock (Compile ok rules ls)) q = Some m \<Longrightarrow>
     \<exists>r \<in> set rules. id_of (manualBlockID (Compile ok rules ls)) m = sr_id r \<and> rule_blocks r \<and> rule_matches ok mt q r"
proof -
  let ?rs = "Compile ok rules ls"
  have ids: "(\<forall>m i. manualAllowID ?rs m = Some i \<longrightarrow> (\<exists>r \<in> set rules. sr_id r = i \<and> \<not> sr_regex r \<and> rule_allows r \<and> normalize_d (sr_pattern r) = m)) \<and>
    (\<forall>m i. manualBlockID ?rs m = Some i \<longrightarrow> (\<exists>r \<in> set rules. sr_id r = i \<and> \<not> sr_regex r \<and> rule_blocks r \<and> normalize_d (sr_pattern r) = m)) \<and>
    set (manualAllow ?rs) = dom (manualAllowID ?rs) \<and> set (manualBlock ?rs) = dom (manualBlockID ?rs)"
    unfolding Compile_def by (rule fold_compile_ids) (simp_all add: NewDomainSet_def)
  show "\<exists>r \<in> set rules. id_of (manualAllowID ?rs) m = sr_id r \<and> rule_allows r \<and> rule_matches ok mt q r"
    if "Match (manualAllow ?rs) q = Some m"
  proof -
    from dset.match_sound [OF that] ids obtain i where i: "manualAllowID ?rs m = Some i" "covers m (normalize_d q)"
      by blast
    with ids obtain r where "r \<in> set rules" "sr_id r = i" "\<not> sr_regex r" "rule_allows r" "normalize_d (sr_pattern r) = m"
      by blast
    with i show ?thesis by (auto simp: id_of_def rule_matches_def intro!: bexI [of _ r])
  qed
  show "\<exists>r \<in> set rules. id_of (manualBlockID ?rs) m = sr_id r \<and> rule_blocks r \<and> rule_matches ok mt q r"
    if "Match (manualBlock ?rs) q = Some m"
  proof -
    from dset.match_sound [OF that] ids obtain i where i: "manualBlockID ?rs m = Some i" "covers m (normalize_d q)"
      by blast
    with ids obtain r where "r \<in> set rules" "sr_id r = i" "\<not> sr_regex r" "rule_blocks r" "normalize_d (sr_pattern r) = m"
      by blast
    with i show ?thesis by (auto simp: id_of_def rule_matches_def intro!: bexI [of _ r])
  qed
qed

lemma Compile_regex:
  assumes "find_regex mt a q (regexes (Compile ok rules ls)) = Some rr"
  shows "\<exists>r \<in> set rules. sr_regex r \<and> sr_action r = a \<and> rx_id rr = sr_id r \<and> rule_matches ok mt q r"
proof -
  from assms have "rr \<in> set (regexes (Compile ok rules ls))" "rx_action rr = a" "mt (rx_re rr) q"
    by (auto simp: find_regex_def find_Some_iff)
  then show ?thesis by (auto simp: Compile_def fold_compile rule_matches_def)
qed

lemma first_list_Some:
  "first_list kind q ls = Some (l, m) \<Longrightarrow> l \<in> set ls \<and> list_hit kind q l = Some m"
  by (induction ls) (auto split: option.splits)

section \<open>Properties\<close>

lemma Evaluate_spec:
  "v_action (Evaluate mt (Compile ok rules ls) q) =
     (if \<exists>r \<in> set rules. rule_allows r \<and> rule_matches ok mt q r then ''allow''
      else if \<exists>r \<in> set rules. rule_blocks r \<and> rule_matches ok mt q r then ''block''
      else if \<exists>l \<in> set ls. list_allows q l then ''allow''
      else if \<exists>l \<in> set ls. list_blocks q l then ''block''
      else ''none'')"
proof -
  have ls: "rlists (Compile ok rules ls) = ls" by (simp add: Compile_def fold_compile)
  show ?thesis
    by (simp only: Evaluate_action Compile_allow Compile_block ls first_list_hit)
qed

text \<open>C8: the verdict follows the documented precedence.  Over the stored rules and lists: an allow rule
  that matches wins; else a block rule that matches blocks; else an allow list that names the query
  allows; else a block list that names it, and whose own exceptions do not, blocks; else the verdict
  is none.  A list's exceptions excuse that list only.\<close>

theorem Evaluate_precedence:
  "v_action (Evaluate mt (Compile ok rules ls) q) =
     (if \<exists>r \<in> set rules. rule_allows r \<and> rule_matches ok mt q r then ''allow''
      else if \<exists>r \<in> set rules. rule_blocks r \<and> rule_matches ok mt q r then ''block''
      else if \<exists>l \<in> set ls. list_allows q l then ''allow''
      else if \<exists>l \<in> set ls. list_blocks q l then ''block''
      else ''none'')"
  by (rule Evaluate_spec)

text \<open>A block is always explained by a row that causes it.  A block verdict names either a stored
  block rule that matches the query or a block list that names it and does not except it.\<close>

theorem block_attribution:
  assumes "v_action (Evaluate mt (Compile ok rules ls) q) = ''block''"
  shows "(\<exists>r \<in> set rules. v_rule (Evaluate mt (Compile ok rules ls) q) = sr_id r \<and>
            rule_blocks r \<and> rule_matches ok mt q r) \<or>
         (\<exists>l \<in> set ls. v_list (Evaluate mt (Compile ok rules ls) q) = cl_id l \<and> list_blocks q l)"
proof -
  have ls: "rlists (Compile ok rules ls) = ls" by (simp add: Compile_def fold_compile)
  have hit: "l \<in> set ls \<and> list_blocks q l" if "first_list ''block'' q ls = Some (l, m)" for l m
    using first_list_Some [OF that] list_hit_block [of q l] by auto
  show ?thesis
    using assms
    by (auto simp: Evaluate_def ls split: option.splits
        dest!: Compile_ids(2) [where mt = mt] Compile_regex hit)
       (auto simp: rule_blocks_def)
qed

theorem block_attribution_witness:
  "(\<exists>r \<in> set [\<lparr>sr_id = 4, sr_group = 1, sr_action = ''block'', sr_pattern = ''ads.com'', sr_regex = False\<rparr>].
      v_rule (Evaluate (\<lambda>p s. False) (Compile (\<lambda>p. True) [\<lparr>sr_id = 4, sr_group = 1, sr_action = ''block'',
        sr_pattern = ''ads.com'', sr_regex = False\<rparr>] []) ''x.ads.com'') = sr_id r)"
proof -
  let ?rules = "[\<lparr>sr_id = 4, sr_group = 1, sr_action = ''block'', sr_pattern = ''ads.com'', sr_regex = False\<rparr>]"
  have b: "v_action (Evaluate (\<lambda>p s. False) (Compile (\<lambda>p. True) ?rules []) ''x.ads.com'') = ''block''"
    by code_simp
  show ?thesis using block_attribution [OF b] by auto
qed

end
