(* ===== verification/Dns_Lib.thy ===== *)
theory Dns_Lib
  imports Prelude
begin

text \<open>
  The interface to \<open>github.com/miekg/dns\<close>, which is not part of the repository: the shape of
  its message and record types, and one record \<open>dns_lib\<close> whose fields are the library functions
  the program calls.  Every definition of the development that reaches the library takes such a
  record as its argument \<open>L\<close>.  What a property relies on about the library is stated as one of the
  named laws below, each of which restates the library's documentation; \<open>plain_lib\<close> is a concrete
  instance, on names without escapes, that satisfies all of them.
\<close>

section \<open>Messages and records\<close>

record rr_header =
  h_name :: string
  h_rrtype :: u16
  h_class :: u16
  h_ttl :: u32

record soa_data =
  soa_ns :: string
  soa_mbox :: string
  soa_serial :: u32
  soa_refresh :: u32
  soa_retry :: u32
  soa_expire :: u32
  soa_minttl :: u32

record edns =
  e_udpsize :: u16
  e_do :: bool
  e_options :: "(u16 \<times> u8 list) list"

datatype rdata =
    RD_A "u8 list"
  | RD_AAAA "u8 list"
  | RD_NS string
  | RD_CNAME string
  | RD_SOA soa_data
  | RD_OPT edns
  | RD_PTR string
  | RD_Other string

datatype rr = RR (rr_hdr: rr_header) (rr_data: rdata)

record question =
  q_name :: string
  q_type :: u16
  q_class :: u16

record msg =
  m_id :: u16
  m_response :: bool
  m_opcode :: int
  m_aa :: bool
  m_tc :: bool
  m_rd :: bool
  m_rcode :: int
  m_compress :: bool
  m_question :: "question list"
  m_answer :: "rr list"
  m_ns :: "rr list"
  m_extra :: "rr list"

definition is_SOA :: "rr \<Rightarrow> bool" where
  "is_SOA r = (case rr_data r of RD_SOA _ \<Rightarrow> True | _ \<Rightarrow> False)"

definition is_OPT :: "rr \<Rightarrow> bool" where
  "is_OPT r = (case rr_data r of RD_OPT _ \<Rightarrow> True | _ \<Rightarrow> False)"

definition is_CNAME :: "rr \<Rightarrow> bool" where
  "is_CNAME r = (case rr_data r of RD_CNAME _ \<Rightarrow> True | _ \<Rightarrow> False)"

text \<open>The loops that rewrite the header of every record of the three sections.\<close>

definition map_rrs :: "(rr_header \<Rightarrow> rr_header) \<Rightarrow> msg \<Rightarrow> msg" where
  "map_rrs f m =
     (let g = map (\<lambda>r. RR (f (rr_hdr r)) (rr_data r))
      in m\<lparr>m_answer := g (m_answer m), m_ns := g (m_ns m), m_extra := g (m_extra m)\<rparr>)"

lemma map_rrs_frame [simp]:
  "m_id (map_rrs f m) = m_id m" "m_question (map_rrs f m) = m_question m" "m_rcode (map_rrs f m) = m_rcode m"
  "m_answer (map_rrs f m) = map (\<lambda>r. RR (f (rr_hdr r)) (rr_data r)) (m_answer m)"
  by (simp_all add: map_rrs_def Let_def)

text \<open>The constants of the protocol the program names.\<close>

abbreviation TypeA :: u16 where "TypeA \<equiv> 1"
abbreviation TypeNS :: u16 where "TypeNS \<equiv> 2"
abbreviation TypeCNAME :: u16 where "TypeCNAME \<equiv> 5"
abbreviation TypeSOA :: u16 where "TypeSOA \<equiv> 6"
abbreviation TypePTR :: u16 where "TypePTR \<equiv> 12"
abbreviation TypeAAAA :: u16 where "TypeAAAA \<equiv> 28"
abbreviation TypeOPT :: u16 where "TypeOPT \<equiv> 41"
abbreviation TypeIXFR :: u16 where "TypeIXFR \<equiv> 251"
abbreviation TypeAXFR :: u16 where "TypeAXFR \<equiv> 252"
abbreviation ClassINET :: u16 where "ClassINET \<equiv> 1"
abbreviation RcodeSuccess :: int where "RcodeSuccess \<equiv> 0"
abbreviation RcodeFormatError :: int where "RcodeFormatError \<equiv> 1"
abbreviation RcodeServerFailure :: int where "RcodeServerFailure \<equiv> 2"
abbreviation RcodeNameError :: int where "RcodeNameError \<equiv> 3"
abbreviation MinMsgSize :: int where "MinMsgSize \<equiv> 512"

section \<open>The library functions\<close>

record dns_lib =
  SplitDomainName :: "string \<Rightarrow> string list"
  CountLabel :: "string \<Rightarrow> nat"
  IsSubDomain :: "string \<Rightarrow> string \<Rightarrow> bool"
  Fqdn :: "string \<Rightarrow> string"
  CanonicalName :: "string \<Rightarrow> string"
  IsDomainName :: "string \<Rightarrow> bool"
  ReverseAddr :: "string \<Rightarrow> string option"
  StringToType :: "string \<Rightarrow> u16 option"
  NewRR :: "string \<Rightarrow> string + rr option"
  ParseUnder :: "string \<Rightarrow> string \<Rightarrow> string + rr option"
  RRString :: "rr \<Rightarrow> string"
  HdrString :: "rr_header \<Rightarrow> string"
  SetReply :: "msg \<Rightarrow> msg"
  SetRcode :: "msg \<Rightarrow> int \<Rightarrow> msg"
  IsEdns0 :: "msg \<Rightarrow> edns option"
  SetEdns0 :: "msg \<Rightarrow> u16 \<Rightarrow> bool \<Rightarrow> msg"
  Truncate :: "msg \<Rightarrow> int \<Rightarrow> msg"
  MsgLen :: "msg \<Rightarrow> int"
  PackLen :: "msg \<Rightarrow> int option"

section \<open>What the library documents\<close>

text \<open>
  Names: \<open>Fqdn\<close> does not change the labels, \<open>CountLabel\<close> counts them, \<open>IsSubDomain\<close> compares them
  from the right without regard to case, \<open>CanonicalName\<close> is the lower-case fully qualified form.
\<close>

definition name_laws :: "dns_lib \<Rightarrow> bool" where
  "name_laws L \<longleftrightarrow>
     (\<forall>s. SplitDomainName L (Fqdn L s) = SplitDomainName L s) \<and>
     (\<forall>s. CountLabel L s = length (SplitDomainName L s)) \<and>
     (\<forall>p c. IsSubDomain L p c \<longleftrightarrow>
        suffix (map ToLower (SplitDomainName L p)) (map ToLower (SplitDomainName L c))) \<and>
     (\<forall>s. CanonicalName L s = ToLower (Fqdn L s))"

text \<open>Splitting and joining: the labels of a name joined by dots are the name, up to its final dot.\<close>

definition label_laws :: "dns_lib \<Rightarrow> bool" where
  "label_laws L \<longleftrightarrow>
     (\<forall>s. s \<noteq> [] \<and> \<not> HasSuffix s ''.'' \<longrightarrow> Join (SplitDomainName L s) ''.'' = s \<and> SplitDomainName L s \<noteq> [])
     \<and> (\<forall>s. SplitDomainName L (ToLower s) = map ToLower (SplitDomainName L s))"

text \<open>Names without escapes: \<open>Fqdn\<close> adds the final dot that is missing, and the canonical form of a domain
  name is a domain name.\<close>

definition canonical_laws :: "dns_lib \<Rightarrow> bool" where
  "canonical_laws L \<longleftrightarrow>
     (\<forall>s. CHR 0x5C \<notin> set s \<longrightarrow> Fqdn L s = (if HasSuffix s ''.'' then s else s @ ''.'')) \<and>
     (\<forall>s. CanonicalName L s = ToLower (Fqdn L s)) \<and>
     (\<forall>s. CHR 0x5C \<notin> set s \<and> IsDomainName L s \<longrightarrow> IsDomainName L (CanonicalName L s))"

text \<open>Replies: \<open>SetReply\<close> on a new message copies the request's id and first question, marks the
  message a response with rcode 0 and leaves the sections empty; \<open>SetRcode\<close> is \<open>SetReply\<close> with
  another rcode.\<close>

definition reply_laws :: "dns_lib \<Rightarrow> bool" where
  "reply_laws L \<longleftrightarrow>
     (\<forall>q. m_id (SetReply L q) = m_id q \<and> m_response (SetReply L q) \<and>
          m_rcode (SetReply L q) = RcodeSuccess \<and> \<not> m_aa (SetReply L q) \<and>
          \<not> m_tc (SetReply L q) \<and>
          m_question (SetReply L q) = take 1 (m_question q) \<and>
          m_answer (SetReply L q) = [] \<and> m_ns (SetReply L q) = [] \<and> m_extra (SetReply L q) = []) \<and>
     (\<forall>q rc. SetRcode L q rc = (SetReply L q)\<lparr>m_rcode := rc\<rparr>)"

text \<open>EDNS: \<open>IsEdns0\<close> finds an OPT record of the additional section, any one will do; \<open>SetEdns0\<close>
  appends one.\<close>

definition edns_laws :: "dns_lib \<Rightarrow> bool" where
  "edns_laws L \<longleftrightarrow>
     (\<forall>m. IsEdns0 L m = None \<longleftrightarrow> list_all (\<lambda>r. \<not> is_OPT r) (m_extra m)) \<and>
     (\<forall>m e. IsEdns0 L m = Some e \<longrightarrow> RD_OPT e \<in> rr_data ` set (m_extra m)) \<and>
     (\<forall>m sz d. SetEdns0 L m sz d =
        m\<lparr>m_extra := m_extra m @
            [RR \<lparr>h_name = ''.'', h_rrtype = TypeOPT, h_class = sz, h_ttl = (if d then 0x8000 else 0)\<rparr>
                (RD_OPT \<lparr>e_udpsize = sz, e_do = d, e_options = []\<rparr>)]\<rparr>)"

lemma reply_laws_simps:
  assumes "reply_laws L"
  shows "m_id (SetReply L q) = m_id q" "m_rcode (SetReply L q) = RcodeSuccess"
    "\<not> m_aa (SetReply L q)" "m_question (SetReply L q) = take 1 (m_question q)"
    "m_answer (SetReply L q) = []" "m_ns (SetReply L q) = []" "m_extra (SetReply L q) = []"
    "\<not> m_tc (SetReply L q)" "m_response (SetReply L q)"
    "SetRcode L q rc = (SetReply L q)\<lparr>m_rcode := rc\<rparr>"
  using assms by (simp_all add: reply_laws_def)

section \<open>A concrete instance\<close>

definition plain_split :: "string \<Rightarrow> string list" where
  "plain_split s = (if s = [] \<or> s = ''.'' then [] else Split (TrimSuffix s ''.'') CHR ''.'')"

definition plain_fqdn :: "string \<Rightarrow> string" where
  "plain_fqdn s = (if HasSuffix s ''.'' then s else s @ ''.'')"

definition plain_types :: "string \<Rightarrow> u16 option" where
  "plain_types = map_of [(''A'', 1), (''NS'', 2), (''CNAME'', 5), (''SOA'', 6), (''PTR'', 12),
     (''MX'', 15), (''TXT'', 16), (''AAAA'', 28)]"

definition plain_rdata :: "string \<Rightarrow> string \<Rightarrow> rdata" where
  "plain_rdata ty rd =
     (if ty = ''A'' then RD_A (map (\<lambda>f. case undec 0 f of Some n \<Rightarrow> of_nat n | None \<Rightarrow> 0) (Split rd CHR ''.''))
      else if ty = ''NS'' then RD_NS rd
      else if ty = ''CNAME'' then RD_CNAME rd
      else RD_Other rd)"

definition plain_newRR :: "string \<Rightarrow> string + rr option" where
  "plain_newRR line =
     (case Fields line of
        [] \<Rightarrow> Inr None
      | [n, t, cl, ty, rd] \<Rightarrow>
          (case (undec 0 t, plain_types ty) of
             (Some ttl, Some w) \<Rightarrow>
               Inr (Some (RR \<lparr>h_name = n, h_rrtype = w, h_class = 1, h_ttl = of_nat ttl\<rparr> (plain_rdata ty rd)))
           | _ \<Rightarrow> Inl ''bad record'')
      | _ \<Rightarrow> Inl ''bad line'')"

definition plain_reply :: "msg \<Rightarrow> msg" where
  "plain_reply q =
     \<lparr>m_id = m_id q, m_response = True, m_opcode = m_opcode q, m_aa = False, m_tc = False,
      m_rd = m_rd q, m_rcode = 0, m_compress = False, m_question = take 1 (m_question q),
      m_answer = [], m_ns = [], m_extra = []\<rparr>"

fun plain_edns :: "rr list \<Rightarrow> edns option" where
  "plain_edns [] = None"
| "plain_edns (r # rs) = (case rr_data r of RD_OPT e \<Rightarrow> Some e | _ \<Rightarrow> plain_edns rs)"

fun plain_rdata_string :: "rdata \<Rightarrow> string" where
  "plain_rdata_string (RD_NS s) = s"
| "plain_rdata_string (RD_CNAME s) = s"
| "plain_rdata_string (RD_PTR s) = s"
| "plain_rdata_string (RD_Other s) = s"
| "plain_rdata_string (RD_A bs) = Join (map (\<lambda>b. dec (unat b)) bs) ''.''"
| "plain_rdata_string _ = ''?''"

definition plain_lib :: dns_lib where
  "plain_lib = \<lparr>
     SplitDomainName = plain_split,
     CountLabel = (\<lambda>s. length (plain_split s)),
     IsSubDomain = (\<lambda>p c. suffix (map ToLower (plain_split p)) (map ToLower (plain_split c))),
     Fqdn = plain_fqdn,
     CanonicalName = (\<lambda>s. ToLower (plain_fqdn s)),
     IsDomainName = (\<lambda>s. length (TrimSuffix s ''.'') < 255),
     ReverseAddr = (\<lambda>s. Some (Join (rev (Split s CHR ''.'')) ''.'' @ ''.in-addr.arpa.'')),
     StringToType = plain_types,
     NewRR = plain_newRR,
     ParseUnder = (\<lambda>origin line. plain_newRR line),
     RRString = (\<lambda>r. h_name (rr_hdr r) @ '' '' @ plain_rdata_string (rr_data r)),
     HdrString = (\<lambda>h. h_name h @ '' ''),
     SetReply = plain_reply,
     SetRcode = (\<lambda>q rc. (plain_reply q)\<lparr>m_rcode := rc\<rparr>),
     IsEdns0 = (\<lambda>m. plain_edns (m_extra m)),
     SetEdns0 = (\<lambda>m sz d. m\<lparr>m_extra := m_extra m @
        [RR \<lparr>h_name = ''.'', h_rrtype = TypeOPT, h_class = sz, h_ttl = (if d then 0x8000 else 0)\<rparr>
            (RD_OPT \<lparr>e_udpsize = sz, e_do = d, e_options = []\<rparr>)]\<rparr>),
     Truncate = (\<lambda>m n. m),
     MsgLen = (\<lambda>m. 12 + 20 * int (length (m_answer m) + length (m_ns m) + length (m_extra m))),
     PackLen = (\<lambda>m. Some (12 + 16 * int (length (m_answer m) + length (m_ns m) + length (m_extra m))))
   \<rparr>"

lemma plain_lib_simps [simp]:
  "SplitDomainName plain_lib = plain_split" "Fqdn plain_lib = plain_fqdn"
  "CountLabel plain_lib s = length (plain_split s)"
  "StringToType plain_lib = plain_types" "NewRR plain_lib = plain_newRR"
  "SetReply plain_lib = plain_reply" "CanonicalName plain_lib s = ToLower (plain_fqdn s)"
  "IsSubDomain plain_lib p c = suffix (map ToLower (plain_split p)) (map ToLower (plain_split c))"
  "SetRcode plain_lib q rc = (plain_reply q)\<lparr>m_rcode := rc\<rparr>"
  "IsEdns0 plain_lib m = plain_edns (m_extra m)"
  "IsDomainName plain_lib s = (length (TrimSuffix s ''.'') < 255)"
  "ParseUnder plain_lib orig = plain_newRR"
  by (simp_all add: plain_lib_def fun_eq_iff)

lemma plain_fqdn_split: "plain_split (plain_fqdn s) = plain_split s"
proof (cases "HasSuffix s ''.''")
  case True
  then show ?thesis by (simp add: plain_fqdn_def)
next
  case False
  then have "TrimSuffix s ''.'' = s" by (rule TrimSuffix_none)
  moreover from False have "s \<noteq> ''.''" by (auto simp: HasSuffix_def)
  ultimately show ?thesis using False by (auto simp: plain_split_def plain_fqdn_def)
qed

lemma plain_split_ToLower: "plain_split (ToLower s) = map ToLower (plain_split s)"
proof -
  have dot: "HasSuffix (ToLower s) ''.'' = HasSuffix s ''.''"
    by (auto simp: HasSuffix_def ToLower_def drop_map)
  have "TrimSuffix (ToLower s) ''.'' = ToLower (TrimSuffix s ''.'')"
    by (simp add: TrimSuffix_def dot) (simp add: ToLower_def take_map)
  moreover have "ToLower s = ''.'' \<longleftrightarrow> s = ''.''"
    by (auto simp: ToLower_def)
  ultimately show ?thesis by (simp add: plain_split_def Split_ToLower_dot)
qed

lemma plain_name_laws [simp]: "name_laws plain_lib"
  by (simp add: name_laws_def plain_fqdn_split)

lemma plain_label_laws [simp]: "label_laws plain_lib"
proof -
  have "Join (plain_split s) ''.'' = s \<and> plain_split s \<noteq> []"
    if "s \<noteq> []" "\<not> HasSuffix s ''.''" for s
  proof -
    from that(2) have "s \<noteq> ''.''" by (auto simp: HasSuffix_def)
    with that show ?thesis by (simp add: plain_split_def TrimSuffix_none)
  qed
  then show ?thesis by (simp add: label_laws_def plain_split_ToLower)
qed

lemma plain_canonical_laws [simp]: "canonical_laws plain_lib"
proof -
  have dot: "HasSuffix (ToLower s) ''.'' = HasSuffix s ''.''" for s
    by (auto simp: HasSuffix_def ToLower_def drop_map)
  have low: "lower_char CHR ''.'' = CHR ''.''" by code_simp
  have "length (TrimSuffix (ToLower (plain_fqdn s)) ''.'') = length (TrimSuffix s ''.'')" for s
    by (cases "HasSuffix s ''.''") (simp_all add: plain_fqdn_def TrimSuffix_def dot low)
  then show ?thesis by (simp add: canonical_laws_def plain_fqdn_def)
qed

lemma plain_reply_laws [simp]: "reply_laws plain_lib"
  by (simp add: reply_laws_def plain_reply_def)

lemma plain_edns_None: "plain_edns rs = None \<longleftrightarrow> list_all (\<lambda>r. \<not> is_OPT r) rs"
  by (induction rs) (auto simp: is_OPT_def split: rdata.splits)

lemma plain_edns_Some: "plain_edns rs = Some e \<Longrightarrow> RD_OPT e \<in> rr_data ` set rs"
  by (induction rs) (auto split: rdata.splits)

lemma plain_edns_laws [simp]: "edns_laws plain_lib"
  by (simp add: edns_laws_def plain_edns_None plain_edns_Some) (simp add: plain_lib_def)

end
