(* ===== verification/Netip.thy ===== *)
theory Netip
  imports Prelude
begin

unbundle bit_operations_syntax

text \<open>
  The part of Go's \<open>net/netip\<close> the program computes with: addresses of the two families,
  \<open>Unmap\<close>, prefixes, \<open>Prefix.Contains\<close> and \<open>Prefix.Masked\<close>.  The zero \<open>netip.Addr\<close> is
  \<open>NoAddr\<close>, the zero \<open>netip.Prefix\<close> is \<open>NoPrefix\<close>.
\<close>

datatype addr = NoAddr | V4 u32 | V6 "128 word" string

datatype prefix = NoPrefix | Prefix addr nat

definition Is4 :: "addr \<Rightarrow> bool" where
  "Is4 a = (case a of V4 _ \<Rightarrow> True | _ \<Rightarrow> False)"

definition Is4In6 :: "addr \<Rightarrow> bool" where
  "Is4In6 a = (case a of V6 w _ \<Rightarrow> drop_bit 32 w = 0xffff | _ \<Rightarrow> False)"

definition Unmap :: "addr \<Rightarrow> addr" where
  "Unmap a = (case a of V6 w z \<Rightarrow> (if drop_bit 32 w = 0xffff then V4 (ucast w) else V6 w z) | _ \<Rightarrow> a)"

definition Zone :: "addr \<Rightarrow> string" where
  "Zone a = (case a of V6 _ z \<Rightarrow> z | _ \<Rightarrow> [])"

definition BitLen :: "addr \<Rightarrow> nat" where
  "BitLen a = (case a of NoAddr \<Rightarrow> 0 | V4 _ \<Rightarrow> 32 | V6 _ _ \<Rightarrow> 128)"

text \<open>\<open>netip.PrefixFrom\<close>: the zone is stripped, and a length out of range is the invalid prefix.\<close>

definition PrefixFrom :: "addr \<Rightarrow> nat \<Rightarrow> prefix" where
  "PrefixFrom a n =
     (if a = NoAddr \<or> n > BitLen a then NoPrefix
      else Prefix (case a of V6 w _ \<Rightarrow> V6 w [] | _ \<Rightarrow> a) n)"

fun prefix_bits :: "prefix \<Rightarrow> int" where
  "prefix_bits NoPrefix = -1"
| "prefix_bits (Prefix a n) = int n"

fun prefix_addr :: "prefix \<Rightarrow> addr" where
  "prefix_addr NoPrefix = NoAddr"
| "prefix_addr (Prefix a n) = a"

fun Masked :: "prefix \<Rightarrow> prefix" where
  "Masked NoPrefix = NoPrefix"
| "Masked (Prefix (V4 w) n) = Prefix (V4 (push_bit (32 - n) (drop_bit (32 - n) w))) n"
| "Masked (Prefix (V6 w z) n) = Prefix (V6 (push_bit (128 - n) (drop_bit (128 - n) w)) z) n"
| "Masked (Prefix NoAddr n) = NoPrefix"

fun Contains :: "prefix \<Rightarrow> addr \<Rightarrow> bool" where
  "Contains (Prefix (V4 p) n) (V4 a) = (drop_bit (32 - n) p = drop_bit (32 - n) a)"
| "Contains (Prefix (V6 p _) n) (V6 a z) = (z = [] \<and> drop_bit (128 - n) p = drop_bit (128 - n) a)"
| "Contains _ _ = False"

lemma Unmap_idem [simp]: "Unmap (Unmap a) = Unmap a"
  by (simp add: Unmap_def split: addr.splits)

lemma Unmap_not_4in6 [simp]: "\<not> Is4In6 (Unmap a)"
  by (simp add: Unmap_def Is4In6_def split: addr.splits)

lemma Unmap_V4 [simp]: "Unmap (V4 w) = V4 w"
  by (simp add: Unmap_def)

lemma Contains_bitlen: "Contains p a \<Longrightarrow> BitLen (prefix_addr p) = BitLen a"
  by (induction p a rule: Contains.induct) (simp_all add: BitLen_def)

lemma drop_push_drop: "drop_bit n (push_bit n (drop_bit n (w :: 'a::len word))) = drop_bit n w"
  by (rule bit_word_eqI) (auto simp: bit_simps dest: bit_imp_le_length)

lemma Contains_Masked [simp]: "Contains (Masked p) a = Contains p a"
proof (cases p)
  case (Prefix b n)
  then show ?thesis by (cases b; cases a) (simp_all add: drop_push_drop)
qed simp

lemma Masked_idem [simp]: "Masked (Masked p) = Masked p"
proof (cases p)
  case (Prefix b n)
  then show ?thesis by (cases b) (simp_all add: drop_push_drop)
qed simp

lemma Contains_full: "Contains (PrefixFrom (V4 w) 32) a \<longleftrightarrow> a = V4 w"
  by (cases a) (auto simp: PrefixFrom_def BitLen_def)

text \<open>Two prefixes that share an address are nested: the one with the longer length lies inside
  the other.\<close>

lemma drop_bit_mono:
  assumes "drop_bit m (a :: 'a::len word) = drop_bit m b" "m \<le> n"
  shows "drop_bit n a = drop_bit n b"
proof -
  have *: "drop_bit n x = drop_bit (n - m) (drop_bit m x)" for x :: "'a word"
    using assms(2) by simp
  show ?thesis by (simp only: * assms(1))
qed

lemma Contains_nested:
  assumes "Contains (Prefix p m) a" "Contains (Prefix q n) a" "n \<le> m" "Contains (Prefix p m) b"
  shows "Contains (Prefix q n) b"
  using assms
proof (cases p; cases q; cases a; cases b)
  fix p' q' a' b'
  assume eq: "p = V4 p'" "q = V4 q'" "a = V4 a'" "b = V4 b'"
  have "drop_bit (32 - m) a' = drop_bit (32 - m) b'" using assms eq by simp
  then have "drop_bit (32 - n) a' = drop_bit (32 - n) b'"
    by (rule drop_bit_mono) (use assms(3) in simp)
  with assms eq show ?thesis by simp
next
  fix p' q' a' b' z1 z2 z3 z4
  assume eq: "p = V6 p' z1" "q = V6 q' z2" "a = V6 a' z3" "b = V6 b' z4"
  have "drop_bit (128 - m) a' = drop_bit (128 - m) b'" using assms eq by simp
  then have "drop_bit (128 - n) a' = drop_bit (128 - n) b'"
    by (rule drop_bit_mono) (use assms(3) in simp)
  with assms eq show ?thesis by simp
qed auto

end
