(* ===== verification/Pipeline.thy ===== *)
theory Pipeline
  imports Dns_Lib Netip
begin

text \<open>
  The query pipeline of \<open>internal/dnssrv/pipeline.go\<close>: requests, responses, handlers and
  middlewares.  A handler reads a request and the state of everything below it and returns an
  outcome and the new state; an outcome is the pair \<open>(*Response, error)\<close> of \<open>ServeDNS\<close>, or a
  panic.
\<close>

datatype Decision =
    DecisionBlocked | DecisionAuthoritative | DecisionCached | DecisionStale
  | DecisionForwarded | DecisionError

record ClientInfo =
  ci_id :: int
  ci_name :: string
  ci_group :: int
  ci_groupname :: string

record request =
  rq_msg :: msg
  rq_ip :: addr
  rq_client :: ClientInfo

definition QName :: "request \<Rightarrow> string" where
  "QName r = (case m_question (rq_msg r) of
                [] \<Rightarrow> []
              | q # _ \<Rightarrow> ToLower (TrimSuffix (q_name q) ''.''))"

definition QType :: "request \<Rightarrow> u16" where
  "QType r = (case m_question (rq_msg r) of [] \<Rightarrow> 0 | q # _ \<Rightarrow> q_type q)"

record response =
  rs_msg :: "msg option"
  rs_decision :: Decision
  rs_upstream :: string
  rs_rule :: int
  rs_list :: int
  rs_matched :: string

definition reply :: "msg \<Rightarrow> Decision \<Rightarrow> response" where
  "reply m d = \<lparr>rs_msg = Some m, rs_decision = d, rs_upstream = [], rs_rule = 0, rs_list = 0,
                rs_matched = []\<rparr>"

datatype outcome = Returned (out_resp: "response option") (out_err: "string option") | Panicked

type_synonym 'w handler = "request \<Rightarrow> 'w \<Rightarrow> outcome \<times> 'w"
type_synonym 'w middleware = "'w handler \<Rightarrow> 'w handler"

definition Chain :: "'w handler \<Rightarrow> 'w middleware list \<Rightarrow> 'w handler" where
  "Chain terminal mws = foldr (\<lambda>mw h. mw h) mws terminal"

definition Servfail :: "dns_lib \<Rightarrow> request \<Rightarrow> response" where
  "Servfail L r = reply (SetRcode L (rq_msg r) RcodeServerFailure) DecisionError"

definition Recover :: "dns_lib \<Rightarrow> 'w middleware" where
  "Recover L next r w =
     (case next r w of
        (Panicked, w') \<Rightarrow> (Returned (Some (Servfail L r)) None, w')
      | res \<Rightarrow> res)"

lemma Chain_Nil [simp]: "Chain h [] = h"
  by (simp add: Chain_def)

lemma Chain_Cons [simp]: "Chain h (mw # mws) = mw (Chain h mws)"
  by (simp add: Chain_def)

lemma Chain_append: "Chain h (xs @ ys) = Chain (Chain h ys) xs"
  by (simp add: Chain_def)

lemma Recover_no_panic: "fst (Recover L next r w) \<noteq> Panicked"
  by (simp add: Recover_def split: prod.splits outcome.splits)

lemma Recover_transparent:
  "fst (next r w) \<noteq> Panicked \<Longrightarrow> Recover L next r w = next r w"
  by (auto simp: Recover_def split: prod.splits outcome.splits)

end
