(* ===== verification/Engine.thy ===== *)
theory Engine
  imports Ruleset Pipeline "HOL-Library.Finite_Map"
begin

text \<open>
  The blocking engine of \<open>internal/filter/engine.go\<close>: the rule sets per group, the blocking mode,
  the pauses of the three scopes, and the middleware that answers a blocked query.  Times are
  nanoseconds since the Unix epoch; the pauses are unix milliseconds, as the program persists them.
  The sink registered by \<open>OnPauseChange\<close> is a flag and the list of the states handed to it.
\<close>

section \<open>Pauses\<close>

datatype PauseKind = PauseGlobal | PauseGroup | PauseClient | PauseKindOther string

record Pauses =
  pGlobal :: int
  pGroups :: "(int, int) fmap"
  pClients :: "(int, int) fmap"

text \<open>A copy shares nothing with the original: on values, it is the value itself.  A missing map is
  the empty one.\<close>

definition clone :: "Pauses \<Rightarrow> Pauses" where
  "clone p = \<lparr>pGlobal = pGlobal p, pGroups = pGroups p, pClients = pClients p\<rparr>"

definition prune :: "int \<Rightarrow> Pauses \<Rightarrow> Pauses" where
  "prune now p =
     (let ms = UnixMilli now;
          live = (\<lambda>m. fmfilter (\<lambda>k. case fmlookup m k of Some until \<Rightarrow> \<not> until \<le> ms | None \<Rightarrow> False) m)
      in \<lparr>pGlobal = (if pGlobal p \<le> ms then 0 else pGlobal p),
          pGroups = live (pGroups p), pClients = live (pClients p)\<rparr>)"

section \<open>The engine\<close>

record blockingCfg =
  bc_mode :: string
  bc_ttl :: u32

record Engine =
  eGroups :: "int \<Rightarrow> Ruleset option"
  eBlocking :: blockingCfg
  ePaused :: Pauses
  ePersist :: bool
  ePersisted :: "Pauses list"

definition NewEngine :: Engine where
  "NewEngine = \<lparr>eGroups = (\<lambda>_. None), eBlocking = \<lparr>bc_mode = ''null-ip'', bc_ttl = 30\<rparr>,
     ePaused = \<lparr>pGlobal = 0, pGroups = fmempty, pClients = fmempty\<rparr>,
     ePersist = False, ePersisted = []\<rparr>"

definition SetGroups :: "(int \<Rightarrow> Ruleset option) \<Rightarrow> Engine \<Rightarrow> Engine" where
  "SetGroups g e = e\<lparr>eGroups := g\<rparr>"

definition SetBlocking :: "string \<Rightarrow> u32 \<Rightarrow> Engine \<Rightarrow> Engine" where
  "SetBlocking mode ttl e = e\<lparr>eBlocking := \<lparr>bc_mode = mode, bc_ttl = ttl\<rparr>\<rparr>"

definition OnPauseChange :: "Engine \<Rightarrow> Engine" where
  "OnPauseChange e = e\<lparr>ePersist := True\<rparr>"

definition Restore :: "int \<Rightarrow> Pauses \<Rightarrow> Engine \<Rightarrow> Engine" where
  "Restore now p e =
     (let next = prune now (clone p); cur = ePaused e
      in if pGlobal cur = pGlobal next \<and> pGroups cur = pGroups next \<and> pClients cur = pClients next then e
         else e\<lparr>ePaused := next\<rparr>)"

definition Pause :: "int \<Rightarrow> PauseKind \<Rightarrow> int \<Rightarrow> int \<Rightarrow> Engine \<Rightarrow> Engine" where
  "Pause now kind sid d e =
     (let next = clone (ePaused e);
          until = UnixMilli (now + d);
          next = (case kind of
                    PauseGroup \<Rightarrow> next\<lparr>pGroups := fmupd sid until (pGroups next)\<rparr>
                  | PauseClient \<Rightarrow> next\<lparr>pClients := fmupd sid until (pClients next)\<rparr>
                  | _ \<Rightarrow> next\<lparr>pGlobal := until\<rparr>);
          next = prune now next;
          e = e\<lparr>ePaused := next\<rparr>
      in if ePersist e then e\<lparr>ePersisted := ePersisted e @ [next]\<rparr> else e)"

text \<open>The map read \<open>m[k]\<close> of a missing key is 0; \<open>time.Time{}\<close>, the zero time, is the start of year 1.\<close>

definition at0 :: "(int, int) fmap \<Rightarrow> int \<Rightarrow> int" where
  "at0 m k = (case fmlookup m k of Some v \<Rightarrow> v | None \<Rightarrow> 0)"

definition zeroTime :: int where
  "zeroTime = - 62135596800 * 1000000000"

definition PausedUntil :: "int \<Rightarrow> int \<Rightarrow> int \<Rightarrow> Engine \<Rightarrow> int \<times> PauseKind" where
  "PausedUntil now groupID clientID e =
     (let p = ePaused e;
          (until, kind) = (pGlobal p, PauseGlobal);
          v = at0 (pGroups p) groupID;
          (until, kind) = (if v > until then (v, PauseGroup) else (until, kind));
          v = at0 (pClients p) clientID;
          (until, kind) = (if v > until then (v, PauseClient) else (until, kind))
      in if until \<le> UnixMilli now then (zeroTime, PauseKindOther '''') else (until * 1000000, kind))"

definition isPaused :: "int \<Rightarrow> int \<Rightarrow> int \<Rightarrow> Engine \<Rightarrow> bool" where
  "isPaused now groupID clientID e = (fst (PausedUntil now groupID clientID e) \<noteq> zeroTime)"

section \<open>The middleware\<close>

text \<open>The answer to a blocked query; \<open>None\<close> is the panic of \<open>Question[0]\<close> on a request without a
  question.\<close>

definition blocked_msg :: "dns_lib \<Rightarrow> blockingCfg \<Rightarrow> request \<Rightarrow> msg option" where
  "blocked_msg L cfg r =
     (if bc_mode cfg = ''nxdomain'' then Some (SetRcode L (rq_msg r) RcodeNameError)
      else case m_question (rq_msg r) of
             [] \<Rightarrow> None
           | q # _ \<Rightarrow>
               (let m = SetReply L (rq_msg r);
                    hdr = (\<lambda>t. \<lparr>h_name = q_name q, h_rrtype = t, h_class = ClassINET, h_ttl = bc_ttl cfg\<rparr>)
                in Some (if QType r = TypeA then m\<lparr>m_answer := [RR (hdr TypeA) (RD_A (replicate 4 0))]\<rparr>
                         else if QType r = TypeAAAA then m\<lparr>m_answer := [RR (hdr TypeAAAA) (RD_AAAA (replicate 16 0))]\<rparr>
                         else m)))"

definition engine_middleware ::
  "dns_lib \<Rightarrow> (string \<Rightarrow> string \<Rightarrow> bool) \<Rightarrow> Engine \<Rightarrow> int \<Rightarrow> 'w middleware" where
  "engine_middleware L mt e now next r w =
     (case eGroups e (ci_group (rq_client r)) of
        None \<Rightarrow> next r w
      | Some rs \<Rightarrow>
          if isPaused now (ci_group (rq_client r)) (ci_id (rq_client r)) e then next r w
          else let v = Evaluate mt rs (QName r)
               in if v_action v \<noteq> ''block'' then next r w
                  else case blocked_msg L (eBlocking e) r of
                         None \<Rightarrow> (Panicked, w)
                       | Some m \<Rightarrow>
                           (Returned (Some \<lparr>rs_msg = Some m, rs_decision = DecisionBlocked, rs_upstream = [],
                              rs_rule = v_rule v, rs_list = v_list v, rs_matched = v_matched v\<rparr>) None, w))"

section \<open>What a pause holds\<close>

text \<open>The specification: the moment blocking resumes is the latest end of the three scopes.\<close>

definition pause_end :: "Pauses \<Rightarrow> int \<Rightarrow> int \<Rightarrow> int" where
  "pause_end p g c = max (pGlobal p) (max (at0 (pGroups p) g) (at0 (pClients p) c))"

lemma UnixMilli_mono: "s \<le> t \<Longrightarrow> UnixMilli s \<le> UnixMilli t"
  unfolding UnixMilli_def by (rule zdiv_mono1) simp_all

lemma PausedUntil_end:
  "fst (PausedUntil now g c e) =
     (if pause_end (ePaused e) g c \<le> UnixMilli now then zeroTime else pause_end (ePaused e) g c * 1000000)"
  by (auto simp: PausedUntil_def pause_end_def Let_def max_def)

lemma isPaused_iff:
  assumes "0 \<le> now"
  shows "isPaused now g c e \<longleftrightarrow> UnixMilli now < pause_end (ePaused e) g c"
proof -
  have "0 \<le> UnixMilli now" using assms by (simp add: UnixMilli_def)
  then have "pause_end (ePaused e) g c * 1000000 \<noteq> zeroTime" if "UnixMilli now < pause_end (ePaused e) g c"
    using that by (simp add: zeroTime_def)
  then show ?thesis by (auto simp: isPaused_def PausedUntil_end)
qed

lemma at0_prune:
  "at0 (pGroups (prune now p)) g = (if at0 (pGroups p) g \<le> UnixMilli now then 0 else at0 (pGroups p) g)"
  if "0 \<le> now"
  using that by (auto simp: at0_def prune_def Let_def UnixMilli_def split: option.splits)

lemma at0_prune_clients:
  "at0 (pClients (prune now p)) g = (if at0 (pClients p) g \<le> UnixMilli now then 0 else at0 (pClients p) g)"
  if "0 \<le> now"
  using that by (auto simp: at0_def prune_def Let_def UnixMilli_def split: option.splits)

lemma pGlobal_prune: "pGlobal (prune now p) = (if pGlobal p \<le> UnixMilli now then 0 else pGlobal p)"
  by (simp add: prune_def Let_def)

lemma clone_id [simp]: "clone p = p"
  by (simp add: clone_def)

text \<open>Pruning at one moment changes no answer from that moment on.\<close>

lemma prune_pause_end:
  assumes "0 \<le> now" "now \<le> t"
  shows "UnixMilli t < pause_end (prune now p) g c \<longleftrightarrow> UnixMilli t < pause_end p g c"
proof -
  have "UnixMilli now \<le> UnixMilli t" "0 \<le> UnixMilli now"
    using assms UnixMilli_mono by (simp_all add: UnixMilli_def zdiv_mono1)
  then show ?thesis
    by (auto simp: pause_end_def at0_prune [OF assms(1)] at0_prune_clients [OF assms(1)] pGlobal_prune)
qed

lemma ePaused_Restore: "ePaused (Restore now p e) = prune now p"
  by (auto simp: Restore_def Let_def)

section \<open>Properties\<close>

text \<open>The scopes a query of group \<open>g\<close> and client \<open>c\<close> falls under.\<close>

definition in_scope :: "PauseKind \<Rightarrow> int \<Rightarrow> int \<Rightarrow> int \<Rightarrow> bool" where
  "in_scope k sid g c =
     (case k of PauseGroup \<Rightarrow> sid = g | PauseClient \<Rightarrow> sid = c | _ \<Rightarrow> True)"

text \<open>What holds blocking for a query when one scope is left aside.\<close>

definition other_end :: "PauseKind \<Rightarrow> Pauses \<Rightarrow> int \<Rightarrow> int \<Rightarrow> int" where
  "other_end k p g c =
     (case k of
        PauseGroup \<Rightarrow> max (pGlobal p) (at0 (pClients p) c)
      | PauseClient \<Rightarrow> max (pGlobal p) (at0 (pGroups p) g)
      | _ \<Rightarrow> max (at0 (pGroups p) g) (at0 (pClients p) c))"

lemma at0_upd: "at0 (fmupd k v m) j = (if j = k then v else at0 m j)"
  by (simp add: at0_def)

lemma ePaused_Pause:
  "ePaused (Pause now k sid d e) =
     prune now (case k of
        PauseGroup \<Rightarrow> (ePaused e)\<lparr>pGroups := fmupd sid (UnixMilli (now + d)) (pGroups (ePaused e))\<rparr>
      | PauseClient \<Rightarrow> (ePaused e)\<lparr>pClients := fmupd sid (UnixMilli (now + d)) (pClients (ePaused e))\<rparr>
      | _ \<Rightarrow> (ePaused e)\<lparr>pGlobal := UnixMilli (now + d)\<rparr>)"
  by (simp add: Pause_def Let_def)

text \<open>What a pause does, at every later moment and for every client.  A client the pause covers is
  paused exactly while the new end lies ahead or another scope still holds it, so a pause of length 0
  resumes that scope and no scope cuts another short; a client it does not cover is unaffected.\<close>

theorem Pause_effect:
  assumes "0 \<le> now" "now \<le> t"
  shows "isPaused t g c (Pause now k sid d e) \<longleftrightarrow>
    (if in_scope k sid g c
     then UnixMilli t < UnixMilli (now + d) \<or> UnixMilli t < other_end k (ePaused e) g c
     else isPaused t g c e)"
proof -
  have t: "0 \<le> t" using assms by simp
  show ?thesis
    unfolding isPaused_iff [OF t] ePaused_Pause prune_pause_end [OF assms]
    by (cases k) (auto simp: in_scope_def other_end_def pause_end_def at0_upd)
qed

text \<open>A pause survives a restart.  With a sink registered, the state handed to it last, restored by
  a new process at any later moment, answers every later pause question as the first process would
  have.\<close>

theorem Pause_survives_restart:
  assumes "0 \<le> now" "now \<le> start" "start \<le> t" "ePersist e"
  shows "isPaused t g c (Restore start (last (ePersisted (Pause now k sid d e))) NewEngine) \<longleftrightarrow>
         isPaused t g c (Pause now k sid d e)"
proof -
  have t: "0 \<le> t" "0 \<le> start" using assms by simp_all
  have "last (ePersisted (Pause now k sid d e)) = ePaused (Pause now k sid d e)"
    using assms(4) by (simp add: Pause_def Let_def)
  then show ?thesis
    unfolding isPaused_iff [OF t(1)] ePaused_Restore
    by (simp add: prune_pause_end [OF t(2) assms(3)])
qed

text \<open>The reply a blocked query is due: NXDOMAIN and nothing else in that mode; otherwise a success that
  names the zero address for an address question and nothing for any other.\<close>

definition block_reply :: "dns_lib \<Rightarrow> blockingCfg \<Rightarrow> msg \<Rightarrow> question \<Rightarrow> msg" where
  "block_reply L cfg req q =
     (SetReply L req)
       \<lparr>m_rcode := (if bc_mode cfg = ''nxdomain'' then RcodeNameError else RcodeSuccess),
        m_answer := (if bc_mode cfg = ''nxdomain'' \<or> q_type q \<notin> {TypeA, TypeAAAA} then []
           else [RR \<lparr>h_name = q_name q, h_rrtype = q_type q, h_class = ClassINET, h_ttl = bc_ttl cfg\<rparr>
                    (if q_type q = TypeA then RD_A (replicate 4 0) else RD_AAAA (replicate 16 0))])\<rparr>"

lemma blocked_msg_reply:
  assumes "reply_laws L" "m_question (rq_msg r) = q # qs"
  shows "blocked_msg L cfg r = Some (block_reply L cfg (rq_msg r) q)"
proof -
  have "m_rcode (SetReply L (rq_msg r)) = 0" "m_answer (SetReply L (rq_msg r)) = []"
    using assms(1) by (simp_all add: reply_laws_simps)
  then show ?thesis
    using reply_laws_simps(10) [OF assms(1)]
    by (cases "SetReply L (rq_msg r)") (simp add: blocked_msg_def block_reply_def assms(2) QType_def)
qed

text \<open>C7: blocking is decided here and nowhere else.  For a client whose group has a rule set, a query
  with a question is answered as blocked, with the configured reply and the verdict's attribution and
  without touching anything below, exactly when no pause is running and the rules block the name;
  every other query is passed on unchanged.\<close>

theorem engine_decides:
  assumes "reply_laws L" "m_question (rq_msg r) = q # qs" "0 \<le> now"
    "eGroups e (ci_group (rq_client r)) = Some rs"
  shows "engine_middleware L mt e now next r w =
    (let v = Evaluate mt rs (QName r) in
     if UnixMilli now < pause_end (ePaused e) (ci_group (rq_client r)) (ci_id (rq_client r)) \<or>
        v_action v \<noteq> ''block''
     then next r w
     else (Returned (Some
        \<lparr>rs_msg = Some (block_reply L (eBlocking e) (rq_msg r) q),
         rs_decision = DecisionBlocked, rs_upstream = [], rs_rule = v_rule v,
         rs_list = v_list v, rs_matched = v_matched v\<rparr>) None, w))"
  by (simp add: engine_middleware_def assms(4) isPaused_iff [OF assms(3)] Let_def
      blocked_msg_reply [OF assms(1,2)])

text \<open>Witnesses: a group that blocks \<open>ads.com\<close> and a query for a name below it.\<close>

definition ex_rules :: Ruleset where
  "ex_rules = Compile (\<lambda>_. True) [\<lparr>sr_id = 4, sr_group = 1, sr_action = ''block'', sr_pattern = ''ads.com'', sr_regex = False\<rparr>] []"

definition ex_engine :: Engine where
  "ex_engine = OnPauseChange (SetGroups (\<lambda>g. if g = 1 then Some ex_rules else None) NewEngine)"

definition ex_blocked_query :: request where
  "ex_blocked_query =
     \<lparr>rq_msg = \<lparr>m_id = 7, m_response = False, m_opcode = 0, m_aa = False, m_tc = False, m_rd = True,
        m_rcode = 0, m_compress = False,
        m_question = [\<lparr>q_name = ''x.Ads.com.'', q_type = 1, q_class = 1\<rparr>],
        m_answer = [], m_ns = [], m_extra = []\<rparr>,
      rq_ip = NoAddr, rq_client = \<lparr>ci_id = 9, ci_name = [], ci_group = 1, ci_groupname = []\<rparr>\<rparr>"

lemma ex_engine_groups: "eGroups ex_engine 1 = Some ex_rules" "ePersist ex_engine"
  by (simp_all add: ex_engine_def SetGroups_def OnPauseChange_def NewEngine_def)

lemma ex_verdict: "v_action (Evaluate (\<lambda>_ _. False) ex_rules (QName ex_blocked_query)) = ''block''"
  by code_simp

theorem Pause_effect_witness:
  "isPaused 2000000 1 9 (Pause 1000000 PauseGroup 1 5000000 ex_engine) \<and>
   \<not> isPaused 2000000 2 9 (Pause 1000000 PauseGroup 1 5000000 ex_engine)"
proof -
  have "\<not> isPaused 2000000 2 9 ex_engine" by code_simp
  then show ?thesis
    using Pause_effect [of 1000000 2000000 1 9 PauseGroup 1 5000000 ex_engine]
      Pause_effect [of 1000000 2000000 2 9 PauseGroup 1 5000000 ex_engine]
    by (simp add: in_scope_def UnixMilli_def)
qed

theorem Pause_survives_restart_witness:
  "isPaused 3000000 1 9 (Restore 2000000 (last (ePersisted (Pause 1000000 PauseClient 9 5000000 ex_engine))) NewEngine)"
proof -
  have "isPaused 3000000 1 9 (Pause 1000000 PauseClient 9 5000000 ex_engine)" by code_simp
  then show ?thesis
    using Pause_survives_restart [of 1000000 2000000 3000000 ex_engine 1 9 PauseClient 9 5000000] ex_engine_groups
    by simp
qed

theorem engine_decides_witness:
  "rs_decision (the (out_resp (fst (engine_middleware plain_lib (\<lambda>_ _. False) ex_engine 1000000
     (\<lambda>r w. (Panicked, w)) ex_blocked_query (0::nat))))) = DecisionBlocked"
proof -
  have q: "m_question (rq_msg ex_blocked_query) = \<lparr>q_name = ''x.Ads.com.'', q_type = 1, q_class = 1\<rparr> # []"
    "ci_group (rq_client ex_blocked_query) = 1" "ci_id (rq_client ex_blocked_query) = 9"
    by (simp_all add: ex_blocked_query_def)
  have np: "\<not> UnixMilli 1000000 < pause_end (ePaused ex_engine) 1 9" by code_simp
  show ?thesis
    using engine_decides [OF plain_reply_laws q(1), of 1000000 ex_engine ex_rules "\<lambda>_ _. False" "\<lambda>r w. (Panicked, w)" "0::nat"]
      ex_engine_groups(1) ex_verdict np
    by (simp add: q Let_def)
qed

end
