(* ===== verification/Filter_Parse.thy ===== *)
theory Filter_Parse
  imports Domain_Set
begin

text \<open>
  The list parser of \<open>internal/filter/parse.go\<close>: hosts files, domain files and the domain subset of
  Adblock syntax, read line by line, and the normalisation of manual rule patterns.  A reader is the
  bytes it delivers and the error it ends with, if that is not the end of the file.  Go's string
  functions are Unicode-aware; what they do on strings outside ASCII, and \<open>idna.ToASCII\<close> of
  \<open>golang.org/x/net\<close>, are the fields of a parameter \<open>U\<close>.
\<close>

record unicode =
  u_lower :: "string \<Rightarrow> string"
  u_trim :: "string \<Rightarrow> string"
  u_fields :: "string \<Rightarrow> string list"
  idnaToASCII :: "string \<Rightarrow> string option"

definition is_ascii :: "string \<Rightarrow> bool" where
  "is_ascii s = list_all (\<lambda>c. (of_char c :: nat) < 128) s"

definition strToLower :: "unicode \<Rightarrow> string \<Rightarrow> string" where
  "strToLower U s = (if is_ascii s then ToLower s else u_lower U s)"

definition strTrimSpace :: "unicode \<Rightarrow> string \<Rightarrow> string" where
  "strTrimSpace U s = (if is_ascii s then TrimSpace s else u_trim U s)"

definition strFields :: "unicode \<Rightarrow> string \<Rightarrow> string list" where
  "strFields U s = (if is_ascii s then Fields s else u_fields U s)"

section \<open>Names\<close>

definition name_char :: "char \<Rightarrow> bool" where
  "name_char r \<longleftrightarrow>
     \<not> (r \<noteq> CHR ''-'' \<and> r \<noteq> CHR ''_'' \<and>
        ((of_char r :: nat) < of_char CHR ''a'' \<or> (of_char r :: nat) > of_char CHR ''z'') \<and>
        ((of_char r :: nat) < of_char CHR ''0'' \<or> (of_char r :: nat) > of_char CHR ''9''))"

definition label_ok :: "string \<Rightarrow> bool" where
  "label_ok lbl \<longleftrightarrow> lbl \<noteq> [] \<and> length lbl \<le> 63 \<and> list_all name_char lbl"

definition validName :: "unicode \<Rightarrow> string \<Rightarrow> string option" where
  "validName U s =
     (let s = strToLower U (TrimSuffix s ''.'');
          s = (case idnaToASCII U s of Some a \<Rightarrow> a | None \<Rightarrow> s)
      in if s = [] \<or> length s > 253 then None
         else if \<not> list_all label_ok (Split s CHR ''.'') then None
         else Some s)"

definition validDomain :: "unicode \<Rightarrow> string \<Rightarrow> string option" where
  "validDomain U s =
     (case validName U s of None \<Rightarrow> None | Some s \<Rightarrow> if CHR ''.'' \<notin> set s then None else Some s)"

definition wildcardDomain :: "unicode \<Rightarrow> string \<Rightarrow> string option" where
  "wildcardDomain U s = validDomain U (TrimPrefix s ''*.'')"

definition abpDomain :: "unicode \<Rightarrow> string \<Rightarrow> string option" where
  "abpDomain U s =
     (let s = TrimSuffix s ''^''
      in if ContainsAny s ''/^$*|'' then None else validDomain U s)"

definition RulePattern :: "unicode \<Rightarrow> string \<Rightarrow> string option" where
  "RulePattern U s = validName U (TrimPrefix (strTrimSpace U s) ''*.'')"

section \<open>Lines\<close>

record ParseResult =
  prBlock :: "string list"
  prAllow :: "string list"
  prSkipped :: int

definition bom :: string where
  "bom = [CHR 0xEF, CHR 0xBB, CHR 0xBF]"

definition addBlock :: "string option \<Rightarrow> ParseResult \<Rightarrow> ParseResult" where
  "addBlock d res =
     (case d of Some d \<Rightarrow> res\<lparr>prBlock := prBlock res @ [d]\<rparr> | None \<Rightarrow> res\<lparr>prSkipped := prSkipped res + 1\<rparr>)"

definition addAllow :: "string option \<Rightarrow> ParseResult \<Rightarrow> ParseResult" where
  "addAllow d res =
     (case d of Some d \<Rightarrow> res\<lparr>prAllow := prAllow res @ [d]\<rparr> | None \<Rightarrow> res\<lparr>prSkipped := prSkipped res + 1\<rparr>)"

definition parseLine :: "unicode \<Rightarrow> string \<Rightarrow> ParseResult \<Rightarrow> ParseResult" where
  "parseLine U raw res =
     (let line = strTrimSpace U (TrimPrefix raw bom)
      in if line = [] \<or> HasPrefix line ''#'' \<or> HasPrefix line ''!'' then res
         else let line = (case IndexByte line CHR ''#'' of Some i \<Rightarrow> strTrimSpace U (take i line) | None \<Rightarrow> line)
              in if HasPrefix line ''@@||'' then addAllow (abpDomain U (drop 4 line)) res
                 else if HasPrefix line ''||'' then addBlock (abpDomain U (drop 2 line)) res
                 else (case strFields U line of
                         [a, b] \<Rightarrow>
                           if a = ''0.0.0.0'' \<or> a = ''127.0.0.1'' \<or> a = ''::'' \<or> a = ''::1''
                           then addBlock (wildcardDomain U b) res
                           else res\<lparr>prSkipped := prSkipped res + 1\<rparr>
                       | [a] \<Rightarrow> addBlock (wildcardDomain U a) res
                       | _ \<Rightarrow> res\<lparr>prSkipped := prSkipped res + 1\<rparr>))"

section \<open>Reading\<close>

definition maxLineBytes :: int where
  "maxLineBytes = 2 ^ 20"

text \<open>\<open>bufio.Reader.ReadSlice\<close> on a buffer of \<open>maxLineBytes\<close>: up to and including the next newline when
  it lies in the buffer, \<open>ErrBufferFull\<close> with a full buffer when it does not, and else the rest with
  the error the reader ends in.\<close>

datatype read_err = ErrBufferFull | EOF | ReadErr string

definition ReadSlice :: "string option \<Rightarrow> string \<Rightarrow> (string \<times> read_err option) \<times> string" where
  "ReadSlice fin s =
     (case IndexByte s CHR 0x0A of
        Some i \<Rightarrow>
          if int i < maxLineBytes then ((take (i + 1) s, None), drop (i + 1) s)
          else ((take (nat maxLineBytes) s, Some ErrBufferFull), drop (nat maxLineBytes) s)
      | None \<Rightarrow>
          if int (length s) < maxLineBytes
          then ((s, Some (case fin of None \<Rightarrow> EOF | Some e \<Rightarrow> ReadErr e)), [])
          else ((take (nat maxLineBytes) s, Some ErrBufferFull), drop (nat maxLineBytes) s))"

lemma ReadSlice_rest:
  "ReadSlice fin s = ((l, e), rest) \<Longrightarrow> s = l @ rest"
  by (auto simp: ReadSlice_def split: option.splits if_splits)

lemma ReadSlice_shrinks:
  assumes "ReadSlice fin s = ((l, e), rest)" "e = None \<or> e = Some ErrBufferFull"
  shows "length rest < length s"
proof -
  have m: "0 < nat maxLineBytes" by (simp add: maxLineBytes_def)
  have "s \<noteq> []" using assms by (auto simp: ReadSlice_def maxLineBytes_def split: option.splits)
  with m assms show ?thesis
    by (auto simp: ReadSlice_def split: option.splits if_splits dest: IndexByte_lt)
qed

text \<open>The inner loop: drop the rest of an overlong line.\<close>

function resync :: "string option \<Rightarrow> string \<Rightarrow> read_err option \<times> string" where
  "resync fin s =
     (case ReadSlice fin s of
        ((_, e), rest) \<Rightarrow> if e = Some ErrBufferFull then resync fin rest else (e, rest))"
  by pat_completeness auto

termination resync
  by (relation "measure (\<lambda>(fin, s). length s)") (auto dest: ReadSlice_shrinks [OF sym])

declare resync.simps [simp del]

lemma resync_length:
  "resync fin s = (e, rest) \<Longrightarrow> length rest \<le> length s"
proof (induction fin s rule: resync.induct)
  case (1 fin s)
  obtain l e' r where rs: "ReadSlice fin s = ((l, e'), r)" by (metis prod.exhaust)
  have len: "length r \<le> length s" using ReadSlice_rest [OF rs] by simp
  show ?case
  proof (cases "e' = Some ErrBufferFull")
    case True
    with "1.prems" rs have "resync fin r = (e, rest)" by (simp add: resync.simps [of fin s])
    from "1.IH" [OF rs [symmetric] refl True this] len show ?thesis by simp
  next
    case False
    with "1.prems" rs len show ?thesis by (simp add: resync.simps [of fin s])
  qed
qed

text \<open>One turn of the outer loop reads a line, the empty one for a line that is dropped; the flag
  tells that it was.\<close>

definition read_line :: "string option \<Rightarrow> string \<Rightarrow> string \<times> bool \<times> read_err option \<times> string" where
  "read_line fin s =
     (case ReadSlice fin s of
        ((line, e), rest) \<Rightarrow>
          if e = Some ErrBufferFull then (case resync fin rest of (e, rest) \<Rightarrow> ([], True, e, rest))
          else (line, False, e, rest))"

lemma read_line_shrinks:
  assumes "read_line fin s = (line, skip, None, rest)"
  shows "length rest < length s"
proof -
  obtain l e r where rs: "ReadSlice fin s = ((l, e), r)" by (metis prod.exhaust)
  show ?thesis
  proof (cases "e = Some ErrBufferFull")
    case True
    with assms rs have "resync fin r = (None, rest)" by (auto simp: read_line_def split: prod.splits)
    from resync_length [OF this] ReadSlice_shrinks [OF rs] True show ?thesis by simp
  next
    case False
    with assms rs ReadSlice_shrinks [OF rs] show ?thesis by (auto simp: read_line_def)
  qed
qed

definition take_line :: "unicode \<Rightarrow> string \<Rightarrow> bool \<Rightarrow> ParseResult \<Rightarrow> ParseResult" where
  "take_line U line skip res =
     (let res = (if skip then res\<lparr>prSkipped := prSkipped res + 1\<rparr> else res)
      in if line \<noteq> [] then parseLine U line res else res)"

function parse_loop :: "unicode \<Rightarrow> string option \<Rightarrow> string \<Rightarrow> ParseResult \<Rightarrow> ParseResult \<times> string option" where
  "parse_loop U fin s res =
     (case read_line fin s of
        (line, skip, None, rest) \<Rightarrow> parse_loop U fin rest (take_line U line skip res)
      | (line, skip, Some (ReadErr x), rest) \<Rightarrow> (take_line U line skip res, Some x)
      | (line, skip, Some _, rest) \<Rightarrow> (take_line U line skip res, None))"
  by pat_completeness auto

termination parse_loop
  by (relation "measure (\<lambda>(U, fin, s, res). length s)") (auto dest: read_line_shrinks [OF sym])

declare parse_loop.simps [simp del]

text \<open>\<open>ParseList\<close>: the result, and the error when the reader failed.\<close>

definition ParseList :: "unicode \<Rightarrow> string option \<Rightarrow> string \<Rightarrow> ParseResult \<times> string option" where
  "ParseList U fin s = parse_loop U fin s \<lparr>prBlock = [], prAllow = [], prSkipped = 0\<rparr>"

section \<open>Every entry is a name a query can match\<close>

text \<open>What the set of the filter needs of an entry.\<close>

definition good_name :: "string \<Rightarrow> bool" where
  "good_name d \<longleftrightarrow> d \<noteq> [] \<and> length d \<le> 253 \<and> list_all label_ok (Split d CHR ''.'')"

lemma name_char_lower: "name_char c \<Longrightarrow> lower_char c = c"
  by (auto simp: name_char_def lower_char_def)

lemma set_Join: "set (Join ls sep) \<subseteq> set sep \<union> \<Union> (set ` set ls)"
  by (induction ls sep rule: Join.induct) auto

lemma Split_snoc: "Split (p @ [c]) c = Split p c @ [[]]"
proof (induction p)
  case (Cons a p)
  obtain y ys where "Split p c = y # ys" by (cases "Split p c") auto
  with Cons show ?case by simp
qed simp

lemma good_name_chars:
  assumes "good_name d" "c \<in> set d"
  shows "c = CHR ''.'' \<or> name_char c"
proof -
  have "c \<in> set (Join (Split d CHR ''.'') ''.'')" using assms(2) by simp
  with set_Join have "c \<in> set ''.'' \<union> \<Union> (set ` set (Split d CHR ''.''))" by blast
  with assms(1) show ?thesis by (auto simp: good_name_def label_ok_def list_all_iff)
qed

lemma good_name_no_dot:
  assumes "good_name d"
  shows "\<not> HasSuffix d ''.''"
proof
  assume "HasSuffix d ''.''"
  then obtain p where "d = p @ ''.''" by (auto simp: HasSuffix_suffix suffix_def)
  then have "[] \<in> set (Split d CHR ''.'')" by (auto simp: Split_snoc)
  with assms show False by (auto simp: good_name_def label_ok_def list_all_iff)
qed

lemma good_name_lower:
  assumes "good_name d"
  shows "ToLower d = d"
  unfolding ToLower_def
proof (rule map_idI)
  fix c assume "c \<in> set d"
  from good_name_chars [OF assms this] show "lower_char c = c"
  proof
    assume "c = CHR ''.''"
    then show ?thesis by (simp add: lower_char_def)
  qed (rule name_char_lower)
qed

lemma good_name_normal: "good_name d \<Longrightarrow> normalize_d d = d"
  by (simp add: normalize_d_def TrimSuffix_none good_name_no_dot good_name_lower)

lemma validName_good: "validName U s = Some d \<Longrightarrow> good_name d"
  by (auto simp: validName_def good_name_def Let_def split: if_splits)

lemma validDomain_good: "validDomain U s = Some d \<Longrightarrow> good_name d \<and> CHR ''.'' \<in> set d"
  by (auto simp: validDomain_def validName_good split: option.splits if_splits)

lemma wildcardDomain_good: "wildcardDomain U s = Some d \<Longrightarrow> good_name d \<and> CHR ''.'' \<in> set d"
  by (simp add: wildcardDomain_def validDomain_good)

lemma abpDomain_good: "abpDomain U s = Some d \<Longrightarrow> good_name d \<and> CHR ''.'' \<in> set d"
  by (auto simp: abpDomain_def Let_def dest: validDomain_good split: if_splits)

definition good_result :: "ParseResult \<Rightarrow> bool" where
  "good_result res \<longleftrightarrow>
     (\<forall>d \<in> set (prBlock res) \<union> set (prAllow res). good_name d \<and> CHR ''.'' \<in> set d) \<and> 0 \<le> prSkipped res"

lemma good_add:
  "good_result res \<Longrightarrow> good_result (addBlock (wildcardDomain U s) res)"
  "good_result res \<Longrightarrow> good_result (addBlock (abpDomain U s) res)"
  "good_result res \<Longrightarrow> good_result (addAllow (abpDomain U s) res)"
  "good_result res \<Longrightarrow> good_result (res\<lparr>prSkipped := prSkipped res + 1\<rparr>)"
  by (auto simp: good_result_def addBlock_def addAllow_def
      dest!: wildcardDomain_good abpDomain_good split: option.splits)

lemma parseLine_good: "good_result res \<Longrightarrow> good_result (parseLine U raw res)"
  by (auto simp: parseLine_def Let_def good_add split: list.splits)

lemma take_line_good: "good_result res \<Longrightarrow> good_result (take_line U line skip res)"
  by (simp add: take_line_def Let_def parseLine_good good_add(4))

lemma parse_loop_good: "good_result res \<Longrightarrow> good_result (fst (parse_loop U fin s res))"
proof (induction U fin s res rule: parse_loop.induct)
  case (1 U fin s res)
  obtain line skip e rest where rl: "read_line fin s = (line, skip, e, rest)" by (metis prod.exhaust)
  show ?case
  proof (cases e)
    case None
    with 1(1) [OF rl [symmetric] refl refl] 1(2) rl take_line_good show ?thesis
      by (simp add: parse_loop.simps [of U fin s res])
  next
    case (Some x)
    with 1(2) rl take_line_good show ?thesis
      by (cases x) (simp_all add: parse_loop.simps [of U fin s res])
  qed
qed

section \<open>Reading by buffers is reading by lines\<close>

text \<open>The specification: cut the input after every newline.\<close>

function raw_lines :: "string \<Rightarrow> string list" where
  "raw_lines s =
     (case IndexByte s CHR 0x0A of
        None \<Rightarrow> (if s = [] then [] else [s])
      | Some i \<Rightarrow> take (i + 1) s # raw_lines (drop (i + 1) s))"
  by pat_completeness auto

termination raw_lines
  by (relation "measure length") (auto dest: IndexByte_lt)

declare raw_lines.simps [simp del]

definition too_long :: "string \<Rightarrow> bool" where
  "too_long l \<longleftrightarrow> int (length (TrimSuffix l [CHR 0x0A])) \<ge> maxLineBytes"

definition line_step :: "unicode \<Rightarrow> string \<Rightarrow> ParseResult \<Rightarrow> ParseResult" where
  "line_step U l res =
     (if too_long l then res\<lparr>prSkipped := prSkipped res + 1\<rparr> else parseLine U l res)"

definition fin_err :: "string option \<Rightarrow> read_err" where
  "fin_err fin = (case fin of None \<Rightarrow> EOF | Some e \<Rightarrow> ReadErr e)"

lemma resync_spec:
  "resync fin s =
     (case IndexByte s CHR 0x0A of
        Some i \<Rightarrow> (None, drop (i + 1) s)
      | None \<Rightarrow> (Some (fin_err fin), []))"
proof (induction fin s rule: resync.induct)
  case (1 fin s)
  obtain l e r where rs: "ReadSlice fin s = ((l, e), r)" by (metis prod.exhaust)
  show ?case
  proof (cases "e = Some ErrBufferFull")
    case False
    with rs show ?thesis
      by (auto simp: resync.simps [of fin s] ReadSlice_def fin_err_def split: option.splits if_splits)
  next
    case True
    then have step: "resync fin s = resync fin r" using rs by (simp add: resync.simps [of fin s])
    let ?m = "nat maxLineBytes"
    have r: "r = drop ?m s" and ge: "\<forall>i. IndexByte s CHR 0x0A = Some i \<longrightarrow> ?m \<le> i"
      using rs True by (auto simp: ReadSlice_def split: option.splits if_splits)
    have "IndexByte r CHR 0x0A = map_option (\<lambda>i. i - ?m) (IndexByte s CHR 0x0A)"
    proof (cases "IndexByte s CHR 0x0A")
      case None
      then have "IndexByte r CHR 0x0A = None" using r by (auto simp: IndexByte_None dest: in_set_dropD)
      with None show ?thesis by simp
    next
      case (Some i)
      with ge have "?m \<le> i" by simp
      with Some r have "IndexByte r CHR 0x0A = Some (i - ?m)"
        by (auto simp: IndexByte_Some less_diff_conv in_set_conv_nth)
      with Some show ?thesis by simp
    qed
    with 1 [OF rs [symmetric] refl True] ge r step show ?thesis
      by (auto split: option.splits)
  qed
qed

lemma TrimSuffix_line: "IndexByte s c = Some i \<Longrightarrow> TrimSuffix (take (i + 1) s) [c] = take i s"
  by (simp add: IndexByte_Some take_Suc_conv_app_nth)

lemma TrimSuffix_no_line: "IndexByte s c = None \<Longrightarrow> TrimSuffix s [c] = s"
  by (rule TrimSuffix_none) (auto simp: IndexByte_None HasSuffix_suffix suffix_def)

lemma read_line_spec:
  "read_line fin s =
     (case IndexByte s CHR 0x0A of
        Some i \<Rightarrow>
          let l = take (i + 1) s
          in if too_long l then ([], True, None, drop (i + 1) s) else (l, False, None, drop (i + 1) s)
      | None \<Rightarrow>
          if too_long s then ([], True, Some (fin_err fin), []) else (s, False, Some (fin_err fin), []))"
proof (cases "IndexByte s CHR 0x0A")
  case None
  then have "too_long s \<longleftrightarrow> int (length s) \<ge> maxLineBytes" by (simp add: too_long_def TrimSuffix_no_line)
  moreover from None have "IndexByte (drop n s) CHR 0x0A = None" for n
    by (auto simp: IndexByte_None dest: in_set_dropD)
  ultimately show ?thesis using None
    by (auto simp: read_line_def ReadSlice_def resync_spec fin_err_def split: option.splits)
next
  case (Some i)
  then have i: "i < length s" by (rule IndexByte_lt)
  then have tl: "too_long (take (i + 1) s) \<longleftrightarrow> int i \<ge> maxLineBytes"
    using TrimSuffix_line [OF Some] by (simp add: too_long_def)
  let ?m = "nat maxLineBytes"
  have "IndexByte (drop ?m s) CHR 0x0A = Some (i - ?m)" if "?m \<le> i"
    using that Some by (auto simp: IndexByte_Some less_diff_conv in_set_conv_nth)
  then show ?thesis using Some tl
    by (auto simp: read_line_def ReadSlice_def resync_spec Let_def)
qed

lemma take_line_step:
  "l \<noteq> [] \<Longrightarrow> take_line U (if too_long l then [] else l) (too_long l) res = line_step U l res"
  by (simp add: take_line_def line_step_def)

lemma parse_loop_spec: "parse_loop U fin s res = (fold (line_step U) (raw_lines s) res, fin)"
proof (induction s arbitrary: res rule: raw_lines.induct)
  case (1 s)
  show ?case
  proof (cases "IndexByte s CHR 0x0A")
    case None
    have "\<not> too_long []" by (simp add: too_long_def TrimSuffix_def HasSuffix_def maxLineBytes_def)
    with None show ?thesis
      by (auto simp: parse_loop.simps [of U fin s res] read_line_spec raw_lines.simps [of s] fin_err_def
          take_line_def line_step_def split: option.splits)
  next
    case (Some i)
    let ?l = "take (i + 1) s"
    have l: "?l \<noteq> []" using IndexByte_lt [OF Some] by auto
    from Some have "parse_loop U fin s res = parse_loop U fin (drop (i + 1) s) (line_step U ?l res)"
      using l by (auto simp: parse_loop.simps [of U fin s res] read_line_spec Let_def take_line_def line_step_def)
    with 1 [OF Some] Some show ?thesis by (simp add: raw_lines.simps [of s])
  qed
qed

section \<open>Properties\<close>

text \<open>A list is parsed line by line, whatever its size, and an overlong line costs only itself.  The
  parser over the buffered reader always returns, and its result is that of cutting the input after
  every newline and parsing each line in turn, where a line of \<open>maxLineBytes\<close> or more counts as one
  skipped line and leaves the lines after it alone; a read error is reported with what was parsed.\<close>

theorem ParseList_lines:
  "ParseList U fin s =
     (fold (\<lambda>l res. if too_long l then res\<lparr>prSkipped := prSkipped res + 1\<rparr> else parseLine U l res)
        (raw_lines s) \<lparr>prBlock = [], prAllow = [], prSkipped = 0\<rparr>, fin)"
  unfolding ParseList_def parse_loop_spec line_step_def ..

text \<open>Every entry a list yields is a name the filter can match.  Whatever the bytes of the list and
  whatever the punycode encoder returns, a parsed entry has at least two labels of 1 to 63 lower-case
  letters, digits, hyphens or underscores and at most 253 bytes, it is stored unchanged, and a query
  for it or for any name below it, in any case and with or without the final dot, matches a set that
  holds it.\<close>

theorem ParseList_entries_match:
  assumes "d \<in> set (prBlock (fst (ParseList U fin s))) \<union> set (prAllow (fst (ParseList U fin s)))"
    and "normalize_d q = d \<or> HasSuffix (normalize_d q) (''.'' @ d)"
  shows "good_name d \<and> CHR ''.'' \<in> set d \<and> normalize_d d = d \<and> Match (Add ds d) q \<noteq> None"
proof -
  have "good_result (fst (ParseList U fin s))"
    unfolding ParseList_def by (rule parse_loop_good) (simp add: good_result_def)
  then have g: "good_name d" "CHR ''.'' \<in> set d" using assms(1) by (auto simp: good_result_def)
  then have n: "normalize_d d = d" by (simp add: good_name_normal)
  have "covers d (normalize_d q)" using assms(2) by (auto simp: covers_def)
  with n have "Match (Add ds d) q \<noteq> None" unfolding dset.match_iff set_Add by auto
  with g n show ?thesis by simp
qed

definition ex_unicode :: unicode where
  "ex_unicode = \<lparr>u_lower = id, u_trim = id, u_fields = Fields, idnaToASCII = Some\<rparr>"

theorem ParseList_entries_match_witness:
  "Match (Add NewDomainSet ''ads.net'') ''X.Ads.net.'' \<noteq> None"
proof -
  have "''ads.net'' \<in> set (prBlock (fst (ParseList ex_unicode None
     (''0.0.0.0 *.ads.NET # tracker'' @ [CHR 0x0A] @ ''@@||ok.ads.net^'')))) \<union>
     set (prAllow (fst (ParseList ex_unicode None
     (''0.0.0.0 *.ads.NET # tracker'' @ [CHR 0x0A] @ ''@@||ok.ads.net^''))))"
    by code_simp
  moreover have "normalize_d ''X.Ads.net.'' = ''ads.net'' \<or> HasSuffix (normalize_d ''X.Ads.net.'') (''.'' @ ''ads.net'')"
    by code_simp
  ultimately show ?thesis using ParseList_entries_match by blast
qed

text \<open>A manual rule pattern that is accepted works.  What \<open>RulePattern\<close> returns is a valid name, it
  is the form the set stores and compares, and it holds no wildcard label.\<close>

theorem RulePattern_usable:
  assumes "RulePattern U s = Some d"
  shows "good_name d \<and> Add ds d = List.insert d ds \<and> CHR ''*'' \<notin> set d \<and> Match (Add ds d) (''x.'' @ d) \<noteq> None"
proof -
  have g: "good_name d" using assms by (auto simp: RulePattern_def dest: validName_good)
  then have n: "normalize_d d = d" by (rule good_name_normal)
  have "CHR ''*'' \<notin> set d"
  proof
    assume "CHR ''*'' \<in> set d"
    from good_name_chars [OF g this] show False by (simp add: name_char_def)
  qed
  moreover have "normalize_d (''x.'' @ d) = ''x.'' @ d"
  proof -
    have "\<not> HasSuffix (''x.'' @ d) ''.''"
      using good_name_no_dot [OF g] g by (auto simp: HasSuffix_suffix suffix_Cons good_name_def)
    then show ?thesis using good_name_lower [OF g]
      by (simp add: normalize_d_def TrimSuffix_none) (simp add: lower_char_def)
  qed
  then have "Match (Add ds d) (''x.'' @ d) \<noteq> None"
    unfolding dset.match_iff set_Add using n by (auto simp: covers_def HasSuffix_suffix suffix_def)
  ultimately show ?thesis using g n by (simp add: Add_def)
qed

theorem RulePattern_usable_witness:
  "Match (Add NewDomainSet ''doubleclick.net'') ''x.doubleclick.net'' \<noteq> None"
proof -
  have "RulePattern ex_unicode '' *.DoubleClick.net. '' = Some ''doubleclick.net''" by code_simp
  from RulePattern_usable [OF this, of NewDomainSet]
  have "Match (Add NewDomainSet ''doubleclick.net'') (''x.'' @ ''doubleclick.net'') \<noteq> None" by blast
  then show ?thesis by simp
qed

end
