(* ===== verification/Config_Store.thy ===== *)
theory Config_Store
  imports Ruleset
begin

text \<open>
  The configuration tables of \<open>internal/store\<close> (\<open>settings.go\<close>, \<open>crud.go\<close>, \<open>sql.go\<close>): settings, groups,
  clients, lists, assignments and rules, with the constraints the schema declares (\<open>migrations\<close>:
  unique columns, foreign keys, the primary key of the assignments), the version counter every
  configuration write advances, and the hub that publishes it.  A table is the list of its rows in
  the order of their ids; an operation either commits or returns an error, and the error is the
  constraint it met (\<open>wrapDBErr\<close>).  Failures of the database itself are outside the model.
\<close>

datatype store_err = ErrNotFound | ErrInUse | ErrDuplicate | ErrReference | MissingRef string int

record group_row =
  g_id :: int
  g_name :: string
  g_enabled :: bool

record client_row =
  c_id :: int
  c_name :: string
  c_matcher :: string
  c_group :: int

datatype list_status = ListStatusPending | ListStatusOK | ListStatusStale | ListStatusFailed | ListStatusEmpty

text \<open>The reason a list's last attempt failed, before it is rendered for the dashboard.\<close>

datatype why =
    NoReason | BadRequest | Network string | CacheDir string | CacheWrite string | Incomplete string
  | TooLarge | HttpStatus int | Unreadable | ParseFailed string | NoEntries int int

record list_row =
  l_id :: int
  l_url :: string
  l_name :: string
  l_kind :: string
  l_enabled :: bool
  l_last_refreshed :: int
  l_entry_count :: int
  l_last_status :: list_status
  l_last_error :: why
  l_last_attempt :: int

record db =
  db_version :: int
  db_subs :: "int list list"
  db_settings :: "(string \<times> string) list"
  db_groups :: "group_row list"
  db_clients :: "client_row list"
  db_lists :: "list_row list"
  db_group_lists :: "(int \<times> int) list"
  db_rules :: "store_rule list"
  seq_groups :: int
  seq_clients :: int
  seq_lists :: int
  seq_rules :: int

section \<open>The version and its subscribers\<close>

text \<open>A subscriber is a channel of capacity 8; a full one is skipped.\<close>

definition subscribe :: "'z db_scheme \<Rightarrow> 'z db_scheme" where
  "subscribe d = d\<lparr>db_subs := db_subs d @ [[]]\<rparr>"

definition publish :: "int \<Rightarrow> 'z db_scheme \<Rightarrow> 'z db_scheme" where
  "publish v d = d\<lparr>db_subs := map (\<lambda>ch. if length ch < 8 then ch @ [v] else ch) (db_subs d)\<rparr>"

definition bumpVersionTx :: "'z db_scheme \<Rightarrow> 'z db_scheme" where
  "bumpVersionTx d = d\<lparr>db_version := db_version d + 1\<rparr>"

definition configWrite :: "('z db_scheme \<Rightarrow> store_err + 'a \<times> 'z db_scheme) \<Rightarrow> 'z db_scheme \<Rightarrow> (store_err + 'a) \<times> 'z db_scheme" where
  "configWrite fn d =
     (case fn d of
        Inl e \<Rightarrow> (Inl e, d)
      | Inr (a, d') \<Rightarrow>
          (let d' = bumpVersionTx d' in (Inr a, publish (db_version d') d')))"

text \<open>A statement run for its effect on one table: the new row's id, or the number of rows it changed.\<close>

definition configInsert :: "('z db_scheme \<Rightarrow> store_err + int \<times> 'z db_scheme) \<Rightarrow> 'z db_scheme \<Rightarrow> (store_err + int) \<times> 'z db_scheme" where
  "configInsert ins = configWrite ins"

definition configExecN :: "('z db_scheme \<Rightarrow> store_err + nat \<times> 'z db_scheme) \<Rightarrow> 'z db_scheme \<Rightarrow> (store_err + nat) \<times> 'z db_scheme" where
  "configExecN st d =
     (case st d of
        Inr (0, _) \<Rightarrow> (Inr 0, d)
      | _ \<Rightarrow> configWrite st d)"

definition configExecOne :: "('z db_scheme \<Rightarrow> store_err + nat \<times> 'z db_scheme) \<Rightarrow> 'z db_scheme \<Rightarrow> (store_err + unit) \<times> 'z db_scheme" where
  "configExecOne st d =
     (case configExecN st d of
        (Inl e, d') \<Rightarrow> (Inl e, d')
      | (Inr n, d') \<Rightarrow> ((if n = 0 then Inl ErrNotFound else Inr ()), d'))"

section \<open>Settings\<close>

definition settingUpsert :: "string \<Rightarrow> string \<Rightarrow> (string \<times> string) list \<Rightarrow> (string \<times> string) list" where
  "settingUpsert k v kvs = (k, v) # filter (\<lambda>kv. fst kv \<noteq> k) kvs"

definition Get :: "string \<Rightarrow> 'z db_scheme \<Rightarrow> string option" where
  "Get k d = map_of (db_settings d) k"

definition SetMany :: "(string \<times> string) list \<Rightarrow> 'z db_scheme \<Rightarrow> (store_err + unit) \<times> 'z db_scheme" where
  "SetMany vals d =
     (if vals = [] then (Inr (), d)
      else configWrite
        (\<lambda>d. Inr ((), d\<lparr>db_settings := fold (\<lambda>(k, v). settingUpsert k v) vals (db_settings d)\<rparr>)) d)"

definition SetSetting :: "string \<Rightarrow> string \<Rightarrow> 'z db_scheme \<Rightarrow> (store_err + unit) \<times> 'z db_scheme" where
  "SetSetting k v = SetMany [(k, v)]"

definition SetInternal :: "string \<Rightarrow> string \<Rightarrow> 'z db_scheme \<Rightarrow> (store_err + unit) \<times> 'z db_scheme" where
  "SetInternal k v d = (Inr (), d\<lparr>db_settings := settingUpsert k v (db_settings d)\<rparr>)"

definition SeedDefaults :: "(string \<times> string) list \<Rightarrow> 'z db_scheme \<Rightarrow> (store_err + unit) \<times> 'z db_scheme" where
  "SeedDefaults defaults d =
     (Inr (), d\<lparr>db_settings := fold (\<lambda>(k, v) kvs. if map_of kvs k = None then (k, v) # kvs else kvs)
                                 defaults (db_settings d)\<rparr>)"

section \<open>Groups and clients\<close>

definition AddGroup :: "string \<Rightarrow> 'z db_scheme \<Rightarrow> (store_err + int) \<times> 'z db_scheme" where
  "AddGroup name = configInsert (\<lambda>d. let k = seq_groups d + 1 in
     if name \<in> g_name ` set (db_groups d) then Inl ErrDuplicate
     else Inr (k, d\<lparr>seq_groups := k, db_groups := db_groups d @ [\<lparr>g_id = k, g_name = name, g_enabled = True\<rparr>]\<rparr>))"

definition AddClient :: "string \<Rightarrow> string \<Rightarrow> int \<Rightarrow> 'z db_scheme \<Rightarrow> (store_err + int) \<times> 'z db_scheme" where
  "AddClient name matcher gid = configInsert (\<lambda>d. let k = seq_clients d + 1 in
     if matcher \<in> c_matcher ` set (db_clients d) then Inl ErrDuplicate
     else if gid \<notin> g_id ` set (db_groups d) then Inl ErrReference
     else Inr (k, d\<lparr>seq_clients := k, db_clients := db_clients d @
                   [\<lparr>c_id = k, c_name = name, c_matcher = matcher, c_group = gid\<rparr>]\<rparr>))"

definition UpdateClient :: "client_row \<Rightarrow> 'z db_scheme \<Rightarrow> (store_err + unit) \<times> 'z db_scheme" where
  "UpdateClient cl = configExecOne (\<lambda>d.
     if c_id cl \<notin> c_id ` set (db_clients d) then Inr (0, d)
     else if \<exists>c \<in> set (db_clients d). c_matcher c = c_matcher cl \<and> c_id c \<noteq> c_id cl then Inl ErrDuplicate
     else if c_group cl \<notin> g_id ` set (db_groups d) then Inl ErrReference
     else Inr (1, d\<lparr>db_clients := map (\<lambda>c. if c_id c = c_id cl then cl else c) (db_clients d)\<rparr>))"

definition DeleteClient :: "int \<Rightarrow> 'z db_scheme \<Rightarrow> (store_err + unit) \<times> 'z db_scheme" where
  "DeleteClient i = configExecOne (\<lambda>d.
     Inr (length (filter (\<lambda>c. c_id c = i) (db_clients d)),
          d\<lparr>db_clients := filter (\<lambda>c. c_id c \<noteq> i) (db_clients d)\<rparr>))"

definition RenameGroup :: "int \<Rightarrow> string \<Rightarrow> 'z db_scheme \<Rightarrow> (store_err + unit) \<times> 'z db_scheme" where
  "RenameGroup i name = configExecOne (\<lambda>d.
     if i \<notin> g_id ` set (db_groups d) then Inr (0, d)
     else if \<exists>g \<in> set (db_groups d). g_name g = name \<and> g_id g \<noteq> i then Inl ErrDuplicate
     else Inr (1, d\<lparr>db_groups := map (\<lambda>g. if g_id g = i then g\<lparr>g_name := name\<rparr> else g) (db_groups d)\<rparr>))"

definition SetGroupEnabled :: "int \<Rightarrow> bool \<Rightarrow> 'z db_scheme \<Rightarrow> (store_err + unit) \<times> 'z db_scheme" where
  "SetGroupEnabled i b = configExecOne (\<lambda>d.
     Inr (length (filter (\<lambda>g. g_id g = i) (db_groups d)),
          d\<lparr>db_groups := map (\<lambda>g. if g_id g = i then g\<lparr>g_enabled := b\<rparr> else g) (db_groups d)\<rparr>))"

definition deleteGroup_tx :: "int \<Rightarrow> 'z db_scheme \<Rightarrow> store_err + unit \<times> 'z db_scheme" where
  "deleteGroup_tx i d =
     (if \<exists>c \<in> set (db_clients d). c_group c = i then Inl ErrInUse
      else let d = d\<lparr>db_group_lists := filter (\<lambda>gl. fst gl \<noteq> i) (db_group_lists d),
                     db_rules := filter (\<lambda>r. sr_group r \<noteq> i) (db_rules d)\<rparr>
           in if i \<notin> g_id ` set (db_groups d) then Inl ErrNotFound
              else Inr ((), d\<lparr>db_groups := filter (\<lambda>g. g_id g \<noteq> i) (db_groups d)\<rparr>))"

definition DeleteGroup :: "int \<Rightarrow> 'z db_scheme \<Rightarrow> (store_err + unit) \<times> 'z db_scheme" where
  "DeleteGroup i d = (if i = 1 then (Inl ErrInUse, d) else configWrite (deleteGroup_tx i) d)"

section \<open>Lists and rules\<close>

definition AddList :: "string \<Rightarrow> string \<Rightarrow> string \<Rightarrow> bool \<Rightarrow> 'z db_scheme \<Rightarrow> (store_err + int) \<times> 'z db_scheme" where
  "AddList url name kind enabled = configInsert (\<lambda>d. let k = seq_lists d + 1 in
     if url \<in> l_url ` set (db_lists d) then Inl ErrDuplicate
     else Inr (k, d\<lparr>seq_lists := k, db_lists := db_lists d @
       [\<lparr>l_id = k, l_url = url, l_name = TrimSpace name, l_kind = kind, l_enabled = enabled,
         l_last_refreshed = 0, l_entry_count = 0, l_last_status = ListStatusPending,
         l_last_error = NoReason, l_last_attempt = 0\<rparr>]\<rparr>))"

definition upd_list :: "int \<Rightarrow> (list_row \<Rightarrow> list_row) \<Rightarrow> 'z db_scheme \<Rightarrow> nat \<times> 'z db_scheme" where
  "upd_list i f d =
     (length (filter (\<lambda>l. l_id l = i) (db_lists d)),
      d\<lparr>db_lists := map (\<lambda>l. if l_id l = i then f l else l) (db_lists d)\<rparr>)"

definition RenameList :: "int \<Rightarrow> string \<Rightarrow> 'z db_scheme \<Rightarrow> (store_err + unit) \<times> 'z db_scheme" where
  "RenameList i name = configExecOne (\<lambda>d. Inr (upd_list i (\<lambda>l. l\<lparr>l_name := TrimSpace name\<rparr>) d))"

definition SetListEnabled :: "int \<Rightarrow> bool \<Rightarrow> 'z db_scheme \<Rightarrow> (store_err + unit) \<times> 'z db_scheme" where
  "SetListEnabled i b = configExecOne (\<lambda>d. Inr (upd_list i (\<lambda>l. l\<lparr>l_enabled := b\<rparr>) d))"

definition insert_assignment :: "int \<Rightarrow> int \<Rightarrow> 'z db_scheme \<Rightarrow> store_err + 'z db_scheme" where
  "insert_assignment gid lid d =
     (if (gid, lid) \<in> set (db_group_lists d) then Inl ErrDuplicate
      else if gid \<notin> g_id ` set (db_groups d) \<or> lid \<notin> l_id ` set (db_lists d) then Inl ErrReference
      else Inr (d\<lparr>db_group_lists := db_group_lists d @ [(gid, lid)]\<rparr>))"

definition AssignList :: "int \<Rightarrow> int \<Rightarrow> 'z db_scheme \<Rightarrow> (store_err + unit) \<times> 'z db_scheme" where
  "AssignList gid lid = configWrite (\<lambda>d. case insert_assignment gid lid d of Inl e \<Rightarrow> Inl e | Inr d' \<Rightarrow> Inr ((), d'))"

definition UnassignList :: "int \<Rightarrow> int \<Rightarrow> 'z db_scheme \<Rightarrow> (store_err + unit) \<times> 'z db_scheme" where
  "UnassignList gid lid = configExecOne (\<lambda>d.
     Inr (length (filter (\<lambda>gl. gl = (gid, lid)) (db_group_lists d)),
          d\<lparr>db_group_lists := filter (\<lambda>gl. gl \<noteq> (gid, lid)) (db_group_lists d)\<rparr>))"

text \<open>The loop of \<open>replaceGroupLists\<close>, with the ids already seen.\<close>

fun assign_loop :: "int \<Rightarrow> int list \<Rightarrow> int list \<Rightarrow> 'z db_scheme \<Rightarrow> store_err + 'z db_scheme" where
  "assign_loop gid seen [] d = Inr d"
| "assign_loop gid seen (i # is) d =
     (if i \<in> set seen then assign_loop gid seen is d
      else if i \<notin> l_id ` set (db_lists d) then Inl (MissingRef ''list'' i)
      else case insert_assignment gid i d of
             Inl e \<Rightarrow> Inl e
           | Inr d' \<Rightarrow> assign_loop gid (i # seen) is d')"

definition replaceGroupLists_tx :: "int \<Rightarrow> int list \<Rightarrow> 'z db_scheme \<Rightarrow> store_err + unit \<times> 'z db_scheme" where
  "replaceGroupLists_tx gid listIDs d =
     (if gid \<notin> g_id ` set (db_groups d) then Inl ErrNotFound
      else case assign_loop gid [] listIDs
                  (d\<lparr>db_group_lists := filter (\<lambda>gl. fst gl \<noteq> gid) (db_group_lists d)\<rparr>) of
             Inl e \<Rightarrow> Inl e
           | Inr d' \<Rightarrow> Inr ((), d'))"

definition ReplaceGroupLists :: "int \<Rightarrow> int list \<Rightarrow> 'z db_scheme \<Rightarrow> (store_err + unit) \<times> 'z db_scheme" where
  "ReplaceGroupLists gid listIDs = configWrite (replaceGroupLists_tx gid listIDs)"

definition DeleteList :: "int \<Rightarrow> 'z db_scheme \<Rightarrow> (store_err + unit) \<times> 'z db_scheme" where
  "DeleteList i = configWrite (\<lambda>d.
     let d = d\<lparr>db_group_lists := filter (\<lambda>gl. snd gl \<noteq> i) (db_group_lists d)\<rparr>
     in if i \<notin> l_id ` set (db_lists d) then Inl ErrNotFound
        else Inr ((), d\<lparr>db_lists := filter (\<lambda>l. l_id l \<noteq> i) (db_lists d)\<rparr>))"

definition AddRule :: "int \<Rightarrow> string \<Rightarrow> string \<Rightarrow> bool \<Rightarrow> 'z db_scheme \<Rightarrow> (store_err + int) \<times> 'z db_scheme" where
  "AddRule gid action pattern rx = configInsert (\<lambda>d. let k = seq_rules d + 1 in
     if gid \<notin> g_id ` set (db_groups d) then Inl ErrReference
     else Inr (k, d\<lparr>seq_rules := k, db_rules := db_rules d @
        [\<lparr>sr_id = k, sr_group = gid, sr_action = action, sr_pattern = pattern, sr_regex = rx\<rparr>]\<rparr>))"

definition DeleteRule :: "int \<Rightarrow> 'z db_scheme \<Rightarrow> (store_err + unit) \<times> 'z db_scheme" where
  "DeleteRule i = configExecOne (\<lambda>d.
     Inr (length (filter (\<lambda>r. sr_id r = i) (db_rules d)),
          d\<lparr>db_rules := filter (\<lambda>r. sr_id r \<noteq> i) (db_rules d)\<rparr>))"

text \<open>The outcome of a refresh is state, not configuration: these three move no version.\<close>

definition TouchList :: "int \<Rightarrow> int \<Rightarrow> int \<Rightarrow> 'z db_scheme \<Rightarrow> 'z db_scheme" where
  "TouchList i refreshedAt entryCount d =
     snd (upd_list i (\<lambda>l. l\<lparr>l_last_refreshed := refreshedAt, l_last_attempt := refreshedAt,
       l_entry_count := entryCount, l_last_status := ListStatusOK, l_last_error := NoReason\<rparr>) d)"

definition MarkListFailed :: "int \<Rightarrow> int \<Rightarrow> int \<Rightarrow> why \<Rightarrow> 'z db_scheme \<Rightarrow> 'z db_scheme" where
  "MarkListFailed i attemptedAt entryCount reason d =
     snd (upd_list i (\<lambda>l. l\<lparr>l_last_attempt := attemptedAt, l_entry_count := entryCount,
       l_last_status := (if entryCount > 0 then ListStatusStale else ListStatusFailed),
       l_last_error := reason\<rparr>) d)"

definition MarkListEmpty :: "int \<Rightarrow> int \<Rightarrow> why \<Rightarrow> 'z db_scheme \<Rightarrow> 'z db_scheme" where
  "MarkListEmpty i refreshedAt reason d =
     snd (upd_list i (\<lambda>l. l\<lparr>l_last_refreshed := refreshedAt, l_last_attempt := refreshedAt,
       l_entry_count := 0, l_last_status := ListStatusEmpty, l_last_error := reason\<rparr>) d)"

definition Groups :: "'z db_scheme \<Rightarrow> group_row list" where
  "Groups d = db_groups d"

definition Clients :: "'z db_scheme \<Rightarrow> client_row list" where
  "Clients d = db_clients d"

definition ListsForGroup :: "int \<Rightarrow> 'z db_scheme \<Rightarrow> list_row list" where
  "ListsForGroup gid d = filter (\<lambda>l. (gid, l_id l) \<in> set (db_group_lists d)) (db_lists d)"

definition Rules :: "int \<Rightarrow> 'z db_scheme \<Rightarrow> store_rule list" where
  "Rules gid d = filter (\<lambda>r. sr_group r = gid) (db_rules d)"

section \<open>Operations as data\<close>

datatype config_op =
    OpSetMany "(string \<times> string) list"
  | OpAddGroup string
  | OpRenameGroup int string
  | OpSetGroupEnabled int bool
  | OpDeleteGroup int
  | OpAddClient string string int
  | OpUpdateClient client_row
  | OpDeleteClient int
  | OpAddList string string string bool
  | OpRenameList int string
  | OpSetListEnabled int bool
  | OpDeleteList int
  | OpAssignList int int
  | OpUnassignList int int
  | OpReplaceGroupLists int "int list"
  | OpAddRule int string string bool
  | OpDeleteRule int

definition void :: "(store_err + 'a) \<times> 'z db_scheme \<Rightarrow> store_err option \<times> 'z db_scheme" where
  "void r = (case r of (Inl e, d) \<Rightarrow> (Some e, d) | (Inr _, d) \<Rightarrow> (None, d))"

primrec config_exec :: "config_op \<Rightarrow> 'z db_scheme \<Rightarrow> store_err option \<times> 'z db_scheme" where
  "config_exec (OpSetMany kvs) d = void (SetMany kvs d)"
| "config_exec (OpAddGroup n) d = void (AddGroup n d)"
| "config_exec (OpRenameGroup i n) d = void (RenameGroup i n d)"
| "config_exec (OpSetGroupEnabled i b) d = void (SetGroupEnabled i b d)"
| "config_exec (OpDeleteGroup i) d = void (DeleteGroup i d)"
| "config_exec (OpAddClient n m g) d = void (AddClient n m g d)"
| "config_exec (OpUpdateClient c) d = void (UpdateClient c d)"
| "config_exec (OpDeleteClient i) d = void (DeleteClient i d)"
| "config_exec (OpAddList u n k b) d = void (AddList u n k b d)"
| "config_exec (OpRenameList i n) d = void (RenameList i n d)"
| "config_exec (OpSetListEnabled i b) d = void (SetListEnabled i b d)"
| "config_exec (OpDeleteList i) d = void (DeleteList i d)"
| "config_exec (OpAssignList g l) d = void (AssignList g l d)"
| "config_exec (OpUnassignList g l) d = void (UnassignList g l d)"
| "config_exec (OpReplaceGroupLists g ls) d = void (ReplaceGroupLists g ls d)"
| "config_exec (OpAddRule g a p rx) d = void (AddRule g a p rx d)"
| "config_exec (OpDeleteRule i) d = void (DeleteRule i d)"

section \<open>The invariant of the tables\<close>

text \<open>Unique keys, resolved references, ids below their sequence, and the default group in place.\<close>

definition keys_ok :: "('r \<Rightarrow> int) \<Rightarrow> int \<Rightarrow> 'r list \<Rightarrow> bool" where
  "keys_ok k sq rows \<longleftrightarrow> distinct (map k rows) \<and> (\<forall>r \<in> set rows. k r \<le> sq)"

definition refs_ok :: "'z db_scheme \<Rightarrow> bool" where
  "refs_ok d \<longleftrightarrow>
     (\<forall>c \<in> set (db_clients d). c_group c \<in> g_id ` set (db_groups d)) \<and>
     (\<forall>r \<in> set (db_rules d). sr_group r \<in> g_id ` set (db_groups d)) \<and>
     (\<forall>(g, l) \<in> set (db_group_lists d). g \<in> g_id ` set (db_groups d) \<and> l \<in> l_id ` set (db_lists d))"

definition db_ok :: "'z db_scheme \<Rightarrow> bool" where
  "db_ok d \<longleftrightarrow>
     keys_ok g_id (seq_groups d) (db_groups d) \<and> distinct (map g_name (db_groups d)) \<and>
     1 \<in> g_id ` set (db_groups d) \<and>
     keys_ok c_id (seq_clients d) (db_clients d) \<and> distinct (map c_matcher (db_clients d)) \<and>
     keys_ok l_id (seq_lists d) (db_lists d) \<and> distinct (map l_url (db_lists d)) \<and>
     keys_ok sr_id (seq_rules d) (db_rules d) \<and> distinct (db_group_lists d) \<and>
     refs_ok d"

lemma keys_ok_snoc: "keys_ok k sq rows \<Longrightarrow> k r = sq + 1 \<Longrightarrow> keys_ok k (sq + 1) (rows @ [r])"
  by (force simp: keys_ok_def)

lemma keys_ok_filter: "keys_ok k sq rows \<Longrightarrow> keys_ok k sq (filter P rows)"
  by (auto simp: keys_ok_def distinct_map_filter)

lemma keys_ok_map: "keys_ok k sq rows \<Longrightarrow> (\<And>r. k (f r) = k r) \<Longrightarrow> keys_ok k sq (map f rows)"
  by (auto simp: keys_ok_def comp_def)

lemmas keys_ok_rules = keys_ok_snoc keys_ok_filter keys_ok_map

text \<open>Replacing the row of one id keeps a unique column unique when no other row has the new value.\<close>

lemma distinct_map_replace:
  assumes "distinct (map key rows)" "distinct (map u rows)"
    and "\<forall>r \<in> set rows. key r \<noteq> i \<longrightarrow> u r \<noteq> v" "\<And>r. key r = i \<Longrightarrow> u (f r) = v"
  shows "distinct (map u (map (\<lambda>r. if key r = i then f r else r) rows))"
  using assms
proof (induction rows)
  case (Cons r rows)
  have "distinct (map u (map (\<lambda>r. if key r = i then f r else r) rows))" using Cons by simp
  moreover have "u (if key r = i then f r else r) \<noteq> u (if key x = i then f x else x)" if x: "x \<in> set rows" for x
  proof -
    have "key x \<in> key ` set rows" "u x \<in> u ` set rows" using x by auto
    then have kx: "key x \<noteq> key r" "u x \<noteq> u r" using Cons.prems(1,2) by auto
    show ?thesis
    proof (cases "key r = i")
      case True
      with kx Cons.prems(3,4) x show ?thesis by (metis list.set_intros(2))
    next
      case False
      with kx Cons.prems(3,4) show ?thesis by (metis list.set_intros(1))
    qed
  qed
  ultimately show ?case by (auto simp: comp_def image_iff)
qed simp

lemma map_same: "(\<And>r. u (f r) = u r) \<Longrightarrow> map u (map (\<lambda>r. if P r then f r else r) rows) = map u rows"
  by simp

section \<open>The contract of a configuration write\<close>

text \<open>
  Every operation the API calls on these tables promises the same: it keeps the invariant, an error
  leaves the database as it was, and a change advances the version by exactly one and tells every
  subscriber that has room.
\<close>

definition version_moved :: "'z db_scheme \<Rightarrow> 'z db_scheme \<Rightarrow> bool" where
  "version_moved d d' \<longleftrightarrow>
     db_version d' = db_version d + 1 \<and>
     db_subs d' = map (\<lambda>ch. if length ch < 8 then ch @ [db_version d'] else ch) (db_subs d)"

locale config_operation =
  fixes run :: "'z db_scheme \<Rightarrow> (store_err + 'a) \<times> 'z db_scheme"
  assumes keeps: "db_ok d \<Longrightarrow> db_ok (snd (run d))"
    and atomic: "fst (run d) = Inl e \<Longrightarrow> snd (run d) = d"
    and moves: "snd (run d) = d \<or> version_moved d (snd (run d))"
begin

lemma contract:
  assumes "db_ok d"
  shows "db_ok (snd (void (run d)))"
    and "fst (void (run d)) \<noteq> None \<Longrightarrow> snd (void (run d)) = d"
    and "snd (void (run d)) = d \<or> version_moved d (snd (void (run d)))"
  using keeps [OF assms] atomic [of d] moves [of d]
  by (auto simp: void_def split: prod.splits sum.splits)

end

text \<open>A transaction meets the contract when its body keeps the invariant, the version and the
  subscribers.\<close>

definition tx_ok :: "('z db_scheme \<Rightarrow> store_err + 'a \<times> 'z db_scheme) \<Rightarrow> bool" where
  "tx_ok fn \<longleftrightarrow> (\<forall>d a d'. fn d = Inr (a, d') \<longrightarrow>
     db_version d' = db_version d \<and> db_subs d' = db_subs d \<and> (db_ok d \<longrightarrow> db_ok d'))"

lemma db_ok_bump [simp]:
  "db_ok (bumpVersionTx d) = db_ok d" "db_ok (publish v d) = db_ok d"
  by (simp_all add: db_ok_def refs_ok_def bumpVersionTx_def publish_def)

lemma configWrite_Inr:
  "configWrite fn d = (Inr a, d') \<longleftrightarrow>
     (\<exists>d1. fn d = Inr (a, d1) \<and> d' = publish (db_version d1 + 1) (bumpVersionTx d1))"
  by (auto simp: configWrite_def bumpVersionTx_def Let_def split: sum.splits prod.splits)

lemma config_write_contract:
  assumes "tx_ok fn"
  shows "config_operation (configWrite fn)"
proof
  fix d
  show "db_ok d \<Longrightarrow> db_ok (snd (configWrite fn d))"
    using assms by (auto simp: configWrite_def tx_ok_def Let_def split: sum.splits prod.splits)
  show "fst (configWrite fn d) = Inl e \<Longrightarrow> snd (configWrite fn d) = d" for e
    by (auto simp: configWrite_def Let_def split: sum.splits prod.splits)
  show "snd (configWrite fn d) = d \<or> version_moved d (snd (configWrite fn d))"
    using assms by (auto simp: configWrite_def tx_ok_def Let_def version_moved_def bumpVersionTx_def publish_def
        split: sum.splits prod.splits)
qed

lemma configExecOne_cases:
  "configExecOne st d =
     (case st d of
        Inl e \<Rightarrow> (Inl e, d)
      | Inr (n, d') \<Rightarrow> if n = 0 then (Inl ErrNotFound, d)
                       else (Inr (), publish (db_version d' + 1) (bumpVersionTx d')))"
  by (cases "st d")
     (auto simp: configExecOne_def configExecN_def configWrite_def bumpVersionTx_def Let_def split: nat.splits)

lemma config_exec_contract:
  assumes "tx_ok st"
  shows "config_operation (configExecOne st)"
proof
  fix d
  show "db_ok d \<Longrightarrow> db_ok (snd (configExecOne st d))"
    using assms by (auto simp: configExecOne_cases tx_ok_def split: sum.splits prod.splits)
  show "fst (configExecOne st d) = Inl e \<Longrightarrow> snd (configExecOne st d) = d" for e
    by (auto simp: configExecOne_cases split: sum.splits prod.splits if_splits)
  show "snd (configExecOne st d) = d \<or> version_moved d (snd (configExecOne st d))"
    using assms by (auto simp: configExecOne_cases tx_ok_def version_moved_def bumpVersionTx_def publish_def
        split: sum.splits prod.splits)
qed

section \<open>Every operation meets the contract\<close>

lemma tx_okI:
  assumes "\<And>d a d'. fn d = Inr (a, d') \<Longrightarrow> db_version d' = db_version d \<and> db_subs d' = db_subs d"
    and "\<And>d a d'. fn d = Inr (a, d') \<Longrightarrow> db_ok d \<Longrightarrow> db_ok d'"
  shows "tx_ok fn"
  using assms unfolding tx_ok_def by blast

lemma db_ok_settings: "db_ok d \<Longrightarrow> db_ok (d\<lparr>db_settings := kvs\<rparr>)"
  by (simp add: db_ok_def refs_ok_def)

lemma db_ok_groups:
  assumes "db_ok d" "keys_ok g_id sq gs" "distinct (map g_name gs)" "g_id ` set (db_groups d) \<subseteq> g_id ` set gs"
  shows "db_ok (d\<lparr>seq_groups := sq, db_groups := gs\<rparr>)"
  using assms unfolding db_ok_def refs_ok_def by (auto; blast)

lemma db_ok_clients:
  assumes "db_ok d" "keys_ok c_id sq cs" "distinct (map c_matcher cs)"
    "\<forall>c \<in> set cs. c_group c \<in> g_id ` set (db_groups d)"
  shows "db_ok (d\<lparr>seq_clients := sq, db_clients := cs\<rparr>)"
  using assms by (simp add: db_ok_def refs_ok_def)

lemma db_ok_lists:
  assumes "db_ok d" "keys_ok l_id sq ls" "distinct (map l_url ls)" "l_id ` set (db_lists d) \<subseteq> l_id ` set ls"
  shows "db_ok (d\<lparr>seq_lists := sq, db_lists := ls\<rparr>)"
  using assms unfolding db_ok_def refs_ok_def by (auto; blast)

lemma db_ok_rules:
  assumes "db_ok d" "keys_ok sr_id sq rs" "\<forall>r \<in> set rs. sr_group r \<in> g_id ` set (db_groups d)"
  shows "db_ok (d\<lparr>seq_rules := sq, db_rules := rs\<rparr>)"
  using assms by (simp add: db_ok_def refs_ok_def)

lemma db_ok_group_lists:
  assumes "db_ok d" "distinct gls"
    "\<forall>(g, l) \<in> set gls. g \<in> g_id ` set (db_groups d) \<and> l \<in> l_id ` set (db_lists d)"
  shows "db_ok (d\<lparr>db_group_lists := gls\<rparr>)"
  using assms by (simp add: db_ok_def refs_ok_def)

text \<open>The same lemmas for an update that leaves the sequence alone.\<close>

lemma seq_id [simp]:
  "d\<lparr>seq_groups := seq_groups d\<rparr> = d" "d\<lparr>seq_clients := seq_clients d\<rparr> = d"
  "d\<lparr>seq_lists := seq_lists d\<rparr> = d" "d\<lparr>seq_rules := seq_rules d\<rparr> = d" for d :: "'z db_scheme"
  by simp_all

lemmas db_ok_groups' = db_ok_groups [where sq = "seq_groups d" and d = d for d, simplified]
lemmas db_ok_clients' = db_ok_clients [where sq = "seq_clients d" and d = d for d, simplified]
lemmas db_ok_lists' = db_ok_lists [where sq = "seq_lists d" and d = d for d, simplified]
lemmas db_ok_rules' = db_ok_rules [where sq = "seq_rules d" and d = d for d, simplified]

lemma db_okD:
  assumes "db_ok d"
  shows "keys_ok g_id (seq_groups d) (db_groups d)" "distinct (map g_name (db_groups d))"
    "keys_ok c_id (seq_clients d) (db_clients d)" "distinct (map c_matcher (db_clients d))"
    "keys_ok l_id (seq_lists d) (db_lists d)" "distinct (map l_url (db_lists d))"
    "keys_ok sr_id (seq_rules d) (db_rules d)" "distinct (db_group_lists d)" "refs_ok d"
  using assms by (simp_all add: db_ok_def)

lemma db_ok_refs:
  "db_ok d \<Longrightarrow> c \<in> set (db_clients d) \<Longrightarrow> c_group c \<in> g_id ` set (db_groups d)"
  "db_ok d \<Longrightarrow> r \<in> set (db_rules d) \<Longrightarrow> sr_group r \<in> g_id ` set (db_groups d)"
  "db_ok d \<Longrightarrow> gl \<in> set (db_group_lists d) \<Longrightarrow>
     fst gl \<in> g_id ` set (db_groups d) \<and> snd gl \<in> l_id ` set (db_lists d)"
  using db_okD(9) by (fastforce simp: refs_ok_def)+

lemma subset_map_keep:
  "(\<And>r. k (f r) = k r) \<Longrightarrow> k ` set rows \<subseteq> k ` set (map (\<lambda>r. if P r then f r else r) rows)"
proof -
  assume "\<And>r. k (f r) = k r"
  then have "map k (map (\<lambda>r. if P r then f r else r) rows) = map k rows" by simp
  then have "k ` set (map (\<lambda>r. if P r then f r else r) rows) = k ` set rows" by (metis set_map)
  then show ?thesis by simp
qed

lemma keys_distinct: "keys_ok k sq rows \<Longrightarrow> distinct (map k rows)"
  by (simp add: keys_ok_def)

interpretation SetMany: config_operation "SetMany kvs" for kvs
proof (cases "kvs = []")
  case True
  then show "config_operation (SetMany kvs)" by unfold_locales (simp_all add: SetMany_def)
next
  case False
  have "config_operation (configWrite (\<lambda>d. Inr ((), d\<lparr>db_settings := fold (\<lambda>(k, v). settingUpsert k v) kvs (db_settings d)\<rparr>)))"
    by (rule config_write_contract, rule tx_okI) (auto simp: db_ok_settings)
  with False show "config_operation (SetMany kvs)" by (simp add: SetMany_def [abs_def])
qed

interpretation AddGroup: config_operation "AddGroup n" for n
  unfolding AddGroup_def configInsert_def
  by (rule config_write_contract, rule tx_okI)
     (auto simp: Let_def split: if_splits intro!: db_ok_groups keys_ok_snoc dest: db_okD)

interpretation RenameGroup: config_operation "RenameGroup i n" for i n
  unfolding RenameGroup_def
proof (rule config_exec_contract, rule tx_okI, goal_cases)
  case (2 d a d')
  then have d': "d' = d\<lparr>db_groups := map (\<lambda>g. if g_id g = i then g\<lparr>g_name := n\<rparr> else g) (db_groups d)\<rparr>"
    and n: "\<forall>g \<in> set (db_groups d). g_id g \<noteq> i \<longrightarrow> g_name g \<noteq> n" if "d' \<noteq> d"
    using that by (auto split: if_splits)
  show ?case
  proof (cases "d' = d")
    case False
    show ?thesis
      unfolding d' [OF False]
      using 2(2) n [OF False]
      by (intro db_ok_groups' distinct_map_replace [where key = g_id and v = n] keys_ok_map subset_map_keep)
         (auto dest: db_okD intro: keys_distinct)
  qed (use 2(2) in simp)
qed (auto split: if_splits)

interpretation SetGroupEnabled: config_operation "SetGroupEnabled i b" for i b
  unfolding SetGroupEnabled_def
  by (rule config_exec_contract, rule tx_okI)
     (simp, clarsimp, intro db_ok_groups' keys_ok_map subset_map_keep, auto simp: comp_def if_distrib cong: if_cong dest: db_okD)

lemma deleteGroup_tx_ok:
  assumes "i \<noteq> 1"
  shows "tx_ok (deleteGroup_tx i)"
proof (rule tx_okI, goal_cases)
  case (2 d a d')
  from 2(1) have d': "d' = d\<lparr>db_group_lists := filter (\<lambda>gl. fst gl \<noteq> i) (db_group_lists d),
      db_rules := filter (\<lambda>r. sr_group r \<noteq> i) (db_rules d),
      db_groups := filter (\<lambda>g. g_id g \<noteq> i) (db_groups d)\<rparr>"
    and nc: "\<forall>c \<in> set (db_clients d). c_group c \<noteq> i"
    by (auto simp: deleteGroup_tx_def Let_def split: if_splits)
  have kept: "x \<in> g_id ` set (db_groups d') \<longleftrightarrow> x \<in> g_id ` set (db_groups d) \<and> x \<noteq> i" for x
    by (auto simp: d')
  have "refs_ok d'"
    using db_okD(9) [OF 2(2)] nc unfolding refs_ok_def kept by (auto simp: d')
  with 2(2) assms kept [of 1] show ?case
    by (auto simp: db_ok_def d' keys_ok_filter distinct_map_filter)
qed (auto simp: deleteGroup_tx_def Let_def split: if_splits)

interpretation DeleteGroup: config_operation "DeleteGroup i" for i
proof (cases "i = 1")
  case True
  then show "config_operation (DeleteGroup i)" by unfold_locales (simp_all add: DeleteGroup_def)
next
  case False
  then show "config_operation (DeleteGroup i)"
    by (simp add: DeleteGroup_def [abs_def] config_write_contract deleteGroup_tx_ok)
qed

interpretation AddClient: config_operation "AddClient n m g" for n m g
  unfolding AddClient_def configInsert_def
  by (rule config_write_contract, rule tx_okI)
     (auto simp: Let_def db_ok_refs split: if_splits intro!: db_ok_clients keys_ok_snoc dest: db_okD)

interpretation UpdateClient: config_operation "UpdateClient cl" for cl
  unfolding UpdateClient_def
proof (rule config_exec_contract, rule tx_okI, goal_cases)
  case (2 d a d')
  then have d': "d' = d\<lparr>db_clients := map (\<lambda>c. if c_id c = c_id cl then cl else c) (db_clients d)\<rparr>"
    and n: "\<forall>c \<in> set (db_clients d). c_id c \<noteq> c_id cl \<longrightarrow> c_matcher c \<noteq> c_matcher cl"
    and g: "c_group cl \<in> g_id ` set (db_groups d)" if "d' \<noteq> d"
    using that by (auto split: if_splits)
  show ?case
  proof (cases "d' = d")
    case False
    have k: "keys_ok c_id (seq_clients d) (map (\<lambda>c. if c_id c = c_id cl then cl else c) (db_clients d))"
      using 2(2) by (intro keys_ok_map) (auto dest: db_okD)
    have m: "distinct (map c_matcher (map (\<lambda>c. if c_id c = c_id cl then cl else c) (db_clients d)))"
      using n [OF False] 2(2)
      by (intro distinct_map_replace [where key = c_id and v = "c_matcher cl"]) (auto dest: db_okD intro: keys_distinct)
    show ?thesis
      unfolding d' [OF False]
      by (intro db_ok_clients' k m) (use 2(2) g [OF False] in \<open>auto dest!: db_okD(9) simp: refs_ok_def\<close>)
  qed (use 2(2) in simp)
qed (auto split: if_splits)

interpretation DeleteClient: config_operation "DeleteClient i" for i
  unfolding DeleteClient_def
  by (rule config_exec_contract, rule tx_okI)
     (simp, clarsimp, intro db_ok_clients', auto simp: keys_ok_filter distinct_map_filter refs_ok_def dest: db_okD)

interpretation AddList: config_operation "AddList u n k b" for u n k b
  unfolding AddList_def configInsert_def
  by (rule config_write_contract, rule tx_okI)
     (auto simp: Let_def split: if_splits intro!: db_ok_lists keys_ok_snoc dest: db_okD)

lemma tx_ok_upd_list:
  assumes "\<And>l. l_id (f l) = l_id l" "\<And>l. l_url (f l) = l_url l"
  shows "tx_ok (\<lambda>d. Inr (upd_list i f d))"
  by (rule tx_okI)
     (simp add: upd_list_def, clarsimp simp: upd_list_def, intro db_ok_lists' keys_ok_map subset_map_keep,
      auto simp: assms comp_def if_distrib cong: if_cong dest: db_okD)

interpretation RenameList: config_operation "RenameList i n" for i n
  unfolding RenameList_def by (rule config_exec_contract, rule tx_ok_upd_list) simp_all

interpretation SetListEnabled: config_operation "SetListEnabled i b" for i b
  unfolding SetListEnabled_def by (rule config_exec_contract, rule tx_ok_upd_list) simp_all

interpretation DeleteList: config_operation "DeleteList i" for i
  unfolding DeleteList_def
proof (rule config_write_contract, rule tx_okI, goal_cases)
  case (2 d a d')
  from 2(1) have d': "d' = d\<lparr>db_group_lists := filter (\<lambda>gl. snd gl \<noteq> i) (db_group_lists d),
      db_lists := filter (\<lambda>l. l_id l \<noteq> i) (db_lists d)\<rparr>"
    by (auto simp: Let_def split: if_splits)
  have "refs_ok d'" using db_okD(9) [OF 2(2)] by (auto simp: refs_ok_def d')
  with 2(2) show ?case by (auto simp: db_ok_def d' keys_ok_filter distinct_map_filter)
qed (auto simp: Let_def split: if_splits)

lemma insert_assignment_ok:
  assumes "insert_assignment g l d = Inr d'" "db_ok d"
  shows "db_ok d'"
  using assms db_okD(8,9) [OF assms(2)]
  by (auto simp: insert_assignment_def refs_ok_def split: if_splits intro!: db_ok_group_lists)

lemma insert_assignment_frame:
  "insert_assignment g l d = Inr d' \<Longrightarrow> d' = d\<lparr>db_group_lists := db_group_lists d @ [(g, l)]\<rparr>"
  by (auto simp: insert_assignment_def split: if_splits)

interpretation AssignList: config_operation "AssignList g l" for g l
  unfolding AssignList_def
  by (rule config_write_contract, rule tx_okI)
     (auto split: sum.splits dest: insert_assignment_frame intro: insert_assignment_ok)

interpretation UnassignList: config_operation "UnassignList g l" for g l
  unfolding UnassignList_def
  by (rule config_exec_contract, rule tx_okI)
     (simp, clarsimp, intro db_ok_group_lists, auto dest: db_okD(8) db_ok_refs(3))

lemma assign_loop_ok: "assign_loop g seen ls d = Inr d' \<Longrightarrow> db_ok d \<Longrightarrow> db_ok d'"
  by (induction g seen ls d rule: assign_loop.induct)
     (auto split: if_splits sum.splits intro: insert_assignment_ok)

lemma assign_loop_frame:
  "assign_loop g seen ls d = Inr d' \<Longrightarrow> \<exists>gls. d' = d\<lparr>db_group_lists := gls\<rparr>"
proof (induction g seen ls d rule: assign_loop.induct)
  case (2 g seen i "is" d)
  then show ?case
    by (auto split: if_splits sum.splits dest!: insert_assignment_frame)
qed (auto intro!: exI [of _ "db_group_lists d'"])

interpretation ReplaceGroupLists: config_operation "ReplaceGroupLists g ls" for g ls
  unfolding ReplaceGroupLists_def
proof (rule config_write_contract, rule tx_okI, goal_cases)
  case (1 d a d')
  then show ?case
    by (auto simp: replaceGroupLists_tx_def split: if_splits sum.splits dest!: assign_loop_frame)
next
  case (2 d a d')
  have "db_ok (d\<lparr>db_group_lists := filter (\<lambda>gl. fst gl \<noteq> g) (db_group_lists d)\<rparr>)"
    using 2(2) db_okD(8,9) [OF 2(2)] by (intro db_ok_group_lists) (auto simp: refs_ok_def)
  with 2(1) show ?case
    by (auto simp: replaceGroupLists_tx_def split: if_splits sum.splits dest: assign_loop_ok)
qed

interpretation AddRule: config_operation "AddRule g a p rx" for g a p rx
  unfolding AddRule_def configInsert_def
  by (rule config_write_contract, rule tx_okI)
     (auto simp: Let_def db_ok_refs split: if_splits intro!: db_ok_rules keys_ok_snoc dest: db_okD)

interpretation DeleteRule: config_operation "DeleteRule i" for i
  unfolding DeleteRule_def
  by (rule config_exec_contract, rule tx_okI)
     (simp, clarsimp, intro db_ok_rules', auto simp: keys_ok_filter refs_ok_def dest: db_okD)

section \<open>Properties\<close>

lemma config_contract:
  assumes "config_operation run" "db_ok d"
  shows "db_ok (snd (void (run d))) \<and> (fst (void (run d)) \<noteq> None \<longrightarrow> snd (void (run d)) = d) \<and>
    (snd (void (run d)) = d \<or> version_moved d (snd (void (run d))))"
  using config_operation.contract [OF assms] by blast

lemmas config_operations =
  SetMany.config_operation_axioms AddGroup.config_operation_axioms RenameGroup.config_operation_axioms
  SetGroupEnabled.config_operation_axioms DeleteGroup.config_operation_axioms
  AddClient.config_operation_axioms UpdateClient.config_operation_axioms DeleteClient.config_operation_axioms
  AddList.config_operation_axioms RenameList.config_operation_axioms SetListEnabled.config_operation_axioms
  DeleteList.config_operation_axioms AssignList.config_operation_axioms UnassignList.config_operation_axioms
  ReplaceGroupLists.config_operation_axioms AddRule.config_operation_axioms DeleteRule.config_operation_axioms

lemma config_exec_contract_all:
  assumes "db_ok d"
  shows "db_ok (snd (config_exec op d)) \<and>
    (fst (config_exec op d) \<noteq> None \<longrightarrow> snd (config_exec op d) = d) \<and>
    (snd (config_exec op d) = d \<or> version_moved d (snd (config_exec op d)))"
  by (cases op; simp only: config_exec.simps; rule config_contract [OF _ assms]; rule config_operations)

text \<open>The histories: any operation may follow, whatever its outcome; the count is of those that changed
  the database.\<close>

inductive config_steps :: "'z db_scheme \<Rightarrow> nat \<Rightarrow> 'z db_scheme \<Rightarrow> bool" where
  config_start: "config_steps d 0 d"
| config_step: "config_steps d n d' \<Longrightarrow> config_exec op d' = (r, d'') \<Longrightarrow>
     config_steps d (if d'' = d' then n else Suc n) d''"

text \<open>C10: every history of configuration writes keeps the tables consistent.  From a consistent database,
  after any sequence of the seventeen operations, successful or not, every key is unique, every
  reference resolves and the default group exists; the version has advanced once for every operation
  that changed anything and for no other, and an operation that fails changes nothing.\<close>

theorem config_history:
  assumes "db_ok d" "config_steps d n d'"
  shows "db_ok d' \<and> db_version d' = db_version d + int n \<and>
    (\<forall>op e. fst (config_exec op d') = Some e \<longrightarrow> snd (config_exec op d') = d')"
proof -
  from assms(2,1) have inv: "db_ok d' \<and> db_version d' = db_version d + int n"
  proof (induction rule: config_steps.induct)
    case (config_step d n d' op r d'')
    then have ok: "db_ok d'" and ver: "db_version d' = db_version d + int n" by simp_all
    from config_exec_contract_all [OF ok, of op] config_step.hyps(2) have "db_ok d''"
      and "d'' = d' \<or> version_moved d' d''" by simp_all
    with ver show ?case by (auto simp: version_moved_def)
  qed simp
  with config_exec_contract_all show ?thesis by (metis option.distinct(1))
qed

definition ex_db :: db where
  "ex_db = \<lparr>db_version = 4, db_subs = [[]], db_settings = [],
     db_groups = [\<lparr>g_id = 1, g_name = ''default'', g_enabled = True\<rparr>], db_clients = [],
     db_lists = [\<lparr>l_id = 3, l_url = ''u'', l_name = [], l_kind = ''block'', l_enabled = True, l_last_refreshed = 0,
        l_entry_count = 0, l_last_status = ListStatusPending, l_last_error = NoReason, l_last_attempt = 0\<rparr>],
     db_group_lists = [], db_rules = [], seq_groups = 1, seq_clients = 0, seq_lists = 3, seq_rules = 0\<rparr>"

lemma ex_db_ok: "db_ok ex_db"
  by (simp add: ex_db_def db_ok_def refs_ok_def keys_ok_def)

theorem config_history_witness:
  "db_ok (snd (config_exec (OpReplaceGroupLists 1 [3, 3]) ex_db)) \<and>
   db_version (snd (config_exec (OpReplaceGroupLists 1 [3, 3]) ex_db)) = 5"
proof -
  let ?d = "snd (config_exec (OpReplaceGroupLists 1 [3, 3]) ex_db)"
  have v: "db_version ?d = 5" by code_simp
  have "config_exec (OpReplaceGroupLists 1 [3, 3]) ex_db = (fst (config_exec (OpReplaceGroupLists 1 [3, 3]) ex_db), ?d)"
    by simp
  from config_step [OF config_start this] have "config_steps ex_db (if ?d = ex_db then 0 else Suc 0) ?d" .
  with config_history [OF ex_db_ok] v show ?thesis by blast
qed

lemma assign_loop_Inr:
  assumes "assign_loop g seen ids d = Inr d'"
  shows "set ids \<subseteq> set seen \<union> l_id ` set (db_lists d) \<and>
    set (db_group_lists d') = set (db_group_lists d) \<union> Pair g ` (set ids - set seen)"
  using assms
proof (induction g seen ids d rule: assign_loop.induct)
  case (2 g seen i "is" d)
  show ?case
  proof (cases "i \<in> set seen")
    case False
    with "2.prems" obtain d1 where d1: "insert_assignment g i d = Inr d1" "i \<in> l_id ` set (db_lists d)"
      "assign_loop g (i # seen) is d1 = Inr d'" by (auto split: if_splits sum.splits)
    from "2.IH"(2) [OF False _ d1(1,3)] d1(2) insert_assignment_frame [OF d1(1)] False show ?thesis by auto
  qed (use 2 in auto)
qed simp

lemma assign_loop_Inl:
  assumes "assign_loop g seen ids d = Inl e" "g \<in> g_id ` set (db_groups d)"
    "\<forall>i. (g, i) \<in> set (db_group_lists d) \<longrightarrow> i \<in> set seen"
  shows "e = MissingRef ''list'' (hd (filter (\<lambda>i. i \<notin> set seen \<and> i \<notin> l_id ` set (db_lists d)) ids)) \<and>
    \<not> set ids \<subseteq> set seen \<union> l_id ` set (db_lists d)"
  using assms
proof (induction g seen ids d rule: assign_loop.induct)
  case (2 g seen i "is" d)
  show ?case
  proof (cases "i \<in> set seen \<or> i \<notin> l_id ` set (db_lists d)")
    case False
    with "2.prems" obtain d1 where d1: "insert_assignment g i d = Inr d1" "assign_loop g (i # seen) is d1 = Inl e"
      by (auto simp: insert_assignment_def split: if_splits sum.splits)
    note fr = insert_assignment_frame [OF d1(1)]
    have eq: "filter (\<lambda>x. x \<notin> set (i # seen) \<and> x \<notin> l_id ` set (db_lists d)) is =
        filter (\<lambda>x. x \<notin> set seen \<and> x \<notin> l_id ` set (db_lists d)) is"
      using False by (intro filter_cong) auto
    have same: "db_lists d1 = db_lists d" using fr by simp
    have "e = MissingRef ''list'' (hd (filter (\<lambda>x. x \<notin> set (i # seen) \<and> x \<notin> l_id ` set (db_lists d1)) is)) \<and>
      \<not> set is \<subseteq> set (i # seen) \<union> l_id ` set (db_lists d1)"
      using "2.IH"(2) [OF _ _ d1] False "2.prems"(2,3) fr by auto
    then show ?thesis using False unfolding same eq by auto
  qed (use 2 in \<open>auto split: if_splits\<close>)
qed simp

text \<open>Replacing a group's lists is all or nothing.  The new assignments of the group are exactly the
  requested lists, each once, and other groups keep theirs; when a requested list does not exist, the
  first missing one is named, when the group does not exist the answer is not found, and in both cases
  nothing at all has changed.\<close>

theorem ReplaceGroupLists_exact:
  assumes "db_ok d"
  shows "case ReplaceGroupLists g ids d of
      (Inr _, d') \<Rightarrow>
        g \<in> g_id ` set (db_groups d) \<and> set ids \<subseteq> l_id ` set (db_lists d) \<and> distinct (db_group_lists d') \<and>
        (\<forall>h l. (h, l) \<in> set (db_group_lists d') \<longleftrightarrow>
           (if h = g then l \<in> set ids else (h, l) \<in> set (db_group_lists d)))
    | (Inl e, d') \<Rightarrow>
        d' = d \<and> (if g \<notin> g_id ` set (db_groups d) then e = ErrNotFound
                  else e = MissingRef ''list'' (hd (filter (\<lambda>i. i \<notin> l_id ` set (db_lists d)) ids)) \<and>
                       \<not> set ids \<subseteq> l_id ` set (db_lists d))"
proof (cases "replaceGroupLists_tx g ids d")
  case (Inl e)
  let ?d0 = "d\<lparr>db_group_lists := filter (\<lambda>gl. fst gl \<noteq> g) (db_group_lists d)\<rparr>"
  have R: "ReplaceGroupLists g ids d = (Inl e, d)" using Inl by (simp add: ReplaceGroupLists_def configWrite_def)
  show ?thesis
  proof (cases "g \<in> g_id ` set (db_groups d)")
    case True
    with Inl have "assign_loop g [] ids ?d0 = Inl e"
      by (auto simp: replaceGroupLists_tx_def split: sum.splits)
    from assign_loop_Inl [OF this] True R show ?thesis by simp
  qed (use Inl R in \<open>simp add: replaceGroupLists_tx_def\<close>)
next
  case (Inr r)
  let ?d0 = "d\<lparr>db_group_lists := filter (\<lambda>gl. fst gl \<noteq> g) (db_group_lists d)\<rparr>"
  obtain d1 where d1: "r = ((), d1)" by (cases r) simp
  with Inr have g: "g \<in> g_id ` set (db_groups d)" and l: "assign_loop g [] ids ?d0 = Inr d1"
    by (auto simp: replaceGroupLists_tx_def split: if_splits sum.splits)
  have R: "ReplaceGroupLists g ids d = (Inr (), publish (db_version d1 + 1) (bumpVersionTx d1))"
    using Inr d1 by (simp add: ReplaceGroupLists_def configWrite_Inr)
  have "db_ok (snd (ReplaceGroupLists g ids d))" by (rule ReplaceGroupLists.keeps [OF assms])
  then have "distinct (db_group_lists d1)" using R by (auto dest: db_okD(8))
  moreover have "db_group_lists (publish v (bumpVersionTx d1)) = db_group_lists d1" for v
    by (simp add: publish_def bumpVersionTx_def)
  ultimately show ?thesis using assign_loop_Inr [OF l] g R by (auto split: if_splits)
qed

theorem ReplaceGroupLists_exact_witness:
  "snd (ReplaceGroupLists 1 [3, 8] ex_db) = ex_db \<and> fst (ReplaceGroupLists 1 [3, 8] ex_db) = Inl (MissingRef ''list'' 8)"
proof -
  have e: "fst (ReplaceGroupLists 1 [3, 8] ex_db) = Inl (MissingRef ''list'' 8)" by code_simp
  then obtain d' where "ReplaceGroupLists 1 [3, 8] ex_db = (Inl (MissingRef ''list'' 8), d')"
    by (metis prod.collapse)
  with ReplaceGroupLists_exact [OF ex_db_ok, of 1 "[3, 8]"] e show ?thesis by simp
qed

end
