(* ===== verification/Filter_Refresh.thy ===== *)
theory Filter_Refresh
  imports Engine Filter_Parse Config_Store
begin

text \<open>
  The list refresher of \<open>internal/filter/refresh.go\<close>: downloading the subscribed lists into the cache
  directory, recording what each attempt produced, and compiling the rule set of every group into the
  engine.  The remote servers are the parameter \<open>http\<close>, which maps the number of the attempt, the URL
  and the etag offered to what came back; failures of the file system are the parameter \<open>io\<close>.
\<close>

section \<open>The environment\<close>

text \<open>A response with status 200 carries the bytes of its body, the error the body broke off with if it
  did, and its ETag header (empty when absent).\<close>

datatype http_result =
    HttpErr string
  | HttpOK string "string option" string
  | HttpNotModified
  | HttpOther int

type_synonym http = "nat \<Rightarrow> string \<Rightarrow> string option \<Rightarrow> http_result"

record io_errs =
  io_mkdir :: "int \<Rightarrow> string option"
  io_create :: "int \<Rightarrow> string option"
  io_rename :: "int \<Rightarrow> string option"

definition no_io_errs :: io_errs where
  "no_io_errs = \<lparr>io_mkdir = (\<lambda>_. None), io_create = (\<lambda>_. None), io_rename = (\<lambda>_. None)\<rparr>"

text \<open>The cache directory: for each list id the copy and the etag file beside it.\<close>

record cache_dir =
  cd_copy :: "int \<Rightarrow> string option"
  cd_etag :: "int \<Rightarrow> string option"

record refresher =
  rf_db :: db
  rf_engine :: Engine
  rf_dir :: cache_dir

definition maxListBytes :: int where
  "maxListBytes = 64 * 2 ^ 20"

section \<open>Addresses a list may be fetched from\<close>

text \<open>\<open>netip\<close>'s classification of addresses.\<close>

definition v4_in :: "u32 \<Rightarrow> nat \<Rightarrow> u32 \<Rightarrow> bool" where
  "v4_in net bits w = (drop_bit (32 - bits) w = drop_bit (32 - bits) net)"

definition v6_in :: "128 word \<Rightarrow> nat \<Rightarrow> 128 word \<Rightarrow> bool" where
  "v6_in net bits w = (drop_bit (128 - bits) w = drop_bit (128 - bits) net)"

definition IsLoopback :: "addr \<Rightarrow> bool" where
  "IsLoopback a = (case a of NoAddr \<Rightarrow> False | V4 w \<Rightarrow> v4_in 0x7F000000 8 w | V6 w z \<Rightarrow> w = 1)"

definition IsPrivate :: "addr \<Rightarrow> bool" where
  "IsPrivate a =
     (case a of
        NoAddr \<Rightarrow> False
      | V4 w \<Rightarrow> v4_in 0x0A000000 8 w \<or> v4_in 0xAC100000 12 w \<or> v4_in 0xC0A80000 16 w
      | V6 w z \<Rightarrow> v6_in (push_bit 120 0xFC) 7 w)"

definition IsLinkLocalUnicast :: "addr \<Rightarrow> bool" where
  "IsLinkLocalUnicast a =
     (case a of NoAddr \<Rightarrow> False | V4 w \<Rightarrow> v4_in 0xA9FE0000 16 w | V6 w z \<Rightarrow> v6_in (push_bit 112 0xFE80) 10 w)"

definition IsMulticast :: "addr \<Rightarrow> bool" where
  "IsMulticast a =
     (case a of NoAddr \<Rightarrow> False | V4 w \<Rightarrow> v4_in 0xE0000000 4 w | V6 w z \<Rightarrow> v6_in (push_bit 120 0xFF) 8 w)"

definition IsUnspecified :: "addr \<Rightarrow> bool" where
  "IsUnspecified a = (case a of NoAddr \<Rightarrow> False | V4 w \<Rightarrow> w = 0 | V6 w z \<Rightarrow> w = 0 \<and> z = [])"

definition publicTarget :: "addr \<Rightarrow> bool \<Rightarrow> bool" where
  "publicTarget ip allowLoopback =
     (let ip = Unmap ip
      in if IsLoopback ip then allowLoopback
         else \<not> IsPrivate ip \<and> \<not> IsLinkLocalUnicast ip \<and> \<not> IsMulticast ip \<and> \<not> IsUnspecified ip)"

section \<open>Downloading\<close>

record fetchResult =
  fr_body :: "string option"
  fr_failure :: why
  fr_cached :: bool
  fr_size :: int

definition fallback :: "cache_dir \<Rightarrow> int \<Rightarrow> why \<Rightarrow> fetchResult" where
  "fallback cd i w =
     (case cd_copy cd i of
        None \<Rightarrow> \<lparr>fr_body = None, fr_failure = w, fr_cached = False, fr_size = 0\<rparr>
      | Some b \<Rightarrow> \<lparr>fr_body = Some b, fr_failure = w, fr_cached = True, fr_size = int (length b)\<rparr>)"

text \<open>The branch of status 200: the copy is replaced only by a whole body within the limit.\<close>

definition store_body :: "io_errs \<Rightarrow> int \<Rightarrow> string \<Rightarrow> string option \<Rightarrow> string \<Rightarrow> cache_dir \<Rightarrow> why + cache_dir" where
  "store_body io i body berr etag cd =
     (case io_mkdir io i of
        Some e \<Rightarrow> Inl (CacheDir e)
      | None \<Rightarrow>
     (case io_create io i of
        Some e \<Rightarrow> Inl (CacheWrite e)
      | None \<Rightarrow>
          if int (length body) > maxListBytes then Inl TooLarge
          else (case berr of
                  Some e \<Rightarrow> Inl (Incomplete e)
                | None \<Rightarrow>
               (case io_rename io i of
                  Some e \<Rightarrow> Inl (CacheWrite e)
                | None \<Rightarrow>
                    Inr (cd\<lparr>cd_copy := (cd_copy cd)(i \<mapsto> body),
                            cd_etag := (if etag \<noteq> [] then (cd_etag cd)(i \<mapsto> etag) else cd_etag cd)\<rparr>)))))"

definition offered_etag :: "bool \<Rightarrow> int \<Rightarrow> cache_dir \<Rightarrow> string option" where
  "offered_etag conditional i cd = (if conditional \<and> cd_copy cd i \<noteq> None then cd_etag cd i else None)"

definition open_copy :: "int \<Rightarrow> cache_dir \<Rightarrow> fetchResult" where
  "open_copy i cd =
     (case cd_copy cd i of
        None \<Rightarrow> \<lparr>fr_body = None, fr_failure = Unreadable, fr_cached = False, fr_size = 0\<rparr>
      | Some b \<Rightarrow> \<lparr>fr_body = Some b, fr_failure = NoReason, fr_cached = False, fr_size = int (length b)\<rparr>)"

text \<open>\<open>fetchOnce\<close>; the attempts are numbered 0 and, for the one unconditional retry, 1.\<close>

function fetchOnce :: "http \<Rightarrow> io_errs \<Rightarrow> list_row \<Rightarrow> bool \<Rightarrow> cache_dir \<Rightarrow> fetchResult \<times> cache_dir" where
  "fetchOnce http io l conditional cd =
     (case http (if conditional then 0 else 1) (l_url l) (offered_etag conditional (l_id l) cd) of
        HttpErr e \<Rightarrow> (fallback cd (l_id l) (Network e), cd)
      | HttpOther c \<Rightarrow> (fallback cd (l_id l) (HttpStatus c), cd)
      | HttpOK body berr etag \<Rightarrow>
          (case store_body io (l_id l) body berr etag cd of
             Inl w \<Rightarrow> (fallback cd (l_id l) w, cd)
           | Inr cd' \<Rightarrow> (open_copy (l_id l) cd', cd'))
      | HttpNotModified \<Rightarrow>
          if cd_copy cd (l_id l) = None \<and> conditional
          then fetchOnce http io l False (cd\<lparr>cd_etag := (cd_etag cd)(l_id l := None)\<rparr>)
          else (open_copy (l_id l) cd, cd))"
  by pat_completeness auto

termination fetchOnce
  by (relation "measure (\<lambda>(http, io, l, conditional, cd). if conditional then 1 else 0)") auto

declare fetchOnce.simps [simp del]

definition fetch :: "http \<Rightarrow> io_errs \<Rightarrow> list_row \<Rightarrow> cache_dir \<Rightarrow> fetchResult \<times> cache_dir" where
  "fetch http io l cd = fetchOnce http io l True cd"

section \<open>Compiling\<close>

definition compileList :: "list_row \<Rightarrow> ParseResult \<Rightarrow> CompiledList" where
  "compileList l res =
     (let (entries, exceptions) =
        (if l_kind l = ''allow'' then (prAllow res @ prBlock res, []) else (prBlock res, prAllow res))
      in \<lparr>cl_id = l_id l, cl_kind = l_kind l,
          cl_set = fold (\<lambda>d s. Add s d) entries NewDomainSet,
          cl_except = (if exceptions \<noteq> [] then Some (fold (\<lambda>d s. Add s d) exceptions NewDomainSet) else None)\<rparr>)"

fun install_loop ::
  "(string \<Rightarrow> bool) \<Rightarrow> db \<Rightarrow> (int \<Rightarrow> CompiledList option) \<Rightarrow> group_row list \<Rightarrow> (int \<Rightarrow> Ruleset option)
     \<Rightarrow> (int \<Rightarrow> Ruleset option)" where
  "install_loop ok d compiled [] out = out"
| "install_loop ok d compiled (g # gs) out =
     (if \<not> g_enabled g then install_loop ok d compiled gs out
      else let cls = List.map_filter (\<lambda>l. compiled (l_id l)) (ListsForGroup (g_id g) d)
           in install_loop ok d compiled gs (out(g_id g \<mapsto> Compile ok (Rules (g_id g) d) cls)))"

definition install :: "(string \<Rightarrow> bool) \<Rightarrow> (int \<Rightarrow> CompiledList option) \<Rightarrow> refresher \<Rightarrow> refresher" where
  "install ok compiled rf =
     rf\<lparr>rf_engine := SetGroups (install_loop ok (rf_db rf) compiled (Groups (rf_db rf)) (\<lambda>_. None)) (rf_engine rf)\<rparr>"

fun recompile_loop :: "unicode \<Rightarrow> cache_dir \<Rightarrow> list_row list \<Rightarrow> (int \<Rightarrow> CompiledList option) \<Rightarrow> (int \<Rightarrow> CompiledList option)" where
  "recompile_loop U cd [] compiled = compiled"
| "recompile_loop U cd (l # ls) compiled =
     (if \<not> l_enabled l then recompile_loop U cd ls compiled
      else case cd_copy cd (l_id l) of
             None \<Rightarrow> recompile_loop U cd ls compiled
           | Some b \<Rightarrow>
               (case ParseList U None b of
                  (res, Some _) \<Rightarrow> recompile_loop U cd ls compiled
                | (res, None) \<Rightarrow> recompile_loop U cd ls (compiled(l_id l \<mapsto> compileList l res))))"

definition Recompile :: "unicode \<Rightarrow> (string \<Rightarrow> bool) \<Rightarrow> refresher \<Rightarrow> refresher" where
  "Recompile U ok rf =
     install ok (recompile_loop U (rf_dir rf) (db_lists (rf_db rf)) (\<lambda>_. None)) rf"

section \<open>Refreshing\<close>

definition refreshList ::
  "unicode \<Rightarrow> http \<Rightarrow> io_errs \<Rightarrow> int \<Rightarrow> list_row \<Rightarrow> refresher \<Rightarrow> CompiledList option \<times> refresher" where
  "refreshList U http io at l rf =
     (let (fr, cd) = fetch http io l (rf_dir rf); rf = rf\<lparr>rf_dir := cd\<rparr>
      in case fr_body fr of
           None \<Rightarrow> (None, rf\<lparr>rf_db := MarkListFailed (l_id l) at 0 (fr_failure fr) (rf_db rf)\<rparr>)
         | Some b \<Rightarrow>
             (case ParseList U None b of
                (res, Some e) \<Rightarrow> (None, rf\<lparr>rf_db := MarkListFailed (l_id l) at 0 (ParseFailed e) (rf_db rf)\<rparr>)
              | (res, None) \<Rightarrow>
                  (let c = compileList l res; n = int (Len (cl_set c))
                   in (Some c,
                       rf\<lparr>rf_db :=
                         (if fr_failure fr \<noteq> NoReason then MarkListFailed (l_id l) at n (fr_failure fr) (rf_db rf)
                          else if n = 0 then MarkListEmpty (l_id l) at (NoEntries (fr_size fr) (prSkipped res)) (rf_db rf)
                          else TouchList (l_id l) at n (rf_db rf))\<rparr>))))"

fun refresh_loop ::
  "unicode \<Rightarrow> http \<Rightarrow> io_errs \<Rightarrow> int \<Rightarrow> list_row list \<Rightarrow> (int \<Rightarrow> CompiledList option) \<Rightarrow> refresher
     \<Rightarrow> (int \<Rightarrow> CompiledList option) \<times> refresher" where
  "refresh_loop U http io at [] compiled rf = (compiled, rf)"
| "refresh_loop U http io at (l # ls) compiled rf =
     (if \<not> l_enabled l then refresh_loop U http io at ls compiled rf
      else case refreshList U http io at l rf of
             (Some c, rf') \<Rightarrow> refresh_loop U http io at ls (compiled(l_id l \<mapsto> c)) rf'
           | (None, rf') \<Rightarrow> refresh_loop U http io at ls compiled rf')"

definition RefreshAll :: "unicode \<Rightarrow> (string \<Rightarrow> bool) \<Rightarrow> http \<Rightarrow> io_errs \<Rightarrow> int \<Rightarrow> refresher \<Rightarrow> refresher" where
  "RefreshAll U ok http io at rf =
     (let (compiled, rf) = refresh_loop U http io at (db_lists (rf_db rf)) (\<lambda>_. None) rf in install ok compiled rf)"

definition downloadOne :: "unicode \<Rightarrow> http \<Rightarrow> io_errs \<Rightarrow> int \<Rightarrow> int \<Rightarrow> refresher \<Rightarrow> store_err option \<times> refresher" where
  "downloadOne U http io at i rf =
     (case List.find (\<lambda>l. l_id l = i) (db_lists (rf_db rf)) of
        None \<Rightarrow> (Some ErrNotFound, rf)
      | Some l \<Rightarrow> (None, snd (refreshList U http io at l rf)))"

definition RefreshOne ::
  "unicode \<Rightarrow> (string \<Rightarrow> bool) \<Rightarrow> http \<Rightarrow> io_errs \<Rightarrow> int \<Rightarrow> int \<Rightarrow> refresher \<Rightarrow> store_err option \<times> refresher" where
  "RefreshOne U ok http io at i rf =
     (case downloadOne U http io at i rf of
        (Some e, rf') \<Rightarrow> (Some e, rf')
      | (None, rf') \<Rightarrow> (None, Recompile U ok rf'))"

section \<open>What is compiled\<close>

lemma ParseList_ok: "ParseList U None b = (fst (ParseList U None b), None)"
  by (simp add: ParseList_def parse_loop_spec)

text \<open>What a subscribed list contributes, given the copy in the cache.\<close>

definition contribution :: "unicode \<Rightarrow> cache_dir \<Rightarrow> list_row \<Rightarrow> CompiledList option" where
  "contribution U cd l =
     (if l_enabled l then map_option (\<lambda>b. compileList l (fst (ParseList U None b))) (cd_copy cd (l_id l)) else None)"

lemma recompile_loop_spec:
  assumes "distinct (map l_id ls)"
  shows "recompile_loop U cd ls compiled i =
    (case List.find (\<lambda>l. l_id l = i \<and> contribution U cd l \<noteq> None) ls of
       Some l \<Rightarrow> contribution U cd l | None \<Rightarrow> compiled i)"
  using assms
proof (induction ls arbitrary: compiled)
  case (Cons l ls)
  show ?case
  proof (cases "contribution U cd l")
    case None
    then have "recompile_loop U cd (l # ls) compiled = recompile_loop U cd ls compiled"
      by (auto simp: contribution_def split: option.splits if_splits)
    with Cons None show ?thesis by simp
  next
    case (Some c)
    then obtain b where b: "l_enabled l" "cd_copy cd (l_id l) = Some b" "c = compileList l (fst (ParseList U None b))"
      by (auto simp: contribution_def split: if_splits)
    with ParseList_ok [of U b] have "recompile_loop U cd (l # ls) compiled = recompile_loop U cd ls (compiled(l_id l \<mapsto> c))"
      by (auto split: prod.splits option.splits)
    moreover have "List.find (\<lambda>l'. l_id l' = l_id l \<and> contribution U cd l' \<noteq> None) ls = None"
      using Cons.prems unfolding find_None_iff by (auto dest: sym intro: rev_image_eqI)
    ultimately show ?thesis using Cons Some by (auto split: option.splits)
  qed
qed simp

lemma recompile_loop_row:
  assumes "distinct (map l_id ls)" "l \<in> set ls"
  shows "recompile_loop U cd ls (\<lambda>_. None) (l_id l) = contribution U cd l"
proof -
  have u: "l' = l" if "l' \<in> set ls" "l_id l' = l_id l" for l'
    using assms that by (metis distinct_map inj_onD)
  show ?thesis
  proof (cases "contribution U cd l = None")
    case True
    then have "List.find (\<lambda>l'. l_id l' = l_id l \<and> contribution U cd l' \<noteq> None) ls = None"
      using u by (auto simp: find_None_iff)
    then show ?thesis using True by (simp add: recompile_loop_spec [OF assms(1)])
  next
    case False
    then have "List.find (\<lambda>l'. l_id l' = l_id l \<and> contribution U cd l' \<noteq> None) ls \<noteq> None"
      using assms(2) by (auto simp: find_None_iff)
    then obtain l' where l': "List.find (\<lambda>l'. l_id l' = l_id l \<and> contribution U cd l' \<noteq> None) ls = Some l'" by blast
    then have "l' \<in> set ls" "l_id l' = l_id l" by (auto simp: find_Some_iff)
    then have "l' = l" by (rule u)
    with l' show ?thesis by (simp add: recompile_loop_spec [OF assms(1)])
  qed
qed

lemma install_loop_spec:
  assumes "distinct (map g_id gs)"
  shows "install_loop ok d compiled gs out g =
    (if \<exists>gr \<in> set gs. g_id gr = g \<and> g_enabled gr
     then Some (Compile ok (Rules g d) (List.map_filter (\<lambda>l. compiled (l_id l)) (ListsForGroup g d)))
     else out g)"
  using assms
proof (induction gs arbitrary: out)
  case (Cons gr gs)
  have no: "\<not> (\<exists>gr' \<in> set gs. g_id gr' = g_id gr)" using Cons.prems by (auto dest: sym intro: rev_image_eqI)
  show ?case
  proof (cases "g_id gr = g")
    case True
    then show ?thesis using Cons no by (auto simp: Let_def)
  next
    case False
    then show ?thesis using Cons by (auto simp: Let_def)
  qed
qed simp

lemma Recompile_groups:
  assumes "distinct (map l_id (db_lists (rf_db rf)))" "distinct (map g_id (db_groups (rf_db rf)))"
  shows "eGroups (rf_engine (Recompile U ok rf)) g =
    (if \<exists>gr \<in> set (db_groups (rf_db rf)). g_id gr = g \<and> g_enabled gr
     then Some (Compile ok (Rules g (rf_db rf))
            (List.map_filter (contribution U (rf_dir rf)) (ListsForGroup g (rf_db rf))))
     else None)"
proof -
  from assms(1) have "List.map_filter (\<lambda>l. recompile_loop U (rf_dir rf) (db_lists (rf_db rf)) (\<lambda>_. None) (l_id l))
       (ListsForGroup g (rf_db rf)) = List.map_filter (contribution U (rf_dir rf)) (ListsForGroup g (rf_db rf))"
    unfolding List.map_filter_def
    by (intro arg_cong2 [where f = map] filter_cong map_cong) (auto simp: ListsForGroup_def recompile_loop_row)
  with assms(2) show ?thesis
    by (simp add: Recompile_def install_def SetGroups_def install_loop_spec Groups_def)
qed

lemma compileList_fields:
  "cl_id (compileList l res) = l_id l" "cl_kind (compileList l res) = l_kind l"
  by (simp_all add: compileList_def Let_def)

lemma list_names_fold: "list_names (fold (\<lambda>d s. Add s d) ds NewDomainSet) q \<longleftrightarrow> (\<exists>d \<in> set ds. covers (normalize_d d) (normalize_d q))"
  unfolding list_names_def dset.members_fold dset.members_empty by auto

lemma list_allows_compile:
  "list_allows q (compileList l res) \<longleftrightarrow> l_kind l = ''allow'' \<and>
     (\<exists>d \<in> set (prAllow res) \<union> set (prBlock res). covers (normalize_d d) (normalize_d q))"
proof (cases "l_kind l = ''allow''")
  case True
  then have "cl_set (compileList l res) = fold (\<lambda>d s. Add s d) (prAllow res @ prBlock res) NewDomainSet"
    by (simp add: compileList_def)
  then show ?thesis
    using True by (simp add: list_allows_def compileList_fields list_names_fold del: fold_append)
qed (simp add: list_allows_def compileList_fields)

lemma list_blocks_compile:
  "list_blocks q (compileList l res) \<longleftrightarrow> l_kind l = ''block'' \<and>
     (\<exists>d \<in> set (prBlock res). covers (normalize_d d) (normalize_d q)) \<and>
     \<not> (\<exists>d \<in> set (prAllow res). covers (normalize_d d) (normalize_d q))"
proof (cases "l_kind l = ''block''")
  case True
  then have "cl_set (compileList l res) = fold (\<lambda>d s. Add s d) (prBlock res) NewDomainSet"
    "cl_except (compileList l res) =
       (if prAllow res \<noteq> [] then Some (fold (\<lambda>d s. Add s d) (prAllow res) NewDomainSet) else None)"
    by (simp_all add: compileList_def)
  then show ?thesis
    using True by (simp add: list_blocks_def compileList_fields list_names_fold)
qed (simp add: list_blocks_def compileList_fields)

section \<open>Properties\<close>

text \<open>What a cached copy says about a name.\<close>

definition copy_lists :: "unicode \<Rightarrow> cache_dir \<Rightarrow> list_row \<Rightarrow> (ParseResult \<Rightarrow> string list) \<Rightarrow> string \<Rightarrow> bool" where
  "copy_lists U cd l sel q =
     (case cd_copy cd (l_id l) of
        None \<Rightarrow> False
      | Some b \<Rightarrow> \<exists>d \<in> set (sel (fst (ParseList U None b))). covers (normalize_d d) (normalize_d q))"

lemma db_ok_ids:
  assumes "db_ok d"
  shows "distinct (map l_id (db_lists d))" "distinct (map g_id (db_groups d))"
  using assms by (auto dest: db_okD intro: keys_distinct)

lemma contribution_allows:
  "(\<exists>c. contribution U cd l = Some c \<and> list_allows q c) \<longleftrightarrow>
     l_enabled l \<and> l_kind l = ''allow'' \<and> copy_lists U cd l (\<lambda>res. prAllow res @ prBlock res) q"
  by (cases "cd_copy cd (l_id l)") (auto simp: contribution_def copy_lists_def list_allows_compile)

lemma contribution_blocks:
  "(\<exists>c. contribution U cd l = Some c \<and> list_blocks q c) \<longleftrightarrow>
     l_enabled l \<and> l_kind l = ''block'' \<and> copy_lists U cd l prBlock q \<and> \<not> copy_lists U cd l prAllow q"
  by (cases "cd_copy cd (l_id l)") (auto simp: contribution_def copy_lists_def list_blocks_compile)

lemma ex_map_filter: "(\<exists>c \<in> set (List.map_filter f ls). P c) \<longleftrightarrow> (\<exists>l \<in> set ls. \<exists>c. f l = Some c \<and> P c)"
  unfolding Bex_def in_set_map_filter by blast

text \<open>What is enforced is what is stored.  After \<open>Recompile\<close>, a group that is disabled or gone has no
  rule set; for an enabled group the engine's verdict on any name is the documented precedence read
  directly off the group's stored rules and the cached copies of the enabled lists assigned to it.
  A list without a copy, a disabled list and a list of another group contribute nothing.\<close>

theorem Recompile_enforces:
  assumes "db_ok (rf_db rf)"
  shows "case eGroups (rf_engine (Recompile U ok rf)) g of
     None \<Rightarrow> \<not> (\<exists>gr \<in> set (db_groups (rf_db rf)). g_id gr = g \<and> g_enabled gr)
   | Some rs \<Rightarrow> (\<exists>gr \<in> set (db_groups (rf_db rf)). g_id gr = g \<and> g_enabled gr) \<and>
       v_action (Evaluate mt rs q) =
         (if \<exists>r \<in> set (Rules g (rf_db rf)). rule_allows r \<and> rule_matches ok mt q r then ''allow''
          else if \<exists>r \<in> set (Rules g (rf_db rf)). rule_blocks r \<and> rule_matches ok mt q r then ''block''
          else if \<exists>l \<in> set (ListsForGroup g (rf_db rf)). l_enabled l \<and> l_kind l = ''allow'' \<and>
                   copy_lists U (rf_dir rf) l (\<lambda>res. prAllow res @ prBlock res) q then ''allow''
          else if \<exists>l \<in> set (ListsForGroup g (rf_db rf)). l_enabled l \<and> l_kind l = ''block'' \<and>
                   copy_lists U (rf_dir rf) l prBlock q \<and> \<not> copy_lists U (rf_dir rf) l prAllow q then ''block''
          else ''none'')"
  by (auto simp only: Recompile_groups [OF db_ok_ids [OF assms]] Evaluate_spec ex_map_filter contribution_allows contribution_blocks
      split: option.splits if_splits)

section \<open>A failed download\<close>

lemma store_body_Inr:
  "store_body io i body berr etag cd = Inr cd' \<Longrightarrow>
     cd_copy cd' = (cd_copy cd)(i \<mapsto> body) \<and> int (length body) \<le> maxListBytes \<and> berr = None"
  by (auto simp: store_body_def split: option.splits if_splits)

definition whole_body :: "http \<Rightarrow> string \<Rightarrow> string \<Rightarrow> bool" where
  "whole_body http url b \<longleftrightarrow> int (length b) \<le> maxListBytes \<and> (\<exists>n et tag. http n url et = HttpOK b None tag)"

text \<open>Every outcome of a fetch: either it failed, and the copy on disk and the body handed on are the old
  ones; or it succeeded, and the body is the copy now on disk, the old one or a whole new body.\<close>

lemma fetchOnce_cases:
  assumes "fetchOnce http io l c cd = (fr, cd')"
  shows "fr_body fr = cd_copy cd' (l_id l) \<and>
    (\<forall>j. j \<noteq> l_id l \<longrightarrow> cd_copy cd' j = cd_copy cd j) \<and>
    (if fr_failure fr \<noteq> NoReason then cd_copy cd' = cd_copy cd
     else cd_copy cd' (l_id l) \<noteq> None \<and>
       (cd_copy cd' (l_id l) = cd_copy cd (l_id l) \<or> whole_body http (l_url l) (the (cd_copy cd' (l_id l)))))"
  using assms
proof (induction http io l c cd arbitrary: fr cd' rule: fetchOnce.induct)
  case (1 http io l c cd)
  let ?r = "http (if c then 0 else 1) (l_url l) (offered_etag c (l_id l) cd)"
  note fo = fetchOnce.simps [of http io l c cd]
  show ?case
  proof (cases ?r)
    case (HttpErr e)
    with "1.prems" fo show ?thesis by (auto simp: fallback_def split: option.splits)
  next
    case (HttpOther e)
    with "1.prems" fo show ?thesis by (auto simp: fallback_def split: option.splits)
  next
    case (HttpOK body berr etag)
    show ?thesis
    proof (cases "store_body io (l_id l) body berr etag cd")
      case (Inl w)
      then have "w \<noteq> NoReason" by (auto simp: store_body_def split: option.splits if_splits)
      with HttpOK "1.prems" fo Inl show ?thesis by (auto simp: fallback_def split: option.splits)
    next
      case (Inr cd1)
      with HttpOK "1.prems" fo have r: "cd' = cd1" "fr = open_copy (l_id l) cd1" by auto
      from store_body_Inr [OF Inr] HttpOK have "whole_body http (l_url l) body" by (auto simp: whole_body_def)
      with store_body_Inr [OF Inr] show ?thesis by (auto simp: r open_copy_def)
    qed
  next
    case HttpNotModified
    show ?thesis
    proof (cases "cd_copy cd (l_id l) = None \<and> c")
      case True
      with HttpNotModified "1.prems" fo
      have "fetchOnce http io l False (cd\<lparr>cd_etag := (cd_etag cd)(l_id l := None)\<rparr>) = (fr, cd')" by simp
      from "1.IH" [OF HttpNotModified True this] show ?thesis by (auto split: if_splits)
    next
      case False
      with HttpNotModified "1.prems" fo show ?thesis by (auto simp: open_copy_def split: option.splits)
    qed
  qed
qed

lemma refreshList_Some:
  assumes "fetch http io l (rf_dir rf) = (fr, cd)" "fr_body fr = Some b"
  shows "refreshList U http io at l rf =
    (let c = compileList l (fst (ParseList U None b)); n = int (Len (cl_set c))
     in (Some c, rf\<lparr>rf_dir := cd, rf_db :=
           (if fr_failure fr \<noteq> NoReason then MarkListFailed (l_id l) at n (fr_failure fr) (rf_db rf)
            else if n = 0 then MarkListEmpty (l_id l) at (NoEntries (fr_size fr) (prSkipped (fst (ParseList U None b)))) (rf_db rf)
            else TouchList (l_id l) at n (rf_db rf))\<rparr>))"
proof -
  obtain res where p: "ParseList U None b = (res, None)" using ParseList_ok by metis
  show ?thesis by (simp add: refreshList_def assms p Let_def)
qed

lemma refreshList_None:
  assumes "fetch http io l (rf_dir rf) = (fr, cd)" "fr_body fr = None"
  shows "refreshList U http io at l rf =
    (None, rf\<lparr>rf_dir := cd, rf_db := MarkListFailed (l_id l) at 0 (fr_failure fr) (rf_db rf)\<rparr>)"
  by (simp add: refreshList_def assms)

lemma upd_list_row: "l \<in> set (db_lists d) \<Longrightarrow> f l \<in> set (db_lists (snd (upd_list (l_id l) f d)))"
  by (auto simp: upd_list_def)

text \<open>A row after an attempt: the count and the moment are recorded; the fetch date moves on success only.\<close>

definition row_after :: "list_row \<Rightarrow> int \<Rightarrow> int \<Rightarrow> bool \<Rightarrow> list_row \<Rightarrow> bool" where
  "row_after l at n failed l' \<longleftrightarrow>
     l_id l' = l_id l \<and> l_entry_count l' = n \<and> l_last_attempt l' = at \<and>
     (if failed then l_last_refreshed l' = l_last_refreshed l \<and>
                     l_last_status l' = (if n > 0 then ListStatusStale else ListStatusFailed)
      else l_last_refreshed l' = at \<and> l_last_status l' = (if n = 0 then ListStatusEmpty else ListStatusOK))"

lemma mark_row:
  assumes "l \<in> set (db_lists d)"
  shows "n \<noteq> 0 \<Longrightarrow> \<exists>l' \<in> set (db_lists (TouchList (l_id l) at n d)). row_after l at n False l'"
    "\<exists>l' \<in> set (db_lists (MarkListEmpty (l_id l) at w d)). row_after l at 0 False l'"
    "\<exists>l' \<in> set (db_lists (MarkListFailed (l_id l) at n w d)). row_after l at n True l'"
  unfolding TouchList_def MarkListEmpty_def MarkListFailed_def
  by (rule bexI [OF _ upd_list_row [OF assms]]; simp add: row_after_def)+

text \<open>A failed download loses nothing.  When a copy of the list is on disk, a refresh of it always
  contributes a compiled list, whatever the server or the file system does: from the same copy, or
  from a body that arrived whole and within the size limit.  The row records the attempt and the
  number of entries enforced; when the attempt failed, the copy and the date it was fetched are the
  old ones and the row says stale (or failed, when the old copy holds no entry).\<close>

theorem refreshList_keeps_enforcing:
  assumes "l \<in> set (db_lists (rf_db rf))" "cd_copy (rf_dir rf) (l_id l) = Some b"
    and "refreshList U http io at l rf = (r, rf')"
  shows "\<exists>b' failed. cd_copy (rf_dir rf') (l_id l) = Some b' \<and>
    (if failed then b' = b else b' = b \<or> whole_body http (l_url l) b') \<and>
    r = Some (compileList l (fst (ParseList U None b'))) \<and>
    (\<exists>l' \<in> set (db_lists (rf_db rf')). row_after l at (int (Len (cl_set (the r)))) failed l')"
proof -
  obtain fr cd where f: "fetch http io l (rf_dir rf) = (fr, cd)" by (metis prod.exhaust)
  note c = fetchOnce_cases [OF f [unfolded fetch_def]]
  from c assms(2) obtain b' where b': "fr_body fr = Some b'" "cd_copy cd (l_id l) = Some b'"
    by (metis not_None_eq)
  let ?c = "compileList l (fst (ParseList U None b'))"
  let ?n = "int (Len (cl_set ?c))"
  note rl = refreshList_Some [OF f b'(1), of U at, unfolded Let_def assms(3)]
  have db: "\<exists>l' \<in> set (db_lists (rf_db rf')). row_after l at ?n (fr_failure fr \<noteq> NoReason) l'"
    using rl mark_row(1) [OF assms(1), of ?n at] mark_row(2) [OF assms(1), of at]
      mark_row(3) [OF assms(1), of at ?n "fr_failure fr"]
    by (cases "fr_failure fr = NoReason"; cases "?n = 0") simp_all
  have copy: "if fr_failure fr \<noteq> NoReason then b' = b else b' = b \<or> whole_body http (l_url l) b'"
    using c assms(2) b'(2) by (auto split: if_splits)
  from rl b'(2) have "r = Some ?c" "cd_copy (rf_dir rf') (l_id l) = Some b'" by simp_all
  with db copy show ?thesis by (intro exI [of _ b'] exI [of _ "fr_failure fr \<noteq> NoReason"]) simp
qed

section \<open>A restart compiles the same\<close>

text \<open>What a refresh leaves alone in the database: everything but the state columns of the lists.\<close>

definition list_shape :: "list_row \<Rightarrow> int \<times> string \<times> string \<times> bool" where
  "list_shape l = (l_id l, l_url l, l_kind l, l_enabled l)"

definition same_config :: "db \<Rightarrow> db \<Rightarrow> bool" where
  "same_config d d' \<longleftrightarrow> db_groups d' = db_groups d \<and> db_rules d' = db_rules d \<and>
     db_group_lists d' = db_group_lists d \<and> map list_shape (db_lists d') = map list_shape (db_lists d)"

lemma same_config_trans: "same_config a b \<Longrightarrow> same_config b c \<Longrightarrow> same_config a c"
  by (simp add: same_config_def)

lemma same_config_upd:
  "(\<And>l. list_shape (f l) = list_shape l) \<Longrightarrow> same_config d (snd (upd_list i f d))"
  by (simp add: same_config_def upd_list_def)

lemma same_config_mark:
  "same_config d (TouchList i at n d)" "same_config d (MarkListEmpty i at w d)"
  "same_config d (MarkListFailed i at n w d)"
  unfolding TouchList_def MarkListEmpty_def MarkListFailed_def
  by (rule same_config_upd; simp add: list_shape_def)+

lemma compileList_shape: "list_shape l = list_shape l' \<Longrightarrow> compileList l res = compileList l' res"
  by (simp add: list_shape_def compileList_def)

lemma contribution_shape: "list_shape l = list_shape l' \<Longrightarrow> contribution U cd l = contribution U cd l'"
  by (simp add: contribution_def compileList_shape [of l l']) (simp add: list_shape_def)

lemma refreshList_effect:
  assumes "refreshList U http io at l rf = (r, rf')"
  shows "same_config (rf_db rf) (rf_db rf')" "rf_engine rf' = rf_engine rf"
    "\<And>j. j \<noteq> l_id l \<Longrightarrow> cd_copy (rf_dir rf') j = cd_copy (rf_dir rf) j"
    "l_enabled l \<Longrightarrow> r = contribution U (rf_dir rf') l"
proof -
  obtain fr cd where f: "fetch http io l (rf_dir rf) = (fr, cd)" by (metis prod.exhaust)
  note c = fetchOnce_cases [OF f [unfolded fetch_def]]
  have "same_config (rf_db rf) (rf_db rf') \<and> rf_engine rf' = rf_engine rf \<and> rf_dir rf' = cd \<and>
      r = map_option (\<lambda>b. compileList l (fst (ParseList U None b))) (fr_body fr)"
  proof (cases "fr_body fr")
    case None
    from refreshList_None [OF f None] assms show ?thesis using None by (auto intro: same_config_mark)
  next
    case (Some b)
    from refreshList_Some [OF f Some, of U at, unfolded Let_def assms] show ?thesis
      using Some by (auto intro: same_config_mark)
  qed
  with c show "same_config (rf_db rf) (rf_db rf')" "rf_engine rf' = rf_engine rf"
    "\<And>j. j \<noteq> l_id l \<Longrightarrow> cd_copy (rf_dir rf') j = cd_copy (rf_dir rf) j"
    "l_enabled l \<Longrightarrow> r = contribution U (rf_dir rf') l"
    by (auto simp: contribution_def)
qed

lemma refresh_loop_effect:
  assumes "refresh_loop U http io at ls compiled rf = (compiled', rf')" "distinct (map l_id ls)"
  shows "same_config (rf_db rf) (rf_db rf') \<and>
    (\<forall>j. j \<notin> l_id ` set ls \<longrightarrow> cd_copy (rf_dir rf') j = cd_copy (rf_dir rf) j \<and> compiled' j = compiled j) \<and>
    (\<forall>l \<in> set ls. compiled (l_id l) = None \<longrightarrow> compiled' (l_id l) = contribution U (rf_dir rf') l)"
  using assms
proof (induction ls arbitrary: compiled rf)
  case Nil
  then show ?case by (simp add: same_config_def)
next
  case (Cons l ls)
  show ?case
  proof (cases "l_enabled l")
    case False
    with Cons show ?thesis by (auto simp: contribution_def) 
  next
    case True
    obtain r rf1 where r: "refreshList U http io at l rf = (r, rf1)" by (metis prod.exhaust)
    note e = refreshList_effect [OF r]
    let ?c = "case r of Some c \<Rightarrow> compiled(l_id l \<mapsto> c) | None \<Rightarrow> compiled"
    have "refresh_loop U http io at ls ?c rf1 = (compiled', rf')"
      using Cons.prems(1) True r by (cases r) simp_all
    from Cons.IH [OF this] Cons.prems(2) have IH: "same_config (rf_db rf1) (rf_db rf')"
      "\<And>j. j \<notin> l_id ` set ls \<Longrightarrow> cd_copy (rf_dir rf') j = cd_copy (rf_dir rf1) j \<and> compiled' j = ?c j"
      "\<And>l. l \<in> set ls \<Longrightarrow> ?c (l_id l) = None \<Longrightarrow> compiled' (l_id l) = contribution U (rf_dir rf') l" by auto
    have no: "l_id l \<notin> l_id ` set ls" using Cons.prems(2) by simp
    have cl: "contribution U (rf_dir rf') l = contribution U (rf_dir rf1) l"
      using IH(2) [OF no] by (simp add: contribution_def)
    have "compiled' (l_id l) = contribution U (rf_dir rf') l" if "compiled (l_id l) = None"
      using IH(2) [OF no] that e(4) [OF True] cl by (auto split: option.splits)
    moreover have "compiled' (l_id l') = contribution U (rf_dir rf') l'" if "l' \<in> set ls" "compiled (l_id l') = None" for l'
    proof -
      have "l_id l' \<noteq> l_id l" using no that(1) by (metis imageI)
      with IH(3) [OF that(1)] that(2) show ?thesis by (cases r) auto
    qed
    moreover have "cd_copy (rf_dir rf') j = cd_copy (rf_dir rf) j \<and> compiled' j = compiled j"
      if "j \<notin> l_id ` set (l # ls)" for j
      using that IH(2) [of j] e(3) [of j] by (cases r) auto
    ultimately show ?thesis using same_config_trans [OF e(1) IH(1)] by auto
  qed
qed

text \<open>C9: a restart enforces what was enforced.  The rule sets a full refresh installs, built while it
  downloads, are those \<open>Recompile\<close> builds from the database and the cache directory the refresh left
  behind, whatever the servers and the file system did during it.\<close>

theorem RefreshAll_restart:
  assumes "db_ok (rf_db rf)"
  shows "eGroups (rf_engine (Recompile U ok (RefreshAll U ok http io at rf))) g =
         eGroups (rf_engine (RefreshAll U ok http io at rf)) g"
proof -
  obtain compiled rf' where l: "refresh_loop U http io at (db_lists (rf_db rf)) (\<lambda>_. None) rf = (compiled, rf')"
    by (metis prod.exhaust)
  note e = refresh_loop_effect [OF l db_ok_ids(1) [OF assms]]
  have R: "RefreshAll U ok http io at rf = install ok compiled rf'" by (simp add: RefreshAll_def l)
  let ?d = "rf_db rf'" and ?R = "RefreshAll U ok http io at rf"
  have db: "rf_db ?R = ?d" "rf_dir ?R = rf_dir rf'" by (simp_all add: R install_def)
  from e have sc: "same_config (rf_db rf) ?d" by blast
  then have shapes: "map list_shape (db_lists ?d) = map list_shape (db_lists (rf_db rf))" by (simp add: same_config_def)
  then have "map (fst \<circ> list_shape) (db_lists ?d) = map (fst \<circ> list_shape) (db_lists (rf_db rf))"
    by (metis map_map)
  then have ids: "map l_id (db_lists ?d) = map l_id (db_lists (rf_db rf))" by (simp add: comp_def list_shape_def)
  have dl: "distinct (map l_id (db_lists (rf_db ?R)))" "distinct (map g_id (db_groups (rf_db ?R)))"
    using db_ok_ids [OF assms] sc ids by (simp_all add: db same_config_def)
  have "compiled (l_id l) = contribution U (rf_dir rf') l" if "l \<in> set (db_lists ?d)" for l
  proof -
    from that shapes have "list_shape l \<in> list_shape ` set (db_lists (rf_db rf))" by (metis imageI list.set_map)
    then obtain l0 where l0: "l0 \<in> set (db_lists (rf_db rf))" "list_shape l = list_shape l0" by blast
    with e have "compiled (l_id l0) = contribution U (rf_dir rf') l0" by blast
    with l0(2) show ?thesis using contribution_shape [OF l0(2)] by (simp add: list_shape_def)
  qed
  then have "List.map_filter (\<lambda>l. compiled (l_id l)) (ListsForGroup g ?d) =
      List.map_filter (contribution U (rf_dir rf')) (ListsForGroup g ?d)"
    unfolding List.map_filter_def
    by (intro arg_cong2 [where f = map] filter_cong map_cong) (auto simp: ListsForGroup_def)
  then show ?thesis
    unfolding Recompile_groups [OF dl] db using dl(2)
    by (simp add: R install_def SetGroups_def install_loop_spec Groups_def)
qed

section \<open>Witnesses\<close>

definition ex_dir :: cache_dir where
  "ex_dir = \<lparr>cd_copy = (\<lambda>i. if i = 3 then Some ''||ads.net^'' else None), cd_etag = (\<lambda>_. None)\<rparr>"

definition ex_rf :: refresher where
  "ex_rf = \<lparr>rf_db = ex_db\<lparr>db_group_lists := [(1, 3)]\<rparr>, rf_engine = NewEngine, rf_dir = ex_dir\<rparr>"

definition ex_http :: http where
  "ex_http n url et = HttpOther 404"

lemma ex_rf_ok: "db_ok (rf_db ex_rf)"
  by (simp add: ex_rf_def ex_db_def db_ok_def refs_ok_def keys_ok_def)

theorem Recompile_enforces_witness:
  "v_action (Evaluate (\<lambda>_ _. False) (the (eGroups (rf_engine (Recompile ex_unicode (\<lambda>_. True) ex_rf)) 1)) ''x.ads.net'') = ''block''"
proof -
  let ?g = "eGroups (rf_engine (Recompile ex_unicode (\<lambda>_. True) ex_rf)) 1"
  have s: "?g \<noteq> None" using Recompile_groups [OF db_ok_ids [OF ex_rf_ok]] by (simp add: ex_rf_def ex_db_def)
  have r: "Rules 1 (rf_db ex_rf) = []" by code_simp
  have ls: "ListsForGroup 1 (rf_db ex_rf) = db_lists ex_db" by code_simp
  have l: "list_ex (\<lambda>l. l_enabled l \<and> l_kind l = ''block'' \<and> copy_lists ex_unicode (rf_dir ex_rf) l prBlock ''x.ads.net'' \<and>
       \<not> copy_lists ex_unicode (rf_dir ex_rf) l prAllow ''x.ads.net'') (db_lists ex_db)"
    "\<not> list_ex (\<lambda>l. l_enabled l \<and> l_kind l = ''allow'' \<and>
       copy_lists ex_unicode (rf_dir ex_rf) l (\<lambda>res. prAllow res @ prBlock res) ''x.ads.net'') (db_lists ex_db)"
    by code_simp+
  show ?thesis
    using Recompile_enforces [OF ex_rf_ok, where U = ex_unicode and ok = "\<lambda>_. True" and g = 1 and
        mt = "\<lambda>_ _. False" and q = "''x.ads.net''"] s l
    by (auto simp: r ls list_ex_iff split: option.splits)
qed

theorem refreshList_keeps_enforcing_witness:
  "fst (refreshList ex_unicode ex_http no_io_errs 5 (hd (db_lists ex_db)) ex_rf) \<noteq> None"
proof -
  have l: "hd (db_lists ex_db) \<in> set (db_lists (rf_db ex_rf))" "cd_copy (rf_dir ex_rf) (l_id (hd (db_lists ex_db))) = Some ''||ads.net^''"
    by (simp_all add: ex_rf_def ex_db_def ex_dir_def)
  obtain r rf' where r: "refreshList ex_unicode ex_http no_io_errs 5 (hd (db_lists ex_db)) ex_rf = (r, rf')"
    by (metis prod.exhaust)
  from refreshList_keeps_enforcing [OF l r] r show ?thesis by auto
qed

theorem RefreshAll_restart_witness:
  "eGroups (rf_engine (Recompile ex_unicode (\<lambda>_. True) (RefreshAll ex_unicode (\<lambda>_. True) ex_http no_io_errs 5 ex_rf))) 1 =
   eGroups (rf_engine (RefreshAll ex_unicode (\<lambda>_. True) ex_http no_io_errs 5 ex_rf)) 1"
  by (rule RefreshAll_restart [OF ex_rf_ok])

end
