(* ===== verification/Zone_Index.thy ===== *)
theory Zone_Index
  imports Pipeline
begin

text \<open>
  Zones and the zone index, \<open>internal/zones/zone.go\<close> with the row types of
  \<open>internal/store/zones.go\<close>: the served form of a stored zone, names relative to an apex, the
  record a row stands for, and the index that finds the zone a name belongs to.
\<close>

section \<open>Rows\<close>

record zone_row =
  z_id :: int
  z_name :: string
  z_type :: string
  z_enabled :: bool
  z_soa_ns :: string
  z_soa_mbox :: string
  z_soa_serial :: u32
  z_soa_refresh :: u32
  z_soa_retry :: u32
  z_soa_expire :: u32
  z_soa_minimum :: u32
  z_soa_ttl :: u32
  z_primaries :: string
  z_tsig_key :: int
  z_expires_at :: int
  z_refreshed_at :: int
  z_last_error :: string
  z_last_attempt :: int
  z_allow_transfer :: string
  z_last_xfr_at :: int
  z_last_xfr_peer :: string
  z_last_xfr_error :: string
  z_notify_to :: string
  z_forward_to :: string
  z_created_at :: int
  z_modified_at :: int

record zone_record =
  zr_id :: int
  zr_zone :: int
  zr_name :: string
  zr_type :: string
  zr_ttl :: u32
  zr_rdata :: string
  zr_enabled :: bool
  zr_comment :: string

record zone =
  row :: zone_row
  records :: "(string \<times> zone_record list) list"

abbreviation apexName :: string where "apexName \<equiv> ''@''"

definition normalizeName :: "string \<Rightarrow> string" where
  "normalizeName s = ToLower (TrimSuffix s ''.'')"

definition RecordFQDN :: "string \<Rightarrow> string \<Rightarrow> string" where
  "RecordFQDN zoneName relName = (if relName = apexName then zoneName else relName @ ''.'' @ zoneName)"

definition RelName :: "dns_lib \<Rightarrow> string \<Rightarrow> string \<Rightarrow> string" where
  "RelName L qname0 apex0 =
     (let qname = normalizeName qname0; apex = normalizeName apex0 in
      if qname = apex then apexName
      else if \<not> IsSubDomain L (Fqdn L apex) (Fqdn L qname) then qname
      else let labels = SplitDomainName L qname;
               n = int (length labels) - int (CountLabel L (Fqdn L apex))
           in if n > 0 then Join (take (nat n) labels) ''.'' else qname)"

definition errParsesToNothing :: string where
  "errParsesToNothing =
     ''the record parses to nothing: a ';' makes the rest of the line a comment''"

definition rr_line :: "dns_lib \<Rightarrow> string \<Rightarrow> zone_record \<Rightarrow> string" where
  "rr_line L fqdn rec =
     Fqdn L fqdn @ '' '' @ dec (unat (zr_ttl rec)) @ '' IN '' @ zr_type rec @ '' '' @ zr_rdata rec"

definition ToRR :: "dns_lib \<Rightarrow> string \<Rightarrow> zone_record \<Rightarrow> string + rr" where
  "ToRR L fqdn rec =
     (case NewRR L (rr_line L fqdn rec) of
        Inl e \<Rightarrow> Inl e
      | Inr None \<Rightarrow> Inl errParsesToNothing
      | Inr (Some rr) \<Rightarrow> Inr rr)"

definition RDataOf :: "dns_lib \<Rightarrow> rr \<Rightarrow> string" where
  "RDataOf L rr = TrimPrefix (RRString L rr) (HdrString L (rr_hdr rr))"

text \<open>\<open>NewZone\<close> drops disabled rows and groups the rest by normalized name.  The call of \<open>ToRR\<close>
  in the loop only decides whether a warning is logged.\<close>

definition NewZone :: "zone_row \<Rightarrow> zone_record list \<Rightarrow> zone" where
  "NewZone z recs =
     \<lparr>row = z,
      records = fold (\<lambda>r m. if zr_enabled r then append_at (normalizeName (zr_name r)) r m else m) recs []\<rparr>"

definition SOA :: "dns_lib \<Rightarrow> zone \<Rightarrow> rr" where
  "SOA L z =
     RR \<lparr>h_name = Fqdn L (z_name (row z)), h_rrtype = TypeSOA, h_class = ClassINET,
         h_ttl = z_soa_ttl (row z)\<rparr>
        (RD_SOA \<lparr>soa_ns = Fqdn L (z_soa_ns (row z)), soa_mbox = Fqdn L (z_soa_mbox (row z)),
                 soa_serial = z_soa_serial (row z), soa_refresh = z_soa_refresh (row z),
                 soa_retry = z_soa_retry (row z), soa_expire = z_soa_expire (row z),
                 soa_minttl = z_soa_minimum (row z)\<rparr>)"

section \<open>The index\<close>

record index =
  ix_zones :: "zone list"
  ix_byApex :: "string \<Rightarrow> nat option"

definition NewIndex :: "zone list \<Rightarrow> index" where
  "NewIndex zs =
     \<lparr>ix_zones = zs,
      ix_byApex = fold (\<lambda>(i, z) m. m(normalizeName (z_name (row z)) \<mapsto> i)) (enumerate 0 zs) (\<lambda>_. None)\<rparr>"

definition Apex :: "index \<Rightarrow> string \<Rightarrow> zone option" where
  "Apex idx name =
     (case ix_byApex idx (normalizeName name) of None \<Rightarrow> None | Some i \<Rightarrow> Some (ix_zones idx ! i))"

definition find_at :: "index \<Rightarrow> string list \<Rightarrow> zone option" where
  "find_at idx labels =
     (case ix_byApex idx (Join labels ''.'') of
        None \<Rightarrow> None
      | Some zi \<Rightarrow> (let z = ix_zones idx ! zi in if z_enabled (row z) then Some z else None))"

definition Find :: "dns_lib \<Rightarrow> index \<Rightarrow> string \<Rightarrow> zone option" where
  "Find L idx qname = first_tail (find_at idx) (SplitDomainName L (normalizeName qname))"

definition Reload :: "(string + zone_row list) \<Rightarrow> (string + (int \<Rightarrow> zone_record list)) \<Rightarrow> index
    \<Rightarrow> string option \<times> index" where
  "Reload zs all snap =
     (case zs of
        Inl e \<Rightarrow> (Some e, snap)
      | Inr rows \<Rightarrow>
          (case all of
             Inl e \<Rightarrow> (Some e, snap)
           | Inr recs \<Rightarrow> (None, NewIndex (map (\<lambda>z. NewZone z (recs (z_id z))) rows))))"

section \<open>Lemmas\<close>

lemma normalizeName_lower [simp]: "ToLower (normalizeName s) = normalizeName s"
  by (simp add: normalizeName_def)

lemma NewZone_row [simp]: "row (NewZone z recs) = z"
  by (simp add: NewZone_def)

lemma NewZone_fold:
  "lookup_list (fold (\<lambda>r m. if zr_enabled r then append_at (normalizeName (zr_name r)) r m else m) recs m) k
   = lookup_list m k @ filter (\<lambda>r. zr_enabled r \<and> normalizeName (zr_name r) = k) recs"
  by (induction recs arbitrary: m) auto

lemma NewZone_lookup:
  "lookup_list (records (NewZone z recs)) k =
     filter (\<lambda>r. zr_enabled r \<and> normalizeName (zr_name r) = k) recs"
  by (simp add: NewZone_def NewZone_fold)

lemma NewZone_fold_enabled:
  "fold (\<lambda>r m. if zr_enabled r then append_at (normalizeName (zr_name r)) r m else m) recs m
   = fold (\<lambda>r m. if zr_enabled r then append_at (normalizeName (zr_name r)) r m else m)
       (filter zr_enabled recs) m"
  by (induction recs arbitrary: m) auto

lemma NewZone_enabled: "NewZone z (filter zr_enabled recs) = NewZone z recs"
  by (simp add: NewZone_def NewZone_fold_enabled [symmetric])

text \<open>The zone map never holds an empty record list, so a key and a non-empty lookup are one
  thing.\<close>

definition zone_wf :: "zone \<Rightarrow> bool" where
  "zone_wf z \<longleftrightarrow> [] \<notin> snd ` set (records z)"

lemma NewZone_wf [simp]: "zone_wf (NewZone z recs)"
proof -
  have "[] \<notin> snd ` set (fold (\<lambda>r m. if zr_enabled r
      then append_at (normalizeName (zr_name r)) r m else m) recs m)" if "[] \<notin> snd ` set m" for m
    using that by (induction recs arbitrary: m) (simp_all add: append_at_no_Nil)
  then show ?thesis by (simp add: zone_wf_def NewZone_def)
qed

text \<open>The later of two entries with one name wins the lookup.\<close>

lemma byApex_Nil [simp]: "ix_byApex (NewIndex []) = (\<lambda>_. None)"
  by (simp add: NewIndex_def)

lemma byApex_snoc [simp]:
  "ix_byApex (NewIndex (zs @ [z])) =
     (ix_byApex (NewIndex zs))(normalizeName (z_name (row z)) \<mapsto> length zs)"
  by (simp add: NewIndex_def enumerate_append_eq)

lemma byApex_Some:
  "ix_byApex (NewIndex zs) k = Some i \<Longrightarrow>
     i < length zs \<and> normalizeName (z_name (row (zs ! i))) = k"
proof (induction zs arbitrary: i rule: rev_induct)
  case (snoc z zs)
  then show ?case by (auto simp: nth_append split: if_splits)
qed simp

lemma byApex_None:
  "ix_byApex (NewIndex zs) k = None \<longleftrightarrow> (\<forall>z \<in> set zs. normalizeName (z_name (row z)) \<noteq> k)"
  by (induction zs rule: rev_induct) auto

lemma byApex_distinct:
  assumes "distinct (map (\<lambda>z. normalizeName (z_name (row z))) zs)" "z \<in> set zs"
  shows "\<exists>i. ix_byApex (NewIndex zs) (normalizeName (z_name (row z))) = Some i \<and> zs ! i = z"
  using assms
proof (induction zs rule: rev_induct)
  case (snoc y zs)
  show ?case
  proof (cases "z = y")
    case False
    with snoc.prems have z: "z \<in> set zs" by simp
    with snoc obtain i where i: "ix_byApex (NewIndex zs) (normalizeName (z_name (row z))) = Some i"
      "zs ! i = z" by auto
    from z have "normalizeName (z_name (row z)) \<in> (\<lambda>z. normalizeName (z_name (row z))) ` set zs"
      by (rule imageI)
    with snoc.prems(1) have "normalizeName (z_name (row z)) \<noteq> normalizeName (z_name (row y))"
      by auto
    with i byApex_Some [OF i(1)] show ?thesis by (auto simp: nth_append)
  qed simp
qed simp

lemma ix_zones_NewIndex [simp]: "ix_zones (NewIndex zs) = zs"
  by (simp add: NewIndex_def)

end
