(* ===== verification/Zone_Store.thy ===== *)
theory Zone_Store
  imports Config_Store Zone_Index Serial "HOL-Library.List_Lexorder" "HOL-Library.Char_ord" "HOL-Library.Product_Lexorder"
begin

text \<open>
  The zone, record and TSIG key tables of \<open>internal/store/zones.go\<close> and \<open>tsigkeys.go\<close>, beside the
  configuration tables: which writes are configuration (and advance the version) and which are state,
  the optimistic update, the replacement of a zone's records in one transaction, and the guards that
  keep a key a zone names from being deleted or renamed.
\<close>

record tsig_key =
  k_id :: int
  k_name :: string
  k_algorithm :: string
  k_secret :: string
  k_created :: int

record zdb = db +
  zd_zones :: "zone_row list"
  zd_records :: "zone_record list"
  zd_keys :: "tsig_key list"
  seq_zones :: int
  seq_records :: int
  seq_keys :: int

datatype zone_err = StoreErr store_err | ErrStale

section \<open>Zones\<close>

definition Zones :: "zdb \<Rightarrow> zone_row list" where
  "Zones d = zd_zones d"

definition Zone :: "int \<Rightarrow> zdb \<Rightarrow> store_err + zone_row" where
  "Zone i d = (case List.find (\<lambda>z. z_id z = i) (zd_zones d) of None \<Rightarrow> Inl ErrNotFound | Some z \<Rightarrow> Inr z)"

definition AddZone :: "zone_row \<Rightarrow> zdb \<Rightarrow> (store_err + int) \<times> zdb" where
  "AddZone zn = configInsert (\<lambda>d. let k = seq_zones d + 1 in
     if z_name zn \<in> z_name ` set (zd_zones d) then Inl ErrDuplicate
     else Inr (k, d\<lparr>seq_zones := k, zd_zones := zd_zones d @
       [zn\<lparr>z_id := k, z_last_error := [], z_last_attempt := 0, z_last_xfr_at := 0, z_last_xfr_peer := [],
           z_last_xfr_error := []\<rparr>]\<rparr>))"

text \<open>The columns \<open>updateZoneSQL\<close> names; the outcome columns and the creation date are not among them.\<close>

definition updateZoneCols :: "zone_row \<Rightarrow> zone_row \<Rightarrow> zone_row" where
  "updateZoneCols zn z = zn\<lparr>z_id := z_id z, z_last_error := z_last_error z, z_last_attempt := z_last_attempt z,
     z_last_xfr_at := z_last_xfr_at z, z_last_xfr_peer := z_last_xfr_peer z, z_last_xfr_error := z_last_xfr_error z,
     z_created_at := z_created_at z\<rparr>"

definition updateZone_st :: "(zone_row \<Rightarrow> bool) \<Rightarrow> zone_row \<Rightarrow> zdb \<Rightarrow> store_err + nat \<times> zdb" where
  "updateZone_st P zn d =
     (let hit = (\<lambda>z. z_id z = z_id zn \<and> P z)
      in if \<not> (\<exists>z \<in> set (zd_zones d). hit z) then Inr (0, d)
         else if \<exists>z \<in> set (zd_zones d). z_name z = z_name zn \<and> z_id z \<noteq> z_id zn then Inl ErrDuplicate
         else Inr (1, d\<lparr>zd_zones := map (\<lambda>z. if hit z then updateZoneCols zn z else z) (zd_zones d)\<rparr>))"

definition UpdateZone :: "zone_row \<Rightarrow> zdb \<Rightarrow> (store_err + unit) \<times> zdb" where
  "UpdateZone zn = configExecOne (updateZone_st (\<lambda>_. True) zn)"

definition UpdateZoneIfUnchanged :: "zone_row \<Rightarrow> int \<Rightarrow> zdb \<Rightarrow> (zone_err + unit) \<times> zdb" where
  "UpdateZoneIfUnchanged zn prev d =
     (case configExecN (updateZone_st (\<lambda>z. z_modified_at z = prev) zn) d of
        (Inl e, d') \<Rightarrow> (Inl (StoreErr e), d')
      | (Inr n, d') \<Rightarrow>
          if n > 0 then (Inr (), d')
          else (case Zone (z_id zn) d' of Inl e \<Rightarrow> (Inl (StoreErr e), d') | Inr _ \<Rightarrow> (Inl ErrStale, d')))"

text \<open>\<open>execOne\<close>: a write that is state, not configuration.\<close>

definition execOne :: "(zdb \<Rightarrow> nat \<times> zdb) \<Rightarrow> zdb \<Rightarrow> store_err option \<times> zdb" where
  "execOne st d = (case st d of (n, d') \<Rightarrow> if n = 0 then (Some ErrNotFound, d') else (None, d'))"

definition upd_zone :: "int \<Rightarrow> (zone_row \<Rightarrow> zone_row) \<Rightarrow> zdb \<Rightarrow> nat \<times> zdb" where
  "upd_zone i f d =
     (length (filter (\<lambda>z. z_id z = i) (zd_zones d)),
      d\<lparr>zd_zones := map (\<lambda>z. if z_id z = i then f z else z) (zd_zones d)\<rparr>)"

definition NoteTransferAttempt :: "int \<Rightarrow> int \<Rightarrow> string \<Rightarrow> zdb \<Rightarrow> store_err option \<times> zdb" where
  "NoteTransferAttempt i at err = execOne (upd_zone i (\<lambda>z. z\<lparr>z_last_error := err, z_last_attempt := at\<rparr>))"

definition NoteRefreshed :: "int \<Rightarrow> int \<Rightarrow> int \<Rightarrow> zdb \<Rightarrow> store_err option \<times> zdb" where
  "NoteRefreshed i refreshedAt expiresAt =
     execOne (upd_zone i (\<lambda>z. z\<lparr>z_refreshed_at := refreshedAt, z_expires_at := expiresAt\<rparr>))"

definition NoteTransferRequest :: "int \<Rightarrow> int \<Rightarrow> string \<Rightarrow> string \<Rightarrow> zdb \<Rightarrow> store_err option \<times> zdb" where
  "NoteTransferRequest i at peer err =
     execOne (upd_zone i (\<lambda>z. z\<lparr>z_last_xfr_at := at, z_last_xfr_peer := peer, z_last_xfr_error := err\<rparr>))"

definition BumpSerial :: "int \<Rightarrow> int \<Rightarrow> zdb \<Rightarrow> store_err option \<times> zdb" where
  "BumpSerial i now =
     execOne (upd_zone i (\<lambda>z. z\<lparr>z_soa_serial := word_of_int (bumpSerial (uint (z_soa_serial z))), z_modified_at := now\<rparr>))"

definition DeleteZone :: "int \<Rightarrow> zdb \<Rightarrow> (store_err + unit) \<times> zdb" where
  "DeleteZone i = configExecOne (\<lambda>d.
     Inr (length (filter (\<lambda>z. z_id z = i) (zd_zones d)),
          d\<lparr>zd_zones := filter (\<lambda>z. z_id z \<noteq> i) (zd_zones d),
            zd_records := filter (\<lambda>r. zr_zone r \<noteq> i) (zd_records d)\<rparr>))"

section \<open>Records\<close>

definition Records :: "int \<Rightarrow> zdb \<Rightarrow> zone_record list" where
  "Records i d = sort_key (\<lambda>r. (zr_name r, zr_id r)) (filter (\<lambda>r. zr_zone r = i) (zd_records d))"

definition insertRecord :: "zone_record \<Rightarrow> zdb \<Rightarrow> store_err + int \<times> zdb" where
  "insertRecord r d =
     (if zr_zone r \<notin> z_id ` set (zd_zones d) then Inl ErrReference
      else let k = seq_records d + 1
           in Inr (k, d\<lparr>seq_records := k, zd_records := zd_records d @ [r\<lparr>zr_id := k\<rparr>]\<rparr>))"

definition AddRecord :: "zone_record \<Rightarrow> zdb \<Rightarrow> (store_err + int) \<times> zdb" where
  "AddRecord r d = (case insertRecord r d of Inl e \<Rightarrow> (Inl e, d) | Inr (k, d') \<Rightarrow> (Inr k, d'))"

definition updateRecord_st :: "zone_record \<Rightarrow> zdb \<Rightarrow> nat \<times> zdb" where
  "updateRecord_st r d =
     (length (filter (\<lambda>x. zr_id x = zr_id r) (zd_records d)),
      d\<lparr>zd_records := map (\<lambda>x. if zr_id x = zr_id r then r\<lparr>zr_zone := zr_zone x\<rparr> else x) (zd_records d)\<rparr>)"

definition deleteRecord_st :: "int \<Rightarrow> zdb \<Rightarrow> nat \<times> zdb" where
  "deleteRecord_st i d =
     (length (filter (\<lambda>x. zr_id x = i) (zd_records d)),
      d\<lparr>zd_records := filter (\<lambda>x. zr_id x \<noteq> i) (zd_records d)\<rparr>)"

definition UpdateRecord :: "zone_record \<Rightarrow> zdb \<Rightarrow> store_err option \<times> zdb" where
  "UpdateRecord r = execOne (updateRecord_st r)"

definition DeleteRecord :: "int \<Rightarrow> zdb \<Rightarrow> store_err option \<times> zdb" where
  "DeleteRecord i = execOne (deleteRecord_st i)"

text \<open>\<open>execOneTx\<close> inside a transaction: the first error stops it.\<close>

definition execOneTx :: "(zdb \<Rightarrow> nat \<times> zdb) \<Rightarrow> zdb \<Rightarrow> store_err + zdb" where
  "execOneTx st d = (case st d of (n, d') \<Rightarrow> if n = 0 then Inl ErrNotFound else Inr d')"

fun tx_all :: "('x \<Rightarrow> zdb \<Rightarrow> store_err + zdb) \<Rightarrow> 'x list \<Rightarrow> zdb \<Rightarrow> store_err + zdb" where
  "tx_all f [] d = Inr d"
| "tx_all f (x # xs) d = (case f x d of Inl e \<Rightarrow> Inl e | Inr d' \<Rightarrow> tx_all f xs d')"

definition replace_tx :: "zone_row \<Rightarrow> int list \<Rightarrow> zone_record list \<Rightarrow> zone_record list \<Rightarrow> zdb \<Rightarrow> store_err + zdb" where
  "replace_tx zn deleteIDs updates adds d =
     (case tx_all (\<lambda>i. execOneTx (deleteRecord_st i)) deleteIDs d of
        Inl e \<Rightarrow> Inl e
      | Inr d \<Rightarrow>
     (case tx_all (\<lambda>r. execOneTx (updateRecord_st r)) updates d of
        Inl e \<Rightarrow> Inl e
      | Inr d \<Rightarrow>
     (case tx_all (\<lambda>r d. case insertRecord r d of Inl e \<Rightarrow> Inl e | Inr (_, d') \<Rightarrow> Inr d') adds d of
        Inl e \<Rightarrow> Inl e
      | Inr d \<Rightarrow>
     (case updateZone_st (\<lambda>_. True) zn d of
        Inl e \<Rightarrow> Inl e
      | Inr (n, d) \<Rightarrow> if n = 0 then Inl ErrNotFound else Inr d))))"

definition ReplaceRecords ::
  "zone_row \<Rightarrow> int list \<Rightarrow> zone_record list \<Rightarrow> zone_record list \<Rightarrow> zdb \<Rightarrow> store_err option \<times> zdb" where
  "ReplaceRecords zn deleteIDs updates adds d =
     (case replace_tx zn deleteIDs updates adds d of Inl e \<Rightarrow> (Some e, d) | Inr d' \<Rightarrow> (None, d'))"

section \<open>TSIG keys\<close>

fun contains :: "string \<Rightarrow> string \<Rightarrow> bool" where
  "contains [] t = (t = [])"
| "contains (c # s) t = (HasPrefix (c # s) t \<or> contains s t)"

definition aclKeyRef :: "string \<Rightarrow> zdb \<Rightarrow> bool" where
  "aclKeyRef kname d =
     (\<exists>z \<in> set (zd_zones d).
        contains ('','' @ filter (\<lambda>c. c \<noteq> CHR '' '') (z_allow_transfer z) @ '','') ('',key:'' @ kname @ '',''))"

definition notifyKeyRef :: "string \<Rightarrow> zdb \<Rightarrow> bool" where
  "notifyKeyRef kname d =
     (\<exists>z \<in> set (zd_zones d). contains (z_notify_to z @ '','') ('' key:'' @ kname @ '',''))"

definition syncKeySetting :: string where
  "syncKeySetting = ''sync.tsig_key_id''"

definition GetKey :: "int \<Rightarrow> zdb \<Rightarrow> tsig_key option" where
  "GetKey i d = List.find (\<lambda>k. k_id k = i) (zd_keys d)"

definition ByName :: "string \<Rightarrow> zdb \<Rightarrow> tsig_key option" where
  "ByName n d = List.find (\<lambda>k. k_name k = n) (zd_keys d)"

definition CreateKey :: "tsig_key \<Rightarrow> zdb \<Rightarrow> (store_err + int) \<times> zdb" where
  "CreateKey k = configInsert (\<lambda>d. let i = seq_keys d + 1 in
     if k_name k \<in> k_name ` set (zd_keys d) then Inl ErrDuplicate
     else Inr (i, d\<lparr>seq_keys := i, zd_keys := zd_keys d @ [k\<lparr>k_id := i\<rparr>]\<rparr>))"

definition key_missing_or_used :: "int \<Rightarrow> (store_err + nat) \<times> zdb \<Rightarrow> (store_err + unit) \<times> zdb" where
  "key_missing_or_used i r =
     (case r of
        (Inl e, d') \<Rightarrow> (Inl e, d')
      | (Inr n, d') \<Rightarrow>
          if n > 0 then (Inr (), d')
          else if GetKey i d' = None then (Inl ErrNotFound, d') else (Inl ErrInUse, d'))"

definition UpdateKey :: "tsig_key \<Rightarrow> zdb \<Rightarrow> (store_err + unit) \<times> zdb" where
  "UpdateKey k d =
     key_missing_or_used (k_id k) (configExecN (\<lambda>d.
       let hit = (\<lambda>x. k_id x = k_id k \<and> (k_name x = k_name k \<or> \<not> aclKeyRef (k_name x) d \<and> \<not> notifyKeyRef (k_name x) d))
       in if \<not> (\<exists>x \<in> set (zd_keys d). hit x) then Inr (0, d)
          else if \<exists>x \<in> set (zd_keys d). k_name x = k_name k \<and> k_id x \<noteq> k_id k then Inl ErrDuplicate
          else Inr (1, d\<lparr>zd_keys := map (\<lambda>x. if hit x then k\<lparr>k_created := k_created x\<rparr> else x) (zd_keys d)\<rparr>)) d)"

definition DeleteKey :: "int \<Rightarrow> zdb \<Rightarrow> (store_err + unit) \<times> zdb" where
  "DeleteKey i d =
     key_missing_or_used i (configExecN (\<lambda>d.
       let hit = (\<lambda>x. k_id x = i \<and> \<not> (\<exists>z \<in> set (zd_zones d). z_tsig_key z = k_id x) \<and>
                  \<not> aclKeyRef (k_name x) d \<and> \<not> notifyKeyRef (k_name x) d \<and>
                  Get syncKeySetting d \<noteq> Some (FormatInt i))
       in Inr (length (filter hit (zd_keys d)), d\<lparr>zd_keys := filter (\<lambda>x. \<not> hit x) (zd_keys d)\<rparr>)) d)"

end
