(* ===== verification/Zone_Records.thy ===== *)
theory Zone_Records
  imports Zone_Store "HOL-Library.AList" "HOL-Library.Multiset"
begin

text \<open>
  The rules a record must satisfy to be written into a zone and the diff that turns one set of records
  into another, \<open>internal/zones/record.go\<close>: the one validator and the one differ behind the hand
  write, the zone file import and the zone transfer.
\<close>

section \<open>Validation\<close>

definition maxRecordTTL :: u32 where
  "maxRecordTTL = 2147483647"

record RecordWrite =
  w_name :: string
  w_type :: string
  w_ttl :: u32
  w_rdata :: string
  w_enabled :: "bool option"
  w_comment :: string

text \<open>The refusals, in the order they are checked; the last three are conflicts with the zone.\<close>

datatype RecordProblem =
    BadName | SOAIsOnTheZone | UnsupportedType | Unparsable string | EmptyRData | TTLTooLarge
  | ApexCNAME | CNAMESibling | RRSetTTL

definition Conflict :: "RecordProblem \<Rightarrow> bool" where
  "Conflict p \<longleftrightarrow> p \<in> {ApexCNAME, CNAMESibling, RRSetTTL}"

definition RelRecordName :: "dns_lib \<Rightarrow> string \<Rightarrow> string \<Rightarrow> string" where
  "RelRecordName L raw zoneName =
     (let name = ToLower (TrimSuffix (TrimSpace raw) ''.'');
          zn = ToLower (TrimSuffix zoneName ''.'')
      in if name = [] \<or> name = zn then apexName else RelName L name zn)"

definition forbiddenNameChars :: string where
  "forbiddenNameChars = [CHR '' '', CHR 0x09, CHR 0x0D, CHR 0x0A, CHR '';'', CHR 0x22, CHR ''('', CHR '')'', CHR 0x5C, CHR ''/'']"

definition validRecordName :: "dns_lib \<Rightarrow> string \<Rightarrow> bool" where
  "validRecordName L name =
     (if name = apexName then True
      else if name = [] \<or> ContainsAny name forbiddenNameChars then False
      else if HasPrefix name ''$'' then False
      else if list_ex (\<lambda>label. label = []) (Split name CHR ''.'') then False
      else IsDomainName L name)"

definition resolvesBareAt :: "string \<Rightarrow> bool" where
  "resolvesBareAt rdata = list_ex (\<lambda>f. f = ''@'') (Fields rdata)"

definition rrForWrite :: "dns_lib \<Rightarrow> string \<Rightarrow> string \<Rightarrow> zone_record \<Rightarrow> string + rr" where
  "rrForWrite L fqdn apex rec =
     (if \<not> resolvesBareAt (zr_rdata rec) then ToRR L fqdn rec
      else case ParseUnder L (Fqdn L apex) (rr_line L fqdn rec @ [CHR 0x0A]) of
             Inl e \<Rightarrow> Inl e
           | Inr None \<Rightarrow> Inl errParsesToNothing
           | Inr (Some rr) \<Rightarrow> Inr rr)"

fun sibling_problem :: "string \<Rightarrow> string \<Rightarrow> u32 \<Rightarrow> int \<Rightarrow> bool \<Rightarrow> zone_record list \<Rightarrow> RecordProblem option" where
  "sibling_problem name recType ttl selfID hasSelf [] = None"
| "sibling_problem name recType ttl selfID hasSelf (sib # sibs) =
     (if zr_name sib \<noteq> name \<or> (hasSelf \<and> zr_id sib = selfID) then sibling_problem name recType ttl selfID hasSelf sibs
      else if recType = ''CNAME'' \<or> zr_type sib = ''CNAME'' then Some CNAMESibling
      else if zr_type sib = recType \<and> zr_ttl sib \<noteq> ttl then Some RRSetTTL
      else sibling_problem name recType ttl selfID hasSelf sibs)"

definition BuildRecord ::
  "dns_lib \<Rightarrow> zone_row \<Rightarrow> RecordWrite \<Rightarrow> zone_record list \<Rightarrow> int \<Rightarrow> bool \<Rightarrow> RecordProblem + zone_record" where
  "BuildRecord L z w existing selfID hasSelf =
     (let name = RelRecordName L (w_name w) (z_name z);
          recType = ToUpper (TrimSpace (w_type w));
          rec = \<lparr>zr_id = 0, zr_zone = z_id z, zr_name = name, zr_type = recType, zr_ttl = w_ttl w,
                 zr_rdata = w_rdata w, zr_enabled = (case w_enabled w of None \<Rightarrow> True | Some b \<Rightarrow> b),
                 zr_comment = w_comment w\<rparr>
      in if \<not> validRecordName L name then Inl BadName
         else if recType = ''SOA'' then Inl SOAIsOnTheZone
         else if StringToType L recType = None then Inl UnsupportedType
         else case rrForWrite L (RecordFQDN (z_name z) name) (z_name z) rec of
                Inl e \<Rightarrow> Inl (Unparsable e)
              | Inr rr \<Rightarrow>
                  (let rec = rec\<lparr>zr_rdata := RDataOf L rr\<rparr>
                   in if zr_rdata rec = [] then Inl EmptyRData
                      else if zr_ttl rec > maxRecordTTL then Inl TTLTooLarge
                      else if name = apexName \<and> recType = ''CNAME'' then Inl ApexCNAME
                      else case sibling_problem name recType (zr_ttl rec) selfID hasSelf existing of
                             Some p \<Rightarrow> Inl p
                           | None \<Rightarrow> Inr rec))"

section \<open>The diff\<close>

type_synonym recordIdentity = "string \<times> string \<times> string"

record RecordDiff =
  d_add :: "zone_record list"
  d_change :: "(zone_record \<times> zone_record) list"
  d_delete :: "zone_record list"

definition identify :: "dns_lib \<Rightarrow> string \<Rightarrow> zone_record \<Rightarrow> recordIdentity" where
  "identify L zoneName rec =
     (zr_name rec, zr_type rec,
      case ToRR L (RecordFQDN zoneName (zr_name rec)) rec of Inl _ \<Rightarrow> zr_rdata rec | Inr rr \<Rightarrow> RDataOf L rr)"

text \<open>The loop over the wanted records: the pools of unmatched rows by identity, the ids matched so far,
  the additions and the changes.\<close>

fun diff_loop ::
  "(zone_record \<Rightarrow> 'k) \<Rightarrow> zone_record list \<Rightarrow> ('k \<times> zone_record list) list \<Rightarrow> int list
     \<Rightarrow> zone_record list \<Rightarrow> (zone_record \<times> zone_record) list
     \<Rightarrow> int list \<times> zone_record list \<times> (zone_record \<times> zone_record) list" where
  "diff_loop key [] unmatched matched add change = (matched, add, change)"
| "diff_loop key (rec # want) unmatched matched add change =
     (case lookup_list unmatched (key rec) of
        [] \<Rightarrow> diff_loop key want unmatched matched (add @ [rec]) change
      | old # rest \<Rightarrow>
          (let rec' = rec\<lparr>zr_id := zr_id old, zr_comment := zr_comment old\<rparr>
           in diff_loop key want (AList.update (key rec) rest unmatched) (zr_id old # matched) add
                (if zr_ttl rec' \<noteq> zr_ttl old \<or> zr_enabled rec' \<noteq> zr_enabled old then change @ [(old, rec')] else change)))"

definition DiffRecords :: "dns_lib \<Rightarrow> string \<Rightarrow> zone_record list \<Rightarrow> zone_record list \<Rightarrow> RecordDiff" where
  "DiffRecords L zoneName existing want =
     (let key = identify L zoneName;
          unmatched = fold (\<lambda>rec m. append_at (key rec) rec m) existing [];
          (matched, add, change) = diff_loop key want unmatched [] [] []
      in \<lparr>d_add = add, d_change = change, d_delete = filter (\<lambda>rec. zr_id rec \<notin> set matched) existing\<rparr>)"

definition DeleteIDs :: "RecordDiff \<Rightarrow> int list" where
  "DeleteIDs d = map zr_id (d_delete d)"

definition Updates :: "RecordDiff \<Rightarrow> zone_record list" where
  "Updates d = map snd (d_change d)"

section \<open>What the diff pairs up\<close>

definition merged :: "zone_record \<Rightarrow> zone_record \<Rightarrow> zone_record" where
  "merged old rec = rec\<lparr>zr_id := zr_id old, zr_comment := zr_comment old\<rparr>"

definition changed :: "zone_record \<times> zone_record \<Rightarrow> bool" where
  "changed p \<longleftrightarrow> zr_ttl (snd p) \<noteq> zr_ttl (fst p) \<or> zr_enabled (snd p) \<noteq> zr_enabled (fst p)"

text \<open>A pool of unmatched rows: each under its own identity, no id twice, none matched before.\<close>

definition pool_ok :: "(zone_record \<Rightarrow> 'k) \<Rightarrow> zone_record set \<Rightarrow> int list \<Rightarrow> ('k \<times> zone_record list) list \<Rightarrow> bool" where
  "pool_ok key E matched unm \<longleftrightarrow>
     (\<forall>k. distinct (map zr_id (lookup_list unm k)) \<and>
       (\<forall>r \<in> set (lookup_list unm k). r \<in> E \<and> key r = k \<and> zr_id r \<notin> set matched))"

lemma lookup_update [simp]: "lookup_list (AList.update k vs m) j = (if j = k then vs else lookup_list m j)"
  by (simp add: lookup_list_def update_conv')

lemma pool_ok_take:
  assumes "pool_ok key E matched unm" "lookup_list unm k = old # rest" "inj_on zr_id E"
  shows "pool_ok key E (zr_id old # matched) (AList.update k rest unm)"
proof -
  have old: "old \<in> E" "key old = k" using assms(1,2) by (metis list.set_intros(1) pool_ok_def)+
  have "zr_id r \<noteq> zr_id old" if "r \<in> set (lookup_list unm j)" "j \<noteq> k" for r j
    using that assms(1,3) old by (metis inj_onD pool_ok_def)
  moreover have "distinct (map zr_id (old # rest))" using assms(1,2) by (metis pool_ok_def)
  moreover have "\<forall>r \<in> set rest. r \<in> E \<and> key r = k \<and> zr_id r \<notin> set matched"
    using assms(1,2) by (metis list.set_intros(2) pool_ok_def)
  ultimately show ?thesis using assms(1) by (auto simp: pool_ok_def dest: sym intro: rev_image_eqI)
qed

lemma diff_loop_pairs:
  assumes "pool_ok key E matched unm" "inj_on zr_id E"
    and "diff_loop key want unm matched add change = (matched', add', change')"
  shows "\<exists>pairs adds.
    set matched' = set matched \<union> (\<lambda>p. zr_id (fst p)) ` set pairs \<and> add' = add @ adds \<and>
    change' = change @ filter changed (map (\<lambda>(o', r). (o', merged o' r)) pairs) \<and>
    mset want = mset (map snd pairs) + mset adds \<and>
    (\<forall>(o', r) \<in> set pairs. o' \<in> E \<and> key o' = key r) \<and>
    distinct (map (\<lambda>p. zr_id (fst p)) pairs) \<and> (\<lambda>p. zr_id (fst p)) ` set pairs \<inter> set matched = {} \<and>
    set adds \<subseteq> set want"
  using assms
proof (induction want arbitrary: unm matched add change)
  case Nil
  then show ?case by (intro exI [of _ "[]"]) auto
next
  case (Cons rec want)
  show ?case
  proof (cases "lookup_list unm (key rec)")
    case Nil
    have "diff_loop key want unm matched (add @ [rec]) change = (matched', add', change')"
      using Cons.prems(3) Nil by simp
    from Cons.IH [OF Cons.prems(1,2) this] obtain pairs adds where
      "set matched' = set matched \<union> (\<lambda>p. zr_id (fst p)) ` set pairs" "add' = (add @ [rec]) @ adds"
      "change' = change @ filter changed (map (\<lambda>(o', r). (o', merged o' r)) pairs)"
      "mset want = mset (map snd pairs) + mset adds"
      "\<forall>(o', r) \<in> set pairs. o' \<in> E \<and> key o' = key r" "distinct (map (\<lambda>p. zr_id (fst p)) pairs)"
      "(\<lambda>p. zr_id (fst p)) ` set pairs \<inter> set matched = {}" "set adds \<subseteq> set want" by blast
    then show ?thesis by (intro exI [of _ pairs] exI [of _ "rec # adds"]) auto
  next
    case (Cons old rest)
    let ?ch = "if zr_ttl rec \<noteq> zr_ttl old \<or> zr_enabled rec \<noteq> zr_enabled old then change @ [(old, merged old rec)] else change"
    have step: "diff_loop key want (AList.update (key rec) rest unm) (zr_id old # matched) add ?ch = (matched', add', change')"
      using Cons.prems(3) Cons by (auto simp: Let_def merged_def split: if_splits)
    have old: "old \<in> E" "key old = key rec" "zr_id old \<notin> set matched"
      using Cons.prems(1) Cons by (metis list.set_intros(1) pool_ok_def)+
    from Cons.IH [OF pool_ok_take [OF Cons.prems(1) Cons Cons.prems(2)] Cons.prems(2) step] obtain pairs adds where p:
      "set matched' = set (zr_id old # matched) \<union> (\<lambda>p. zr_id (fst p)) ` set pairs" "add' = add @ adds"
      "change' = ?ch @ filter changed (map (\<lambda>(o', r). (o', merged o' r)) pairs)"
      "mset want = mset (map snd pairs) + mset adds"
      "\<forall>(o', r) \<in> set pairs. o' \<in> E \<and> key o' = key r" "distinct (map (\<lambda>p. zr_id (fst p)) pairs)"
      "(\<lambda>p. zr_id (fst p)) ` set pairs \<inter> set (zr_id old # matched) = {}" "set adds \<subseteq> set want" by blast
    have "change' = change @ filter changed (map (\<lambda>(o', r). (o', merged o' r)) ((old, rec) # pairs))"
      using p(3) by (auto simp: changed_def merged_def)
    with p old show ?thesis
      by (intro exI [of _ "(old, rec) # pairs"] exI [of _ adds]) auto
  qed
qed

lemma pool_start:
  assumes "distinct (map zr_id existing)"
  shows "pool_ok key (set existing) [] (fold (\<lambda>rec m. append_at (key rec) rec m) existing [])"
proof -
  have "lookup_list (fold (\<lambda>rec m. append_at (key rec) rec m) xs m) k = lookup_list m k @ filter (\<lambda>r. key r = k) xs" for xs m k
    by (induction xs arbitrary: m) auto
  then show ?thesis using assms by (auto simp: pool_ok_def distinct_map_filter)
qed

text \<open>The whole diff: the wanted records are the additions and the partners of the kept rows.\<close>

lemma DiffRecords_pairs:
  assumes "distinct (map zr_id existing)"
  shows "\<exists>pairs.
    mset want = mset (map snd pairs) + mset (d_add (DiffRecords L zn existing want)) \<and>
    (\<forall>(o', r) \<in> set pairs. o' \<in> set existing \<and> identify L zn o' = identify L zn r) \<and>
    distinct (map (\<lambda>p. zr_id (fst p)) pairs) \<and>
    Updates (DiffRecords L zn existing want) = map snd (filter changed (map (\<lambda>(o', r). (o', merged o' r)) pairs)) \<and>
    d_delete (DiffRecords L zn existing want) = filter (\<lambda>r. zr_id r \<notin> (\<lambda>p. zr_id (fst p)) ` set pairs) existing \<and>
    set (d_add (DiffRecords L zn existing want)) \<subseteq> set want"
proof -
  let ?key = "identify L zn"
  obtain matched add change where d: "diff_loop ?key want (fold (\<lambda>rec m. append_at (?key rec) rec m) existing []) [] [] [] = (matched, add, change)"
    by (rule prod_cases3)
  have inj: "inj_on zr_id (set existing)" using assms by (simp add: distinct_map)
  have D: "DiffRecords L zn existing want = \<lparr>d_add = add, d_change = change, d_delete = filter (\<lambda>rec. zr_id rec \<notin> set matched) existing\<rparr>"
    by (simp add: DiffRecords_def d)
  have "\<exists>pairs adds.
    set matched = set [] \<union> (\<lambda>p. zr_id (fst p)) ` set pairs \<and> add = [] @ adds \<and>
    change = [] @ filter changed (map (\<lambda>(o', r). (o', merged o' r)) pairs) \<and>
    mset want = mset (map snd pairs) + mset adds \<and>
    (\<forall>(o', r) \<in> set pairs. o' \<in> set existing \<and> ?key o' = ?key r) \<and>
    distinct (map (\<lambda>p. zr_id (fst p)) pairs) \<and> (\<lambda>p. zr_id (fst p)) ` set pairs \<inter> set [] = {} \<and>
    set adds \<subseteq> set want"
    by (rule diff_loop_pairs [OF pool_start [OF assms] inj d])
  then obtain pairs adds where p: "set matched = set [] \<union> (\<lambda>p. zr_id (fst p)) ` set pairs \<and> add = [] @ adds \<and>
    change = [] @ filter changed (map (\<lambda>(o', r). (o', merged o' r)) pairs) \<and>
    mset want = mset (map snd pairs) + mset adds \<and>
    (\<forall>(o', r) \<in> set pairs. o' \<in> set existing \<and> ?key o' = ?key r) \<and>
    distinct (map (\<lambda>p. zr_id (fst p)) pairs) \<and> (\<lambda>p. zr_id (fst p)) ` set pairs \<inter> set [] = {} \<and>
    set adds \<subseteq> set want" by (elim exE)
  show ?thesis by (rule exI [of _ pairs]) (use p in \<open>simp add: D Updates_def\<close>)
qed

section \<open>Applying the diff\<close>

text \<open>The invariant of the zone tables.\<close>

definition zdb_ok :: "zdb \<Rightarrow> bool" where
  "zdb_ok d \<longleftrightarrow>
     keys_ok z_id (seq_zones d) (zd_zones d) \<and> distinct (map z_name (zd_zones d)) \<and>
     keys_ok zr_id (seq_records d) (zd_records d) \<and>
     (\<forall>r \<in> set (zd_records d). zr_zone r \<in> z_id ` set (zd_zones d)) \<and>
     keys_ok k_id (seq_keys d) (zd_keys d) \<and> distinct (map k_name (zd_keys d))"

lemma tx_deletes:
  assumes "distinct ids" "set ids \<subseteq> zr_id ` set (zd_records d)"
  shows "tx_all (\<lambda>i. execOneTx (deleteRecord_st i)) ids d =
    Inr (d\<lparr>zd_records := filter (\<lambda>x. zr_id x \<notin> set ids) (zd_records d)\<rparr>)"
  using assms
proof (induction ids arbitrary: d)
  case (Cons i ids)
  let ?d = "d\<lparr>zd_records := filter (\<lambda>x. zr_id x \<noteq> i) (zd_records d)\<rparr>"
  have "filter (\<lambda>x. zr_id x = i) (zd_records d) \<noteq> []" using Cons.prems by (auto simp: filter_empty_conv)
  then have "execOneTx (deleteRecord_st i) d = Inr ?d" by (simp add: execOneTx_def deleteRecord_st_def)
  moreover have sub: "set ids \<subseteq> zr_id ` set (zd_records ?d)"
  proof
    fix j assume j: "j \<in> set ids"
    with Cons.prems obtain r where "r \<in> set (zd_records d)" "zr_id r = j" by auto
    moreover have "j \<noteq> i" using j Cons.prems(1) by auto
    ultimately show "j \<in> zr_id ` set (zd_records ?d)" by (intro rev_image_eqI [of r]) auto
  qed
  have "tx_all (\<lambda>i. execOneTx (deleteRecord_st i)) ids ?d =
      Inr (?d\<lparr>zd_records := filter (\<lambda>x. zr_id x \<notin> set ids) (zd_records ?d)\<rparr>)"
    using Cons.prems(1) sub by (intro Cons.IH) simp_all
  moreover have "filter (\<lambda>x. zr_id x \<notin> set ids) (filter (\<lambda>x. zr_id x \<noteq> i) (zd_records d)) =
      filter (\<lambda>x. zr_id x \<notin> set (i # ids)) (zd_records d)"
    unfolding filter_filter by (rule filter_cong) auto
  ultimately show ?case by simp
qed simp

definition apply_updates :: "zone_record list \<Rightarrow> zone_record \<Rightarrow> zone_record" where
  "apply_updates us x =
     (case map_of (map (\<lambda>u. (zr_id u, u)) us) (zr_id x) of Some u \<Rightarrow> u\<lparr>zr_zone := zr_zone x\<rparr> | None \<Rightarrow> x)"

lemma map_of_self: "map_of (map (\<lambda>u. (f u, u)) us) k = Some u \<Longrightarrow> u \<in> set us \<and> f u = k"
  by (induction us) (auto split: if_splits)

lemma apply_updates_frame [simp]: "zr_id (apply_updates us x) = zr_id x" "zr_zone (apply_updates us x) = zr_zone x"
  by (auto simp: apply_updates_def split: option.splits dest: map_of_self)

lemma apply_updates_Cons:
  assumes "zr_id u \<notin> zr_id ` set us"
  shows "apply_updates us (if zr_id x = zr_id u then u\<lparr>zr_zone := zr_zone x\<rparr> else x) = apply_updates (u # us) x"
proof -
  have "map_of (map (\<lambda>u. (zr_id u, u)) us) (zr_id u) = None"
    using assms by (auto simp: map_of_eq_None_iff image_image)
  then show ?thesis by (simp add: apply_updates_def)
qed

lemma tx_updates:
  assumes "distinct (map zr_id us)" "zr_id ` set us \<subseteq> zr_id ` set (zd_records d)"
  shows "tx_all (\<lambda>r. execOneTx (updateRecord_st r)) us d =
    Inr (d\<lparr>zd_records := map (apply_updates us) (zd_records d)\<rparr>)"
  using assms
proof (induction us arbitrary: d)
  case Nil
  then show ?case by (simp add: apply_updates_def)
next
  case (Cons u us)
  let ?f = "\<lambda>x. if zr_id x = zr_id u then u\<lparr>zr_zone := zr_zone x\<rparr> else x"
  let ?d = "d\<lparr>zd_records := map ?f (zd_records d)\<rparr>"
  have "filter (\<lambda>x. zr_id x = zr_id u) (zd_records d) \<noteq> []" using Cons.prems(2) by (auto simp: filter_empty_conv)
  then have st: "execOneTx (updateRecord_st u) d = Inr ?d" by (simp add: execOneTx_def updateRecord_st_def)
  have "map zr_id (map ?f (zd_records d)) = map zr_id (zd_records d)" by simp
  then have "zr_id ` set (map ?f (zd_records d)) = zr_id ` set (zd_records d)" by (metis set_map)
  then have ids: "zr_id ` set (zd_records ?d) = zr_id ` set (zd_records d)" by simp
  have nu: "zr_id u \<notin> zr_id ` set us" using Cons.prems(1) by simp
  have "map (apply_updates us) (map ?f (zd_records d)) = map (apply_updates (u # us)) (zd_records d)"
    using apply_updates_Cons [OF nu] by simp
  moreover have "tx_all (\<lambda>r. execOneTx (updateRecord_st r)) us ?d =
      Inr (?d\<lparr>zd_records := map (apply_updates us) (zd_records ?d)\<rparr>)"
    by (rule Cons.IH) (use Cons.prems ids in auto)
  ultimately show ?case by (simp add: st)
qed

fun numbered :: "int \<Rightarrow> zone_record list \<Rightarrow> zone_record list" where
  "numbered k [] = []"
| "numbered k (r # rs) = r\<lparr>zr_id := k + 1\<rparr> # numbered (k + 1) rs"

lemma tx_adds:
  assumes "\<forall>r \<in> set adds. zr_zone r \<in> z_id ` set (zd_zones d)"
  shows "tx_all (\<lambda>r d. case insertRecord r d of Inl e \<Rightarrow> Inl e | Inr (_, d') \<Rightarrow> Inr d') adds d =
    Inr (d\<lparr>seq_records := seq_records d + int (length adds), zd_records := zd_records d @ numbered (seq_records d) adds\<rparr>)"
  using assms
proof (induction adds arbitrary: d)
  case (Cons r rs)
  then show ?case by (simp add: insertRecord_def Let_def add.commute add.left_commute)
qed simp

lemma numbered_keys: "keys_ok zr_id k rows \<Longrightarrow> keys_ok zr_id (k + int (length rs)) (rows @ numbered k rs)"
proof (induction rs arbitrary: k rows)
  case (Cons r rs)
  from keys_ok_snoc [OF Cons.prems, of "r\<lparr>zr_id := k + 1\<rparr>"] have "keys_ok zr_id (k + 1) (rows @ [r\<lparr>zr_id := k + 1\<rparr>])" by simp
  from Cons.IH [OF this] show ?case by (simp add: add.assoc)
qed simp

lemma numbered_above: "r \<in> set (numbered k rs) \<Longrightarrow> k < zr_id r"
  by (induction k rs rule: numbered.induct) auto

lemma identify_frame [simp]:
  "identify L zn (r\<lparr>zr_id := i\<rparr>) = identify L zn r" "identify L zn (r\<lparr>zr_comment := c\<rparr>) = identify L zn r"
  "identify L zn (r\<lparr>zr_zone := z\<rparr>) = identify L zn r"
  by (simp_all add: identify_def ToRR_def rr_line_def cong: sum.case_cong)

text \<open>What the zone serves of a row: its identity, its TTL and whether it is enabled.\<close>

definition served :: "dns_lib \<Rightarrow> string \<Rightarrow> zone_record \<Rightarrow> recordIdentity \<times> u32 \<times> bool" where
  "served L zn r = (identify L zn r, zr_ttl r, zr_enabled r)"

lemma served_frame [simp]:
  "served L zn (r\<lparr>zr_id := i\<rparr>) = served L zn r" "served L zn (r\<lparr>zr_zone := z\<rparr>) = served L zn r"
  "served L zn (merged o' r) = served L zn r"
  by (simp_all add: served_def merged_def)

lemma served_numbered: "map (served L zn) (numbered k rs) = map (served L zn) rs"
  by (induction k rs rule: numbered.induct) simp_all

lemma zone_numbered: "map zr_zone (numbered k rs) = map zr_zone rs"
  by (induction k rs rule: numbered.induct) simp_all

lemma replace_tx_result:
  assumes "distinct ids" "set ids \<subseteq> zr_id ` set (zd_records d)"
    and "distinct (map zr_id us)" "zr_id ` set us \<subseteq> zr_id ` set (zd_records d) - set ids"
    and "\<forall>r \<in> set adds. zr_zone r \<in> z_id ` set (zd_zones d)"
    and "z_id zn \<in> z_id ` set (zd_zones d)" "\<forall>z \<in> set (zd_zones d). z_name z = z_name zn \<longrightarrow> z_id z = z_id zn"
  shows "ReplaceRecords zn ids us adds d =
    (None, d\<lparr>zd_records := map (apply_updates us) (filter (\<lambda>x. zr_id x \<notin> set ids) (zd_records d)) @ numbered (seq_records d) adds,
             seq_records := seq_records d + int (length adds),
             zd_zones := map (\<lambda>z. if z_id z = z_id zn then updateZoneCols zn z else z) (zd_zones d)\<rparr>)"
proof -
  let ?R = "filter (\<lambda>x. zr_id x \<notin> set ids) (zd_records d)"
  let ?d1 = "d\<lparr>zd_records := ?R\<rparr>"
  let ?d2 = "d\<lparr>zd_records := map (apply_updates us) ?R\<rparr>"
  have "zr_id ` set us \<subseteq> zr_id ` set (zd_records ?d1)" using assms(4) by (auto; blast)
  then have u: "tx_all (\<lambda>r. execOneTx (updateRecord_st r)) us ?d1 = Inr ?d2"
    using tx_updates [OF assms(3), of ?d1] by simp
  have a: "tx_all (\<lambda>r d. case insertRecord r d of Inl e \<Rightarrow> Inl e | Inr (_, d') \<Rightarrow> Inr d') adds ?d2 =
    Inr (d\<lparr>zd_records := map (apply_updates us) ?R @ numbered (seq_records d) adds, seq_records := seq_records d + int (length adds)\<rparr>)"
    using tx_adds [of adds ?d2] assms(5) by simp
  have z: "updateZone_st (\<lambda>_. True) zn x =
      Inr (1, x\<lparr>zd_zones := map (\<lambda>z. if z_id z = z_id zn then updateZoneCols zn z else z) (zd_zones x)\<rparr>)"
    if "zd_zones x = zd_zones d" for x
    using assms(6,7) that by (auto simp: updateZone_st_def Let_def)
  show ?thesis
    unfolding ReplaceRecords_def replace_tx_def tx_deletes [OF assms(1,2)]
    by (simp add: u a z)
qed

lemma mset_Records: "mset (Records i d) = mset (filter (\<lambda>r. zr_zone r = i) (zd_records d))"
  by (simp add: Records_def)

lemma distinct_Records: "zdb_ok d \<Longrightarrow> distinct (map zr_id (Records i d))"
proof -
  assume "zdb_ok d"
  then have "distinct (map zr_id (filter (\<lambda>r. zr_zone r = i) (zd_records d)))"
    by (simp add: zdb_ok_def keys_ok_def distinct_map_filter)
  then show ?thesis using mset_Records by (metis mset_eq_imp_distinct_iff mset_map)
qed

text \<open>The rows that stay, updated, are what was wanted of them.\<close>

lemma kept_rows_served:
  assumes p: "\<forall>(o', r) \<in> set pairs. o' \<in> set E \<and> identify L zn o' = identify L zn r"
    and d: "distinct (map (\<lambda>p. zr_id (fst p)) pairs)" and e: "distinct (map zr_id E)"
    and us: "us = map snd (filter changed (map (\<lambda>(o', r). (o', merged o' r)) pairs))"
  shows "mset (map (\<lambda>x. served L zn (apply_updates us x)) (filter (\<lambda>x. zr_id x \<in> (\<lambda>p. zr_id (fst p)) ` set pairs) E)) =
    mset (map (\<lambda>p. served L zn (snd p)) pairs)"
proof -
  have inj: "inj_on zr_id (set E)" using e by (simp add: distinct_map)
  have E: "fst q \<in> set E" if "q \<in> set pairs" for q using p that by (cases q) auto
  have "set (filter (\<lambda>x. zr_id x \<in> (\<lambda>p. zr_id (fst p)) ` set pairs) E) = set (map fst pairs)"
  proof (intro set_eqI iffI)
    fix x assume "x \<in> set (filter (\<lambda>x. zr_id x \<in> (\<lambda>p. zr_id (fst p)) ` set pairs) E)"
    then obtain q where "x \<in> set E" "q \<in> set pairs" "zr_id x = zr_id (fst q)" by auto
    moreover from this have "x = fst q" using inj_onD [OF inj] E by blast
    ultimately show "x \<in> set (map fst pairs)" by simp
  next
    fix x assume "x \<in> set (map fst pairs)"
    then obtain q where "q \<in> set pairs" "x = fst q" by auto
    then show "x \<in> set (filter (\<lambda>x. zr_id x \<in> (\<lambda>p. zr_id (fst p)) ` set pairs) E)" using E by auto
  qed
  moreover have "distinct (filter (\<lambda>x. zr_id x \<in> (\<lambda>p. zr_id (fst p)) ` set pairs) E)"
    using e by (auto intro: distinct_filter simp: distinct_map)
  moreover have "distinct (map fst pairs)" using d distinct_map [of zr_id "map fst pairs"] by (simp add: comp_def)
  ultimately have m: "mset (filter (\<lambda>x. zr_id x \<in> (\<lambda>p. zr_id (fst p)) ` set pairs) E) = mset (map fst pairs)"
    by (metis set_eq_iff_mset_eq_distinct)
  have one: "served L zn (apply_updates us (fst q)) = served L zn (snd q)" if q: "q \<in> set pairs" for q
  proof -
    obtain o' r where qq: "q = (o', r)" by (cases q)
    have same: "identify L zn o' = identify L zn r" using p q qq by auto
    have uniq: "q' = q" if "q' \<in> set pairs" "zr_id (fst q') = zr_id (fst q)" for q'
      using d q that by (metis (mono_tags, lifting) distinct_map inj_onD)
    show ?thesis
    proof (cases "map_of (map (\<lambda>u. (zr_id u, u)) us) (zr_id o')")
      case None
      have "\<not> changed (o', merged o' r)"
      proof
        assume "changed (o', merged o' r)"
        then have "merged o' r \<in> set us" using q qq us by force
        moreover have "zr_id (merged o' r) = zr_id o'" by (simp add: merged_def)
        ultimately show False using None by (auto simp: map_of_eq_None_iff image_iff)
      qed
      then have "zr_ttl o' = zr_ttl r" "zr_enabled o' = zr_enabled r" by (auto simp: changed_def merged_def)
      with None same qq show ?thesis by (simp add: apply_updates_def served_def)
    next
      case (Some u)
      from map_of_self [OF this] us obtain q' where q': "q' \<in> set pairs" "u = merged (fst q') (snd q')" "zr_id u = zr_id o'"
        by (auto split: prod.splits)
      then have "zr_id (fst q') = zr_id (fst q)" using qq by (simp add: merged_def)
      with uniq q'(1) have "q' = q" by blast
      with Some q' qq show ?thesis by (simp add: apply_updates_def)
    qed
  qed
  have "mset (map (\<lambda>x. served L zn (apply_updates us x)) (filter (\<lambda>x. zr_id x \<in> (\<lambda>p. zr_id (fst p)) ` set pairs) E)) =
      image_mset (\<lambda>x. served L zn (apply_updates us x)) (mset (map fst pairs))" by (simp only: mset_map m)
  also have "\<dots> = mset (map (\<lambda>q. served L zn (apply_updates us (fst q))) pairs)" by (simp add: image_mset.compositionality comp_def)
  also have "\<dots> = mset (map (\<lambda>p. served L zn (snd p)) pairs)" using one by (metis (mono_tags, lifting) map_cong)
  finally show ?thesis .
qed

text \<open>The records of one zone after the statements of a replacement, given which ids were deleted, which
  rows updated and which added.\<close>

lemma zone_rows_after:
  assumes "distinct (map zr_id recs)" "\<forall>x \<in> set recs. zr_zone x = i \<longrightarrow> (zr_id x \<notin> set ids \<longleftrightarrow> zr_id x \<in> M)"
    and "\<forall>r \<in> set adds. zr_zone r = i"
  shows "filter (\<lambda>r. zr_zone r = i) (map (apply_updates us) (filter (\<lambda>x. zr_id x \<notin> set ids) recs) @ numbered k adds) =
    map (apply_updates us) (filter (\<lambda>x. zr_id x \<in> M) (filter (\<lambda>x. zr_zone x = i) recs)) @ numbered k adds"
proof -
  have "\<forall>r \<in> set (numbered k adds). zr_zone r = i"
    using assms(3) zone_numbered [of k adds] by (metis image_eqI image_iff list.set_map)
  then have "filter (\<lambda>r. zr_zone r = i) (numbered k adds) = numbered k adds" by simp
  moreover have "filter (\<lambda>x. zr_zone x = i) (filter (\<lambda>x. zr_id x \<notin> set ids) recs) =
      filter (\<lambda>x. zr_id x \<in> M) (filter (\<lambda>x. zr_zone x = i) recs)"
    unfolding filter_filter using assms(2) by (intro filter_cong) auto
  ultimately show ?thesis by (simp add: filter_map comp_def)
qed

lemma other_rows_after:
  assumes "\<forall>x \<in> set recs. zr_zone x = j \<longrightarrow> zr_id x \<notin> set ids \<and> zr_id x \<notin> zr_id ` set us"
    and "\<forall>r \<in> set adds. zr_zone r \<noteq> j"
  shows "filter (\<lambda>r. zr_zone r = j) (map (apply_updates us) (filter (\<lambda>x. zr_id x \<notin> set ids) recs) @ numbered k adds) =
    filter (\<lambda>r. zr_zone r = j) recs"
proof -
  have "\<forall>r \<in> set (numbered k adds). zr_zone r \<noteq> j"
    using assms(2) zone_numbered [of k adds] by (metis image_eqI image_iff list.set_map)
  then have n: "filter (\<lambda>r. zr_zone r = j) (numbered k adds) = []" by (simp add: filter_empty_conv)
  have "apply_updates us x = x" if "zr_id x \<notin> zr_id ` set us" for x
  proof -
    have "map_of (map (\<lambda>u. (zr_id u, u)) us) (zr_id x) = None" using that by (auto simp: map_of_eq_None_iff image_image)
    then show ?thesis by (simp add: apply_updates_def)
  qed
  then have "map (apply_updates us) (filter (\<lambda>x. zr_zone x = j) (filter (\<lambda>x. zr_id x \<notin> set ids) recs)) =
      filter (\<lambda>x. zr_zone x = j) (filter (\<lambda>x. zr_id x \<notin> set ids) recs)"
    using assms(1) by (intro map_idI) auto
  moreover have "filter (\<lambda>x. zr_zone x = j) (filter (\<lambda>x. zr_id x \<notin> set ids) recs) = filter (\<lambda>x. zr_zone x = j) recs"
    unfolding filter_filter using assms(1) by (intro filter_cong) auto
  ultimately show ?thesis by (simp add: filter_map comp_def n)
qed

text \<open>The invariant after a replacement.\<close>

lemma zdb_ok_replaced:
  assumes "zdb_ok d" "z \<in> set (zd_zones d)" "z_id zn = z_id z" "z_name zn = z_name z"
    and "\<forall>r \<in> set adds. zr_zone r = z_id z"
  shows "zdb_ok (d\<lparr>zd_records := map (apply_updates us) (filter P (zd_records d)) @ numbered (seq_records d) adds,
             seq_records := seq_records d + int (length adds),
             zd_zones := map (\<lambda>z. if z_id z = z_id zn then updateZoneCols zn z else z) (zd_zones d)\<rparr>)"
proof -
  let ?f = "\<lambda>z. if z_id z = z_id zn then updateZoneCols zn z else z"
  have ids: "z_id (?f x) = z_id x" for x by (simp add: updateZoneCols_def)
  have names: "z_name (?f x) = z_name x" if "x \<in> set (zd_zones d)" for x
  proof (cases "z_id x = z_id zn")
    case True
    have "x = z" using assms(1,2,3) True that by (metis distinct_map inj_onD keys_ok_def zdb_ok_def)
    then show ?thesis using assms(3,4) by (simp add: updateZoneCols_def)
  qed simp
  have zids: "z_id ` set (map ?f (zd_zones d)) = z_id ` set (zd_zones d)"
    using ids by (metis (no_types, lifting) list.map_comp list.set_map map_cong comp_apply)
  have znames: "map z_name (map ?f (zd_zones d)) = map z_name (zd_zones d)" using names by simp
  have k: "keys_ok zr_id (seq_records d + int (length adds))
      (map (apply_updates us) (filter P (zd_records d)) @ numbered (seq_records d) adds)"
    using assms(1) by (intro numbered_keys keys_ok_map keys_ok_filter) (simp_all add: zdb_ok_def)
  have ref: "zr_zone r \<in> z_id ` set (zd_zones d)" if "r \<in> set (map (apply_updates us) (filter P (zd_records d)) @ numbered (seq_records d) adds)" for r
  proof -
    from that consider x where "x \<in> set (zd_records d)" "zr_zone r = zr_zone x" | "zr_zone r \<in> set (map zr_zone (numbered (seq_records d) adds))"
      by auto
    then show ?thesis
    proof cases
      case 1
      then show ?thesis using assms(1) by (simp add: zdb_ok_def)
    next
      case 2
      then show ?thesis using assms(2,5) unfolding zone_numbered by auto
    qed
  qed
  have kz: "keys_ok z_id (seq_zones d) (map ?f (zd_zones d))" by (rule keys_ok_map) (use assms(1) ids in \<open>simp_all add: zdb_ok_def\<close>)
  show ?thesis
    using assms(1) k ref zids znames kz unfolding zdb_ok_def by (simp del: map_map)
qed

section \<open>Applying a diff\<close>

text \<open>The diff as the pairs of stored and wanted rows it keeps.\<close>

definition diff_pairs ::
  "dns_lib \<Rightarrow> string \<Rightarrow> zone_record list \<Rightarrow> zone_record list \<Rightarrow> RecordDiff \<Rightarrow> (zone_record \<times> zone_record) list \<Rightarrow> bool" where
  "diff_pairs L nm E want diff pairs \<longleftrightarrow>
     mset want = mset (map snd pairs) + mset (d_add diff) \<and>
     (\<forall>(o', r) \<in> set pairs. o' \<in> set E \<and> identify L nm o' = identify L nm r) \<and>
     distinct (map (\<lambda>p. zr_id (fst p)) pairs) \<and>
     Updates diff = map snd (filter changed (map (\<lambda>(o', r). (o', merged o' r)) pairs)) \<and>
     d_delete diff = filter (\<lambda>r. zr_id r \<notin> (\<lambda>p. zr_id (fst p)) ` set pairs) E \<and>
     set (d_add diff) \<subseteq> set want"

lemma diff_pairs_exist:
  assumes "zdb_ok d" "diff = DiffRecords L nm (Records i d) want"
  shows "\<exists>pairs. diff_pairs L nm (Records i d) want diff pairs"
  using DiffRecords_pairs [OF distinct_Records [OF assms(1)], of want L nm i, folded assms(2)]
  unfolding diff_pairs_def .

text \<open>The tables after the transaction.\<close>

definition after_replace :: "zone_row \<Rightarrow> RecordDiff \<Rightarrow> zdb \<Rightarrow> zdb" where
  "after_replace zn diff d =
     d\<lparr>zd_records := map (apply_updates (Updates diff)) (filter (\<lambda>x. zr_id x \<notin> set (DeleteIDs diff)) (zd_records d))
          @ numbered (seq_records d) (d_add diff),
       seq_records := seq_records d + int (length (d_add diff)),
       zd_zones := map (\<lambda>z. if z_id z = z_id zn then updateZoneCols zn z else z) (zd_zones d)\<rparr>"

lemma pairs_merged:
  assumes "diff_pairs L nm E want diff pairs" "u \<in> set (Updates diff)"
  shows "\<exists>q \<in> set pairs. u = merged (fst q) (snd q)"
proof -
  have "Updates diff = map snd (filter changed (map (\<lambda>(o', r). (o', merged o' r)) pairs))"
    using assms(1) by (simp add: diff_pairs_def)
  with assms(2) show ?thesis by (auto simp: case_prod_beta intro: rev_bexI)
qed

lemma kept_subset: "D = E - P \<Longrightarrow> P \<subseteq> E \<Longrightarrow> U \<subseteq> P \<Longrightarrow> E \<subseteq> Z \<Longrightarrow> U \<subseteq> Z - D"
  by blast

lemma pairs_ids:
  assumes "diff_pairs L nm E want diff pairs"
  shows "set (DeleteIDs diff) = zr_id ` set E - (\<lambda>p. zr_id (fst p)) ` set pairs"
    and "(\<lambda>p. zr_id (fst p)) ` set pairs \<subseteq> zr_id ` set E"
    and "zr_id ` set (Updates diff) \<subseteq> (\<lambda>p. zr_id (fst p)) ` set pairs"
proof -
  show "set (DeleteIDs diff) = zr_id ` set E - (\<lambda>p. zr_id (fst p)) ` set pairs"
    and "(\<lambda>p. zr_id (fst p)) ` set pairs \<subseteq> zr_id ` set E"
    using assms by (auto simp: diff_pairs_def DeleteIDs_def)
  show "zr_id ` set (Updates diff) \<subseteq> (\<lambda>p. zr_id (fst p)) ` set pairs"
    using pairs_merged [OF assms] by (force simp: merged_def)
qed

lemma pairs_updates_distinct:
  assumes "diff_pairs L nm E want diff pairs"
  shows "distinct (map zr_id (Updates diff))"
proof -
  have "map zr_id (Updates diff) = map (\<lambda>p. zr_id (fst p)) (filter (\<lambda>q. changed (fst q, merged (fst q) (snd q))) pairs)"
    using assms by (simp add: diff_pairs_def filter_map comp_def case_prod_beta merged_def)
  moreover have "distinct (map (\<lambda>p. zr_id (fst p)) (filter (\<lambda>q. changed (fst q, merged (fst q) (snd q))) pairs))"
    by (rule distinct_map_filter) (use assms in \<open>simp add: diff_pairs_def\<close>)
  ultimately show ?thesis by simp
qed

lemma zdb_records_inj: "zdb_ok d \<Longrightarrow> inj_on zr_id (set (zd_records d))"
  by (simp add: zdb_ok_def keys_ok_def distinct_map)

lemma set_Records: "set (Records i d) = {r \<in> set (zd_records d). zr_zone r = i}"
  by (auto simp: Records_def)

lemma replace_diff_accepted:
  assumes ok: "zdb_ok d" and z: "z \<in> set (zd_zones d)" and zn: "z_id zn = z_id z" "z_name zn = z_name z"
    and want: "\<forall>r \<in> set want. zr_zone r = z_id z" and p: "diff_pairs L nm (Records (z_id z) d) want diff pairs"
  shows "ReplaceRecords zn (DeleteIDs diff) (Updates diff) (d_add diff) d = (None, after_replace zn diff d)"
  unfolding after_replace_def
proof (rule replace_tx_result)
  let ?E = "Records (z_id z) d" and ?M = "(\<lambda>p. zr_id (fst p)) ` set pairs"
  have E: "zr_id ` set ?E \<subseteq> zr_id ` set (zd_records d)" by (auto simp: set_Records)
  show "distinct (DeleteIDs diff)"
    using p distinct_Records [OF ok] by (simp add: DeleteIDs_def diff_pairs_def distinct_map_filter)
  show "set (DeleteIDs diff) \<subseteq> zr_id ` set (zd_records d)" using pairs_ids(1) [OF p] E by blast
  show "distinct (map zr_id (Updates diff))" by (rule pairs_updates_distinct [OF p])
  show "zr_id ` set (Updates diff) \<subseteq> zr_id ` set (zd_records d) - set (DeleteIDs diff)"
    by (rule kept_subset [OF pairs_ids [OF p] E])
  show "\<forall>r \<in> set (d_add diff). zr_zone r \<in> z_id ` set (zd_zones d)"
    using p want z by (auto simp: diff_pairs_def)
  show "z_id zn \<in> z_id ` set (zd_zones d)" using z zn by simp
  show "\<forall>x \<in> set (zd_zones d). z_name x = z_name zn \<longrightarrow> z_id x = z_id zn"
    using ok z zn unfolding zdb_ok_def by (metis distinct_map inj_onD)
qed

lemma replace_diff_served:
  assumes ok: "zdb_ok d" and want: "\<forall>r \<in> set want. zr_zone r = i" and p: "diff_pairs L nm (Records i d) want diff pairs"
  shows "mset (map (served L nm) (Records i (after_replace zn diff d))) = mset (map (served L nm) want)"
proof -
  let ?E = "Records i d" and ?M = "(\<lambda>p. zr_id (fst p)) ` set pairs" and ?us = "Updates diff" and ?as = "d_add diff"
  let ?Z = "filter (\<lambda>x. zr_zone x = i) (zd_records d)"
  have recs: "distinct (map zr_id (zd_records d))" using ok by (simp add: zdb_ok_def keys_ok_def)
  have adds: "\<forall>r \<in> set ?as. zr_zone r = i" using p want by (auto simp: diff_pairs_def)
  have iff: "\<forall>x \<in> set (zd_records d). zr_zone x = i \<longrightarrow> (zr_id x \<notin> set (DeleteIDs diff) \<longleftrightarrow> zr_id x \<in> ?M)"
    using pairs_ids(1) [OF p] by (auto simp: set_Records)
  have "mset (map (served L nm) (Records i (after_replace zn diff d))) =
      mset (map (served L nm) (filter (\<lambda>r. zr_zone r = i)
        (map (apply_updates ?us) (filter (\<lambda>x. zr_id x \<notin> set (DeleteIDs diff)) (zd_records d)) @ numbered (seq_records d) ?as)))"
    by (simp only: mset_map mset_Records) (simp add: after_replace_def)
  also have "\<dots> = mset (map (\<lambda>x. served L nm (apply_updates ?us x)) (filter (\<lambda>x. zr_id x \<in> ?M) ?Z)) + mset (map (served L nm) ?as)"
    unfolding zone_rows_after [OF recs iff adds, of ?us "seq_records d"] map_append map_map served_numbered mset_append comp_def ..
  also have "mset (map (\<lambda>x. served L nm (apply_updates ?us x)) (filter (\<lambda>x. zr_id x \<in> ?M) ?Z)) =
      mset (map (\<lambda>x. served L nm (apply_updates ?us x)) (filter (\<lambda>x. zr_id x \<in> ?M) ?E))"
    by (simp add: mset_Records del: filter_filter)
  also have "\<dots> = mset (map (\<lambda>p. served L nm (snd p)) pairs)"
    by (rule kept_rows_served [OF _ _ distinct_Records [OF ok]]) (use p in \<open>simp_all add: diff_pairs_def\<close>)
  finally show ?thesis using p by (simp add: diff_pairs_def image_mset.compositionality comp_def)
qed

lemma replace_diff_others:
  assumes ok: "zdb_ok d" and want: "\<forall>r \<in> set want. zr_zone r = i" and p: "diff_pairs L nm (Records i d) want diff pairs"
    and "j \<noteq> i"
  shows "mset (Records j (after_replace zn diff d)) = mset (Records j d)"
proof -
  let ?E = "Records i d"
  have notE: "zr_id x \<notin> zr_id ` set ?E" if "x \<in> set (zd_records d)" "zr_zone x = j" for x
    using inj_onD [OF zdb_records_inj [OF ok], of x] that \<open>j \<noteq> i\<close> by (auto simp: set_Records)
  have "zr_id ` set (Updates diff) \<subseteq> zr_id ` set ?E" using pairs_ids(2,3) [OF p] by blast
  then have no: "\<forall>x \<in> set (zd_records d). zr_zone x = j \<longrightarrow> zr_id x \<notin> set (DeleteIDs diff) \<and> zr_id x \<notin> zr_id ` set (Updates diff)"
    using notE pairs_ids(1) [OF p] by (metis DiffD1 subsetD)
  have "\<forall>r \<in> set (d_add diff). zr_zone r \<noteq> j" using p want \<open>j \<noteq> i\<close> by (auto simp: diff_pairs_def)
  then show ?thesis using other_rows_after [OF no, of "d_add diff" "seq_records d"] by (simp add: mset_Records after_replace_def)
qed

lemma replace_diff_kept:
  assumes ok: "zdb_ok d" and p: "diff_pairs L nm (Records i d) want diff pairs"
    and r: "r \<in> set (Records i d)" "r' \<in> set (zd_records (after_replace zn diff d))" "zr_id r' = zr_id r"
  shows "zr_comment r' = zr_comment r \<and> identify L nm r' = identify L nm r"
proof -
  have "zr_id r \<le> seq_records d" using ok r(1) by (auto simp: zdb_ok_def keys_ok_def set_Records)
  then have "r' \<notin> set (numbered (seq_records d) (d_add diff))" using r(3) numbered_above by fastforce
  then obtain x where x: "x \<in> set (zd_records d)" "r' = apply_updates (Updates diff) x"
    using r(2) by (auto simp: after_replace_def)
  then have "x = r" using r(1,3) inj_onD [OF zdb_records_inj [OF ok], of x r] by (auto simp: set_Records)
  show ?thesis
  proof (cases "map_of (map (\<lambda>u. (zr_id u, u)) (Updates diff)) (zr_id r)")
    case None
    then show ?thesis using x \<open>x = r\<close> by (simp add: apply_updates_def)
  next
    case (Some u)
    from map_of_self [OF Some] pairs_merged [OF p] obtain o' w where
      u: "(o', w) \<in> set pairs" "u = merged o' w" "zr_id u = zr_id r" by fastforce
    then have o': "o' \<in> set (Records i d)" "identify L nm o' = identify L nm w" using p by (auto simp: diff_pairs_def)
    moreover have "o' = r" using u(2,3) o'(1) r(1) inj_onD [OF zdb_records_inj [OF ok], of o' r] by (auto simp: merged_def set_Records)
    ultimately show ?thesis using Some x \<open>x = r\<close> u(2) by (simp add: apply_updates_def merged_def)
  qed
qed

section \<open>Properties\<close>


text \<open>The rules of a zone's record set (RFC 1034 section 3.6.2, RFC 1912 section 2.4, RFC 2181 sections 5.2
  and 8): names and types that can be served and exported, TTLs a resolver reads as written, no CNAME
  at the apex or beside another record, one TTL per record set.\<close>

definition compatible :: "zone_record \<Rightarrow> zone_record \<Rightarrow> bool" where
  "compatible r s \<longleftrightarrow>
     (zr_name r = zr_name s \<longrightarrow> zr_type r \<noteq> ''CNAME'' \<and> zr_type s \<noteq> ''CNAME'' \<and>
        (zr_type r = zr_type s \<longrightarrow> zr_ttl r = zr_ttl s))"

definition storable :: "dns_lib \<Rightarrow> zone_record \<Rightarrow> bool" where
  "storable L r \<longleftrightarrow> validRecordName L (zr_name r) \<and> zr_type r \<noteq> ''SOA'' \<and> StringToType L (zr_type r) \<noteq> None \<and>
     zr_rdata r \<noteq> [] \<and> zr_ttl r \<le> maxRecordTTL \<and> \<not> (zr_name r = apexName \<and> zr_type r = ''CNAME'')"

definition zone_rules :: "dns_lib \<Rightarrow> zone_record list \<Rightarrow> bool" where
  "zone_rules L recs \<longleftrightarrow> (\<forall>r \<in> set recs. storable L r) \<and> sorted_wrt compatible recs"

definition others :: "int \<Rightarrow> bool \<Rightarrow> zone_record list \<Rightarrow> zone_record list" where
  "others selfID hasSelf recs = filter (\<lambda>r. \<not> (hasSelf \<and> zr_id r = selfID)) recs"

lemma sibling_problem_None:
  "sibling_problem nm ty ttl selfID hasSelf recs = None \<longleftrightarrow>
     (\<forall>r \<in> set (others selfID hasSelf recs). zr_name r = nm \<longrightarrow>
        ty \<noteq> ''CNAME'' \<and> zr_type r \<noteq> ''CNAME'' \<and> (zr_type r = ty \<longrightarrow> zr_ttl r = ttl))"
  by (induction nm ty ttl selfID hasSelf recs rule: sibling_problem.induct) (auto simp: others_def)

lemma BuildRecord_Inr:
  assumes "BuildRecord L z w existing selfID hasSelf = Inr rec"
  shows "zr_name rec = RelRecordName L (w_name w) (z_name z)" "zr_type rec = ToUpper (TrimSpace (w_type w))"
    "zr_ttl rec = w_ttl w" "zr_zone rec = z_id z" "storable L rec"
    "\<forall>r \<in> set (others selfID hasSelf existing). compatible r rec"
proof -
  show f: "zr_name rec = RelRecordName L (w_name w) (z_name z)" "zr_type rec = ToUpper (TrimSpace (w_type w))"
    "zr_ttl rec = w_ttl w" "zr_zone rec = z_id z" "storable L rec"
    using assms by (auto simp: BuildRecord_def Let_def storable_def split: if_splits sum.splits option.splits)
  have "sibling_problem (zr_name rec) (zr_type rec) (zr_ttl rec) selfID hasSelf existing = None"
    using assms f(1-3) by (auto simp: BuildRecord_def Let_def split: if_splits sum.splits option.splits)
  then show "\<forall>r \<in> set (others selfID hasSelf existing). compatible r rec"
    unfolding sibling_problem_None compatible_def by auto
qed

text \<open>C13: an accepted write keeps the rules of the zone, and a conflict is refused only for one.  When the
  existing records obey the rules, so does the zone with the built record in place of the one it
  replaces; and a record that is well formed is refused as a conflict exactly when it is a CNAME at the
  apex or clashes with a record other than the one it replaces.\<close>

theorem BuildRecord_keeps_rules:
  assumes "zone_rules L existing"
  shows "case BuildRecord L z w existing selfID hasSelf of
     Inr rec \<Rightarrow> zone_rules L (others selfID hasSelf existing @ [rec]) \<and> zr_zone rec = z_id z
   | Inl p \<Rightarrow> Conflict p \<longrightarrow>
       (RelRecordName L (w_name w) (z_name z) = apexName \<and> ToUpper (TrimSpace (w_type w)) = ''CNAME'') \<or>
       (\<exists>r \<in> set (others selfID hasSelf existing). \<exists>rec. zr_name rec = RelRecordName L (w_name w) (z_name z) \<and>
          zr_type rec = ToUpper (TrimSpace (w_type w)) \<and> zr_ttl rec = w_ttl w \<and> \<not> compatible r rec)"
proof (cases "BuildRecord L z w existing selfID hasSelf")
  case (Inr rec)
  note B = BuildRecord_Inr [OF Inr]
  have "sorted_wrt compatible (others selfID hasSelf existing)" "\<forall>r \<in> set (others selfID hasSelf existing). storable L r"
    using assms by (auto simp: zone_rules_def others_def sorted_wrt_filter)
  then show ?thesis using Inr B(4-6) by (auto simp: zone_rules_def sorted_wrt_append)
next
  case (Inl p)
  let ?nm = "RelRecordName L (w_name w) (z_name z)" and ?ty = "ToUpper (TrimSpace (w_type w))"
  have c: "Conflict p \<Longrightarrow> (?nm = apexName \<and> ?ty = ''CNAME'') \<or>
      sibling_problem ?nm ?ty (w_ttl w) selfID hasSelf existing \<noteq> None"
    using Inl by (auto simp: BuildRecord_def Let_def Conflict_def split: if_splits sum.splits option.splits)
  have "\<exists>r \<in> set (others selfID hasSelf existing). \<exists>rec. zr_name rec = ?nm \<and> zr_type rec = ?ty \<and>
      zr_ttl rec = w_ttl w \<and> \<not> compatible r rec"
    if "sibling_problem ?nm ?ty (w_ttl w) selfID hasSelf existing \<noteq> None"
  proof -
    from that obtain r where r: "r \<in> set (others selfID hasSelf existing)" "zr_name r = ?nm"
      "\<not> (?ty \<noteq> ''CNAME'' \<and> zr_type r \<noteq> ''CNAME'' \<and> (zr_type r = ?ty \<longrightarrow> zr_ttl r = w_ttl w))"
      unfolding sibling_problem_None by blast
    let ?rec = "r\<lparr>zr_name := ?nm, zr_type := ?ty, zr_ttl := w_ttl w\<rparr>"
    have "\<not> compatible r ?rec" using r by (auto simp: compatible_def)
    with r(1) show ?thesis by (intro bexI [of _ r] exI [of _ ?rec]) auto
  qed
  with c Inl show ?thesis by auto
qed

section \<open>Witnesses\<close>

definition ex_zrow :: zone_row where
  "ex_zrow = \<lparr>z_id = 1, z_name = ''e412.in'', z_type = ''primary'', z_enabled = True, z_soa_ns = ''ns'', z_soa_mbox = ''h'',
     z_soa_serial = 5, z_soa_refresh = 1, z_soa_retry = 1, z_soa_expire = 1, z_soa_minimum = 1, z_soa_ttl = 1,
     z_primaries = [], z_tsig_key = 0, z_expires_at = 0, z_refreshed_at = 0, z_last_error = [], z_last_attempt = 0,
     z_allow_transfer = [], z_last_xfr_at = 0, z_last_xfr_peer = [], z_last_xfr_error = [], z_notify_to = [],
     z_forward_to = [], z_created_at = 0, z_modified_at = 0\<rparr>"

definition ex_zrec :: "int \<Rightarrow> string \<Rightarrow> u32 \<Rightarrow> zone_record" where
  "ex_zrec i rd ttl = \<lparr>zr_id = i, zr_zone = 1, zr_name = ''www'', zr_type = ''A'', zr_ttl = ttl, zr_rdata = rd,
     zr_enabled = True, zr_comment = ''note''\<rparr>"

definition ex_zdb :: zdb where
  "ex_zdb = \<lparr>db_version = 1, db_subs = [], db_settings = [], db_groups = [], db_clients = [], db_lists = [],
     db_group_lists = [], db_rules = [], seq_groups = 0, seq_clients = 0, seq_lists = 0, seq_rules = 0,
     zd_zones = [ex_zrow], zd_records = [ex_zrec 3 ''10.0.0.1'' 60, ex_zrec 4 ''10.0.0.2'' 60], zd_keys = [],
     seq_zones = 1, seq_records = 4, seq_keys = 0\<rparr>"

lemma ex_zdb_ok: "zdb_ok ex_zdb"
  by (simp add: zdb_ok_def ex_zdb_def keys_ok_def ex_zrec_def ex_zrow_def)


theorem BuildRecord_keeps_rules_witness:
  "\<exists>rec. BuildRecord plain_lib ex_zrow
      \<lparr>w_name = ''ftp.e412.in.'', w_type = ''a'', w_ttl = 60, w_rdata = ''10.0.0.9'', w_enabled = None, w_comment = []\<rparr>
      [ex_zrec 3 ''10.0.0.1'' 60] 0 False = Inr rec \<and> zone_rules plain_lib [ex_zrec 3 ''10.0.0.1'' 60, rec]"
proof -
  let ?w = "\<lparr>w_name = ''ftp.e412.in.'', w_type = ''a'', w_ttl = 60, w_rdata = ''10.0.0.9'', w_enabled = None, w_comment = []\<rparr>"
  let ?b = "BuildRecord plain_lib ex_zrow ?w [ex_zrec 3 ''10.0.0.1'' 60] 0 False"
  have r: "zone_rules plain_lib [ex_zrec 3 ''10.0.0.1'' 60]" by code_simp
  have "\<not> isl ?b" by code_simp
  then obtain rec where "?b = Inr rec" by (cases ?b) auto
  with BuildRecord_keeps_rules [OF r, where z = ex_zrow and w = ?w and selfID = 0 and hasSelf = False] show ?thesis by (simp add: others_def)
qed

section \<open>The store's contract for zones and keys\<close>

interpretation AddZone: config_operation "AddZone zn" for zn
  unfolding AddZone_def configInsert_def
  by (rule config_write_contract, rule tx_okI) (auto simp: Let_def db_ok_def refs_ok_def split: if_splits)

interpretation UpdateZone: config_operation "UpdateZone zn" for zn
  unfolding UpdateZone_def
  by (rule config_exec_contract, rule tx_okI) (auto simp: updateZone_st_def Let_def db_ok_def refs_ok_def split: if_splits)

interpretation DeleteZone: config_operation "DeleteZone i" for i
  unfolding DeleteZone_def
  by (rule config_exec_contract, rule tx_okI) (auto simp: db_ok_def refs_ok_def)

interpretation CreateKey: config_operation "CreateKey k" for k
  unfolding CreateKey_def configInsert_def
  by (rule config_write_contract, rule tx_okI) (auto simp: Let_def db_ok_def refs_ok_def split: if_splits)

text \<open>Who names a key: a zone by its id, by an entry of its transfer list or notify list, or the settings
  as the key of the replicas.\<close>

definition key_referenced :: "tsig_key \<Rightarrow> zdb \<Rightarrow> bool" where
  "key_referenced k d \<longleftrightarrow>
     (\<exists>z \<in> set (zd_zones d). z_tsig_key z = k_id k) \<or> aclKeyRef (k_name k) d \<or> notifyKeyRef (k_name k) d \<or>
     Get syncKeySetting d = Some (FormatInt (k_id k))"

lemma GetKey_found: "zdb_ok d \<Longrightarrow> k \<in> set (zd_keys d) \<Longrightarrow> GetKey (k_id k) d \<noteq> None"
  by (auto simp: GetKey_def find_None_iff)



end
