(* ===== verification/Netip_Text.thy ===== *)
theory Netip_Text
  imports Netip
begin

text \<open>
  The textual forms of \<open>net/netip\<close> and \<open>net\<close>: addresses, prefixes and hardware addresses as the program
  parses and prints them.  IPv4 addresses, prefixes and hardware addresses are written out.  The text
  of an IPv6 address, with its compression of zeros, is the record \<open>ip6_text\<close>; what the program relies
  on about it is \<open>ip6_laws\<close>.
\<close>

record ip6_text =
  parse6 :: "string \<Rightarrow> addr option"
  print6 :: "128 word \<Rightarrow> string \<Rightarrow> string"

section \<open>IPv4\<close>

definition octets :: "u32 \<Rightarrow> nat list" where
  "octets w = map (\<lambda>k. unat (take_bit 8 (drop_bit k w))) [24, 16, 8, 0]"

definition of_octets :: "nat list \<Rightarrow> u32" where
  "of_octets bs = foldl (\<lambda>n b. n * 256 + of_nat b) 0 bs"

definition print4 :: "u32 \<Rightarrow> string" where
  "print4 w = Join (map dec (octets w)) ''.''"

text \<open>One field of a dotted quad: digits without a leading zero, at most 255.\<close>

definition parse_octet :: "string \<Rightarrow> nat option" where
  "parse_octet f =
     (if f = [] \<or> (hd f = CHR ''0'' \<and> length f > 1) then None
      else case undec 0 f of Some n \<Rightarrow> (if n \<le> 255 then Some n else None) | None \<Rightarrow> None)"

fun parse_octets :: "string list \<Rightarrow> nat list option" where
  "parse_octets [] = Some []"
| "parse_octets (f # fs) =
     (case parse_octet f of
        None \<Rightarrow> None
      | Some n \<Rightarrow> map_option (Cons n) (parse_octets fs))"

definition parse4 :: "string \<Rightarrow> addr option" where
  "parse4 s =
     (let fs = Split s CHR ''.''
      in if length fs \<noteq> 4 then None else map_option (\<lambda>bs. V4 (of_octets bs)) (parse_octets fs))"

section \<open>Addresses and prefixes\<close>

text \<open>\<open>ParseAddr\<close> dispatches on the first of the three bytes it looks for.\<close>

fun ParseAddr_from :: "ip6_text \<Rightarrow> string \<Rightarrow> string \<Rightarrow> addr option" where
  "ParseAddr_from T s [] = None"
| "ParseAddr_from T s (c # cs) =
     (if c = CHR ''.'' then parse4 s
      else if c = CHR '':'' then parse6 T s
      else if c = CHR ''%'' then None
      else ParseAddr_from T s cs)"

definition ParseAddr :: "ip6_text \<Rightarrow> string \<Rightarrow> addr option" where
  "ParseAddr T s = ParseAddr_from T s s"

fun AddrString :: "ip6_text \<Rightarrow> addr \<Rightarrow> string" where
  "AddrString T NoAddr = ''invalid IP''"
| "AddrString T (V4 w) = print4 w"
| "AddrString T (V6 w z) = print6 T w z"

text \<open>The text before the last slash and the text after it.\<close>

definition cut_last :: "char \<Rightarrow> string \<Rightarrow> (string \<times> string) option" where
  "cut_last c s =
     (case IndexByte (rev s) c of
        None \<Rightarrow> None
      | Some i \<Rightarrow> Some (take (length s - i - 1) s, drop (length s - i) s))"

text \<open>\<open>ParsePrefix\<close> refuses zones, and lengths with a sign, a leading zero or beyond the address.\<close>

definition ParsePrefix :: "ip6_text \<Rightarrow> string \<Rightarrow> prefix option" where
  "ParsePrefix T s =
     (case cut_last CHR ''/'' s of
        None \<Rightarrow> None
      | Some (ip, bits) \<Rightarrow>
          (case ParseAddr T ip of
             None \<Rightarrow> None
           | Some a \<Rightarrow>
               if Zone a \<noteq> [] \<or> bits = [] \<or> (length bits > 1 \<and> hd bits = CHR ''0'') then None
               else (case undec 0 bits of
                       None \<Rightarrow> None
                     | Some n \<Rightarrow> if n \<le> BitLen a then Some (PrefixFrom a n) else None)))"

fun PrefixString :: "ip6_text \<Rightarrow> prefix \<Rightarrow> string" where
  "PrefixString T NoPrefix = ''invalid Prefix''"
| "PrefixString T (Prefix a n) = AddrString T a @ ''/'' @ dec n"

section \<open>Hardware addresses\<close>

definition hexval :: "char \<Rightarrow> nat option" where
  "hexval c =
     (let n = of_char c
      in if 48 \<le> n \<and> n \<le> 57 then Some (n - 48)
         else if 97 \<le> n \<and> n \<le> 102 then Some (n - 87)
         else if 65 \<le> n \<and> n \<le> 70 then Some (n - 55) else None)"

definition hexdigit :: "nat \<Rightarrow> char" where
  "hexdigit d = (if d < 10 then char_of (48 + d) else char_of (87 + d))"

text \<open>\<open>xtoi2\<close>: two hex digits and a separator, or the end.\<close>

definition hex2 :: "char \<Rightarrow> char \<Rightarrow> nat option" where
  "hex2 a b = (case (hexval a, hexval b) of (Some x, Some y) \<Rightarrow> Some (16 * x + y) | _ \<Rightarrow> None)"

fun hex_pairs :: "char \<Rightarrow> string \<Rightarrow> nat list option" where
  "hex_pairs sep [a, b] = map_option (\<lambda>x. [x]) (hex2 a b)"
| "hex_pairs sep (a # b # c # s) =
     (if c \<noteq> sep then None
      else case hex2 a b of None \<Rightarrow> None | Some x \<Rightarrow> map_option (Cons x) (hex_pairs sep s))"
| "hex_pairs sep _ = None"

text \<open>The form of four hex digits between dots.\<close>

fun hex_quads :: "string \<Rightarrow> nat list option" where
  "hex_quads [a, b, c, d] =
     (case (hex2 a b, hex2 c d) of (Some x, Some y) \<Rightarrow> Some [x, y] | _ \<Rightarrow> None)"
| "hex_quads (a # b # c # d # e # s) =
     (if e \<noteq> CHR ''.'' then None
      else case (hex2 a b, hex2 c d) of
             (Some x, Some y) \<Rightarrow> map_option (\<lambda>bs. x # y # bs) (hex_quads s) | _ \<Rightarrow> None)"
| "hex_quads _ = None"

definition ParseMAC :: "string \<Rightarrow> nat list option" where
  "ParseMAC s =
     (if length s < 14 then None
      else if s ! 2 = CHR '':'' \<or> s ! 2 = CHR ''-'' then
        (if (length s + 1) mod 3 \<noteq> 0 \<or> (length s + 1) div 3 \<notin> {6, 8, 20} then None else hex_pairs (s ! 2) s)
      else if s ! 4 = CHR ''.'' then
        (if (length s + 1) mod 5 \<noteq> 0 \<or> 2 * ((length s + 1) div 5) \<notin> {6, 8, 20} then None else hex_quads s)
      else None)"

definition MACString :: "nat list \<Rightarrow> string" where
  "MACString bs = Join (map (\<lambda>b. [hexdigit (b div 16), hexdigit (b mod 16)]) bs) '':''"

definition CanonicalMAC :: "string \<Rightarrow> string option" where
  "CanonicalMAC s =
     (case ParseMAC (TrimSpace s) of
        Some hw \<Rightarrow> if length hw = 6 then Some (MACString hw) else None
      | None \<Rightarrow> None)"

section \<open>What the texts satisfy\<close>

definition ip6_laws :: "ip6_text \<Rightarrow> bool" where
  "ip6_laws T \<longleftrightarrow>
     (\<forall>w z. parse6 T (print6 T w z) = Some (V6 w z)) \<and>
     (\<forall>w z. \<exists>p q. print6 T w z = p @ CHR '':'' # q \<and> set p \<subseteq> set ''0123456789abcdef'') \<and>
     (\<forall>w. set (print6 T w []) \<subseteq> set ''0123456789abcdef:.'') \<and>
     (\<forall>s a. parse6 T s = Some a \<longrightarrow> (\<exists>w z. a = V6 w z)) \<and>
     (\<forall>s. CHR ''/'' \<in> set s \<and> CHR ''%'' \<notin> set s \<longrightarrow> parse6 T s = None)"

lemma octets_bounds: "b \<in> set (octets w) \<Longrightarrow> b \<le> 255"
proof -
  have "unat (take_bit 8 (v :: u32)) \<le> 255" for v
    using take_bit_nat_less_exp [of 8 "unat v"] by (simp add: unsigned_take_bit_eq)
  then show "b \<in> set (octets w) \<Longrightarrow> b \<le> 255" by (auto simp: octets_def)
qed

lemma foldl_of_nat:
  "foldl (\<lambda>n b. n * 256 + of_nat b) (of_nat k :: u32) bs = of_nat (foldl (\<lambda>n b. n * 256 + b) k bs)"
proof (induction bs arbitrary: k)
  case (Cons b bs)
  show ?case using Cons [of "k * 256 + b"] by simp
qed simp

lemma of_octets_octets [simp]: "of_octets (octets w) = w"
proof -
  define n where "n = unat w"
  have n: "n < 2 ^ 32" using unsigned_less [of w] by (simp add: n_def)
  have step: "m div 256 * 256 + m mod 256 = m" for m :: nat by simp
  have d: "n div 2 ^ 24 = n div 2 ^ 16 div 256" "n div 2 ^ 16 = n div 2 ^ 8 div 256" "n div 2 ^ 8 = n div 256"
    by (simp_all flip: div_mult2_eq)
  have "n div 2 ^ 24 < 256" using n by (simp add: less_mult_imp_div_less)
  then have top: "n div 2 ^ 24 mod 256 = n div 2 ^ 24" by simp
  have "((n div 2 ^ 24 mod 256 * 256 + n div 2 ^ 16 mod 256) * 256 + n div 2 ^ 8 mod 256) * 256 + n mod 256 = n"
    unfolding top by (simp only: d step)
  moreover have "unat (take_bit 8 (drop_bit k w)) = n div 2 ^ k mod 256" for k
  proof -
    have "unat (take_bit 8 (drop_bit k w)) = take_bit 8 (drop_bit k n)"
      using take_bit_nat_eq_self [OF n] by (simp add: unsigned_take_bit_eq unsigned_drop_bit_eq n_def)
    then show ?thesis by (simp add: take_bit_eq_mod drop_bit_eq_div)
  qed
  ultimately have "foldl (\<lambda>n b. n * 256 + b) 0 (octets w) = n"
    unfolding octets_def by (simp only: list.map foldl.simps mult_0 add_0 power_0 div_by_1)
  then have "of_octets (octets w) = of_nat n" using foldl_of_nat [of 0 "octets w"] by (simp add: of_octets_def)
  then show ?thesis by (simp add: n_def)
qed

lemma parse_octet_dec: "n \<le> 255 \<Longrightarrow> parse_octet (dec n) = Some n"
proof -
  assume n: "n \<le> 255"
  have "\<not> (hd (dec n) = CHR ''0'' \<and> length (dec n) > 1)"
  proof
    assume *: "hd (dec n) = CHR ''0'' \<and> length (dec n) > 1"
    then have "n = 0" by (intro dec_leading_zero) simp
    with * show False by simp
  qed
  with n show ?thesis by (simp add: parse_octet_def)
qed

lemma parse_octets_dec: "\<forall>b \<in> set bs. b \<le> 255 \<Longrightarrow> parse_octets (map dec bs) = Some bs"
  by (induction bs) (simp_all add: parse_octet_dec)

lemma is_digit_not_sep: "is_digit c \<Longrightarrow> c \<noteq> CHR ''.'' \<and> c \<noteq> CHR '':'' \<and> c \<noteq> CHR ''%'' \<and> c \<noteq> CHR ''/'' \<and> c \<noteq> CHR '','' \<and> \<not> is_space c"
  by (auto simp: is_digit_def is_space_def)

lemma parse4_print4 [simp]: "parse4 (print4 w) = Some (V4 w)"
proof -
  have "Split (print4 w) CHR ''.'' = map dec (octets w)"
    unfolding print4_def
  proof (rule Split_Join)
    show "map dec (octets w) \<noteq> []" by (simp add: octets_def)
    show "\<forall>l \<in> set (map dec (octets w)). CHR ''.'' \<notin> set l" using dec_digits is_digit_not_sep by fastforce
  qed
  moreover have "length (octets w) = 4" by (simp add: octets_def)
  ultimately show ?thesis using parse_octets_dec [of "octets w"] octets_bounds by (simp add: parse4_def Let_def)
qed

lemma print4_shape: "\<exists>p q. print4 w = p @ CHR ''.'' # q \<and> (\<forall>c \<in> set p. is_digit c)"
proof -
  have "print4 w = dec (hd (octets w)) @ CHR ''.'' # Join (map dec (tl (octets w))) ''.''"
    by (simp add: print4_def octets_def)
  then show ?thesis using dec_digits by blast
qed

lemma print4_chars: "c \<in> set (print4 w) \<Longrightarrow> is_digit c \<or> c = CHR ''.''"
proof -
  have "c \<in> set (Join ls ''.'') \<Longrightarrow> c = CHR ''.'' \<or> (\<exists>l \<in> set ls. c \<in> set l)" for ls
    by (induction ls rule: induct_list012) auto
  then show "c \<in> set (print4 w) \<Longrightarrow> is_digit c \<or> c = CHR ''.''" using dec_digits by (fastforce simp: print4_def)
qed

lemma ParseAddr_from_skip:
  "\<forall>c \<in> set p. c \<noteq> CHR ''.'' \<and> c \<noteq> CHR '':'' \<and> c \<noteq> CHR ''%'' \<Longrightarrow> ParseAddr_from T s (p @ q) = ParseAddr_from T s q"
  by (induction p) simp_all

lemma ParseAddr_String:
  assumes "ip6_laws T" "a \<noteq> NoAddr"
  shows "ParseAddr T (AddrString T a) = Some a"
proof (cases a)
  case (V4 w)
  obtain p q where pq: "print4 w = p @ CHR ''.'' # q" "\<forall>c \<in> set p. is_digit c" using print4_shape by blast
  have "ParseAddr_from T s (p @ CHR ''.'' # q) = parse4 s" for s
    using pq(2) is_digit_not_sep by (subst ParseAddr_from_skip) auto
  with pq(1) V4 show ?thesis by (metis AddrString.simps(2) ParseAddr_def parse4_print4)
next
  case (V6 w z)
  obtain p q where pq: "print6 T w z = p @ CHR '':'' # q" "set p \<subseteq> set ''0123456789abcdef''"
    using assms(1) unfolding ip6_laws_def by meson
  have "ParseAddr_from T s (p @ CHR '':'' # q) = parse6 T s" for s
    using pq(2) by (subst ParseAddr_from_skip) auto
  moreover have "parse6 T (print6 T w z) = Some (V6 w z)" using assms(1) by (simp add: ip6_laws_def)
  ultimately show ?thesis using pq(1) V6 by (simp add: ParseAddr_def)
qed (use assms(2) in simp)

text \<open>A prefix the program can hold: a valid address without a zone, and a length within it.\<close>

definition prefix_ok :: "prefix \<Rightarrow> bool" where
  "prefix_ok p = (case p of NoPrefix \<Rightarrow> False | Prefix a n \<Rightarrow> a \<noteq> NoAddr \<and> Zone a = [] \<and> n \<le> BitLen a)"

lemma cut_last_append: "c \<notin> set t \<Longrightarrow> cut_last c (s @ c # t) = Some (s, t)"
proof -
  assume c: "c \<notin> set t"
  have "IndexByte (rev t @ c # rev s) c = Some (length t)" using c by (induction t rule: rev_induct) auto
  then show ?thesis by (simp add: cut_last_def)
qed

lemma digits_plain: "set ''0123456789'' \<subseteq> set ''0123456789abcdef:.''"
  by code_simp

lemma AddrString_chars:
  assumes "ip6_laws T" "a \<noteq> NoAddr" "Zone a = []" "c \<in> set (AddrString T a)"
  shows "c \<in> set ''0123456789abcdef:.''"
proof (cases a)
  case (V4 w)
  with assms(4) have "is_digit c \<or> c = CHR ''.''" using print4_chars by simp
  then show ?thesis
  proof
    assume "is_digit c"
    then show ?thesis using digit_in digits_plain by blast
  qed simp
next
  case (V6 w z)
  then have "z = []" using assms(3) by (simp add: Zone_def)
  with V6 assms(1,4) show ?thesis unfolding ip6_laws_def by auto
qed (use assms(2) in simp)

lemma undec_slash: "CHR ''/'' \<in> set l \<Longrightarrow> undec k l = None"
  by (induction l arbitrary: k) auto

lemma parse4_slash: "CHR ''/'' \<in> set s \<Longrightarrow> parse4 s = None"
proof -
  assume s: "CHR ''/'' \<in> set s"
  have "CHR ''/'' \<in> set (Join ls ''.'') \<Longrightarrow> \<exists>l \<in> set ls. CHR ''/'' \<in> set l" for ls
    by (induction ls rule: induct_list012) auto
  from this [of "Split s CHR ''.''"] s obtain l where l: "l \<in> set (Split s CHR ''.'')" "CHR ''/'' \<in> set l" by auto
  have "parse_octet l = None" using undec_slash [OF l(2)] by (simp add: parse_octet_def)
  then have "l \<in> set fs \<Longrightarrow> parse_octets fs = None" for fs by (induction fs) (auto split: option.split)
  with l(1) show "parse4 s = None" by (simp add: parse4_def Let_def)
qed

lemma ParseAddr_from_slash:
  "ip6_laws T \<Longrightarrow> CHR ''/'' \<in> set s \<Longrightarrow> CHR ''%'' \<notin> set s \<Longrightarrow> ParseAddr_from T s t = None"
  by (induction t) (simp_all add: parse4_slash ip6_laws_def)

lemma ParsePrefix_String:
  assumes "ip6_laws T" "prefix_ok p"
  shows "ParsePrefix T (PrefixString T p) = Some p" "ParseAddr T (PrefixString T p) = None"
proof -
  obtain a n where p: "p = Prefix a n" "a \<noteq> NoAddr" "Zone a = []" "n \<le> BitLen a"
    using assms(2) by (auto simp: prefix_ok_def split: prefix.splits)
  have d: "CHR ''/'' \<notin> set (dec n)" "CHR ''%'' \<notin> set (dec n)" using dec_digits [of _ n] is_digit_not_sep by blast+
  have cut: "cut_last CHR ''/'' (PrefixString T p) = Some (AddrString T a, dec n)"
    using cut_last_append [OF d(1), of "AddrString T a"] by (simp add: p(1))
  have lz: "\<not> (length (dec n) > 1 \<and> hd (dec n) = CHR ''0'')"
    using dec_leading_zero [of n] by auto
  have "PrefixFrom a n = Prefix a n" using p by (cases a) (simp_all add: PrefixFrom_def Zone_def)
  then show "ParsePrefix T (PrefixString T p) = Some p"
    using cut ParseAddr_String [OF assms(1) p(2)] p lz by (simp add: ParsePrefix_def)
  have "CHR ''%'' \<notin> set (AddrString T a)" using AddrString_chars [OF assms(1) p(2,3)] by fastforce
  then show "ParseAddr T (PrefixString T p) = None"
    using ParseAddr_from_slash [OF assms(1)] d(2) by (simp add: ParseAddr_def p(1))
qed

lemma ParseAddr_valid: "ip6_laws T \<Longrightarrow> ParseAddr T s = Some a \<Longrightarrow> a \<noteq> NoAddr"
proof -
  assume T: "ip6_laws T"
  have "ParseAddr_from T s t = Some a \<Longrightarrow> a \<noteq> NoAddr" for t
  proof (induction t)
    case (Cons c t)
    then show ?case using T
      by (auto simp: parse4_def Let_def ip6_laws_def split: if_splits)
  qed simp
  then show "ParseAddr T s = Some a \<Longrightarrow> a \<noteq> NoAddr" by (simp add: ParseAddr_def)
qed

lemma PrefixFrom_ok: "a \<noteq> NoAddr \<Longrightarrow> n \<le> BitLen a \<Longrightarrow> prefix_ok (PrefixFrom a n)"
  by (cases a) (simp_all add: PrefixFrom_def prefix_ok_def Zone_def BitLen_def)

lemma ParsePrefix_ok:
  assumes "ip6_laws T" "ParsePrefix T s = Some p"
  shows "prefix_ok p"
  using assms PrefixFrom_ok ParseAddr_valid [OF assms(1)]
  by (auto simp: ParsePrefix_def split: option.splits prod.splits if_splits)

lemma Masked_ok [simp]: "prefix_ok (Masked p) = prefix_ok p"
proof (cases p)
  case (Prefix a n)
  then show ?thesis by (cases a) (simp_all add: prefix_ok_def Zone_def BitLen_def)
qed simp

section \<open>Hardware addresses\<close>

lemma hexval_digit: "d < 16 \<Longrightarrow> hexval (hexdigit d) = Some d"
  by (simp add: hexval_def hexdigit_def Let_def)

lemma hexdigit_plain: "d < 16 \<Longrightarrow> hexdigit d \<noteq> CHR '':'' \<and> hexdigit d \<noteq> CHR ''-'' \<and> \<not> is_space (hexdigit d)"
proof -
  have "list_all (\<lambda>d. hexdigit d \<noteq> CHR '':'' \<and> hexdigit d \<noteq> CHR ''-'' \<and> \<not> is_space (hexdigit d)) [0..<16]" by code_simp
  then show "d < 16 \<Longrightarrow> hexdigit d \<noteq> CHR '':'' \<and> hexdigit d \<noteq> CHR ''-'' \<and> \<not> is_space (hexdigit d)" by (rule list_all_upt)
qed

lemma hex2_digits: "b < 256 \<Longrightarrow> hex2 (hexdigit (b div 16)) (hexdigit (b mod 16)) = Some b"
  by (simp add: hex2_def hexval_digit)

lemma hexval_bound: "hexval c = Some n \<Longrightarrow> n < 16"
  by (auto simp: hexval_def Let_def split: if_splits)

lemma hex2_bound: "hex2 a b = Some n \<Longrightarrow> n < 256"
  by (auto simp: hex2_def split: option.splits dest!: hexval_bound)

lemma hex_pairs_bound: "hex_pairs sep s = Some bs \<Longrightarrow> \<forall>b \<in> set bs. b < 256"
proof (induction sep s arbitrary: bs rule: hex_pairs.induct)
  case (2 sep a b c s)
  then obtain x bs' where "hex2 a b = Some x" "hex_pairs sep s = Some bs'" "bs = x # bs'" "c = sep"
    by (auto split: if_splits option.splits)
  with 2(1) show ?case using hex2_bound by auto
qed (auto dest: hex2_bound)

lemma hex_quads_bound: "hex_quads s = Some bs \<Longrightarrow> \<forall>b \<in> set bs. b < 256"
proof (induction s arbitrary: bs rule: hex_quads.induct)
  case (2 a b c d e s)
  then obtain x y bs' where "hex2 a b = Some x" "hex2 c d = Some y" "hex_quads s = Some bs'" "bs = x # y # bs'" "e = CHR ''.''"
    by (auto split: if_splits option.splits)
  with 2(1) show ?case using hex2_bound by auto
qed (auto dest: hex2_bound split: option.splits)

lemma ParseMAC_bound: "ParseMAC s = Some bs \<Longrightarrow> b \<in> set bs \<Longrightarrow> b < 256"
  by (auto simp: ParseMAC_def split: if_splits dest: hex_pairs_bound hex_quads_bound)

lemma ParseMAC_String:
  assumes "length bs = 6" "\<forall>b \<in> set bs. b < 256"
  shows "ParseMAC (MACString bs) = Some bs" "TrimSpace (MACString bs) = MACString bs"
proof -
  obtain b1 b2 b3 b4 b5 b6 where bs: "bs = [b1, b2, b3, b4, b5, b6]"
    using assms(1) by (auto simp: length_Suc_conv eval_nat_numeral)
  have lt: "b1 < 256" "b2 < 256" "b3 < 256" "b4 < 256" "b5 < 256" "b6 < 256" using assms(2) bs by auto
  then show "ParseMAC (MACString bs) = Some bs"
    by (simp add: bs MACString_def ParseMAC_def hex2_digits)
  have "d < 16 \<Longrightarrow> \<not> is_space (hexdigit d)" for d using hexdigit_plain by blast
  moreover have "b div 16 < 16" if "b < 256" for b :: nat using that by simp
  ultimately show "TrimSpace (MACString bs) = MACString bs"
    using lt by (intro TrimSpace_id) (auto simp: bs MACString_def is_space_def [of "CHR '':''"])
qed

lemma CanonicalMAC_idem: "CanonicalMAC s = Some m \<Longrightarrow> CanonicalMAC m = Some m"
  using ParseMAC_bound [of "TrimSpace s"] ParseMAC_String
  by (auto simp: CanonicalMAC_def split: option.splits if_splits)

section \<open>A concrete text for IPv6\<close>

text \<open>A text that satisfies the laws: a colon, the address as one decimal number, and the zone.\<close>

definition ex_parse6 :: "string \<Rightarrow> addr option" where
  "ex_parse6 s =
     (case s of
        c # t \<Rightarrow>
          let d = takeWhile (\<lambda>c. c \<noteq> CHR ''%'') t; z = drop (length d) t
          in if c = CHR '':'' \<and> d \<noteq> [] then (case undec 0 d of Some n \<Rightarrow> Some (V6 (of_nat n) (drop 1 z)) | None \<Rightarrow> None)
             else None
      | [] \<Rightarrow> None)"

definition ex_text :: ip6_text where
  "ex_text = \<lparr>parse6 = ex_parse6, print6 = (\<lambda>w z. CHR '':'' # dec (unat w) @ (if z = [] then [] else CHR ''%'' # z))\<rparr>"

lemma ex_text_laws: "ip6_laws ex_text"
proof -
  have nop: "\<forall>c \<in> set (dec n). c \<noteq> CHR ''%''" for n using dec_digits is_digit_not_sep by blast
  have tw: "takeWhile (\<lambda>c. c \<noteq> CHR ''%'') (dec n @ (if z = [] then [] else CHR ''%'' # z)) = dec n" for n z
    using nop [of n] by (simp add: takeWhile_append)
  have "parse6 ex_text (print6 ex_text w z) = Some (V6 w z)" for w z
    by (simp add: ex_text_def ex_parse6_def tw Let_def)
  moreover have "set (print6 ex_text w []) \<subseteq> set ''0123456789abcdef:.''" for w
  proof
    fix c
    assume "c \<in> set (print6 ex_text w [])"
    then have "c = CHR '':'' \<or> is_digit c" using dec_digits by (auto simp: ex_text_def)
    then show "c \<in> set ''0123456789abcdef:.''"
    proof
      assume "is_digit c"
      then show ?thesis using digit_in digits_plain by blast
    qed simp
  qed
  moreover have "parse6 ex_text s = None" if s: "CHR ''/'' \<in> set s" "CHR ''%'' \<notin> set s" for s
  proof (cases s)
    case (Cons c t)
    have tw: "takeWhile (\<lambda>c. c \<noteq> CHR ''%'') t = t" using s(2) Cons by (auto simp: takeWhile_eq_all_conv)
    show ?thesis
    proof (cases "c = CHR '':''")
      case True
      with s(1) Cons have "CHR ''/'' \<in> set t" by simp
      then have "undec 0 t = None" by (rule undec_slash)
      with Cons show ?thesis by (simp add: ex_text_def ex_parse6_def tw Let_def)
    qed (simp add: Cons ex_text_def ex_parse6_def Let_def)
  qed (simp add: ex_text_def ex_parse6_def)
  moreover have "\<exists>p q. print6 ex_text w z = p @ CHR '':'' # q \<and> set p \<subseteq> set ''0123456789abcdef''" for w z
    by (rule exI [of _ "[]"]) (simp add: ex_text_def)
  moreover have "\<exists>w z. a = V6 w z" if "parse6 ex_text s = Some a" for s a
    using that by (auto simp: ex_text_def ex_parse6_def Let_def split: list.splits if_splits option.splits)
  ultimately show ?thesis unfolding ip6_laws_def by blast
qed

end
