(* ===== verification/Zone_Lists.thy ===== *)
theory Zone_Lists
  imports Netip_Text Zone_Index
begin

text \<open>
  The four list columns of a zone and the reverse names: \<open>internal/zones/hostport.go\<close>, \<open>acl.go\<close>,
  \<open>notifyto.go\<close>, \<open>forwardto.go\<close>, \<open>primaries.go\<close> and \<open>reverse.go\<close>, over the host and port syntax of Go's
  \<open>net\<close>.  An error is a constructor that says which check refused the entry; the text of the message is
  not modelled.
\<close>

section \<open>Host and port\<close>

text \<open>\<open>net.SplitHostPort\<close>; every failure is an \<open>*net.AddrError\<close>, so one \<open>None\<close> stands for all.\<close>

definition SplitHostPort :: "string \<Rightarrow> (string \<times> string) option" where
  "SplitHostPort s =
     (case cut_last CHR '':'' s of
        None \<Rightarrow> None
      | Some (before, port) \<Rightarrow>
          if hd s = CHR ''['' then
            (case IndexByte s CHR '']'' of
               None \<Rightarrow> None
             | Some e \<Rightarrow>
                 if e + 1 \<noteq> length before then None
                 else let host = take (e - 1) (drop 1 s)
                      in if CHR ''['' \<in> set (drop 1 s) \<or> CHR '']'' \<in> set (drop (e + 1) s) then None
                         else Some (host, port))
          else if CHR '':'' \<in> set before then None
          else if CHR ''['' \<in> set s \<or> CHR '']'' \<in> set s then None
          else Some (before, port))"

definition JoinHostPort :: "string \<Rightarrow> string \<Rightarrow> string" where
  "JoinHostPort host port =
     (if CHR '':'' \<in> set host then ''['' @ host @ '']:'' @ port else host @ '':'' @ port)"

datatype list_err = BadKeyName | MappedPrefix | NotAnEntry | BadPort | BadHost | NoHost | ExpectedKey | OneKeyOnly
  | NoPrimary | Unresolved

section \<open>hostport.go\<close>

text \<open>\<open>splitList\<close> with a callback that parses one entry and appends it.\<close>

definition fields_of :: "string \<Rightarrow> string list" where
  "fields_of s = filter (\<lambda>f. f \<noteq> []) (map TrimSpace (Split s CHR '',''))"

fun parse_fields :: "(string \<Rightarrow> list_err + 'e) \<Rightarrow> string list \<Rightarrow> list_err + 'e list" where
  "parse_fields p [] = Inr []"
| "parse_fields p (f # fs) =
     (case p f of
        Inl e \<Rightarrow> Inl e
      | Inr x \<Rightarrow> (case parse_fields p fs of Inl e \<Rightarrow> Inl e | Inr xs \<Rightarrow> Inr (x # xs)))"

definition splitList :: "(string \<Rightarrow> list_err + 'e) \<Rightarrow> string \<Rightarrow> list_err + 'e list" where
  "splitList p s = parse_fields p (fields_of s)"

definition keyNameForbidden :: string where
  "keyNameForbidden = [CHR '' '', CHR 0x09, CHR 0x0D, CHR 0x0A, CHR ''/'', CHR 0x5C, CHR '','', CHR '':'']"

definition validDNSName :: "dns_lib \<Rightarrow> string \<Rightarrow> string \<Rightarrow> bool" where
  "validDNSName L name forbidden \<longleftrightarrow>
     name \<noteq> [] \<and> \<not> ContainsAny name forbidden \<and>
     list_all (\<lambda>l. l \<noteq> []) (Split (TrimSuffix name ''.'') CHR ''.'') \<and> IsDomainName L name"

definition validPrimaryHost :: "dns_lib \<Rightarrow> ip6_text \<Rightarrow> string \<Rightarrow> bool" where
  "validPrimaryHost L T host \<longleftrightarrow>
     ParseAddr T host \<noteq> None \<or>
     validDNSName L host [CHR '' '', CHR 0x09, CHR 0x0D, CHR 0x0A, CHR ''/'', CHR 0x5C, CHR '':'']"

definition DefaultPrimaryPort :: nat where
  "DefaultPrimaryPort = 53"

text \<open>The host of an entry without a port: brackets around an address come off.\<close>

definition bare_host :: "ip6_text \<Rightarrow> string \<Rightarrow> string" where
  "bare_host T h =
     (case CutPrefix h ''['' of
        Some inner \<Rightarrow>
          (case CutSuffix inner '']'' of
             Some inner \<Rightarrow> if ParseAddr T inner \<noteq> None then inner else h
           | None \<Rightarrow> h)
      | None \<Rightarrow> h)"

definition parse_port :: "string \<Rightarrow> nat option" where
  "parse_port s = (case undec 0 s of Some n \<Rightarrow> (if n = 0 \<or> n > 65535 then None else Some n) | None \<Rightarrow> None)"

definition parseHostPort :: "dns_lib \<Rightarrow> ip6_text \<Rightarrow> string \<Rightarrow> list_err + (string \<times> nat)" where
  "parseHostPort L T hostPart =
     (let (host, portStr) = (case SplitHostPort hostPart of Some hp \<Rightarrow> hp | None \<Rightarrow> (bare_host T hostPart, []))
      in if portStr \<noteq> [] \<and> parse_port portStr = None then Inl BadPort
         else let port = (if portStr = [] then DefaultPrimaryPort else the (parse_port portStr))
              in if \<not> validPrimaryHost L T host then Inl BadHost else Inr (host, port))"

section \<open>acl.go\<close>

datatype ACLEntry = ACLPrefix prefix | ACLKey string

definition aclKeyPrefix :: string where
  "aclKeyPrefix = ''key:''"

definition parseACLEntry :: "dns_lib \<Rightarrow> ip6_text \<Rightarrow> string \<Rightarrow> list_err + ACLEntry" where
  "parseACLEntry L T f =
     (if length f \<ge> length aclKeyPrefix \<and> EqualFold (take (length aclKeyPrefix) f) aclKeyPrefix then
        (let name = TrimSpace (drop (length aclKeyPrefix) f)
         in if validDNSName L name keyNameForbidden then Inr (ACLKey (CanonicalName L name)) else Inl BadKeyName)
      else
        case ParsePrefix T f of
          Some p \<Rightarrow> if Is4In6 (prefix_addr p) then Inl MappedPrefix else Inr (ACLPrefix (Masked p))
        | None \<Rightarrow>
            (case ParseAddr T f of
               Some a \<Rightarrow> Inr (ACLPrefix (PrefixFrom (Unmap a) (BitLen (Unmap a))))
             | None \<Rightarrow> Inl NotAnEntry))"

definition ParseACL :: "dns_lib \<Rightarrow> ip6_text \<Rightarrow> string \<Rightarrow> list_err + ACLEntry list" where
  "ParseACL L T s = splitList (parseACLEntry L T) s"

definition ValidateACL :: "dns_lib \<Rightarrow> ip6_text \<Rightarrow> string \<Rightarrow> list_err option" where
  "ValidateACL L T s = (case ParseACL L T s of Inl e \<Rightarrow> Some e | Inr _ \<Rightarrow> None)"

definition format_acl_entry :: "ip6_text \<Rightarrow> ACLEntry \<Rightarrow> string" where
  "format_acl_entry T e =
     (case e of
        ACLKey k \<Rightarrow> aclKeyPrefix @ k
      | ACLPrefix p \<Rightarrow>
          if prefix_bits p = int (BitLen (prefix_addr p)) then AddrString T (prefix_addr p) else PrefixString T p)"

definition FormatACL :: "ip6_text \<Rightarrow> ACLEntry list \<Rightarrow> string" where
  "FormatACL T es = Join (map (format_acl_entry T) es) '', ''"

definition ACLKeys :: "dns_lib \<Rightarrow> ip6_text \<Rightarrow> string \<Rightarrow> string list" where
  "ACLKeys L T s =
     (case ParseACL L T s of
        Inl _ \<Rightarrow> []
      | Inr es \<Rightarrow> List.map_filter (\<lambda>e. case e of ACLKey k \<Rightarrow> Some k | ACLPrefix _ \<Rightarrow> None) es)"

text \<open>An entry whose \<open>Key\<close> is the empty string is a prefix entry; no parsed entry has it.\<close>

definition acl_match :: "addr \<Rightarrow> string \<Rightarrow> string \<Rightarrow> ACLEntry \<Rightarrow> bool" where
  "acl_match a tsigKey key e =
     (case e of
        ACLKey k \<Rightarrow> tsigKey \<noteq> [] \<and> k = key
      | ACLPrefix p \<Rightarrow> Contains p a)"

definition ACLAllows :: "dns_lib \<Rightarrow> ACLEntry list \<Rightarrow> addr \<Rightarrow> string \<Rightarrow> bool" where
  "ACLAllows L es a tsigKey = list_ex (acl_match (Unmap a) tsigKey (CanonicalName L tsigKey)) es"

section \<open>notifyto.go\<close>

record NotifyTarget =
  nt_Host :: string
  nt_Port :: nat
  nt_Key :: string

definition nt_Addr :: "NotifyTarget \<Rightarrow> string" where
  "nt_Addr t = JoinHostPort (nt_Host t) (dec (nt_Port t))"

definition is_blank :: "char \<Rightarrow> bool" where
  "is_blank c \<longleftrightarrow> c = CHR '' '' \<or> c = CHR 0x09"

definition notifyKeyPrefix :: string where
  "notifyKeyPrefix = ''key:''"

definition parseNotifyTarget :: "dns_lib \<Rightarrow> ip6_text \<Rightarrow> string \<Rightarrow> list_err + NotifyTarget" where
  "parseNotifyTarget L T f =
     (let before = takeWhile (\<lambda>c. \<not> is_blank c) f;
          blank = length before < length f;
          hostPart = (if blank then TrimSpace before else f);
          rest = TrimSpace (drop (length before) f);
          name = TrimSpace (drop (length notifyKeyPrefix) rest)
      in if blank \<and> \<not> HasPrefix (ToLower rest) notifyKeyPrefix then Inl ExpectedKey
         else if blank \<and> list_ex is_blank name then Inl OneKeyOnly
         else if blank \<and> \<not> validDNSName L name keyNameForbidden then Inl BadKeyName
         else if HasPrefix (ToLower hostPart) notifyKeyPrefix then Inl NoHost
         else case parseHostPort L T hostPart of
                Inl e \<Rightarrow> Inl e
              | Inr (host, port) \<Rightarrow>
                  Inr \<lparr>nt_Host = host, nt_Port = port, nt_Key = (if blank then CanonicalName L name else [])\<rparr>)"

definition ParseNotifyTo :: "dns_lib \<Rightarrow> ip6_text \<Rightarrow> string \<Rightarrow> list_err + NotifyTarget list" where
  "ParseNotifyTo L T s = splitList (parseNotifyTarget L T) s"

definition ValidateNotifyTo :: "dns_lib \<Rightarrow> ip6_text \<Rightarrow> string \<Rightarrow> list_err option" where
  "ValidateNotifyTo L T s = (case ParseNotifyTo L T s of Inl e \<Rightarrow> Some e | Inr _ \<Rightarrow> None)"

definition format_notify_target :: "NotifyTarget \<Rightarrow> string" where
  "format_notify_target t = nt_Addr t @ (if nt_Key t \<noteq> [] then '' '' @ notifyKeyPrefix @ nt_Key t else [])"

definition FormatNotifyTo :: "NotifyTarget list \<Rightarrow> string" where
  "FormatNotifyTo ts = Join (map format_notify_target ts) '', ''"

definition NotifyToKeys :: "dns_lib \<Rightarrow> ip6_text \<Rightarrow> string \<Rightarrow> string list" where
  "NotifyToKeys L T s =
     (case ParseNotifyTo L T s of
        Inl _ \<Rightarrow> []
      | Inr ts \<Rightarrow> filter (\<lambda>k. k \<noteq> []) (map nt_Key ts))"

section \<open>forwardto.go\<close>

record ForwardTarget =
  ft_Host :: string
  ft_Port :: nat

definition ft_Addr :: "ForwardTarget \<Rightarrow> string" where
  "ft_Addr t = JoinHostPort (ft_Host t) (dec (ft_Port t))"

definition parse_forward_target :: "dns_lib \<Rightarrow> ip6_text \<Rightarrow> string \<Rightarrow> list_err + ForwardTarget" where
  "parse_forward_target L T f =
     (case parseHostPort L T f of Inl e \<Rightarrow> Inl e | Inr (h, p) \<Rightarrow> Inr \<lparr>ft_Host = h, ft_Port = p\<rparr>)"

definition ParseForwardTo :: "dns_lib \<Rightarrow> ip6_text \<Rightarrow> string \<Rightarrow> list_err + ForwardTarget list" where
  "ParseForwardTo L T s = splitList (parse_forward_target L T) s"

definition ValidateForwardTo :: "dns_lib \<Rightarrow> ip6_text \<Rightarrow> string \<Rightarrow> list_err option" where
  "ValidateForwardTo L T s = (case ParseForwardTo L T s of Inl e \<Rightarrow> Some e | Inr _ \<Rightarrow> None)"

definition FormatForwardTo :: "ForwardTarget list \<Rightarrow> string" where
  "FormatForwardTo ts = Join (map ft_Addr ts) '', ''"

section \<open>primaries.go\<close>

type_synonym primary = "string \<times> nat"
type_synonym addr_port = "addr \<times> nat"

text \<open>The \<open>Lookup\<close> of the code: the addresses of a host name, or an error.\<close>

type_synonym host_lookup = "string \<Rightarrow> addr list option"

definition splitPrimaries :: "dns_lib \<Rightarrow> ip6_text \<Rightarrow> string \<Rightarrow> list_err + primary list" where
  "splitPrimaries L T s =
     (case splitList (parseHostPort L T) s of
        Inl e \<Rightarrow> Inl e
      | Inr ps \<Rightarrow> if ps = [] then Inl NoPrimary else Inr ps)"

definition ValidatePrimaries :: "dns_lib \<Rightarrow> ip6_text \<Rightarrow> string \<Rightarrow> list_err option" where
  "ValidatePrimaries L T s = (case splitPrimaries L T s of Inl e \<Rightarrow> Some e | Inr _ \<Rightarrow> None)"

definition resolve_primary :: "ip6_text \<Rightarrow> host_lookup \<Rightarrow> primary \<Rightarrow> addr_port list option" where
  "resolve_primary T look p =
     (case ParseAddr T (fst p) of
        Some a \<Rightarrow> Some [(Unmap a, snd p)]
      | None \<Rightarrow>
          (case look (fst p) of
             None \<Rightarrow> None
           | Some as \<Rightarrow> if as = [] then None else Some (map (\<lambda>a. (Unmap a, snd p)) as)))"

definition ParsePrimaries :: "dns_lib \<Rightarrow> ip6_text \<Rightarrow> host_lookup \<Rightarrow> string \<Rightarrow> list_err + addr_port list" where
  "ParsePrimaries L T look s =
     (case splitPrimaries L T s of
        Inl e \<Rightarrow> Inl e
      | Inr ps \<Rightarrow>
          (let out = concat (List.map_filter (resolve_primary T look) ps)
           in if out = [] then Inl Unresolved else Inr out))"

definition PrimaryLiterals :: "dns_lib \<Rightarrow> ip6_text \<Rightarrow> string \<Rightarrow> list_err + (addr_port list \<times> bool)" where
  "PrimaryLiterals L T s =
     (case splitPrimaries L T s of
        Inl e \<Rightarrow> Inl e
      | Inr ps \<Rightarrow>
          Inr (List.map_filter (\<lambda>p. map_option (\<lambda>a. (Unmap a, snd p)) (ParseAddr T (fst p))) ps,
               list_ex (\<lambda>p. ParseAddr T (fst p) = None) ps))"

text \<open>\<open>netip.AddrPort.String\<close>, and the list of them.\<close>

definition AddrPortString :: "ip6_text \<Rightarrow> addr_port \<Rightarrow> string" where
  "AddrPortString T ap =
     (case fst ap of
        NoAddr \<Rightarrow> ''invalid AddrPort''
      | V4 w \<Rightarrow> print4 w @ '':'' @ dec (snd ap)
      | V6 w z \<Rightarrow> ''['' @ print6 T w z @ '']:'' @ dec (snd ap))"

definition FormatPrimaries :: "ip6_text \<Rightarrow> addr_port list \<Rightarrow> string" where
  "FormatPrimaries T aps = Join (map (AddrPortString T) aps) '', ''"

section \<open>reverse.go\<close>

definition ReverseName :: "dns_lib \<Rightarrow> ip6_text \<Rightarrow> addr \<Rightarrow> string" where
  "ReverseName L T a =
     (case ReverseAddr L (AddrString T (Unmap a)) of None \<Rightarrow> [] | Some arpa \<Rightarrow> TrimSuffix arpa ''.'')"

definition ReverseZoneFor :: "dns_lib \<Rightarrow> ip6_text \<Rightarrow> addr \<Rightarrow> string list \<Rightarrow> (string \<times> string) option" where
  "ReverseZoneFor L T a zoneNames =
     (let labels = SplitDomainName L (ReverseName L T a);
          have_zone = (\<lambda>z. z \<in> set (map normalizeName zoneNames))
      in first_tail
           (\<lambda>ls. let candidate = Join ls ''.''; i = length labels - length ls
                 in if \<not> have_zone candidate then None
                    else if i = 0 then Some (candidate, apexName)
                    else Some (candidate, Join (take i labels) ''.''))
           labels)"

section \<open>A column is read back as it was written\<close>

definition field_ok :: "string \<Rightarrow> bool" where
  "field_ok f \<longleftrightarrow> f \<noteq> [] \<and> CHR '','' \<notin> set f \<and> TrimSpace f = f"

lemma TrimSpace_ends: "TrimSpace s = s \<longleftrightarrow> s = [] \<or> (\<not> is_space (hd s) \<and> \<not> is_space (last s))"
proof (cases s)
  case (Cons c t)
  have drop_fixed: "dropWhile is_space u = u \<longleftrightarrow> u = [] \<or> \<not> is_space (hd u)" for u
  proof (cases u)
    case (Cons d v)
    then show ?thesis using length_dropWhile_le [of is_space v] by (auto simp del: length_dropWhile_le)
  qed simp
  show ?thesis
  proof
    assume eq: "TrimSpace s = s"
    have le: "length (TrimSpace s) \<le> length (dropWhile is_space s)"
      unfolding TrimSpace_def by (metis length_dropWhile_le length_rev)
    then have "length (dropWhile is_space s) = length s"
      using eq length_dropWhile_le [of is_space s] by simp
    then have d: "dropWhile is_space s = s" by (metis dropWhile_eq_drop drop_all append_take_drop_id
        takeWhile_dropWhile_id append_self_conv2 length_0_conv length_append add_cancel_left_left)
    with eq have "dropWhile is_space (rev s) = rev s" by (metis TrimSpace_def rev_rev_ident)
    then have "\<not> is_space (hd (rev s))" using Cons unfolding drop_fixed by simp
    then have "\<not> is_space (last s)" unfolding hd_rev .
    with d show "s = [] \<or> (\<not> is_space (hd s) \<and> \<not> is_space (last s))"
      unfolding drop_fixed by simp
  next
    assume "s = [] \<or> (\<not> is_space (hd s) \<and> \<not> is_space (last s))"
    then have "dropWhile is_space s = s" "dropWhile is_space (rev s) = rev s"
      unfolding drop_fixed by (auto simp: hd_rev)
    then show "TrimSpace s = s" by (simp add: TrimSpace_def)
  qed
qed (simp add: TrimSpace_def)

lemma TrimSpace_idem [simp]: "TrimSpace (TrimSpace s) = TrimSpace s"
proof (cases "TrimSpace s = []")
  case False
  define u where "u = dropWhile is_space s"
  have r: "TrimSpace s = rev (dropWhile is_space (rev u))" by (simp add: TrimSpace_def u_def)
  with False have ne: "dropWhile is_space (rev u) \<noteq> []" by simp
  then have lst: "\<not> is_space (last (TrimSpace s))" unfolding r by (simp add: last_rev hd_dropWhile)
  have "u \<noteq> []" using ne by auto
  then have "\<not> is_space (hd u)" unfolding u_def by (rule hd_dropWhile)
  moreover have "hd u = hd (TrimSpace s)"
  proof -
    obtain v where "rev u = v @ dropWhile is_space (rev u)" by (metis takeWhile_dropWhile_id)
    then have "u = TrimSpace s @ rev v" unfolding r by (metis rev_append rev_rev_ident)
    with False show ?thesis by (metis hd_append2)
  qed
  ultimately show ?thesis using lst by (simp add: TrimSpace_ends)
next
  case True
  show ?thesis unfolding True by (simp add: TrimSpace_def)
qed

lemma fields_of_ok: "f \<in> set (fields_of s) \<Longrightarrow> field_ok f"
  using Split_no_sep [of _ s "CHR '',''"] set_TrimSpace by (fastforce simp: fields_of_def field_ok_def)

lemma TrimSpace_blank: "TrimSpace (CHR '' '' # f) = TrimSpace f"
  by (simp add: TrimSpace_def is_space_def)

lemma Split_Join_blank:
  assumes "fs \<noteq> []" "\<forall>f \<in> set fs. CHR '','' \<notin> set f"
  shows "map TrimSpace (Split (Join fs '', '') CHR '','') = map TrimSpace fs"
  using assms
proof (induction fs rule: induct_list012)
  case (3 x y zs)
  have "Split (Join (x # y # zs) '', '') CHR '','' = x # Split (CHR '' '' # Join (y # zs) '', '') CHR '',''"
    using 3(4) by (simp add: Split_prepend)
  moreover obtain l ls where l: "Split (Join (y # zs) '', '') CHR '','' = l # ls"
    by (cases "Split (Join (y # zs) '', '') CHR '',''") auto
  ultimately show ?case using 3 by (simp add: TrimSpace_blank del: Join.simps)
qed (auto simp: Split_single)

lemma fields_of_Join:
  assumes "\<forall>f \<in> set fs. field_ok f"
  shows "fields_of (Join fs '', '') = fs"
proof (cases "fs = []")
  case True
  then show ?thesis by (simp add: fields_of_def TrimSpace_def)
next
  case False
  have "map TrimSpace fs = fs" using assms by (simp add: field_ok_def map_idI)
  moreover have "filter (\<lambda>f. f \<noteq> []) fs = fs" using assms by (simp add: field_ok_def)
  ultimately show ?thesis
    using Split_Join_blank [OF False] assms by (simp add: fields_of_def field_ok_def)
qed

lemma parse_fields_all:
  "parse_fields p fs = Inr es \<Longrightarrow> list_all2 (\<lambda>f e. p f = Inr e) fs es"
  by (induction fs arbitrary: es) (auto split: sum.splits)

text \<open>What the four columns share: a printed entry is one field, and parsing that field gives the entry
  back.  Where every parsed entry is such an entry, the column is closed: whatever was accepted is
  read back unchanged.\<close>

locale list_column =
  fixes parse1 :: "string \<Rightarrow> list_err + 'e"
    and fmt1 :: "'e \<Rightarrow> string"
    and good :: "'e \<Rightarrow> bool"
  assumes fmt_field: "good e \<Longrightarrow> field_ok (fmt1 e)"
    and reparse: "good e \<Longrightarrow> parse1 (fmt1 e) = Inr e"
begin

lemma column_roundtrip: "\<forall>e \<in> set es. good e \<Longrightarrow> splitList parse1 (Join (map fmt1 es) '', '') = Inr es"
proof -
  assume g: "\<forall>e \<in> set es. good e"
  then have "fields_of (Join (map fmt1 es) '', '') = map fmt1 es"
    using fmt_field by (intro fields_of_Join) auto
  moreover have "parse_fields parse1 (map fmt1 es) = Inr es"
    using g by (induction es) (simp_all add: reparse)
  ultimately show ?thesis by (simp add: splitList_def)
qed

end

locale closed_column = list_column +
  assumes parsed_good: "field_ok f \<Longrightarrow> parse1 f = Inr e \<Longrightarrow> good e"
begin

lemma parsed_all_good:
  assumes "splitList parse1 s = Inr es" "e \<in> set es"
  shows "good e"
proof -
  have "list_all2 (\<lambda>f e. parse1 f = Inr e) (fields_of s) es"
    using assms(1) by (intro parse_fields_all) (simp add: splitList_def)
  then obtain f where "f \<in> set (fields_of s)" "parse1 f = Inr e"
    using assms(2) unfolding list_all2_conv_all_nth in_set_conv_nth by metis
  then show ?thesis using fields_of_ok parsed_good by blast
qed

lemma column_reread: "splitList parse1 s = Inr es \<Longrightarrow> splitList parse1 (Join (map fmt1 es) '', '') = Inr es"
  using parsed_all_good column_roundtrip by blast

end

section \<open>Key names\<close>

lemma lower_char_fix: "\<not> (97 \<le> (of_char d :: nat) \<and> (of_char d :: nat) \<le> 122) \<Longrightarrow> lower_char c = d \<longleftrightarrow> c = d
    \<and> \<not> (65 \<le> (of_char d :: nat) \<and> (of_char d :: nat) \<le> 90)"
  by (auto simp: lower_char_def)

lemma lower_char_backslash: "CHR 0x5C = lower_char c \<longleftrightarrow> c = CHR 0x5C"
  by (subst eq_commute) (simp add: lower_char_fix)

lemma lower_char_colon: "CHR '':'' = lower_char c \<longleftrightarrow> c = CHR '':''"
  by (subst eq_commute) (simp add: lower_char_fix)

lemma is_space_lower [simp]: "is_space (lower_char c) = is_space c"
  unfolding is_space_def by (simp add: lower_char_fix)

lemma key_chars_lower: "lower_char c \<in> set keyNameForbidden \<longleftrightarrow> c \<in> set keyNameForbidden"
  by (simp add: keyNameForbidden_def lower_char_fix)

text \<open>A canonical key: a valid name in canonical form, without white space at its ends.\<close>

definition canonical_key :: "dns_lib \<Rightarrow> string \<Rightarrow> bool" where
  "canonical_key L k \<longleftrightarrow>
     validDNSName L k keyNameForbidden \<and> CanonicalName L k = k \<and> TrimSpace k = k"

lemma valid_key_no_escape: "validDNSName L k keyNameForbidden \<Longrightarrow> CHR 0x5C \<notin> set k \<and> CHR '','' \<notin> set k \<and>
    CHR '' '' \<notin> set k \<and> CHR 0x09 \<notin> set k"
  by (auto simp: validDNSName_def ContainsAny_def list_ex_iff keyNameForbidden_def)

lemma canonical_key_of:
  assumes L: "canonical_laws L" and v: "validDNSName L k keyNameForbidden" and t: "TrimSpace k = k"
  shows "canonical_key L (CanonicalName L k)"
proof -
  define f where "f = (if HasSuffix k ''.'' then k else k @ ''.'')"
  have nb: "CHR 0x5C \<notin> set k" using valid_key_no_escape [OF v] by simp
  then have c: "CanonicalName L k = ToLower f" using L by (simp add: canonical_laws_def f_def)
  have dots: "HasSuffix (ToLower u) ''.'' = HasSuffix u ''.''" for u
    by (auto simp: HasSuffix_def ToLower_def drop_map)
  have "HasSuffix f ''.''" by (simp add: f_def)
  moreover have "CHR 0x5C \<notin> set (ToLower f)"
    using nb unfolding ToLower_def set_map image_iff lower_char_backslash by (simp add: f_def)
  ultimately have "Fqdn L (ToLower f) = ToLower f" using L by (simp add: canonical_laws_def dots)
  then have idem: "CanonicalName L (ToLower f) = ToLower f" using L by (simp add: canonical_laws_def)
  have k: "k \<noteq> []" using v by (simp add: validDNSName_def)
  have "TrimSuffix f ''.'' = TrimSuffix k ''.''" by (simp add: f_def TrimSuffix_none)
  moreover have "TrimSuffix (ToLower f) ''.'' = ToLower (TrimSuffix f ''.'')"
    by (simp add: TrimSuffix_def dots) (simp add: ToLower_def take_map)
  ultimately have labels: "Split (TrimSuffix (ToLower f) ''.'') CHR ''.'' = map ToLower (Split (TrimSuffix k ''.'') CHR ''.'')"
    by (simp add: Split_ToLower_dot)
  have "\<not> ContainsAny f keyNameForbidden"
    using v by (auto simp: validDNSName_def ContainsAny_def f_def keyNameForbidden_def)
  then have "\<not> ContainsAny (ToLower f) keyNameForbidden"
    by (simp add: ContainsAny_def list_ex_iff ToLower_def key_chars_lower)
  moreover have "IsDomainName L (ToLower f)"
    using L nb v unfolding c [symmetric] canonical_laws_def validDNSName_def by blast
  ultimately have "validDNSName L (ToLower f) keyNameForbidden"
    using v labels k by (simp add: validDNSName_def f_def list_all_iff)
  moreover have "TrimSpace (ToLower f) = ToLower f"
  proof -
    have "hd f = hd k" using k by (simp add: f_def)
    moreover have "last f = last k \<or> last f = CHR ''.''" by (simp add: f_def)
    moreover have "hd (ToLower f) = lower_char (hd f)" "last (ToLower f) = lower_char (last f)"
      using k by (simp_all add: f_def ToLower_def hd_map last_map)
    ultimately show ?thesis using t k unfolding TrimSpace_ends by (auto simp: is_space_def [of "CHR ''.''"])
  qed
  ultimately show ?thesis using c idem by (simp add: canonical_key_def)
qed

section \<open>Access lists\<close>

definition good_acl_entry :: "dns_lib \<Rightarrow> ACLEntry \<Rightarrow> bool" where
  "good_acl_entry L e =
     (case e of
        ACLKey k \<Rightarrow> canonical_key L k
      | ACLPrefix p \<Rightarrow> prefix_ok p \<and> Masked p = p \<and> \<not> Is4In6 (prefix_addr p))"

lemma Masked_not_4in6: "\<not> Is4In6 (prefix_addr p) \<Longrightarrow> \<not> Is4In6 (prefix_addr (Masked p))"
proof (cases p)
  case (Prefix a n)
  assume *: "\<not> Is4In6 (prefix_addr p)"
  show ?thesis
  proof (cases a)
    case (V6 w z)
    have "drop_bit 32 w = 0xffff" if m: "drop_bit 32 (push_bit (128 - n) (drop_bit (128 - n) w)) = 0xffff"
    proof (cases "128 - n \<le> 32")
      case True
      have "drop_bit 32 (push_bit (128 - n) (drop_bit (128 - n) w)) = drop_bit 32 w"
        using True by (intro bit_word_eqI) (auto simp: bit_simps dest: bit_imp_le_length)
      with m show ?thesis by simp
    next
      case False
      have "\<not> bit (drop_bit 32 (push_bit (128 - n) (drop_bit (128 - n) w))) 0"
        using False by (simp add: bit_simps)
      moreover have "bit (0xffff :: 128 word) 0" by simp
      ultimately show ?thesis using m by metis
    qed
    with * Prefix V6 show ?thesis by (auto simp: Is4In6_def)
  qed (simp_all add: Prefix Is4In6_def)
qed simp

lemma Masked_full: "a \<noteq> NoAddr \<Longrightarrow> Masked (PrefixFrom a (BitLen a)) = PrefixFrom a (BitLen a)"
  by (cases a) (simp_all add: PrefixFrom_def BitLen_def)

lemma no_slash_no_prefix: "CHR ''/'' \<notin> set s \<Longrightarrow> ParsePrefix T s = None"
  by (simp add: ParsePrefix_def cut_last_def IndexByte_None [THEN iffD2])


lemma hex_text_plain:
  assumes "set s \<subseteq> set ''0123456789abcdef:./''" "c \<in> set s"
  shows "\<not> is_space c \<and> c \<noteq> CHR '','' \<and> lower_char c \<noteq> CHR ''k'' \<and> c \<noteq> CHR ''['' \<and> c \<noteq> CHR '']''"
proof -
  have "list_all (\<lambda>c. \<not> is_space c \<and> c \<noteq> CHR '','' \<and> lower_char c \<noteq> CHR ''k'' \<and> c \<noteq> CHR ''['' \<and> c \<noteq> CHR '']'')
          ''0123456789abcdef:./''" by code_simp
  then show ?thesis using assms unfolding list_all_iff by blast
qed

lemma hex_text_not_key:
  assumes "set s \<subseteq> set ''0123456789abcdef:./''"
  shows "\<not> EqualFold (take (length aclKeyPrefix) s) aclKeyPrefix"
proof (cases s)
  case (Cons c t)
  then have "lower_char c \<noteq> CHR ''k''" using hex_text_plain [OF assms] by simp
  then show ?thesis by (simp add: Cons EqualFold_def aclKeyPrefix_def) (simp add: lower_char_def)
qed (simp add: EqualFold_def aclKeyPrefix_def)

text \<open>The text of a prefix entry, whichever of its two forms is printed.\<close>

lemma acl_prefix_text:
  assumes T: "ip6_laws T" and p: "prefix_ok p"
  shows "set (format_acl_entry T (ACLPrefix p)) \<subseteq> set ''0123456789abcdef:./''"
    "format_acl_entry T (ACLPrefix p) \<noteq> []"
proof -
  obtain a n where a: "p = Prefix a n" "a \<noteq> NoAddr" "Zone a = []" using p by (auto simp: prefix_ok_def split: prefix.splits)
  have "set (AddrString T a) \<subseteq> set ''0123456789abcdef:.''" using AddrString_chars [OF T a(2,3)] by blast
  moreover have "set (dec n) \<subseteq> set ''0123456789''" using dec_digits digit_in by blast
  ultimately show "set (format_acl_entry T (ACLPrefix p)) \<subseteq> set ''0123456789abcdef:./''"
  proof -
    assume ad: "set (AddrString T a) \<subseteq> set ''0123456789abcdef:.''" "set (dec n) \<subseteq> set ''0123456789''"
    have sub: "set ''0123456789abcdef:.'' \<subseteq> set ''0123456789abcdef:./''" "set ''0123456789'' \<subseteq> set ''0123456789abcdef:./''"
      "CHR ''/'' \<in> set ''0123456789abcdef:./''" by code_simp+
    have "set (format_acl_entry T (ACLPrefix p)) \<subseteq> set (AddrString T a) \<union> {CHR ''/''} \<union> set (dec n)"
      by (simp add: format_acl_entry_def a(1)) blast
    with ad sub show ?thesis by blast
  qed
  have "AddrString T a \<noteq> []" using ParseAddr_String [OF T a(2)] by (auto simp: ParseAddr_def)
  then show "format_acl_entry T (ACLPrefix p) \<noteq> []" by (simp add: format_acl_entry_def a(1))
qed

lemma reparse_acl_prefix:
  assumes T: "ip6_laws T" and g: "prefix_ok p" "Masked p = p" "\<not> Is4In6 (prefix_addr p)"
  shows "parseACLEntry L T (format_acl_entry T (ACLPrefix p)) = Inr (ACLPrefix p)"
proof -
  obtain a n where a: "p = Prefix a n" "a \<noteq> NoAddr" "Zone a = []" using g(1) by (auto simp: prefix_ok_def split: prefix.splits)
  have nk: "\<not> EqualFold (take (length aclKeyPrefix) (format_acl_entry T (ACLPrefix p))) aclKeyPrefix"
    by (rule hex_text_not_key [OF acl_prefix_text(1) [OF T g(1)]])
  have un: "Unmap a = a" using g(3) a(1) by (cases a) (simp_all add: Unmap_def Is4In6_def)
  show ?thesis
  proof (cases "n = BitLen a")
    case True
    have "CHR ''/'' \<notin> set (AddrString T a)" using AddrString_chars [OF T a(2,3)] by fastforce
    then have "ParsePrefix T (AddrString T a) = None" by (rule no_slash_no_prefix)
    moreover have "PrefixFrom a (BitLen a) = Prefix a (BitLen a)"
      using a(2,3) by (cases a) (simp_all add: PrefixFrom_def Zone_def)
    moreover have "format_acl_entry T (ACLPrefix p) = AddrString T a" using True by (simp add: format_acl_entry_def a(1))
    ultimately show ?thesis using nk ParseAddr_String [OF T a(2)] un True by (simp add: parseACLEntry_def a(1))
  next
    case False
    then have "format_acl_entry T (ACLPrefix p) = PrefixString T p" by (simp add: format_acl_entry_def a(1))
    with nk show ?thesis using ParsePrefix_String(1) [OF T g(1)] g by (simp add: parseACLEntry_def)
  qed
qed

lemma reparse_acl_key:
  assumes "canonical_key L k"
  shows "parseACLEntry L T (aclKeyPrefix @ k) = Inr (ACLKey k)" "field_ok (aclKeyPrefix @ k)"
proof -
  have "k \<noteq> []" "CHR '','' \<notin> set k" "TrimSpace k = k"
    using assms valid_key_no_escape by (auto simp: canonical_key_def validDNSName_def)
  then show "field_ok (aclKeyPrefix @ k)"
    by (simp add: field_ok_def TrimSpace_ends aclKeyPrefix_def) (simp add: is_space_def)
  show "parseACLEntry L T (aclKeyPrefix @ k) = Inr (ACLKey k)"
    using assms by (simp add: parseACLEntry_def canonical_key_def)
qed

lemma parsed_acl_entry:
  assumes L: "canonical_laws L" and T: "ip6_laws T" and r: "parseACLEntry L T f = Inr e"
  shows "good_acl_entry L e"
proof (cases e)
  case (ACLKey k)
  with r obtain n where n: "validDNSName L (TrimSpace n) keyNameForbidden" "k = CanonicalName L (TrimSpace n)"
    by (auto simp: parseACLEntry_def Let_def split: if_splits option.splits)
  with ACLKey show ?thesis using canonical_key_of [OF L n(1)] by (simp add: good_acl_entry_def)
next
  case (ACLPrefix p)
  with r consider (net) q where "ParsePrefix T f = Some q" "\<not> Is4In6 (prefix_addr q)" "p = Masked q"
    | (host) a where "ParseAddr T f = Some a" "p = PrefixFrom (Unmap a) (BitLen (Unmap a))"
    by (auto simp: parseACLEntry_def Let_def split: if_splits option.splits)
  then show ?thesis
  proof cases
    case net
    then show ?thesis using ParsePrefix_ok [OF T] Masked_not_4in6 by (simp add: ACLPrefix good_acl_entry_def)
  next
    case host
    have ne: "Unmap a \<noteq> NoAddr" using ParseAddr_valid [OF T host(1)] by (cases a) (simp_all add: Unmap_def)
    moreover have "Is4In6 (prefix_addr (PrefixFrom b (BitLen b))) = Is4In6 b" for b
      by (cases b) (simp_all add: PrefixFrom_def Is4In6_def)
    ultimately show ?thesis using host(2) PrefixFrom_ok [OF ne] Masked_full [OF ne] Unmap_not_4in6
      by (simp add: ACLPrefix good_acl_entry_def)
  qed
qed

text \<open>The name and address syntax the columns rest on.\<close>

locale zone_text =
  fixes L :: dns_lib and T :: ip6_text
  assumes names: "canonical_laws L" and addrs: "ip6_laws T"

sublocale zone_text \<subseteq> acl: closed_column "parseACLEntry L T" "format_acl_entry T" "good_acl_entry L"
proof
  show "field_ok (format_acl_entry T e)" if g: "good_acl_entry L e" for e
  proof (cases e)
    case (ACLPrefix p)
    with g have "prefix_ok p" by (simp add: good_acl_entry_def)
    note t = acl_prefix_text [OF addrs this]
    have "TrimSpace (format_acl_entry T (ACLPrefix p)) = format_acl_entry T (ACLPrefix p)"
      using hex_text_plain [OF t(1)] by (intro TrimSpace_id) blast
    moreover have "CHR '','' \<notin> set (format_acl_entry T (ACLPrefix p))" using hex_text_plain [OF t(1)] by blast
    ultimately show ?thesis using t(2) by (simp add: ACLPrefix field_ok_def)
  next
    case (ACLKey k)
    with g show ?thesis using reparse_acl_key(2) by (simp add: good_acl_entry_def format_acl_entry_def)
  qed
  show "parseACLEntry L T (format_acl_entry T e) = Inr e" if g: "good_acl_entry L e" for e
  proof (cases e)
    case (ACLPrefix p)
    with g show ?thesis using reparse_acl_prefix [OF addrs] by (simp add: good_acl_entry_def)
  next
    case (ACLKey k)
    with g show ?thesis using reparse_acl_key(1) by (simp add: good_acl_entry_def format_acl_entry_def)
  qed
  show "good_acl_entry L e" if "field_ok f" "parseACLEntry L T f = Inr e" for f e
    using parsed_acl_entry [OF names addrs that(2)] .
qed

section \<open>Hosts and ports\<close>

text \<open>A host an entry can be printed with: one the parser takes, without brackets, white space or a comma.\<close>

definition plain_host :: "string \<Rightarrow> bool" where
  "plain_host h \<longleftrightarrow> list_all (\<lambda>c. c \<noteq> CHR ''['' \<and> c \<noteq> CHR '']'' \<and> c \<noteq> CHR '','' \<and> \<not> is_space c) h"

definition good_host :: "dns_lib \<Rightarrow> ip6_text \<Rightarrow> string \<Rightarrow> nat \<Rightarrow> bool" where
  "good_host L T h p \<longleftrightarrow> validPrimaryHost L T h \<and> plain_host h \<and> 1 \<le> p \<and> p \<le> 65535"

lemma is_digit_plain: "is_digit c \<Longrightarrow> c \<noteq> CHR '':'' \<and> c \<noteq> CHR ''['' \<and> c \<noteq> CHR '']'' \<and> c \<noteq> CHR '','' \<and> \<not> is_space c"
  by (auto simp: is_digit_def is_space_def)

lemma dec_plain:
  "CHR '':'' \<notin> set (dec p)" "CHR ''['' \<notin> set (dec p)" "CHR '']'' \<notin> set (dec p)" "CHR '','' \<notin> set (dec p)"
  "\<forall>c \<in> set (dec p). \<not> is_space c"
  using dec_digits [of _ p] is_digit_plain by blast+

lemma IndexByte_append: "c \<notin> set p \<Longrightarrow> IndexByte (p @ c # q) c = Some (length p)"
  by (induction p) auto

lemma SplitHostPort_Join:
  assumes "CHR ''['' \<notin> set h" "CHR '']'' \<notin> set h"
  shows "SplitHostPort (JoinHostPort h (dec p)) = Some (h, dec p)"
proof (cases "CHR '':'' \<in> set h")
  case True
  let ?s = "CHR ''['' # h @ CHR '']'' # CHR '':'' # dec p"
  have s: "JoinHostPort h (dec p) = ?s" using True by (simp add: JoinHostPort_def)
  have "cut_last CHR '':'' ?s = Some (CHR ''['' # h @ '']'', dec p)"
    using cut_last_append [OF dec_plain(1), of "CHR ''['' # h @ '']''"] by simp
  moreover have "IndexByte ?s CHR '']'' = Some (Suc (length h))"
    using IndexByte_append [OF assms(2)] by simp
  ultimately show ?thesis unfolding s using assms dec_plain by (simp add: SplitHostPort_def)
next
  case False
  have s: "JoinHostPort h (dec p) = h @ CHR '':'' # dec p" using False by (simp add: JoinHostPort_def)
  have "hd (h @ CHR '':'' # dec p) \<noteq> CHR ''[''" using assms(1) by (cases h) auto
  then show ?thesis unfolding s using cut_last_append [OF dec_plain(1)] False assms dec_plain
    by (simp add: SplitHostPort_def)
qed

lemma parseHostPort_Join:
  assumes "good_host L T h p"
  shows "parseHostPort L T (JoinHostPort h (dec p)) = Inr (h, p)" "field_ok (JoinHostPort h (dec p))"
    "\<forall>c \<in> set (JoinHostPort h (dec p)). \<not> is_space c"
proof -
  have h: "CHR ''['' \<notin> set h" "CHR '']'' \<notin> set h" "CHR '','' \<notin> set h" "\<forall>c \<in> set h. \<not> is_space c"
    using assms by (auto simp: good_host_def plain_host_def list_all_iff)
  have "parse_port (dec p) = Some p" using assms by (simp add: parse_port_def good_host_def)
  then show "parseHostPort L T (JoinHostPort h (dec p)) = Inr (h, p)"
    using assms SplitHostPort_Join [OF h(1,2)] by (simp add: parseHostPort_def good_host_def)
  show sp: "\<forall>c \<in> set (JoinHostPort h (dec p)). \<not> is_space c"
    using h(4) dec_plain(5) by (auto simp: JoinHostPort_def is_space_def)
  show "field_ok (JoinHostPort h (dec p))"
    using TrimSpace_id [OF sp] h(3) dec_plain(4) by (simp add: field_ok_def) (simp add: JoinHostPort_def)
qed

lemma parsed_host:
  assumes "parseHostPort L T f = Inr (h, p)"
  shows "validPrimaryHost L T h" "1 \<le> p" "p \<le> 65535"
  using assms by (auto simp: parseHostPort_def Let_def parse_port_def DefaultPrimaryPort_def
      split: prod.splits if_splits option.splits)

definition good_forward :: "dns_lib \<Rightarrow> ip6_text \<Rightarrow> ForwardTarget \<Rightarrow> bool" where
  "good_forward L T t \<longleftrightarrow> good_host L T (ft_Host t) (ft_Port t)"

sublocale zone_text \<subseteq> forward: list_column "parse_forward_target L T" ft_Addr "good_forward L T"
  by unfold_locales (simp_all add: parse_forward_target_def ft_Addr_def good_forward_def parseHostPort_Join)

text \<open>A target of the notify list: its host is not the word \<open>key\<close>, and its key, if it has one, is canonical.\<close>

definition good_notify :: "dns_lib \<Rightarrow> ip6_text \<Rightarrow> NotifyTarget \<Rightarrow> bool" where
  "good_notify L T t \<longleftrightarrow>
     good_host L T (nt_Host t) (nt_Port t) \<and> \<not> EqualFold (nt_Host t) ''key'' \<and>
     (nt_Key t = [] \<or> canonical_key L (nt_Key t))"

lemma not_key_prefix:
  assumes "\<not> EqualFold h ''key''"
  shows "\<not> HasPrefix (ToLower (JoinHostPort h (dec p))) notifyKeyPrefix"
proof
  assume pre: "HasPrefix (ToLower (JoinHostPort h (dec p))) notifyKeyPrefix"
  show False
  proof (cases "CHR '':'' \<in> set h")
    case True
    with pre show False by (simp add: JoinHostPort_def HasPrefix_def notifyKeyPrefix_def) (simp add: lower_char_def)
  next
    case False
    have nc: "CHR '':'' \<notin> set (ToLower h)" 
      using False unfolding ToLower_def set_map image_iff lower_char_colon by simp
    have "lower_char CHR '':'' = CHR '':''" by code_simp
    then obtain w where w: "ToLower h @ CHR '':'' # ToLower (dec p) = ''key'' @ CHR '':'' # w"
      using pre False by (auto simp: JoinHostPort_def HasPrefix_prefix notifyKeyPrefix_def prefix_def)
    have "Split (ToLower h @ CHR '':'' # ToLower (dec p)) CHR '':'' = ToLower h # Split (ToLower (dec p)) CHR '':''"
      using nc by (rule Split_prepend)
    moreover have "Split (''key'' @ CHR '':'' # w) CHR '':'' = ''key'' # Split w CHR '':''"
      by (rule Split_prepend) simp
    ultimately have "ToLower h = ''key''" using w by (metis list.inject)
    with assms show False by (simp add: EqualFold_def) (simp add: lower_char_def)
  qed
qed

lemma reparse_notify:
  assumes "good_notify L T t"
  shows "parseNotifyTarget L T (format_notify_target t) = Inr t" "field_ok (format_notify_target t)"
proof -
  let ?a = "nt_Addr t"
  have g: "good_host L T (nt_Host t) (nt_Port t)" and nk: "\<not> EqualFold (nt_Host t) ''key''"
    and ck: "nt_Key t = [] \<or> canonical_key L (nt_Key t)" using assms by (auto simp: good_notify_def)
  note hp = parseHostPort_Join [OF g, folded nt_Addr_def]
  have np: "\<not> HasPrefix (ToLower ?a) notifyKeyPrefix" unfolding nt_Addr_def by (rule not_key_prefix [OF nk])
  have nb: "\<forall>c \<in> set ?a. \<not> is_blank c" using hp(3) by (auto simp: is_blank_def is_space_def)
  have ta: "TrimSpace ?a = ?a" using hp(2) by (simp add: field_ok_def)
  show "parseNotifyTarget L T (format_notify_target t) = Inr t"
  proof (cases "nt_Key t = []")
    case True
    have tw: "takeWhile (\<lambda>c. \<not> is_blank c) ?a = ?a" using nb by (simp add: takeWhile_eq_all_conv)
    from True np hp(1) show ?thesis by (simp add: format_notify_target_def parseNotifyTarget_def tw Let_def)
  next
    case False
    with ck have k: "canonical_key L (nt_Key t)" by simp
    let ?k = "CHR '' '' # notifyKeyPrefix @ nt_Key t"
    have f: "format_notify_target t = ?a @ ?k" using False by (simp add: format_notify_target_def)
    have tw: "takeWhile (\<lambda>c. \<not> is_blank c) (?a @ ?k) = ?a" using nb by (simp add: takeWhile_append is_blank_def)
    have "field_ok (notifyKeyPrefix @ nt_Key t)"
      using reparse_acl_key(2) [OF k] by (simp add: notifyKeyPrefix_def aclKeyPrefix_def)
    then have r: "TrimSpace ?k = notifyKeyPrefix @ nt_Key t" by (simp add: TrimSpace_blank field_ok_def)
    have "HasPrefix (ToLower (notifyKeyPrefix @ nt_Key t)) notifyKeyPrefix"
      by (simp add: notifyKeyPrefix_def HasPrefix_def) (simp add: lower_char_def)
    moreover have "\<not> list_ex is_blank (nt_Key t)"
      using valid_key_no_escape k by (auto simp: canonical_key_def is_blank_def list_ex_iff)
    ultimately show ?thesis unfolding f
      using k np hp(1) ta by (simp add: parseNotifyTarget_def tw r canonical_key_def Let_def)
  qed
  show "field_ok (format_notify_target t)"
  proof (cases "nt_Key t = []")
    case True
    with hp(2) show ?thesis by (simp add: format_notify_target_def)
  next
    case False
    with ck have k: "canonical_key L (nt_Key t)" by simp
    then have "CHR '','' \<notin> set (nt_Key t)" "\<not> is_space (last (nt_Key t))"
      using False valid_key_no_escape [of L "nt_Key t"] by (auto simp: canonical_key_def TrimSpace_ends)
    with False hp(2) show ?thesis
      by (auto simp: format_notify_target_def field_ok_def TrimSpace_ends notifyKeyPrefix_def)
  qed
qed

sublocale zone_text \<subseteq> notify: list_column "parseNotifyTarget L T" format_notify_target "good_notify L T"
  by unfold_locales (simp_all add: reparse_notify)

context zone_text
begin

lemma acl_reread: "ParseACL L T s = Inr es \<Longrightarrow> ParseACL L T (FormatACL T es) = Inr es"
  unfolding ParseACL_def FormatACL_def by (rule acl.column_reread)

lemma acl_parsed: "ParseACL L T s = Inr es \<Longrightarrow> e \<in> set es \<Longrightarrow> good_acl_entry L e"
  unfolding ParseACL_def by (rule acl.parsed_all_good)

lemma acl_field: "good_acl_entry L e \<Longrightarrow> field_ok (format_acl_entry T e)"
  by (rule acl.fmt_field)

lemma notify_roundtrip: "\<forall>t \<in> set ts. good_notify L T t \<Longrightarrow> ParseNotifyTo L T (FormatNotifyTo ts) = Inr ts"
  unfolding ParseNotifyTo_def FormatNotifyTo_def by (rule notify.column_roundtrip)

lemma forward_roundtrip: "\<forall>t \<in> set ts. good_forward L T t \<Longrightarrow> ParseForwardTo L T (FormatForwardTo ts) = Inr ts"
  unfolding ParseForwardTo_def FormatForwardTo_def by (rule forward.column_roundtrip)

end

interpretation plain_text: zone_text plain_lib ex_text
  by unfold_locales (simp_all add: ex_text_laws)

end
