(* ===== verification/Zone_Refs.thy ===== *)
theory Zone_Refs
  imports Zone_Records Zone_Lists
begin

text \<open>
  What the list columns of a zone promise to the rest of the program: a stored list is read back as it was
  entered, an access list grants exactly what its entries say, the store's test for a key that is in
  use agrees with the entries of the list, and the reverse name of an address falls into the deepest
  zone that covers it.
\<close>

section \<open>Access lists\<close>

text \<open>C19: an access list survives storing.  Whatever list of entries the parser accepts, printing it in
  canonical form and parsing that text gives the same entries, in the same order.\<close>

theorem ACL_reread:
  assumes "canonical_laws L" "ip6_laws T" "ParseACL L T s = Inr es"
  shows "ParseACL L T (FormatACL T es) = Inr es"
  using zone_text.acl_reread [OF zone_text.intro [OF assms(1,2)] assms(3)] .

definition ex_acl :: string where
  "ex_acl = '' 10.1.2.3/8 ,, KEY: Xfer''"

lemma ex_acl_parses: "ParseACL plain_lib ex_text ex_acl = Inr [ACLPrefix (Prefix (V4 0x0a000000) 8), ACLKey ''xfer.'']"
  by code_simp

theorem ACL_reread_witness:
  "ParseACL plain_lib ex_text (FormatACL ex_text [ACLPrefix (Prefix (V4 0x0a000000) 8), ACLKey ''xfer.'']) =
     Inr [ACLPrefix (Prefix (V4 0x0a000000) 8), ACLKey ''xfer.'']"
  using ACL_reread [OF plain_canonical_laws ex_text_laws ex_acl_parses] .

lemma ACLKeys_entries:
  assumes "ParseACL L T s = Inr es"
  shows "k \<in> set (ACLKeys L T s) \<longleftrightarrow> ACLKey k \<in> set es"
proof -
  have "(case e of ACLKey k \<Rightarrow> Some k | ACLPrefix _ \<Rightarrow> None) = Some k \<longleftrightarrow> e = ACLKey k" for e by (cases e) auto
  then show ?thesis using assms by (simp add: ACLKeys_def in_set_map_filter)
qed

text \<open>What an access list grants.  A list that parses allows a peer exactly when one of its prefixes holds
  the peer's address, with a mapped IPv4 address read as the IPv4 address it is, or when the peer's
  message was signed and the canonical name of the key that signed it is a key of the list.  An
  unsigned message is never allowed by a key, and the empty list allows nobody.\<close>

theorem ACLAllows_grants:
  assumes "ParseACL L T s = Inr es"
  shows "ACLAllows L es a key \<longleftrightarrow>
    (\<exists>p. ACLPrefix p \<in> set es \<and> Contains p (Unmap a)) \<or> (key \<noteq> [] \<and> CanonicalName L key \<in> set (ACLKeys L T s))"
proof -
  have m: "acl_match b key ck e \<longleftrightarrow> (\<exists>p. e = ACLPrefix p \<and> Contains p b) \<or> (e = ACLKey ck \<and> key \<noteq> [])" for b ck e
    by (cases e) (auto simp: acl_match_def)
  show ?thesis unfolding ACLKeys_entries [OF assms] ACLAllows_def list_ex_iff m by blast
qed

theorem ACLAllows_grants_witness:
  "ACLAllows plain_lib [ACLPrefix (Prefix (V4 0x0a000000) 8), ACLKey ''xfer.''] (V6 0xffff0a000001 []) [] \<and>
   ACLAllows plain_lib [ACLPrefix (Prefix (V4 0x0a000000) 8), ACLKey ''xfer.''] (V4 0xc0a80101) ''XFER''"
proof -
  note g = ACLAllows_grants [OF ex_acl_parses]
  have "Contains (Prefix (V4 0x0a000000) 8) (Unmap (V6 0xffff0a000001 []))" by code_simp
  moreover have "CanonicalName plain_lib ''XFER'' \<in> set (ACLKeys plain_lib ex_text ex_acl)" by code_simp
  ultimately show ?thesis unfolding g by simp
qed

section \<open>Notify lists\<close>

lemma parsed_notify_key:
  assumes "canonical_laws L" "parseNotifyTarget L T f = Inr t"
  shows "good_notify L T t \<longleftrightarrow> plain_host (nt_Host t) \<and> \<not> EqualFold (nt_Host t) ''key''"
proof -
  have *: "\<exists>hp. parseHostPort L T hp = Inr (nt_Host t, nt_Port t)"
    "\<exists>n. nt_Key t = [] \<or> (nt_Key t = CanonicalName L (TrimSpace n) \<and> validDNSName L (TrimSpace n) keyNameForbidden)"
    using assms(2) by (auto simp: parseNotifyTarget_def Let_def split: if_splits sum.splits)
  then have "nt_Key t = [] \<or> canonical_key L (nt_Key t)" using canonical_key_of [OF assms(1)] by auto
  with parsed_host *(1) show ?thesis by (auto simp: good_notify_def good_host_def)
qed

text \<open>A notify list survives storing.  The targets the parser accepts are read back unchanged, provided no
  host has brackets, white space or a comma in it and none is the word \<open>key\<close>; each condition is needed,
  since such hosts are accepted and their printed form is refused or read differently.\<close>

theorem NotifyTo_reread:
  assumes "canonical_laws L" "ip6_laws T" "ParseNotifyTo L T s = Inr ts"
    "\<forall>t \<in> set ts. plain_host (nt_Host t) \<and> \<not> EqualFold (nt_Host t) ''key''"
  shows "ParseNotifyTo L T (FormatNotifyTo ts) = Inr ts"
proof -
  have "list_all2 (\<lambda>f t. parseNotifyTarget L T f = Inr t) (fields_of s) ts"
    using assms(3) by (intro parse_fields_all) (simp add: ParseNotifyTo_def splitList_def)
  then have "\<exists>f. parseNotifyTarget L T f = Inr t" if "t \<in> set ts" for t
    using that unfolding list_all2_conv_all_nth in_set_conv_nth by metis
  then have "\<forall>t \<in> set ts. good_notify L T t" using parsed_notify_key [OF assms(1)] assms(4) by blast
  then show ?thesis by (rule zone_text.notify_roundtrip [OF zone_text.intro [OF assms(1,2)]])
qed

definition ex_targets :: "NotifyTarget list" where
  "ex_targets = [\<lparr>nt_Host = ''ns2.example'', nt_Port = 53, nt_Key = ''xfer.''\<rparr>, \<lparr>nt_Host = '':7'', nt_Port = 53, nt_Key = []\<rparr>]"

lemma ex_targets_parse: "ParseNotifyTo plain_lib ex_text ''ns2.example key:XFER,[:7]'' = Inr ex_targets"
  by code_simp

theorem NotifyTo_reread_witness: "ParseNotifyTo plain_lib ex_text (FormatNotifyTo ex_targets) = Inr ex_targets"
proof -
  have "\<forall>t \<in> set ex_targets. plain_host (nt_Host t) \<and> \<not> EqualFold (nt_Host t) ''key''" by code_simp
  then show ?thesis using NotifyTo_reread [OF plain_canonical_laws ex_text_laws ex_targets_parse] by simp
qed

section \<open>Keys in use\<close>

lemma contains_iff: "contains s t \<longleftrightarrow> (\<exists>p q. s = p @ t @ q)"
proof (induction s)
  case (Cons c s)
  have "(\<exists>p q. c # s = p @ t @ q) \<longleftrightarrow> prefix t (c # s) \<or> (\<exists>p q. s = p @ t @ q)"
    by (metis (no_types, opaque_lifting) append_Cons append_Nil list.exhaust list.inject prefix_def)
  with Cons show ?case by (simp add: HasPrefix_prefix)
qed auto

lemma Split_middle: "Split (p @ c # q) c = Split p c @ Split q c"
proof (induction p)
  case (Cons x p)
  then show ?case by (cases "Split p c") (auto split: list.splits)
qed simp

text \<open>A text between separators is found exactly when it is one of the fields.\<close>

lemma contains_field:
  assumes "c \<notin> set f" "f \<noteq> []" "\<forall>g \<in> set fs. c \<notin> set g"
  shows "contains ([c] @ Join fs [c] @ [c]) ([c] @ f @ [c]) \<longleftrightarrow> f \<in> set fs"
proof (cases "fs = []")
  case True
  have "\<not> contains [c, c] ([c] @ f @ [c])" using assms(2) by (auto simp: HasPrefix_def Cons_eq_append_conv dest: arg_cong [of _ _ length])
  with True show ?thesis by simp
next
  case False
  have split: "Split ([c] @ Join fs [c] @ [c]) c = [] # fs @ [[]]"
    using Split_Join [OF False assms(3)] by (simp add: Split_middle)
  show ?thesis
  proof
    assume "contains ([c] @ Join fs [c] @ [c]) ([c] @ f @ [c])"
    then obtain p q where pq: "[c] @ Join fs [c] @ [c] = p @ c # f @ c # q" unfolding contains_iff by auto
    have "Split ([c] @ Join fs [c] @ [c]) c = Split p c @ f # Split q c"
      unfolding pq Split_middle Split_single [OF assms(1)] by simp
    with split have "f \<in> set ([] # fs @ [[]])" by (metis in_set_conv_decomp)
    with assms(2) show "f \<in> set fs" by auto
  next
    assume "f \<in> set fs"
    then obtain as bs where fs: "fs = as @ f # bs" by (meson split_list)
    have "Join (as @ f # bs) [c] = (if as = [] then [] else Join as [c] @ [c]) @ f @ (if bs = [] then [] else [c] @ Join bs [c])"
      by (simp add: Join_append Join_Cons)
    then have "[c] @ Join fs [c] @ [c] = (if as = [] then [] else [c] @ Join as [c]) @ ([c] @ f @ [c]) @ (if bs = [] then [] else Join bs [c] @ [c])"
      unfolding fs by simp
    then show "contains ([c] @ Join fs [c] @ [c]) ([c] @ f @ [c])" unfolding contains_iff by blast
  qed
qed

lemma filter_Join: "\<forall>f \<in> set fs. CHR '' '' \<notin> set f \<Longrightarrow> filter (\<lambda>c. c \<noteq> CHR '' '') (Join fs '', '') = Join fs '',''"
proof (induction fs rule: induct_list012)
  case (3 x y zs)
  have "filter (\<lambda>c. c \<noteq> CHR '' '') x = x" using 3(3) by (intro filter_True) auto
  with 3 show ?case by simp
qed (auto intro!: filter_True)

lemma acl_entry_no_blank:
  assumes "ip6_laws T" "good_acl_entry L e"
  shows "CHR '' '' \<notin> set (format_acl_entry T e)"
proof (cases e)
  case (ACLPrefix p)
  then have "prefix_ok p" using assms(2) by (simp add: good_acl_entry_def)
  then show ?thesis using hex_text_plain [OF acl_prefix_text(1) [OF assms(1)]] by (force simp: ACLPrefix is_space_def)
next
  case (ACLKey k)
  then show ?thesis using assms(2) valid_key_no_escape
    by (auto simp: good_acl_entry_def canonical_key_def format_acl_entry_def aclKeyPrefix_def)
qed

lemma acl_key_text:
  assumes "ip6_laws T" "good_acl_entry L e"
  shows "format_acl_entry T e = aclKeyPrefix @ k \<longleftrightarrow> e = ACLKey k"
proof (cases e)
  case (ACLPrefix p)
  then have "prefix_ok p" using assms(2) by (simp add: good_acl_entry_def)
  note t = hex_text_not_key [OF acl_prefix_text(1) [OF assms(1) this]]
  have "format_acl_entry T e \<noteq> aclKeyPrefix @ k" using t by (auto simp: ACLPrefix)
  with ACLPrefix show ?thesis by simp
qed (simp add: format_acl_entry_def)

text \<open>The store's test for a key named by an access list is exact.  Where every zone's transfer list is a
  canonical text, the substring search of the delete and rename statements finds a key name exactly
  when the parsed list of some zone has that key as an entry; no other key's name, longer or shorter,
  is taken for it.\<close>

theorem aclKeyRef_exact:
  assumes "canonical_laws L" "ip6_laws T"
    "\<forall>z \<in> set (zd_zones d). \<exists>s es. ParseACL L T s = Inr es \<and> z_allow_transfer z = FormatACL T es"
    "canonical_key L k"
  shows "aclKeyRef k d \<longleftrightarrow> (\<exists>z \<in> set (zd_zones d). k \<in> set (ACLKeys L T (z_allow_transfer z)))"
proof -
  have zt: "zone_text L T" using assms(1,2) by (rule zone_text.intro)
  have k: "aclKeyPrefix @ k \<noteq> []" "CHR '','' \<notin> set (aclKeyPrefix @ k)"
    using reparse_acl_key(2) [OF assms(4)] by (auto simp: field_ok_def)
  have "contains ('','' @ filter (\<lambda>c. c \<noteq> CHR '' '') (z_allow_transfer z) @ '','') ('',key:'' @ k @ '','') \<longleftrightarrow>
      k \<in> set (ACLKeys L T (z_allow_transfer z))" if "z \<in> set (zd_zones d)" for z
  proof -
    from assms(3) that obtain s es where s: "ParseACL L T s = Inr es" "z_allow_transfer z = FormatACL T es" by blast
    let ?fs = "map (format_acl_entry T) es"
    have good: "good_acl_entry L e" if "e \<in> set es" for e by (rule zone_text.acl_parsed [OF zt s(1) that])
    have nb: "filter (\<lambda>c. c \<noteq> CHR '' '') (FormatACL T es) = Join ?fs '',''"
      unfolding FormatACL_def using acl_entry_no_blank [OF assms(2) good] by (intro filter_Join) auto
    have "\<forall>g \<in> set ?fs. CHR '','' \<notin> set g" using zone_text.acl_field [OF zt good] by (auto simp: field_ok_def)
    from contains_field [OF k(2,1) this]
    have "contains ('','' @ Join ?fs '','' @ '','') ('',key:'' @ k @ '','') \<longleftrightarrow> aclKeyPrefix @ k \<in> set ?fs"
      by (simp add: aclKeyPrefix_def)
    also have "\<dots> \<longleftrightarrow> ACLKey k \<in> set es" using acl_key_text [OF assms(2) good, of _ k] by (force simp: image_iff)
    also have "\<dots> \<longleftrightarrow> k \<in> set (ACLKeys L T (FormatACL T es))"
      by (rule ACLKeys_entries [OF zone_text.acl_reread [OF zt s(1)], symmetric])
    finally show ?thesis unfolding s(2) nb .
  qed
  then show ?thesis unfolding aclKeyRef_def by blast
qed

theorem aclKeyRef_exact_witness:
  "\<not> aclKeyRef ''fer.'' (ex_zdb\<lparr>zd_zones := [ex_zrow\<lparr>z_allow_transfer := ''10.0.0.0/8, key:xfer.''\<rparr>]\<rparr>)"
proof -
  let ?d = "ex_zdb\<lparr>zd_zones := [ex_zrow\<lparr>z_allow_transfer := ''10.0.0.0/8, key:xfer.''\<rparr>]\<rparr>"
  let ?es = "[ACLPrefix (Prefix (V4 0x0a000000) 8), ACLKey ''xfer.'']"
  have "''10.0.0.0/8, key:xfer.'' = FormatACL ex_text ?es" by code_simp
  then have c: "\<forall>z \<in> set (zd_zones ?d). \<exists>s es. ParseACL plain_lib ex_text s = Inr es \<and> z_allow_transfer z = FormatACL ex_text es"
    using ex_acl_parses by auto
  have "canonical_key plain_lib ''fer.''" by code_simp
  from aclKeyRef_exact [OF plain_canonical_laws ex_text_laws c this]
  have "aclKeyRef ''fer.'' ?d \<longleftrightarrow> ''fer.'' \<in> set (ACLKeys plain_lib ex_text ''10.0.0.0/8, key:xfer.'')" by simp
  moreover have "''fer.'' \<notin> set (ACLKeys plain_lib ex_text ''10.0.0.0/8, key:xfer.'')" by code_simp
  ultimately show ?thesis by blast
qed

section \<open>Reverse names\<close>

text \<open>The zone for an address's pointer record is the deepest one: it is one of the given zones and ends the
  reverse name of the address, the record's name is what is left in front, and no given zone ends the
  reverse name with more labels.  None is chosen only when none of them ends the reverse name.\<close>

lemma ReverseZoneFor_deepest:
  fixes L T a zs
  defines "ls \<equiv> SplitDomainName L (ReverseName L T a)" and "given \<equiv> set (map normalizeName zs)"
  shows "ReverseZoneFor L T a zs = Some (z, rel) \<longleftrightarrow>
      (\<exists>i < length ls. z = Join (drop i ls) ''.'' \<and> z \<in> given \<and> rel = (if i = 0 then apexName else Join (take i ls) ''.'') \<and>
         (\<forall>j < i. Join (drop j ls) ''.'' \<notin> given))"
    and "ReverseZoneFor L T a zs = None \<longleftrightarrow> (\<forall>i < length ls. Join (drop i ls) ''.'' \<notin> given)"
proof -
  let ?f = "\<lambda>us. let candidate = Join us ''.''; i = length ls - length us
                 in if candidate \<notin> given then None else if i = 0 then Some (candidate, apexName)
                    else Some (candidate, Join (take i ls) ''.'')"
  have r: "ReverseZoneFor L T a zs = first_tail ?f ls"
    unfolding ReverseZoneFor_def Let_def ls_def given_def by (simp cong: if_cong)
  have f: "?f (drop i ls) = (if Join (drop i ls) ''.'' \<notin> given then None
      else Some (Join (drop i ls) ''.'', if i = 0 then apexName else Join (take i ls) ''.''))" if "i < length ls" for i
    using that by (simp add: Let_def)
  have n: "?f (drop j ls) = None \<longleftrightarrow> Join (drop j ls) ''.'' \<notin> given" for j by (simp add: Let_def)
  show "ReverseZoneFor L T a zs = Some (z, rel) \<longleftrightarrow>
      (\<exists>i < length ls. z = Join (drop i ls) ''.'' \<and> z \<in> given \<and> rel = (if i = 0 then apexName else Join (take i ls) ''.'') \<and>
         (\<forall>j < i. Join (drop j ls) ''.'' \<notin> given))"
  proof -
    have "?f (drop i ls) = Some (z, rel) \<longleftrightarrow> z = Join (drop i ls) ''.'' \<and> z \<in> given \<and>
        rel = (if i = 0 then apexName else Join (take i ls) ''.'')" if "i < length ls" for i
      unfolding f [OF that] by auto
    then show ?thesis unfolding r first_tail_Some n by blast
  qed
  show "ReverseZoneFor L T a zs = None \<longleftrightarrow> (\<forall>i < length ls. Join (drop i ls) ''.'' \<notin> given)"
    unfolding r first_tail_None n ..
qed

end
