(* ===== verification/Zone_Transfer.thy ===== *)
theory Zone_Transfer
  imports Zone_Refs Serial
begin

text \<open>
  Pulling a secondary zone, \<open>internal/zones/transfer.go\<close>: the SOA probe, the zone transfer, the checks on
  what a primary sent and its installation in the store.

  The network is the record \<open>pull_net\<close>: one query and its reply over UDP or TCP, with whether the reply
  was signed, the envelopes of a zone transfer, whether the request's context is done, the clock, the
  resolver of host names and the library's names of the record types.  What other writers do to the store
  while the network is waited for is the function \<open>meanwhile\<close>.  The records of type TSIG, which the
  library parses into a type of their own, are those with that number in their header.
\<close>

section \<open>The network and its uses\<close>

abbreviation TypeTSIG :: u16 where "TypeTSIG \<equiv> 250"

record 'w pull_net =
  p_exchange :: "bool \<Rightarrow> addr_port \<Rightarrow> string \<Rightarrow> u16 \<Rightarrow> tsig_key option \<Rightarrow> 'w \<Rightarrow> (msg \<times> bool) option \<times> 'w"
  p_axfr :: "addr_port \<Rightarrow> string \<Rightarrow> tsig_key option \<Rightarrow> 'w \<Rightarrow> (string + rr list) list option \<times> 'w"
  p_done :: "'w \<Rightarrow> bool"
  p_now :: "'w \<Rightarrow> int \<times> 'w"
  p_lookup :: host_lookup
  p_typename :: "u16 \<Rightarrow> string"

datatype xfer_err =
    WrongType | BadPrimaries list_err | NoKey | Cancelled | EveryPrimaryFailed | BecameOther
  | Store_failed store_err | NoFetcher

definition DefaultMaxTransferRecords :: nat where
  "DefaultMaxTransferRecords = 100000"

record TransferResult =
  tr_primary :: addr_port
  tr_serial :: u32
  tr_records :: nat
  tr_refreshed :: int
  tr_expires :: int
  tr_unchanged :: bool

definition isSecondary :: "zone_row \<Rightarrow> bool" where
  "isSecondary z = EqualFold (z_type z) ''secondary''"

definition isStub :: "zone_row \<Rightarrow> bool" where
  "isStub z = EqualFold (z_type z) ''stub''"

text \<open>The key a zone's requests are signed with; \<open>attached\<close> says whether the server was built with a key store.\<close>

definition zoneTSIGKey :: "bool \<Rightarrow> zone_row \<Rightarrow> zdb \<Rightarrow> xfer_err + tsig_key option" where
  "zoneTSIGKey attached z d =
     (if z_tsig_key z = 0 then Inr None
      else if \<not> attached then Inl NoKey
      else case GetKey (z_tsig_key z) d of None \<Rightarrow> Inl NoKey | Some k \<Rightarrow> Inr (Some k))"

text \<open>A signed request does not accept an unsigned reply.\<close>

definition signedExchange ::
  "('w, 'x) pull_net_scheme \<Rightarrow> bool \<Rightarrow> addr_port \<Rightarrow> string \<Rightarrow> u16 \<Rightarrow> tsig_key option \<Rightarrow> 'w \<Rightarrow> msg option \<times> 'w" where
  "signedExchange N tcp ap qname qtype key w =
     (case p_exchange N tcp ap qname qtype key w of
        (None, w) \<Rightarrow> (None, w)
      | (Some (m, tsigned), w) \<Rightarrow> (if key \<noteq> None \<and> \<not> tsigned then None else Some m, w))"

fun fetch_loop :: "nat \<Rightarrow> rr list \<Rightarrow> (string + rr list) list \<Rightarrow> rr list option" where
  "fetch_loop maxR rrs [] = Some rrs"
| "fetch_loop maxR rrs (Inl e # es) = None"
| "fetch_loop maxR rrs (Inr rs # es) =
     (if length rrs + length rs > maxR then None else fetch_loop maxR (rrs @ rs) es)"

definition fetch ::
  "dns_lib \<Rightarrow> ('w, 'x) pull_net_scheme \<Rightarrow> nat \<Rightarrow> string \<Rightarrow> addr_port \<Rightarrow> tsig_key option \<Rightarrow> 'w \<Rightarrow> rr list option \<times> 'w" where
  "fetch L N maxR zoneName ap key w =
     (case p_axfr N ap (Fqdn L zoneName) key w of
        (None, w) \<Rightarrow> (None, w)
      | (Some env, w) \<Rightarrow>
          (case fetch_loop maxR [] env of
             None \<Rightarrow> (None, w)
           | Some rrs \<Rightarrow> (if p_done N w \<or> rrs = [] then None else Some rrs, w)))"

text \<open>The names of two zones agree, on their canonical spellings.\<close>

definition same_name :: "dns_lib \<Rightarrow> string \<Rightarrow> string \<Rightarrow> bool" where
  "same_name L a b = EqualFold (CanonicalName L a) (CanonicalName L b)"

section \<open>The probe\<close>

fun probe_answer :: "dns_lib \<Rightarrow> string \<Rightarrow> rr list \<Rightarrow> u32 option" where
  "probe_answer L zoneName [] = None"
| "probe_answer L zoneName (r # rs) =
     (case rr_data r of
        RD_SOA s \<Rightarrow> if same_name L (h_name (rr_hdr r)) (Fqdn L zoneName) then Some (soa_serial s) else None
      | _ \<Rightarrow> probe_answer L zoneName rs)"

definition probeOne ::
  "dns_lib \<Rightarrow> ('w, 'x) pull_net_scheme \<Rightarrow> string \<Rightarrow> addr_port \<Rightarrow> tsig_key option \<Rightarrow> 'w \<Rightarrow> u32 option \<times> 'w" where
  "probeOne L N zoneName ap key w =
     (case signedExchange N False ap (Fqdn L zoneName) TypeSOA key w of
        (None, w) \<Rightarrow> (None, w)
      | (Some m, w) \<Rightarrow> (if m_rcode m \<noteq> RcodeSuccess then None else probe_answer L zoneName (m_answer m), w))"

fun probe_loop ::
  "dns_lib \<Rightarrow> ('w, 'x) pull_net_scheme \<Rightarrow> string \<Rightarrow> tsig_key option \<Rightarrow> addr_port list \<Rightarrow> 'w \<Rightarrow> (xfer_err + u32 \<times> addr_port) \<times> 'w" where
  "probe_loop L N zoneName key [] w = (Inl (if p_done N w then Cancelled else EveryPrimaryFailed), w)"
| "probe_loop L N zoneName key (ap # aps) w =
     (if p_done N w then (Inl Cancelled, w)
      else case probeOne L N zoneName ap key w of
             (None, w) \<Rightarrow> probe_loop L N zoneName key aps w
           | (Some serial, w) \<Rightarrow> (Inr (serial, ap), w))"

definition ProbeSerial ::
  "dns_lib \<Rightarrow> ip6_text \<Rightarrow> ('w, 'x) pull_net_scheme \<Rightarrow> bool \<Rightarrow> zone_row \<Rightarrow> zdb \<Rightarrow> 'w \<Rightarrow> (xfer_err + u32 \<times> addr_port) \<times> 'w" where
  "ProbeSerial L T N attached z d w =
     (case ParsePrimaries L T (p_lookup N) (z_primaries z) of
        Inl e \<Rightarrow> (Inl (BadPrimaries e), w)
      | Inr aps \<Rightarrow>
          (case zoneTSIGKey attached z d of
             Inl e \<Rightarrow> (Inl e, w)
           | Inr key \<Rightarrow> probe_loop L N (z_name z) key aps w))"

section \<open>What a primary sent\<close>

text \<open>The loop over the body: the records kept so far and the number of problems.  \<open>byName[name]\<close> of the
  code is the records kept under that name.\<close>

definition build_step ::
  "dns_lib \<Rightarrow> (u16 \<Rightarrow> string) \<Rightarrow> zone_row \<Rightarrow> rr \<Rightarrow> zone_record list \<times> nat \<Rightarrow> zone_record list \<times> nat" where
  "build_step L tyname z r s =
     (let (recs, problems) = s; h = rr_hdr r
      in if is_OPT r \<or> h_rrtype h = TypeTSIG then s
         else if h_class h \<noteq> ClassINET then (recs, problems + 1)
         else if is_SOA r then (recs, problems + 1)
         else if \<not> IsSubDomain L (CanonicalName L (Fqdn L (z_name z))) (CanonicalName L (h_name h)) then (recs, problems + 1)
         else
           let name = RelRecordName L (h_name h) (z_name z);
               wr = \<lparr>w_name = h_name h, w_type = tyname (h_rrtype h), w_ttl = h_ttl h, w_rdata = RDataOf L r,
                     w_enabled = None, w_comment = []\<rparr>
           in case BuildRecord L z wr (filter (\<lambda>x. zr_name x = name) recs) 0 False of
                Inl _ \<Rightarrow> (recs, problems + 1)
              | Inr rec \<Rightarrow> (recs @ [rec], problems))"

definition soaTTLProblem :: "rr \<Rightarrow> bool" where
  "soaTTLProblem r = (h_ttl (rr_hdr r) = 0)"

definition soa_of :: "rr \<Rightarrow> soa_data option" where
  "soa_of r = (case rr_data r of RD_SOA s \<Rightarrow> Some s | _ \<Rightarrow> None)"

text \<open>The records between the opening and the closing SOA; \<open>None\<close> when they do not match.\<close>

definition xfr_body :: "soa_data \<Rightarrow> rr list \<Rightarrow> rr list option" where
  "xfr_body soa rrs =
     (if length rrs > 1 then
        (case soa_of (List.last rrs) of
           None \<Rightarrow> None
         | Some l \<Rightarrow> if soa_serial l \<noteq> soa_serial soa then None else Some (butlast (tl rrs)))
      else Some (tl rrs))"

definition build ::
  "dns_lib \<Rightarrow> (u16 \<Rightarrow> string) \<Rightarrow> zone_row \<Rightarrow> rr list \<Rightarrow> (zone_record list \<times> rr) option" where
  "build L tyname z rrs =
     (case soa_of (hd rrs) of
        None \<Rightarrow> None
      | Some soa \<Rightarrow>
          if \<not> same_name L (h_name (rr_hdr (hd rrs))) (Fqdn L (z_name z)) then None
          else case xfr_body soa rrs of
                 None \<Rightarrow> None
               | Some body \<Rightarrow>
                   if soaTTLProblem (hd rrs) then None
                   else if soa_expire soa = 0 then None
                   else
                     let (recs, problems) = fold (build_step L tyname z) body ([], 0)
                     in if problems > 0 then None
                        else if \<not> list_ex (\<lambda>r. zr_name r = apexName \<and> zr_type r = ''NS'') recs then None
                        else Some (recs, hd rrs))"

section \<open>Installing it\<close>

definition contentChanged :: "zone_row \<Rightarrow> zone_row \<Rightarrow> RecordDiff \<Rightarrow> bool" where
  "contentChanged before after diff \<longleftrightarrow>
     d_add diff \<noteq> [] \<or> d_change diff \<noteq> [] \<or> d_delete diff \<noteq> [] \<or>
     z_soa_serial before \<noteq> z_soa_serial after \<or> z_soa_ns before \<noteq> z_soa_ns after \<or>
     z_soa_mbox before \<noteq> z_soa_mbox after \<or> z_soa_refresh before \<noteq> z_soa_refresh after \<or>
     z_soa_retry before \<noteq> z_soa_retry after \<or> z_soa_expire before \<noteq> z_soa_expire after \<or>
     z_soa_minimum before \<noteq> z_soa_minimum after \<or> z_soa_ttl before \<noteq> z_soa_ttl after"

definition adopt_soa :: "rr \<Rightarrow> zone_row \<Rightarrow> zone_row" where
  "adopt_soa r z =
     (case soa_of r of
        None \<Rightarrow> z
      | Some s \<Rightarrow>
          z\<lparr>z_soa_ns := TrimSuffix (soa_ns s) ''.'', z_soa_mbox := TrimSuffix (soa_mbox s) ''.'',
            z_soa_serial := soa_serial s, z_soa_refresh := soa_refresh s, z_soa_retry := soa_retry s,
            z_soa_expire := soa_expire s, z_soa_minimum := soa_minttl s, z_soa_ttl := h_ttl (rr_hdr r)\<rparr>)"

definition install_zone ::
  "dns_lib \<Rightarrow> zone_row \<Rightarrow> addr_port \<Rightarrow> zone_record list \<Rightarrow> rr \<Rightarrow> int \<Rightarrow> zdb \<Rightarrow> (xfer_err + TransferResult) \<times> zdb" where
  "install_zone L z ap recs soa now d =
     (let diff = DiffRecords L (z_name z) (Records (z_id z) d) recs
      in case Zone (z_id z) d of
           Inl e \<Rightarrow> (Inl (Store_failed e), d)
         | Inr current \<Rightarrow>
             if \<not> isSecondary current then (Inl BecameOther, d)
             else
               let nowMs = UnixMilli now;
                   zn = (adopt_soa soa current)\<lparr>z_refreshed_at := nowMs,
                          z_expires_at := nowMs + uint (z_soa_expire (adopt_soa soa current)) * 1000\<rparr>;
                   zn = (if contentChanged current zn diff then zn\<lparr>z_modified_at := nowMs\<rparr> else zn)
               in case ReplaceRecords zn (DeleteIDs diff) (Updates diff) (d_add diff) d of
                    (Some e, d) \<Rightarrow> (Inl (Store_failed e), d)
                  | (None, d) \<Rightarrow>
                      (Inr \<lparr>tr_primary = ap, tr_serial = z_soa_serial zn, tr_records = length recs,
                            tr_refreshed = z_refreshed_at zn, tr_expires = z_expires_at zn, tr_unchanged = False\<rparr>, d))"

section \<open>Transfers\<close>

text \<open>The primaries in the order written; a failure of one moves on to the next, a failure to install stops.\<close>

fun transfer_loop ::
  "dns_lib \<Rightarrow> ('w, 'x) pull_net_scheme \<Rightarrow> nat \<Rightarrow> (zdb \<Rightarrow> zdb) \<Rightarrow> zone_row \<Rightarrow> tsig_key option \<Rightarrow> addr_port list
   \<Rightarrow> 'w \<times> zdb \<Rightarrow> (xfer_err + TransferResult) \<times> 'w \<times> zdb" where
  "transfer_loop L N maxR meanwhile z key [] (w, d) =
     (Inl (if p_done N w then Cancelled else EveryPrimaryFailed), w, d)"
| "transfer_loop L N maxR meanwhile z key (ap # aps) (w, d) =
     (if p_done N w then (Inl Cancelled, w, d)
      else case fetch L N maxR (z_name z) ap key w of
             (None, w) \<Rightarrow> transfer_loop L N maxR meanwhile z key aps (w, meanwhile d)
           | (Some rrs, w) \<Rightarrow>
               (case build L (p_typename N) z rrs of
                  None \<Rightarrow> transfer_loop L N maxR meanwhile z key aps (w, meanwhile d)
                | Some (recs, soa) \<Rightarrow>
                    let (now, w) = p_now N w;
                        (res, d) = install_zone L z ap recs soa now (meanwhile d)
                    in (res, w, d)))"

definition TransferZone ::
  "dns_lib \<Rightarrow> ip6_text \<Rightarrow> ('w, 'x) pull_net_scheme \<Rightarrow> bool \<Rightarrow> nat \<Rightarrow> (zdb \<Rightarrow> zdb) \<Rightarrow> zone_row
   \<Rightarrow> 'w \<times> zdb \<Rightarrow> (xfer_err + TransferResult) \<times> 'w \<times> zdb" where
  "TransferZone L T N attached maxR meanwhile z s =
     (case s of (w, d) \<Rightarrow>
        if \<not> isSecondary z then (Inl WrongType, w, d)
        else case ParsePrimaries L T (p_lookup N) (z_primaries z) of
               Inl e \<Rightarrow> (Inl (BadPrimaries e), w, d)
             | Inr aps \<Rightarrow>
                 (case zoneTSIGKey attached z d of
                    Inl e \<Rightarrow> (Inl e, w, d)
                  | Inr key \<Rightarrow> transfer_loop L N maxR meanwhile z key aps (w, d)))"

definition markChecked :: "zone_row \<Rightarrow> addr_port \<Rightarrow> int \<Rightarrow> zdb \<Rightarrow> (xfer_err + TransferResult) \<times> zdb" where
  "markChecked z ap now d =
     (case Zone (z_id z) d of
        Inl e \<Rightarrow> (Inl (Store_failed e), d)
      | Inr current \<Rightarrow>
          if \<not> isSecondary current then (Inl BecameOther, d)
          else
            let nowMs = UnixMilli now; ex = nowMs + uint (z_soa_expire current) * 1000
            in case NoteRefreshed (z_id current) nowMs ex d of
                 (Some e, d) \<Rightarrow> (Inl (Store_failed e), d)
               | (None, d) \<Rightarrow>
                   (Inr \<lparr>tr_primary = ap, tr_serial = z_soa_serial current, tr_records = 0,
                         tr_refreshed = nowMs, tr_expires = ex, tr_unchanged = True\<rparr>, d))"

definition Sync ::
  "dns_lib \<Rightarrow> ip6_text \<Rightarrow> ('w, 'x) pull_net_scheme \<Rightarrow> bool \<Rightarrow> nat \<Rightarrow> (zdb \<Rightarrow> zdb) \<Rightarrow> zone_row
   \<Rightarrow> 'w \<times> zdb \<Rightarrow> (xfer_err + TransferResult) \<times> 'w \<times> zdb" where
  "Sync L T N attached maxR meanwhile z s =
     (case s of (w, d) \<Rightarrow>
        if \<not> isSecondary z \<or> z_refreshed_at z = 0 then TransferZone L T N attached maxR meanwhile z (w, d)
        else case ProbeSerial L T N attached z d w of
               (Inl e, w) \<Rightarrow> TransferZone L T N attached maxR meanwhile z (w, meanwhile d)
             | (Inr (remote, from), w) \<Rightarrow>
                 if SerialNewer remote (z_soa_serial z) then TransferZone L T N attached maxR meanwhile z (w, meanwhile d)
                 else let (now, w) = p_now N w; (res, d) = markChecked z from now (meanwhile d) in (res, w, d))"

end
