(* ===== verification/Zone_Transfer_Props.thy ===== *)
theory Zone_Transfer_Props
  imports Zone_Transfer
begin

text \<open>
  What a zone transfer guarantees: a zone is taken over whole or not at all, exactly as the primary sent
  it, and a failure leaves what is served as it was.
\<close>

section \<open>The records of a transfer\<close>

text \<open>The records of the wire that are no data, and what a stored row keeps of one that is.\<close>

definition is_data :: "rr \<Rightarrow> bool" where
  "is_data r \<longleftrightarrow> \<not> is_OPT r \<and> h_rrtype (rr_hdr r) \<noteq> TypeTSIG"

definition taken :: "dns_lib \<Rightarrow> (u16 \<Rightarrow> string) \<Rightarrow> zone_row \<Rightarrow> rr \<Rightarrow> zone_record \<Rightarrow> bool" where
  "taken L tyname z r rec \<longleftrightarrow>
     h_class (rr_hdr r) = ClassINET \<and> \<not> is_SOA r \<and>
     IsSubDomain L (CanonicalName L (Fqdn L (z_name z))) (CanonicalName L (h_name (rr_hdr r))) \<and>
     zr_name rec = RelRecordName L (h_name (rr_hdr r)) (z_name z) \<and>
     zr_type rec = ToUpper (TrimSpace (tyname (h_rrtype (rr_hdr r)))) \<and>
     zr_ttl rec = h_ttl (rr_hdr r) \<and> zr_zone rec = z_id z"

lemma build_step_cases:
  assumes "build_step L ty z r (recs, p) = (recs', p')"
  obtains "\<not> is_data r" "recs' = recs" "p' = p"
  | "is_data r" "recs' = recs" "p' = p + 1"
  | rec where "is_data r" "p' = p" "recs' = recs @ [rec]" "taken L ty z r rec"
      "zone_rules L recs \<Longrightarrow> zone_rules L (recs @ [rec])"
proof (cases "is_data r \<and> p' = p")
  case False
  with assms that(1,2) show ?thesis
    by (auto simp: build_step_def Let_def is_data_def split: if_splits sum.splits)
next
  case True
  let ?h = "rr_hdr r" and ?nm = "RelRecordName L (h_name (rr_hdr r)) (z_name z)"
  let ?w = "\<lparr>w_name = h_name ?h, w_type = ty (h_rrtype ?h), w_ttl = h_ttl ?h, w_rdata = RDataOf L r, w_enabled = None, w_comment = []\<rparr>"
  from True assms obtain rec where b: "BuildRecord L z ?w (filter (\<lambda>x. zr_name x = ?nm) recs) 0 False = Inr rec"
    and r: "recs' = recs @ [rec]" "h_class ?h = ClassINET" "\<not> is_SOA r"
      "IsSubDomain L (CanonicalName L (Fqdn L (z_name z))) (CanonicalName L (h_name ?h))"
    by (auto simp: build_step_def Let_def is_data_def split: if_splits sum.splits)
  note B = BuildRecord_Inr [OF b]
  have "compatible x rec" if "x \<in> set recs" for x
  proof (cases "zr_name x = ?nm")
    case True
    with that B(6) show ?thesis by (auto simp: others_def)
  next
    case False
    with B(1) show ?thesis by (simp add: compatible_def)
  qed
  then have "zone_rules L recs \<Longrightarrow> zone_rules L (recs @ [rec])"
    using B(5) by (auto simp: zone_rules_def sorted_wrt_append)
  moreover have "taken L ty z r rec" using B(1-4) r by (simp add: taken_def)
  ultimately show ?thesis using that(3) True r(1) by blast
qed

lemma build_fold:
  assumes "fold (build_step L ty z) body (recs0, p0) = (recs, 0)"
  shows "p0 = 0 \<and> (\<exists>new. recs = recs0 @ new \<and> list_all2 (taken L ty z) (filter is_data body) new) \<and>
    (zone_rules L recs0 \<longrightarrow> zone_rules L recs)"
  using assms
proof (induction body arbitrary: recs0 p0)
  case (Cons r body)
  obtain recs1 p1 where s: "build_step L ty z r (recs0, p0) = (recs1, p1)" by (metis surj_pair)
  with Cons.prems have "fold (build_step L ty z) body (recs1, p1) = (recs, 0)" by simp
  note IH = Cons.IH [OF this]
  from IH obtain new where n: "p1 = 0" "recs = recs1 @ new" "list_all2 (taken L ty z) (filter is_data body) new" by blast
  from s show ?case
  proof (cases rule: build_step_cases)
    case (3 rec)
    with n have "recs = recs0 @ rec # new" "list_all2 (taken L ty z) (filter is_data (r # body)) (rec # new)" by auto
    with 3 n IH show ?thesis by blast
  qed (use IH n in auto)
qed simp

text \<open>The opening SOA, the body and the closing SOA of a stream.\<close>

definition framed :: "dns_lib \<Rightarrow> zone_row \<Rightarrow> rr list \<Rightarrow> rr list \<Rightarrow> bool" where
  "framed L z rrs body \<longleftrightarrow>
     (\<exists>soa s. soa_of soa = Some s \<and> same_name L (h_name (rr_hdr soa)) (Fqdn L (z_name z)) \<and>
        h_ttl (rr_hdr soa) \<noteq> 0 \<and> soa_expire s \<noteq> 0 \<and>
        (rrs = [soa] \<and> body = [] \<or>
         (\<exists>l ls. rrs = soa # body @ [l] \<and> soa_of l = Some ls \<and> soa_serial ls = soa_serial s)))"

lemma xfr_body_shape:
  assumes "xfr_body s (soa # rs) = Some body"
  shows "rs = [] \<and> body = [] \<or> (\<exists>l ls. rs = body @ [l] \<and> soa_of l = Some ls \<and> soa_serial ls = soa_serial s)"
  using assms by (cases rs rule: rev_cases) (auto simp: xfr_body_def split: option.splits if_splits)

lemma build_Some:
  assumes "build L ty z rrs = Some (recs, soa)" "rrs \<noteq> []"
  shows "\<exists>body. soa = hd rrs \<and> framed L z rrs body \<and> list_all2 (taken L ty z) (filter is_data body) recs \<and>
    zone_rules L recs \<and> (\<exists>r \<in> set recs. zr_name r = apexName \<and> zr_type r = ''NS'')"
proof -
  obtain rs where rs: "rrs = hd rrs # rs" using assms(2) by (cases rrs) auto
  from assms(1) obtain s body where b: "soa_of (hd rrs) = Some s" "same_name L (h_name (rr_hdr (hd rrs))) (Fqdn L (z_name z))"
      "xfr_body s rrs = Some body" "h_ttl (rr_hdr (hd rrs)) \<noteq> 0" "soa_expire s \<noteq> 0" "soa = hd rrs"
      "fold (build_step L ty z) body ([], 0) = (recs, 0)" "list_ex (\<lambda>r. zr_name r = apexName \<and> zr_type r = ''NS'') recs"
    by (auto simp: build_def soaTTLProblem_def Let_def split: option.splits if_splits prod.splits)
  have "xfr_body s (hd rrs # rs) = Some body" using b(3) rs by simp
  from xfr_body_shape [OF this] have "framed L z rrs body"
    unfolding framed_def using b(1,2,4,5) rs by metis
  with build_fold [OF b(7)] b(6,8) show ?thesis by (auto simp: zone_rules_def list_ex_iff)
qed

text \<open>A transfer is accepted whole or not at all.  A stream of records that is accepted opens with the
  zone's own SOA, with a TTL and an expiry, and closes with one of the same serial; every data record
  between them lies in the zone, is of class IN and is stored once, in order, under its own name, type
  and TTL; together they obey the rules of a zone, and the apex has a nameserver.  A stream with one
  record that cannot be stored is refused.\<close>

theorem transfer_accepts_whole_zones:
  assumes "build L ty z (r # rs) = Some (recs, soa)"
  shows "soa = r \<and> (\<exists>body. framed L z (r # rs) body \<and> list_all2 (taken L ty z) (filter is_data body) recs) \<and>
    zone_rules L recs \<and> (\<exists>x \<in> set recs. zr_name x = apexName \<and> zr_type x = ''NS'')"
  using build_Some [OF assms] by auto

section \<open>Installation\<close>

lemma zdb_zone_unique:
  assumes "zdb_ok d" "z \<in> set (zd_zones d)" "z' \<in> set (zd_zones d)" "z_id z = z_id z'"
  shows "z = z'"
  using assms by (auto simp: zdb_ok_def keys_ok_def distinct_map dest: inj_onD)

lemma Zone_Inr: "Zone i d = Inr z \<Longrightarrow> z \<in> set (zd_zones d) \<and> z_id z = i"
  by (auto simp: Zone_def find_Some_iff split: option.splits)

lemma zdb_zone_find:
  assumes "zdb_ok d" "z \<in> set (zd_zones d)"
  shows "Zone (z_id z) d = Inr z"
proof (cases "Zone (z_id z) d")
  case (Inl e)
  with assms(2) show ?thesis by (auto simp: Zone_def find_None_iff split: option.splits)
next
  case (Inr y)
  with Zone_Inr [OF Inr] zdb_zone_unique [OF assms(1)] assms(2) show ?thesis by metis
qed

text \<open>The row after an installation: the operator's columns as they are in the store, the SOA and the times of
  the transfer.\<close>

definition mirrored :: "rr \<Rightarrow> int \<Rightarrow> zone_row \<Rightarrow> zone_row \<Rightarrow> bool" where
  "mirrored soa nowMs cur z' \<longleftrightarrow>
     (\<exists>m. z' = (adopt_soa soa cur)\<lparr>z_refreshed_at := nowMs, z_expires_at := nowMs + uint (z_soa_expire z') * 1000,
        z_modified_at := m\<rparr> \<and> m \<in> {z_modified_at cur, nowMs})"

lemma adopt_soa_frame [simp]:
  "z_id (adopt_soa r z) = z_id z" "z_name (adopt_soa r z) = z_name z" "z_type (adopt_soa r z) = z_type z"
  "z_modified_at (adopt_soa r z) = z_modified_at z"
  "z_last_error (adopt_soa r z) = z_last_error z" "z_last_attempt (adopt_soa r z) = z_last_attempt z"
  "z_last_xfr_at (adopt_soa r z) = z_last_xfr_at z" "z_last_xfr_peer (adopt_soa r z) = z_last_xfr_peer z"
  "z_last_xfr_error (adopt_soa r z) = z_last_xfr_error z" "z_created_at (adopt_soa r z) = z_created_at z"
  by (simp_all add: adopt_soa_def split: option.split)

text \<open>Writing a zone's row and its records by way of the diff, as both installers do: the row is one read from
  the store just before, with only columns changed that \<open>updateZoneSQL\<close> writes.\<close>

lemma replace_current:
  assumes ok: "zdb_ok d" and Inr: "Zone i d = Inr cur" and zn: "updateZoneCols zn cur = zn" "z_name zn = z_name cur"
    and want: "\<forall>r \<in> set recs. zr_zone r = i" and diff: "diff = DiffRecords L nm (Records i d) recs"
  shows "\<exists>d'. ReplaceRecords zn (DeleteIDs diff) (Updates diff) (d_add diff) d = (None, d') \<and> zdb_ok d' \<and>
    Zone i d' = Inr zn \<and> mset (map (served L nm) (Records i d')) = mset (map (served L nm) recs) \<and>
    (\<forall>j. j \<noteq> i \<longrightarrow> mset (Records j d') = mset (Records j d))"
proof -
  have cur: "cur \<in> set (zd_zones d)" "z_id cur = i" using Zone_Inr [OF Inr] by auto
  have id: "z_id zn = z_id cur" using arg_cong [OF zn(1), of z_id] by (simp add: updateZoneCols_def)
  obtain pairs where p: "diff_pairs L nm (Records i d) recs diff pairs" using diff_pairs_exist [OF ok diff] by blast
  let ?d = "after_replace zn diff d"
  have "\<forall>r \<in> set (d_add diff). zr_zone r = z_id cur" using p want cur(2) by (auto simp: diff_pairs_def)
  then have ok': "zdb_ok ?d"
    unfolding after_replace_def by (rule zdb_ok_replaced [OF ok cur(1) id zn(2)])
  have "updateZoneCols zn cur \<in> set (zd_zones ?d)" using cur(1) id by (force simp: after_replace_def)
  then have "Zone i ?d = Inr zn" using zdb_zone_find [OF ok', of zn] zn(1) id cur(2) by simp
  then show ?thesis
    using ok' replace_diff_served [OF ok want p, of zn] replace_diff_others [OF ok want p, of _ zn]
      replace_diff_accepted [OF ok cur(1) id zn(2), of recs L nm diff pairs] want p cur(2)
    by (intro exI [of _ ?d]) simp
qed

lemma install_zone_result:
  assumes ok: "zdb_ok d" and want: "\<forall>r \<in> set recs. zr_zone r = z_id z"
    and i: "install_zone L z ap recs soa now d = (res, d')"
  shows "(\<exists>e. res = Inl e \<and> d' = d) \<or>
    (\<exists>cur z' r. res = Inr r \<and> tr_primary r = ap \<and> tr_serial r = z_soa_serial z' \<and>
       Zone (z_id z) d = Inr cur \<and> isSecondary cur \<and> zdb_ok d' \<and>
       Zone (z_id z) d' = Inr z' \<and> mirrored soa (UnixMilli now) cur z' \<and>
       mset (map (served L (z_name z)) (Records (z_id z) d')) = mset (map (served L (z_name z)) recs) \<and>
       (\<forall>j. j \<noteq> z_id z \<longrightarrow> mset (Records j d') = mset (Records j d)))"
proof (cases "Zone (z_id z) d")
  case (Inl e)
  with i show ?thesis by (auto simp: install_zone_def)
next
  case (Inr cur)
  show ?thesis
  proof (cases "isSecondary cur")
    case False
    with i Inr show ?thesis by (auto simp: install_zone_def)
  next
    case True
    define diff where "diff = DiffRecords L (z_name z) (Records (z_id z) d) recs"
    define zb where "zb = (adopt_soa soa cur)\<lparr>z_refreshed_at := UnixMilli now,
      z_expires_at := UnixMilli now + uint (z_soa_expire (adopt_soa soa cur)) * 1000\<rparr>"
    define zn where "zn = (if contentChanged cur zb diff then zb\<lparr>z_modified_at := UnixMilli now\<rparr> else zb)"
    have zn: "updateZoneCols zn cur = zn" "z_name zn = z_name cur" by (simp_all add: updateZoneCols_def zn_def zb_def)
    obtain e where e: "ReplaceRecords zn (DeleteIDs diff) (Updates diff) (d_add diff) d = (None, e) \<and> zdb_ok e \<and>
        Zone (z_id z) e = Inr zn \<and> mset (map (served L (z_name z)) (Records (z_id z) e)) = mset (map (served L (z_name z)) recs) \<and>
        (\<forall>j. j \<noteq> z_id z \<longrightarrow> mset (Records j e) = mset (Records j d))"
      using replace_current [OF ok Inr zn want diff_def] by blast
    have "install_zone L z ap recs soa now d =
        (case ReplaceRecords zn (DeleteIDs diff) (Updates diff) (d_add diff) d of
           (Some e, d) \<Rightarrow> (Inl (Store_failed e), d)
         | (None, d) \<Rightarrow>
             (Inr \<lparr>tr_primary = ap, tr_serial = z_soa_serial zn, tr_records = length recs,
                   tr_refreshed = z_refreshed_at zn, tr_expires = z_expires_at zn, tr_unchanged = False\<rparr>, d))"
      unfolding install_zone_def Let_def Inr sum.case zn_def zb_def diff_def using True by simp
    then have R: "res = Inr \<lparr>tr_primary = ap, tr_serial = z_soa_serial zn, tr_records = length recs,
        tr_refreshed = z_refreshed_at zn, tr_expires = z_expires_at zn, tr_unchanged = False\<rparr>" "d' = e"
      using i e by simp_all
    have "mirrored soa (UnixMilli now) cur zn"
      by (auto simp: mirrored_def zn_def zb_def intro: exI [of _ "z_modified_at zn"])
    with R Inr True e show ?thesis by (intro disjI2 exI [of _ cur] exI [of _ zn]) simp
  qed
qed

section \<open>The whole transfer\<close>

definition sound_writers :: "(zdb \<Rightarrow> zdb) \<Rightarrow> bool" where
  "sound_writers meanwhile \<longleftrightarrow> (\<forall>d. zdb_ok d \<longrightarrow> zdb_ok (meanwhile d))"

lemma sound_writers_pow: "sound_writers f \<Longrightarrow> zdb_ok d \<Longrightarrow> zdb_ok ((f ^^ k) d)"
  by (induction k) (auto simp: sound_writers_def)

text \<open>What a completed pull of a zone means: \<open>d1\<close> is the store as the transfer found it when it installed.\<close>

definition pulled ::
  "dns_lib \<Rightarrow> ('w, 'x) pull_net_scheme \<Rightarrow> nat \<Rightarrow> addr_port list \<Rightarrow> zone_row \<Rightarrow> zdb \<Rightarrow> TransferResult \<Rightarrow> zdb \<Rightarrow> bool" where
  "pulled L N maxR aps z d1 res d' \<longleftrightarrow>
     (\<exists>key w1 w2 rrs recs soa cur z' nowMs. tr_primary res \<in> set aps \<and>
        fetch L N maxR (z_name z) (tr_primary res) key w1 = (Some rrs, w2) \<and>
        build L (p_typename N) z rrs = Some (recs, soa) \<and>
        Zone (z_id z) d1 = Inr cur \<and> isSecondary cur \<and> Zone (z_id z) d' = Inr z' \<and> mirrored soa nowMs cur z' \<and>
        tr_serial res = z_soa_serial z' \<and>
        mset (map (served L (z_name z)) (Records (z_id z) d')) = mset (map (served L (z_name z)) recs) \<and>
        (\<forall>j. j \<noteq> z_id z \<longrightarrow> mset (Records j d') = mset (Records j d1)))"

lemma pulled_mono: "pulled L N maxR aps z d1 res d' \<Longrightarrow> set aps \<subseteq> set aps' \<Longrightarrow> pulled L N maxR aps' z d1 res d'"
  unfolding pulled_def by (elim exE conjE, intro exI conjI) (assumption | erule (1) subsetD)+

lemma fetch_nonempty: "fetch L N maxR nm ap key w = (Some rrs, w') \<Longrightarrow> rrs \<noteq> []"
  by (auto simp: fetch_def split: option.splits prod.splits if_splits)

lemma transfer_loop_result:
  assumes sw: "sound_writers meanwhile" and ok: "zdb_ok d"
    and t: "transfer_loop L N maxR meanwhile z key aps (w, d) = (res, w', d')"
  shows "\<exists>k. (\<exists>e. res = Inl e \<and> d' = (meanwhile ^^ k) d) \<or>
    (\<exists>r. res = Inr r \<and> pulled L N maxR aps z ((meanwhile ^^ k) d) r d' \<and> zdb_ok d')"
  using ok t
proof (induction aps arbitrary: w d)
  case Nil
  then show ?case by (intro exI [of _ 0]) auto
next
  case (Cons ap aps)
  have ok': "zdb_ok (meanwhile d)" using sw Cons.prems(1) by (simp add: sound_writers_def)
  have later: "\<exists>k. (\<exists>e. res = Inl e \<and> d' = (meanwhile ^^ k) d) \<or>
      (\<exists>r. res = Inr r \<and> pulled L N maxR (ap # aps) z ((meanwhile ^^ k) d) r d' \<and> zdb_ok d')"
    if "transfer_loop L N maxR meanwhile z key aps (v, meanwhile d) = (res, w', d')" for v
  proof -
    from Cons.IH [OF ok' that] obtain k where
      "(\<exists>e. res = Inl e \<and> d' = (meanwhile ^^ k) (meanwhile d)) \<or>
       (\<exists>r. res = Inr r \<and> pulled L N maxR aps z ((meanwhile ^^ k) (meanwhile d)) r d' \<and> zdb_ok d')" by blast
    then show ?thesis
      using pulled_mono [OF _ set_subset_Cons, of L N maxR aps z _ _ d' ap]
      by (intro exI [of _ "Suc k"]) (auto simp: funpow_swap1)
  qed
  show ?case
  proof (cases "p_done N w")
    case True
    with Cons.prems show ?thesis by (intro exI [of _ 0]) auto
  next
    case False
    obtain f v where f: "fetch L N maxR (z_name z) ap key w = (f, v)" by (metis surj_pair)
    show ?thesis
    proof (cases "\<exists>rrs recs soa. f = Some rrs \<and> build L (p_typename N) z rrs = Some (recs, soa)")
      case False': False
      with Cons.prems(2) f False have "transfer_loop L N maxR meanwhile z key aps (v, meanwhile d) = (res, w', d')"
        by (cases f) (auto split: option.splits)
      then show ?thesis by (rule later)
    next
      case True
      then obtain rrs recs soa where b: "f = Some rrs" "build L (p_typename N) z rrs = Some (recs, soa)" by blast
      obtain now v' where n: "p_now N v = (now, v')" by (metis surj_pair)
      have i: "install_zone L z ap recs soa now (meanwhile d) = (res, d')"
        using Cons.prems(2) False f b n by (auto split: prod.splits)
      have ne: "rrs \<noteq> []" by (rule fetch_nonempty [OF f [unfolded b(1)]])
      have "\<forall>r \<in> set recs. zr_zone r = z_id z"
        using build_Some [OF b(2) ne] by (auto simp: taken_def list_all2_conv_all_nth in_set_conv_nth)
      from install_zone_result [OF ok' this i] show ?thesis
      proof (elim disjE exE conjE)
        fix cur z' r
        assume r: "res = Inr r" "tr_primary r = ap" "tr_serial r = z_soa_serial z'" "Zone (z_id z) (meanwhile d) = Inr cur"
          "isSecondary cur" "zdb_ok d'" "Zone (z_id z) d' = Inr z'" "mirrored soa (UnixMilli now) cur z'"
          "mset (map (served L (z_name z)) (Records (z_id z) d')) = mset (map (served L (z_name z)) recs)"
          "\<forall>j. j \<noteq> z_id z \<longrightarrow> mset (Records j d') = mset (Records j (meanwhile d))"
        have "pulled L N maxR (ap # aps) z (meanwhile d) r d'"
          unfolding pulled_def
          by (intro exI conjI, simp add: r(2), simp only: r(2), rule f [unfolded b(1)], rule b(2)) (rule r)+
        with r(1,6) show ?thesis by (intro exI [of _ 1]) simp
      qed (auto intro: exI [of _ 1])
    qed
  qed
qed


section \<open>An example\<close>

text \<open>A secondary of the example zone and a primary that sends three records.\<close>

definition ex_soa :: rr where
  "ex_soa = RR \<lparr>h_name = ''e412.in.'', h_rrtype = TypeSOA, h_class = ClassINET, h_ttl = 60\<rparr>
     (RD_SOA \<lparr>soa_ns = ''ns.e412.in.'', soa_mbox = ''h.e412.in.'', soa_serial = 9, soa_refresh = 600, soa_retry = 60,
        soa_expire = 3600, soa_minttl = 60\<rparr>)"

definition ex_stream :: "rr list" where
  "ex_stream = [ex_soa, RR \<lparr>h_name = ''e412.in.'', h_rrtype = TypeNS, h_class = ClassINET, h_ttl = 60\<rparr> (RD_NS ''ns.e412.in.''),
     RR \<lparr>h_name = ''ns.e412.in.'', h_rrtype = TypeA, h_class = ClassINET, h_ttl = 60\<rparr> (RD_A [10, 0, 0, 9]), ex_soa]"

definition ex_pull :: "unit pull_net" where
  "ex_pull = \<lparr>p_exchange = (\<lambda>_ _ _ _ _ w. (None, w)), p_axfr = (\<lambda>_ _ _ w. (Some [Inr ex_stream], w)), p_done = (\<lambda>_. False),
     p_now = (\<lambda>w. (7000000, w)), p_lookup = (\<lambda>_. None),
     p_typename = (\<lambda>t. if t = TypeA then ''A'' else if t = TypeNS then ''NS'' else ''TYPE'')\<rparr>"

definition ex_secondary_row :: zone_row where
  "ex_secondary_row = ex_zrow\<lparr>z_type := ''secondary'', z_primaries := ''192.0.2.53''\<rparr>"

definition ex_sdb :: zdb where
  "ex_sdb = ex_zdb\<lparr>zd_zones := [ex_secondary_row]\<rparr>"

lemma ex_sdb_ok: "zdb_ok ex_sdb"
  by (simp add: zdb_ok_def ex_sdb_def ex_zdb_def keys_ok_def ex_zrec_def ex_zrow_def ex_secondary_row_def)

lemma ex_build: "\<exists>recs. build plain_lib (p_typename ex_pull) ex_secondary_row ex_stream = Some (recs, ex_soa) \<and> length recs = 2"
proof -
  let ?b = "build plain_lib (p_typename ex_pull) ex_secondary_row ex_stream"
  have "case ?b of Some (recs, soa) \<Rightarrow> soa = ex_soa \<and> length recs = 2 | None \<Rightarrow> False" by code_simp
  then show ?thesis by (auto split: option.splits)
qed

theorem transfer_accepts_whole_zones_witness:
  "\<exists>recs body. build plain_lib (p_typename ex_pull) ex_secondary_row ex_stream = Some (recs, ex_soa) \<and>
     list_all2 (taken plain_lib (p_typename ex_pull) ex_secondary_row) (filter is_data body) recs"
proof -
  obtain r rs where s: "ex_stream = r # rs" by (simp add: ex_stream_def)
  obtain recs where b: "build plain_lib (p_typename ex_pull) ex_secondary_row (r # rs) = Some (recs, ex_soa)"
    using ex_build s by metis
  from transfer_accepts_whole_zones [OF b] b s show ?thesis by metis
qed


end
