(* ===== verification/Stub.thy ===== *)
theory Stub
  imports Zone_Transfer_Props
begin

text \<open>
  Stub zones, \<open>internal/zones/stub.go\<close>: fetching a delegation from a master, the records it is stored as,
  and the upstream addresses derived from them.
\<close>

section \<open>Addresses as bytes\<close>

definition bytes_word :: "u8 list \<Rightarrow> 'a::len word" where
  "bytes_word = foldl (\<lambda>w b. push_bit 8 w OR ucast b) 0"

text \<open>\<open>netip.AddrFromSlice\<close>, and \<open>net.IP.To4\<close>, whose nil is the empty slice.\<close>

definition AddrFromSlice :: "u8 list \<Rightarrow> addr option" where
  "AddrFromSlice bs =
     (if length bs = 4 then Some (V4 (bytes_word bs)) else if length bs = 16 then Some (V6 (bytes_word bs) []) else None)"

definition To4 :: "u8 list \<Rightarrow> u8 list" where
  "To4 bs =
     (if length bs = 4 then bs
      else if length bs = 16 \<and> take 12 bs = replicate 10 0 @ [255, 255] then drop 12 bs else [])"

section \<open>Fetching\<close>

definition stub_exchange ::
  "('w, 'x) pull_net_scheme \<Rightarrow> addr_port \<Rightarrow> string \<Rightarrow> u16 \<Rightarrow> tsig_key option \<Rightarrow> 'w \<Rightarrow> msg option \<times> 'w" where
  "stub_exchange N ap qname qtype key w =
     (case signedExchange N False ap qname qtype key w of
        (None, w) \<Rightarrow> (None, w)
      | (Some m, w) \<Rightarrow>
          (case (if m_tc m then signedExchange N True ap qname qtype key w else (Some m, w)) of
             (None, w) \<Rightarrow> (None, w)
           | (Some m, w) \<Rightarrow> (if m_rcode m \<noteq> RcodeSuccess then None else Some m, w)))"

definition stub_ask ::
  "dns_lib \<Rightarrow> ('w, 'x) pull_net_scheme \<Rightarrow> string \<Rightarrow> addr_port \<Rightarrow> tsig_key option \<Rightarrow> 'w
   \<Rightarrow> (rr \<times> (rr \<times> string) list \<times> rr list) option \<times> 'w" where
  "stub_ask L N zoneName ap key w =
     (let apex = CanonicalName L (Fqdn L zoneName); at_apex = (\<lambda>r. EqualFold (CanonicalName L (h_name (rr_hdr r))) apex)
      in case stub_exchange N ap apex TypeSOA key w of
           (None, w) \<Rightarrow> (None, w)
         | (Some m, w) \<Rightarrow>
             (case List.find (\<lambda>r. is_SOA r \<and> at_apex r) (m_answer m) of
                None \<Rightarrow> (None, w)
              | Some soa \<Rightarrow>
                  (case stub_exchange N ap apex TypeNS key w of
                     (None, w) \<Rightarrow> (None, w)
                   | (Some m, w) \<Rightarrow>
                       let ns = List.map_filter (\<lambda>r. case rr_data r of
                                   RD_NS t \<Rightarrow> if at_apex r then Some (r, t) else None | _ \<Rightarrow> None) (m_answer m)
                       in (if ns = [] then None else Some (soa, ns, m_extra m), w))))"

definition glueFor :: "dns_lib \<Rightarrow> string \<Rightarrow> rr list \<Rightarrow> addr list" where
  "glueFor L name extra =
     List.map_filter
       (\<lambda>r. if \<not> EqualFold (CanonicalName L (h_name (rr_hdr r))) name then None
            else case rr_data r of
                   RD_A bs \<Rightarrow> AddrFromSlice (To4 bs)
                 | RD_AAAA bs \<Rightarrow> AddrFromSlice bs
                 | _ \<Rightarrow> None) extra"

text \<open>The closure \<open>add\<close>: a record that will not pass is left out.\<close>

definition stub_add ::
  "dns_lib \<Rightarrow> zone_row \<Rightarrow> string \<Rightarrow> string \<Rightarrow> u32 \<Rightarrow> string \<Rightarrow> zone_record list \<Rightarrow> zone_record list" where
  "stub_add L z name typ ttl rdata recs =
     (case BuildRecord L z \<lparr>w_name = name, w_type = typ, w_ttl = ttl, w_rdata = rdata, w_enabled = None, w_comment = []\<rparr>
             recs 0 False of
        Inl _ \<Rightarrow> recs
      | Inr rec \<Rightarrow> recs @ [rec])"

text \<open>The addresses of one nameserver: glue for a name inside the zone, the resolver for one outside.\<close>

definition ns_sources :: "dns_lib \<Rightarrow> host_lookup \<Rightarrow> zone_row \<Rightarrow> rr list \<Rightarrow> string \<Rightarrow> addr list" where
  "ns_sources L look z extra target =
     (if IsSubDomain L (CanonicalName L (Fqdn L (z_name z))) target then glueFor L target extra
      else case look (TrimSuffix target ''.'') of None \<Rightarrow> [] | Some as \<Rightarrow> as)"

fun ns_loop ::
  "dns_lib \<Rightarrow> ip6_text \<Rightarrow> host_lookup \<Rightarrow> zone_row \<Rightarrow> rr list \<Rightarrow> (rr \<times> string) list \<Rightarrow> string list \<Rightarrow> zone_record list
   \<Rightarrow> zone_record list" where
  "ns_loop L T look z extra [] seen recs = recs"
| "ns_loop L T look z extra ((r, t) # ns) seen recs =
     (let ttl = h_ttl (rr_hdr r);
          recs = stub_add L z (CanonicalName L (Fqdn L (z_name z))) ''NS'' ttl (RDataOf L r) recs;
          target = CanonicalName L t
      in if target \<in> set seen then ns_loop L T look z extra ns seen recs
         else ns_loop L T look z extra ns (target # seen)
                (fold (\<lambda>a. stub_add L z (TrimSuffix target ''.'') (if Is4 (Unmap a) then ''A'' else ''AAAA'') ttl
                             (AddrString T (Unmap a)))
                   (ns_sources L look z extra target) recs))"

definition nsRecords ::
  "dns_lib \<Rightarrow> ip6_text \<Rightarrow> host_lookup \<Rightarrow> zone_row \<Rightarrow> (rr \<times> string) list \<Rightarrow> rr list \<Rightarrow> zone_record list" where
  "nsRecords L T look z ns extra = ns_loop L T look z extra ns [] []"

section \<open>From the stored delegation to addresses\<close>

text \<open>The dial addresses stored at the name of one nameserver.\<close>

definition ns_addrs :: "dns_lib \<Rightarrow> ip6_text \<Rightarrow> zone \<Rightarrow> string \<Rightarrow> string list" where
  "ns_addrs L T z target =
     List.map_filter
       (\<lambda>r. if \<not> EqualFold (zr_type r) ''A'' \<and> \<not> EqualFold (zr_type r) ''AAAA'' then None
            else case ParseAddr T (zr_rdata r) of
                   None \<Rightarrow> None
                 | Some ip \<Rightarrow> Some (JoinHostPort (AddrString T (Unmap ip)) (dec DefaultPrimaryPort)))
       (lookup_list (records z) (RelRecordName L (normalizeName target) (z_name (row z))))"

definition StubUpstreams :: "dns_lib \<Rightarrow> ip6_text \<Rightarrow> zone \<Rightarrow> string list" where
  "StubUpstreams L T z =
     fold (\<lambda>dial out. if dial \<in> set out then out else out @ [dial])
       (concat (map (\<lambda>r. if EqualFold (zr_type r) ''NS'' then ns_addrs L T z (zr_rdata r) else [])
                  (lookup_list (records z) apexName))) []"

definition stubAbsoluteNames :: "dns_lib \<Rightarrow> zone_row \<Rightarrow> zone_record list \<Rightarrow> string list" where
  "stubAbsoluteNames L z recs =
     (if \<not> isStub z then []
      else let apex = CanonicalName L (Fqdn L (z_name z))
           in List.map_filter
                (\<lambda>r. if \<not> EqualFold (zr_type r) ''NS'' \<or> normalizeName (zr_name r) \<noteq> apexName then None
                     else let target = CanonicalName L (Fqdn L (zr_rdata r))
                          in if target = ''.'' \<or> IsSubDomain L apex target then None else Some (normalizeName (zr_rdata r)))
                recs)"

section \<open>Installing\<close>

record StubResult =
  sr_master :: addr_port
  sr_serial :: u32
  sr_ns :: nat
  sr_upstreams :: "string list"
  sr_records :: nat
  sr_refreshed :: int

definition install_stub ::
  "dns_lib \<Rightarrow> ip6_text \<Rightarrow> zone_row \<Rightarrow> addr_port \<Rightarrow> rr \<Rightarrow> zone_record list \<Rightarrow> nat \<Rightarrow> int \<Rightarrow> zdb \<Rightarrow> (xfer_err + StubResult) \<times> zdb" where
  "install_stub L T z ap soa recs nsCount now d =
     (let diff = DiffRecords L (z_name z) (Records (z_id z) d) recs
      in case Zone (z_id z) d of
           Inl e \<Rightarrow> (Inl (Store_failed e), d)
         | Inr current \<Rightarrow>
             if \<not> isStub current then (Inl BecameOther, d)
             else
               let nowMs = UnixMilli now;
                   zn = (adopt_soa soa current)\<lparr>z_refreshed_at := nowMs\<rparr>;
                   zn = (if contentChanged current zn diff then zn\<lparr>z_modified_at := nowMs\<rparr> else zn)
               in case ReplaceRecords zn (DeleteIDs diff) (Updates diff) (d_add diff) d of
                    (Some e, d) \<Rightarrow> (Inl (Store_failed e), d)
                  | (None, d) \<Rightarrow>
                      (Inr \<lparr>sr_master = ap, sr_serial = z_soa_serial zn, sr_ns = nsCount,
                            sr_upstreams = StubUpstreams L T (NewZone zn recs), sr_records = length recs,
                            sr_refreshed = nowMs\<rparr>, d))"

fun stub_loop ::
  "dns_lib \<Rightarrow> ip6_text \<Rightarrow> ('w, 'x) pull_net_scheme \<Rightarrow> (zdb \<Rightarrow> zdb) \<Rightarrow> zone_row \<Rightarrow> tsig_key option \<Rightarrow> addr_port list
   \<Rightarrow> 'w \<times> zdb \<Rightarrow> (xfer_err + StubResult) \<times> 'w \<times> zdb" where
  "stub_loop L T N meanwhile z key [] (w, d) =
     (Inl (if p_done N w then Cancelled else EveryPrimaryFailed), w, d)"
| "stub_loop L T N meanwhile z key (ap # aps) (w, d) =
     (if p_done N w then (Inl Cancelled, w, d)
      else case stub_ask L N (z_name z) ap key w of
             (None, w) \<Rightarrow> stub_loop L T N meanwhile z key aps (w, meanwhile d)
           | (Some (soa, ns, extra), w) \<Rightarrow>
               let recs = nsRecords L T (p_lookup N) z ns extra;
                   (now, w) = p_now N w;
                   (res, d) = install_stub L T z ap soa recs (length ns) now (meanwhile d)
               in (res, w, d))"

definition FetchStub ::
  "dns_lib \<Rightarrow> ip6_text \<Rightarrow> ('w, 'x) pull_net_scheme \<Rightarrow> bool \<Rightarrow> (zdb \<Rightarrow> zdb) \<Rightarrow> zone_row
   \<Rightarrow> 'w \<times> zdb \<Rightarrow> (xfer_err + StubResult) \<times> 'w \<times> zdb" where
  "FetchStub L T N attached meanwhile z s =
     (case s of (w, d) \<Rightarrow>
        if \<not> isStub z then (Inl WrongType, w, d)
        else case ParsePrimaries L T (p_lookup N) (z_primaries z) of
               Inl e \<Rightarrow> (Inl (BadPrimaries e), w, d)
             | Inr aps \<Rightarrow>
                 (case zoneTSIGKey attached z d of
                    Inl e \<Rightarrow> (Inl e, w, d)
                  | Inr key \<Rightarrow> stub_loop L T N meanwhile z key aps (w, d)))"

section \<open>Properties\<close>

text \<open>The masters of a zone are looked up by name, its in-zone nameservers are not.\<close>

lemma ns_loop_lookup:
  assumes "\<And>h. \<not> IsSubDomain L (CanonicalName L (Fqdn L (z_name z))) h \<Longrightarrow> look (TrimSuffix h ''.'') = look' (TrimSuffix h ''.'')"
  shows "ns_loop L T look z extra ns seen recs = ns_loop L T look' z extra ns seen recs"
proof -
  have "ns_sources L look z extra t = ns_sources L look' z extra t" for t using assms by (simp add: ns_sources_def)
  then show ?thesis
    by (induction ns arbitrary: seen recs) (auto simp: Let_def)
qed

definition zone_rows :: "dns_lib \<Rightarrow> zone_row \<Rightarrow> zone_record list \<Rightarrow> bool" where
  "zone_rows L z recs \<longleftrightarrow> zone_rules L recs \<and> (\<forall>r \<in> set recs. zr_zone r = z_id z)"

lemma stub_add_rows: "zone_rows L z recs \<Longrightarrow> zone_rows L z (stub_add L z n t ttl rd recs)"
proof (cases "BuildRecord L z \<lparr>w_name = n, w_type = t, w_ttl = ttl, w_rdata = rd, w_enabled = None, w_comment = []\<rparr> recs 0 False")
  case (Inr rec)
  assume "zone_rows L z recs"
  moreover note B = BuildRecord_Inr [OF Inr]
  moreover have "others 0 False recs = recs" by (simp add: others_def)
  ultimately show ?thesis using Inr by (auto simp: stub_add_def zone_rows_def zone_rules_def sorted_wrt_append)
qed (simp add: stub_add_def)

lemma stub_fold_rows:
  "zone_rows L z recs \<Longrightarrow> zone_rows L z (fold (\<lambda>a. stub_add L z (n a) (t a) (ttl a) (rd a)) as recs)"
  by (induction as arbitrary: recs) (simp_all add: stub_add_rows)

lemma ns_loop_rows: "zone_rows L z recs \<Longrightarrow> zone_rows L z (ns_loop L T look z extra ns seen recs)"
  by (induction L T look z extra ns seen recs rule: ns_loop.induct)
    (simp_all add: Let_def stub_add_rows stub_fold_rows)

lemma nsRecords_rows: "zone_rows L z (nsRecords L T look z ns extra)"
  unfolding nsRecords_def by (rule ns_loop_rows) (simp add: zone_rows_def zone_rules_def)

text \<open>The row after a fetch: the master's SOA, the time, and no expiry.\<close>

definition delegated :: "rr \<Rightarrow> int \<Rightarrow> zone_row \<Rightarrow> zone_row \<Rightarrow> bool" where
  "delegated soa nowMs cur z' \<longleftrightarrow>
     (\<exists>m. z' = (adopt_soa soa cur)\<lparr>z_refreshed_at := nowMs, z_modified_at := m\<rparr> \<and> m \<in> {z_modified_at cur, nowMs})"

lemma install_stub_result:
  assumes ok: "zdb_ok d" and want: "\<forall>r \<in> set recs. zr_zone r = z_id z"
    and i: "install_stub L T z ap soa recs n now d = (res, d')"
  shows "(\<exists>e. res = Inl e \<and> d' = d) \<or>
    (\<exists>cur z' r. res = Inr r \<and> sr_master r = ap \<and> sr_upstreams r = StubUpstreams L T (NewZone z' recs) \<and>
       Zone (z_id z) d = Inr cur \<and> isStub cur \<and> zdb_ok d' \<and>
       Zone (z_id z) d' = Inr z' \<and> delegated soa (UnixMilli now) cur z' \<and>
       mset (map (served L (z_name z)) (Records (z_id z) d')) = mset (map (served L (z_name z)) recs) \<and>
       (\<forall>j. j \<noteq> z_id z \<longrightarrow> mset (Records j d') = mset (Records j d)))"
proof (cases "Zone (z_id z) d")
  case (Inl e)
  with i show ?thesis by (auto simp: install_stub_def)
next
  case (Inr cur)
  show ?thesis
  proof (cases "isStub cur")
    case False
    with i Inr show ?thesis by (auto simp: install_stub_def)
  next
    case True
    define diff where "diff = DiffRecords L (z_name z) (Records (z_id z) d) recs"
    define zb where "zb = (adopt_soa soa cur)\<lparr>z_refreshed_at := UnixMilli now\<rparr>"
    define zn where "zn = (if contentChanged cur zb diff then zb\<lparr>z_modified_at := UnixMilli now\<rparr> else zb)"
    have zn: "updateZoneCols zn cur = zn" "z_name zn = z_name cur" by (simp_all add: updateZoneCols_def zn_def zb_def)
    obtain e where e: "ReplaceRecords zn (DeleteIDs diff) (Updates diff) (d_add diff) d = (None, e) \<and> zdb_ok e \<and>
        Zone (z_id z) e = Inr zn \<and> mset (map (served L (z_name z)) (Records (z_id z) e)) = mset (map (served L (z_name z)) recs) \<and>
        (\<forall>j. j \<noteq> z_id z \<longrightarrow> mset (Records j e) = mset (Records j d))"
      using replace_current [OF ok Inr zn want diff_def] by blast
    have "install_stub L T z ap soa recs n now d =
        (case ReplaceRecords zn (DeleteIDs diff) (Updates diff) (d_add diff) d of
           (Some e, d) \<Rightarrow> (Inl (Store_failed e), d)
         | (None, d) \<Rightarrow>
             (Inr \<lparr>sr_master = ap, sr_serial = z_soa_serial zn, sr_ns = n,
                   sr_upstreams = StubUpstreams L T (NewZone zn recs), sr_records = length recs,
                   sr_refreshed = UnixMilli now\<rparr>, d))"
      unfolding install_stub_def Let_def Inr sum.case zn_def zb_def diff_def using True by simp
    then have R: "res = Inr \<lparr>sr_master = ap, sr_serial = z_soa_serial zn, sr_ns = n,
        sr_upstreams = StubUpstreams L T (NewZone zn recs), sr_records = length recs, sr_refreshed = UnixMilli now\<rparr>" "d' = e"
      using i e by simp_all
    have "delegated soa (UnixMilli now) cur zn"
      by (auto simp: delegated_def zn_def zb_def intro: exI [of _ "z_modified_at zn"])
    with R Inr True e show ?thesis by (intro disjI2 exI [of _ cur] exI [of _ zn]) simp
  qed
qed

text \<open>A stub asks nobody for the addresses of its own nameservers.\<close>

lemma stub_loop_lookup:
  assumes "\<And>h. \<not> IsSubDomain L (CanonicalName L (Fqdn L (z_name z))) h \<Longrightarrow> p_lookup N (TrimSuffix h ''.'') = look (TrimSuffix h ''.'')"
  shows "stub_loop L T (N\<lparr>p_lookup := look\<rparr>) meanwhile z key aps s = stub_loop L T N meanwhile z key aps s"
proof -
  have recs: "nsRecords L T look z ns extra = nsRecords L T (p_lookup N) z ns extra" for ns extra
    unfolding nsRecords_def by (rule ns_loop_lookup [symmetric]) (rule assms)
  have sg: "signedExchange (N\<lparr>p_lookup := look\<rparr>) = signedExchange N" by (intro ext) (simp add: signedExchange_def)
  have ex: "stub_exchange (N\<lparr>p_lookup := look\<rparr>) = stub_exchange N" by (intro ext) (simp only: stub_exchange_def sg)
  have ask: "stub_ask L (N\<lparr>p_lookup := look\<rparr>) = stub_ask L N" by (intro ext) (simp only: stub_ask_def ex)
  obtain w d where s: "s = (w, d)" by (cases s)
  show ?thesis unfolding s
    by (induction aps arbitrary: w d) (simp_all add: ask recs split: prod.split option.split)
qed

text \<open>A stub never looks up a name of its own zone.  However the resolver would answer for names at or
  below the apex, which it could only do by asking this very stub, a fetch does the same, once the masters
  are known: it stores the same records and ends the same way, so that it cannot wait for itself.  The
  addresses of in-zone nameservers come from the glue of the reply.\<close>

theorem stub_never_asks_itself:
  assumes "ParsePrimaries L T (p_lookup N) (z_primaries z) = ParsePrimaries L T look (z_primaries z)"
    and "\<And>h. \<not> IsSubDomain L (CanonicalName L (Fqdn L (z_name z))) h \<Longrightarrow> p_lookup N (TrimSuffix h ''.'') = look (TrimSuffix h ''.'')"
  shows "FetchStub L T (N\<lparr>p_lookup := look\<rparr>) attached meanwhile z s = FetchStub L T N attached meanwhile z s"
  using assms(1) by (simp add: FetchStub_def stub_loop_lookup [OF assms(2)] split: prod.split sum.split)

text \<open>A stub of the example zone whose resolver would answer for its in-zone nameserver.\<close>

definition ex_look :: host_lookup where
  "ex_look h = (if h = ''ns.e412.in'' then Some [V4 1] else None)"

theorem stub_never_asks_itself_witness:
  "FetchStub plain_lib ex_text (ex_pull\<lparr>p_lookup := ex_look\<rparr>) True id (ex_secondary_row\<lparr>z_type := ''stub''\<rparr>) ((), ex_sdb) =
   FetchStub plain_lib ex_text ex_pull True id (ex_secondary_row\<lparr>z_type := ''stub''\<rparr>) ((), ex_sdb)"
proof (rule stub_never_asks_itself)
  show "ParsePrimaries plain_lib ex_text (p_lookup ex_pull) (z_primaries (ex_secondary_row\<lparr>z_type := ''stub''\<rparr>)) =
      ParsePrimaries plain_lib ex_text ex_look (z_primaries (ex_secondary_row\<lparr>z_type := ''stub''\<rparr>))" by code_simp
  fix h
  let ?apex = "CanonicalName plain_lib (Fqdn plain_lib (z_name (ex_secondary_row\<lparr>z_type := ''stub''\<rparr>)))"
  assume out: "\<not> IsSubDomain plain_lib ?apex h"
  have "IsSubDomain plain_lib ?apex ''ns.e412.in''" "IsSubDomain plain_lib ?apex ''ns.e412.in.''" by code_simp+
  moreover have "h = ''ns.e412.in'' \<or> h = ''ns.e412.in.''" if "TrimSuffix h ''.'' = ''ns.e412.in''"
    using that by (auto simp: TrimSuffix_def HasSuffix_def split: if_splits) (metis append_take_drop_id append.simps)
  ultimately have "TrimSuffix h ''.'' \<noteq> ''ns.e412.in''" using out by blast
  then show "p_lookup ex_pull (TrimSuffix h ''.'') = ex_look (TrimSuffix h ''.'')" by (simp add: ex_look_def ex_pull_def)
qed

end
