(* ===== verification/Answer.thy ===== *)
theory Answer
  imports Zone_Index
begin

text \<open>
  Authoritative answering, \<open>internal/zones/answer.go\<close> and the middleware of
  \<open>internal/zones/resolver.go\<close>.  A response message is built by state passing: every function that
  appends to \<open>m\<close> takes and returns it.
\<close>

section \<open>The zone's data\<close>

abbreviation maxCNAMEChase :: nat where "maxCNAMEChase \<equiv> 8"

definition rrs :: "zone \<Rightarrow> string \<Rightarrow> zone_record list" where
  "rrs z rel = lookup_list (records z) (normalizeName rel)"

definition owns :: "dns_lib \<Rightarrow> zone \<Rightarrow> string \<Rightarrow> bool" where
  "owns L z name =
     IsSubDomain L (Fqdn L (normalizeName (z_name (row z)))) (Fqdn L (normalizeName name))"

definition rrType :: "dns_lib \<Rightarrow> zone_record \<Rightarrow> u16" where
  "rrType L r = (case StringToType L (ToUpper (zr_type r)) of Some t \<Rightarrow> t | None \<Rightarrow> 0)"

definition hasDescendant :: "zone \<Rightarrow> string \<Rightarrow> bool" where
  "hasDescendant z rel =
     list_ex (\<lambda>name. HasSuffix name (''.'' @ normalizeName rel)) (map fst (records z))"

definition encloser_at :: "zone \<Rightarrow> string list \<Rightarrow> string option" where
  "encloser_at z labels =
     (let anc = Join labels ''.'' in if rrs z anc \<noteq> [] \<or> hasDescendant z anc then Some anc else None)"

definition closestEncloser :: "dns_lib \<Rightarrow> zone \<Rightarrow> string \<Rightarrow> string" where
  "closestEncloser L z rel =
     (case first_tail (encloser_at z) (drop 1 (SplitDomainName L (normalizeName rel))) of
        Some anc \<Rightarrow> anc | None \<Rightarrow> apexName)"

definition sourceOfSynthesis :: "dns_lib \<Rightarrow> zone \<Rightarrow> string \<Rightarrow> string" where
  "sourceOfSynthesis L z rel =
     (let ce = closestEncloser L z rel in if ce \<noteq> apexName then ''*.'' @ ce else ''*'')"

section \<open>Building the answer\<close>

definition glue :: "dns_lib \<Rightarrow> zone \<Rightarrow> string \<Rightarrow> rr list" where
  "glue L z target =
     (if \<not> owns L z target then []
      else let fqdn = Fqdn L target in
        List.map_filter
          (\<lambda>r. if rrType L r = TypeA \<or> rrType L r = TypeAAAA
               then (case ToRR L fqdn r of Inl _ \<Rightarrow> None | Inr rr \<Rightarrow> Some rr) else None)
          (rrs z (RelName L target (z_name (row z)))))"

text \<open>The NS records stored at one cut, as parsed, and the walk from the name up to the apex.\<close>

definition cut_ns :: "dns_lib \<Rightarrow> zone \<Rightarrow> string \<Rightarrow> (rr \<times> string) list" where
  "cut_ns L z name =
     (let owner = Fqdn L (name @ ''.'' @ z_name (row z)) in
      List.map_filter
        (\<lambda>r. if rrType L r \<noteq> TypeNS then None
             else (case ToRR L owner r of
                     Inl _ \<Rightarrow> None
                   | Inr rr \<Rightarrow> (case rr_data rr of RD_NS ns \<Rightarrow> Some (rr, ns) | _ \<Rightarrow> None)))
        (rrs z name))"

definition referral_at :: "dns_lib \<Rightarrow> zone \<Rightarrow> string list \<Rightarrow> (rr list \<times> rr list) option" where
  "referral_at L z labels =
     (let found = cut_ns L z (Join labels ''.'') in
      if found = [] then None
      else Some (map fst found, concat (map (\<lambda>(_, ns). glue L z ns) found)))"

definition referral :: "dns_lib \<Rightarrow> zone \<Rightarrow> msg \<Rightarrow> string \<Rightarrow> msg \<times> bool" where
  "referral L z m rel =
     (if rel = apexName then (m, False)
      else case first_tail (referral_at L z) (SplitDomainName L (normalizeName rel)) of
             None \<Rightarrow> (m, False)
           | Some (auth, gl) \<Rightarrow>
               (m\<lparr>m_aa := False, m_ns := m_ns m @ auth, m_extra := m_extra m @ gl\<rparr>, True))"

definition deny :: "dns_lib \<Rightarrow> zone \<Rightarrow> msg \<Rightarrow> int \<Rightarrow> msg" where
  "deny L z m rcode =
     (case SOA L z of RR hdr rd \<Rightarrow>
        m\<lparr>m_rcode := rcode,
          m_ns := m_ns m @ [RR (hdr\<lparr>h_ttl := min (z_soa_minimum (row z)) (z_soa_ttl (row z))\<rparr>) rd]\<rparr>)"

fun ns_glue_loop :: "dns_lib \<Rightarrow> zone \<Rightarrow> string set \<Rightarrow> rr list \<Rightarrow> rr list" where
  "ns_glue_loop L z seen [] = []"
| "ns_glue_loop L z seen (rr # rest) =
     (case rr_data rr of
        RD_NS ns \<Rightarrow>
          (let key = CanonicalName L ns in
           if key \<in> seen then ns_glue_loop L z seen rest
           else glue L z ns @ ns_glue_loop L z (insert key seen) rest)
      | _ \<Rightarrow> ns_glue_loop L z seen rest)"

definition attachNSGlue :: "dns_lib \<Rightarrow> zone \<Rightarrow> msg \<Rightarrow> msg" where
  "attachNSGlue L z m = m\<lparr>m_extra := m_extra m @ ns_glue_loop L z {} (m_answer m)\<rparr>"

definition typed_rrs :: "dns_lib \<Rightarrow> string \<Rightarrow> zone_record list \<Rightarrow> u16 \<Rightarrow> rr list" where
  "typed_rrs L fqdn recs qtype =
     List.map_filter
       (\<lambda>r. if rrType L r \<noteq> qtype then None
            else (case ToRR L fqdn r of Inl _ \<Rightarrow> None | Inr rr \<Rightarrow> Some rr)) recs"

text \<open>
  \<open>resolve\<close>, \<open>fill\<close> and \<open>chase\<close> call one another as in the source; \<open>depth\<close> counts the followed
  CNAMEs and \<open>maxCNAMEChase\<close> bounds it, which is the termination argument.
\<close>

function (sequential)
  resolve :: "dns_lib \<Rightarrow> zone \<Rightarrow> msg \<Rightarrow> string \<Rightarrow> string \<Rightarrow> u16 \<Rightarrow> nat \<Rightarrow> msg" and
  fill :: "dns_lib \<Rightarrow> zone \<Rightarrow> msg \<Rightarrow> string \<Rightarrow> zone_record list \<Rightarrow> u16 \<Rightarrow> nat \<Rightarrow> msg \<times> bool" and
  chase :: "dns_lib \<Rightarrow> zone \<Rightarrow> msg \<Rightarrow> string \<Rightarrow> zone_record \<Rightarrow> u16 \<Rightarrow> nat \<Rightarrow> msg \<times> bool"
where
  "resolve L z m fqdn rel qtype depth =
     (case referral L z m rel of
        (m', True) \<Rightarrow> m'
      | (m', False) \<Rightarrow>
          if rel = apexName \<and> qtype = TypeSOA then m'\<lparr>m_answer := m_answer m' @ [SOA L z]\<rparr>
          else if rrs z rel \<noteq> [] then
            (case fill L z m' fqdn (rrs z rel) qtype depth of
               (m'', True) \<Rightarrow> m'' | (m'', False) \<Rightarrow> deny L z m'' RcodeSuccess)
          else if rel = apexName \<or> hasDescendant z rel then deny L z m' RcodeSuccess
          else
            (let src = sourceOfSynthesis L z rel in
             if rrs z src \<noteq> [] then
               (case fill L z m' fqdn (rrs z src) qtype depth of
                  (m'', True) \<Rightarrow> m'' | (m'', False) \<Rightarrow> deny L z m'' RcodeSuccess)
             else if hasDescendant z src then deny L z m' RcodeSuccess
             else deny L z m' RcodeNameError))"
| "fill L z m fqdn recs qtype depth =
     (case (if qtype \<noteq> TypeCNAME then List.find (\<lambda>r. rrType L r = TypeCNAME) recs else None) of
        Some r \<Rightarrow> chase L z m fqdn r qtype depth
      | None \<Rightarrow>
          (let found = typed_rrs L fqdn recs qtype; m' = m\<lparr>m_answer := m_answer m @ found\<rparr> in
           if found \<noteq> [] \<and> qtype = TypeNS then (attachNSGlue L z m', True)
           else (m', found \<noteq> [])))"
| "chase L z m fqdn rec qtype depth =
     (case ToRR L fqdn rec of
        Inl _ \<Rightarrow> (m, False)
      | Inr rr \<Rightarrow>
          (case rr_data rr of
             RD_CNAME target \<Rightarrow>
               (let m' = m\<lparr>m_answer := m_answer m @ [rr]\<rparr> in
                if depth + 1 \<ge> maxCNAMEChase \<or> \<not> owns L z target then (m', True)
                else (resolve L z m' (Fqdn L target) (RelName L target (z_name (row z))) qtype (depth + 1),
                      True))
           | _ \<Rightarrow> (m, False)))"
  by pat_completeness auto
termination
  by (relation "measure (\<lambda>x. case x of
        Inl (L, z, m, fqdn, rel, qtype, depth) \<Rightarrow> 3 * (8 - depth) + 2
      | Inr (Inl (L, z, m, fqdn, recs, qtype, depth)) \<Rightarrow> 3 * (8 - depth) + 1
      | Inr (Inr (L, z, m, fqdn, rec, qtype, depth)) \<Rightarrow> 3 * (8 - depth))") auto

declare resolve.simps [simp del] fill.simps [simp del] chase.simps [simp del]

definition Serving :: "zone \<Rightarrow> int \<Rightarrow> bool" where
  "Serving z nowMs =
     (if \<not> EqualFold (z_type (row z)) ''secondary'' then True
      else if z_refreshed_at (row z) = 0 then False
      else z_expires_at (row z) = 0 \<or> nowMs < z_expires_at (row z))"

text \<open>\<open>Answer\<close> returns the message and \<open>handled\<close>.\<close>

definition Answer :: "dns_lib \<Rightarrow> zone \<Rightarrow> msg \<Rightarrow> string \<Rightarrow> u16 \<Rightarrow> int \<Rightarrow> msg \<times> bool" where
  "Answer L z m qname qtype nowMs =
     (if ToLower (z_type (row z)) \<in> {''forwarder'', ''stub''} then (m, False)
      else if \<not> Serving z nowMs then (m\<lparr>m_rcode := RcodeServerFailure\<rparr>, True)
      else (resolve L z (m\<lparr>m_aa := True, m_rcode := RcodeSuccess\<rparr>) (Fqdn L qname)
              (RelName L qname (z_name (row z))) qtype 0, True))"

text \<open>\<open>Resolver.Middleware\<close>, with the served snapshot and the clock as arguments.\<close>

definition zone_middleware :: "dns_lib \<Rightarrow> index \<Rightarrow> int \<Rightarrow> 'w middleware" where
  "zone_middleware L snap nowMs next r w =
     (if m_question (rq_msg r) \<noteq> [] \<and> q_class (hd (m_question (rq_msg r))) \<noteq> ClassINET
      then next r w
      else case Find L snap (QName r) of
             None \<Rightarrow> next r w
           | Some z \<Rightarrow>
               (case Answer L z (SetReply L (rq_msg r)) (QName r) (QType r) nowMs of
                  (m, False) \<Rightarrow> next r w
                | (m, True) \<Rightarrow>
                    (Returned (Some (reply m (if m_rcode m = RcodeServerFailure then DecisionError
                                              else DecisionAuthoritative))) None, w)))"

section \<open>Case analysis of an answer\<close>

lemma referral_False: "\<not> snd (referral L z m rel) \<Longrightarrow> referral L z m rel = (m, False)"
  by (auto simp: referral_def split: option.splits if_splits)

definition fill_or_deny :: "dns_lib \<Rightarrow> zone \<Rightarrow> msg \<Rightarrow> string \<Rightarrow> zone_record list \<Rightarrow> u16 \<Rightarrow> nat \<Rightarrow> msg" where
  "fill_or_deny L z m fqdn recs qtype depth =
     (case fill L z m fqdn recs qtype depth of
        (m', True) \<Rightarrow> m' | (m', False) \<Rightarrow> deny L z m' RcodeSuccess)"

text \<open>The seven ways \<open>resolve\<close> ends, in the order of the code.\<close>

lemma resolve_cases [case_names cut_above soa exact ent wild wild_ent nx]:
  obtains
    "snd (referral L z m rel)"
    "resolve L z m fqdn rel qtype depth = fst (referral L z m rel)"
  | "\<not> snd (referral L z m rel)" "rel = apexName" "qtype = TypeSOA"
    "resolve L z m fqdn rel qtype depth = m\<lparr>m_answer := m_answer m @ [SOA L z]\<rparr>"
  | "\<not> snd (referral L z m rel)" "rel \<noteq> apexName \<or> qtype \<noteq> TypeSOA" "rrs z rel \<noteq> []"
    "resolve L z m fqdn rel qtype depth = fill_or_deny L z m fqdn (rrs z rel) qtype depth"
  | "\<not> snd (referral L z m rel)" "rel \<noteq> apexName \<or> qtype \<noteq> TypeSOA" "rrs z rel = []"
    "rel = apexName \<or> hasDescendant z rel"
    "resolve L z m fqdn rel qtype depth = deny L z m RcodeSuccess"
  | "\<not> snd (referral L z m rel)" "rrs z rel = []" "rel \<noteq> apexName" "\<not> hasDescendant z rel"
    "rrs z (sourceOfSynthesis L z rel) \<noteq> []"
    "resolve L z m fqdn rel qtype depth =
       fill_or_deny L z m fqdn (rrs z (sourceOfSynthesis L z rel)) qtype depth"
  | "\<not> snd (referral L z m rel)" "rrs z rel = []" "rel \<noteq> apexName" "\<not> hasDescendant z rel"
    "rrs z (sourceOfSynthesis L z rel) = []" "hasDescendant z (sourceOfSynthesis L z rel)"
    "resolve L z m fqdn rel qtype depth = deny L z m RcodeSuccess"
  | "\<not> snd (referral L z m rel)" "rrs z rel = []" "rel \<noteq> apexName" "\<not> hasDescendant z rel"
    "rrs z (sourceOfSynthesis L z rel) = []" "\<not> hasDescendant z (sourceOfSynthesis L z rel)"
    "resolve L z m fqdn rel qtype depth = deny L z m RcodeNameError"
proof (cases "snd (referral L z m rel)")
  case True
  then have "resolve L z m fqdn rel qtype depth = fst (referral L z m rel)"
    by (cases "referral L z m rel") (simp add: resolve.simps)
  with True that(1) show thesis by blast
next
  case False
  note ref = referral_False [OF False]
  have eq: "resolve L z m fqdn rel qtype depth =
     (if rel = apexName \<and> qtype = TypeSOA then m\<lparr>m_answer := m_answer m @ [SOA L z]\<rparr>
      else if rrs z rel \<noteq> [] then fill_or_deny L z m fqdn (rrs z rel) qtype depth
      else if rel = apexName \<or> hasDescendant z rel then deny L z m RcodeSuccess
      else if rrs z (sourceOfSynthesis L z rel) \<noteq> []
        then fill_or_deny L z m fqdn (rrs z (sourceOfSynthesis L z rel)) qtype depth
      else if hasDescendant z (sourceOfSynthesis L z rel) then deny L z m RcodeSuccess
      else deny L z m RcodeNameError)"
    unfolding resolve.simps ref prod.case bool.case Let_def fill_or_deny_def ..
  show thesis
    using False eq that(2-7) by metis
qed

lemma fill_cases [case_names cname typed]:
  obtains r where "qtype \<noteq> TypeCNAME" "r \<in> set recs" "rrType L r = TypeCNAME"
    "fill L z m fqdn recs qtype depth = chase L z m fqdn r qtype depth"
  | m' where "m' = m\<lparr>m_answer := m_answer m @ typed_rrs L fqdn recs qtype\<rparr>"
    "qtype \<noteq> TypeCNAME \<longrightarrow> (\<forall>r \<in> set recs. rrType L r \<noteq> TypeCNAME)"
    "fill L z m fqdn recs qtype depth =
       (if typed_rrs L fqdn recs qtype \<noteq> [] \<and> qtype = TypeNS then (attachNSGlue L z m', True)
        else (m', typed_rrs L fqdn recs qtype \<noteq> []))"
proof (cases "if qtype \<noteq> TypeCNAME then List.find (\<lambda>r. rrType L r = TypeCNAME) recs else None")
  case None
  then have "qtype \<noteq> TypeCNAME \<longrightarrow> (\<forall>r \<in> set recs. rrType L r \<noteq> TypeCNAME)"
    by (auto simp: find_None_iff split: if_splits)
  with None that(2) show thesis by (simp add: fill.simps Let_def)
next
  case (Some r)
  then have "qtype \<noteq> TypeCNAME" "r \<in> set recs" "rrType L r = TypeCNAME"
    by (auto split: if_splits simp: find_Some_iff)
  with Some that(1) show thesis by (simp add: fill.simps)
qed

lemma chase_cases [case_names bad stop follow]:
  obtains "chase L z m fqdn rec qtype depth = (m, False)"
  | rr target where "ToRR L fqdn rec = Inr rr" "rr_data rr = RD_CNAME target"
    "depth + 1 \<ge> maxCNAMEChase \<or> \<not> owns L z target"
    "chase L z m fqdn rec qtype depth = (m\<lparr>m_answer := m_answer m @ [rr]\<rparr>, True)"
  | rr target where "ToRR L fqdn rec = Inr rr" "rr_data rr = RD_CNAME target"
    "depth + 1 < maxCNAMEChase" "owns L z target"
    "chase L z m fqdn rec qtype depth =
       (resolve L z (m\<lparr>m_answer := m_answer m @ [rr]\<rparr>) (Fqdn L target)
          (RelName L target (z_name (row z))) qtype (depth + 1), True)"
proof (cases "ToRR L fqdn rec")
  case (Inr rr)
  show thesis
  proof (cases "\<exists>t. rr_data rr = RD_CNAME t")
    case True
    then obtain t where t: "rr_data rr = RD_CNAME t" by blast
    with Inr have eq: "chase L z m fqdn rec qtype depth =
        (let m' = m\<lparr>m_answer := m_answer m @ [rr]\<rparr> in
         if depth + 1 \<ge> maxCNAMEChase \<or> \<not> owns L z t then (m', True)
         else (resolve L z m' (Fqdn L t) (RelName L t (z_name (row z))) qtype (depth + 1), True))"
      by (simp add: chase.simps)
    show thesis
    proof (cases "depth + 1 \<ge> maxCNAMEChase \<or> \<not> owns L z t")
      case True
      with eq that(2) [OF Inr t] show thesis by (simp only: Let_def if_True)
    next
      case False
      then have "depth + 1 < maxCNAMEChase" "owns L z t" by auto
      moreover from eq False have "chase L z m fqdn rec qtype depth =
          (resolve L z (m\<lparr>m_answer := m_answer m @ [rr]\<rparr>) (Fqdn L t)
             (RelName L t (z_name (row z))) qtype (depth + 1), True)"
        by (simp only: Let_def if_False)
      ultimately show thesis by (rule that(3) [OF Inr t])
    qed
  next
    case False
    with Inr have "chase L z m fqdn rec qtype depth = (m, False)"
      by (auto simp: chase.simps split: rdata.splits)
    with that(1) show thesis .
  qed
qed (use that(1) in \<open>simp add: chase.simps\<close>)

text \<open>The induction that follows an answer through its CNAMEs: one property of \<open>resolve\<close>, proved
  assuming it for every call at a greater depth.\<close>

lemma resolve_depth_induct:
  assumes "\<And>m fqdn rel depth.
      (\<And>m' fqdn' rel' depth'. depth < depth' \<Longrightarrow> depth' < maxCNAMEChase \<Longrightarrow> P m' fqdn' rel' depth')
      \<Longrightarrow> P m fqdn rel depth"
  shows "P m fqdn rel depth"
proof (induction "maxCNAMEChase - depth" arbitrary: m fqdn rel depth rule: less_induct)
  case less
  show ?case by (rule assms) (rule less, simp)
qed

section \<open>What every step of an answer keeps\<close>

text \<open>
  A relation between the message an answer starts from and the one it ends with holds of
  \<open>resolve\<close> once it is reflexive, transitive and holds of each way the code writes to the
  message.
\<close>

locale answer_relation =
  fixes L :: dns_lib and z :: zone and R :: "msg \<Rightarrow> msg \<Rightarrow> bool"
  assumes R_refl: "R m m"
    and R_trans: "R m m' \<Longrightarrow> R m' m'' \<Longrightarrow> R m m''"
    and R_referral: "R m (fst (referral L z m rel))"
    and R_soa: "R m (m\<lparr>m_answer := m_answer m @ [SOA L z]\<rparr>)"
    and R_typed: "R m (m\<lparr>m_answer := m_answer m @ typed_rrs L fqdn (rrs z n) qtype\<rparr>)"
    and R_cname: "rec \<in> set (rrs z n) \<Longrightarrow> ToRR L fqdn rec = Inr rr \<Longrightarrow>
      R m (m\<lparr>m_answer := m_answer m @ [rr]\<rparr>)"
    and R_glue: "R m (attachNSGlue L z m)"
    and R_deny: "rc \<in> {RcodeSuccess, RcodeNameError} \<Longrightarrow> R m (deny L z m rc)"
begin

lemma fill_rel:
  assumes "\<And>m' fqdn' rel' depth'. depth < depth' \<Longrightarrow> depth' < maxCNAMEChase \<Longrightarrow>
      R m' (resolve L z m' fqdn' rel' qtype depth')"
  shows "R m (fst (fill L z m fqdn (rrs z n) qtype depth))"
proof (cases rule: fill_cases [of qtype "rrs z n" L z m fqdn depth])
  case (cname r)
  show ?thesis
  proof (cases rule: chase_cases [of L z m fqdn r qtype depth])
    case bad
    with cname show ?thesis by (simp add: R_refl)
  next
    case (stop rr target)
    with cname show ?thesis by (simp add: R_cname)
  next
    case (follow rr target)
    have "R m (m\<lparr>m_answer := m_answer m @ [rr]\<rparr>)" using cname follow by (simp add: R_cname)
    with cname follow show ?thesis using assms [of "depth + 1"] R_trans by auto
  qed
next
  case (typed m')
  have "R m m'" by (simp add: typed(1) R_typed)
  with typed(3) R_trans [OF _ R_glue] show ?thesis by simp
qed

lemma resolve_rel: "R m (resolve L z m fqdn rel qtype depth)"
proof (induction m fqdn rel depth rule: resolve_depth_induct)
  case (1 m fqdn rel depth)
  have fod: "R m (fill_or_deny L z m fqdn (rrs z n) qtype depth)" for n
    using fill_rel [OF 1, of depth m fqdn n] R_trans [OF _ R_deny [of RcodeSuccess]]
    by (auto simp: fill_or_deny_def split: prod.splits bool.splits)
  show ?case
    by (cases rule: resolve_cases [of L z m rel fqdn qtype depth])
       (simp_all add: R_referral R_soa R_deny fod)
qed

end

end
