(* ===== verification/Zone_Refresh.thy ===== *)
theory Zone_Refresh
  imports Stub Answer
begin

text \<open>
  The refresh scheduler, \<open>internal/zones/refresh.go\<close>: when a secondary or stub zone is next pulled, and what
  an attempt leaves in the scheduler's state and in the zone's row.  Times are Unix milliseconds.  The
  per-zone semaphore is the flag \<open>rz_busy\<close>; the text of an error and the jitter are parameters, and
  \<open>shutdown\<close> tells a cancelled context from one past its deadline.  The flags that only limit log lines
  are kept where they decide nothing else.
\<close>

section \<open>Intervals\<close>

definition minIntervalMs :: int where
  "minIntervalMs = 60000"

definition startupSpreadMs :: int where
  "startupSpreadMs = 60000"

definition failureLogEveryMs :: int where
  "failureLogEveryMs = 3600000"

definition intervalMs :: "u32 \<Rightarrow> int" where
  "intervalMs seconds = (let ms = uint seconds * 1000 in if ms < minIntervalMs then minIntervalMs else ms)"

definition expiryBeatsRefresh :: "zone_row \<Rightarrow> bool" where
  "expiryBeatsRefresh z \<longleftrightarrow>
     isSecondary z \<and> z_soa_expire z > 0 \<and> intervalMs (z_soa_expire z div 2) < intervalMs (z_soa_refresh z)"

definition refreshIntervalMs :: "zone_row \<Rightarrow> int" where
  "refreshIntervalMs z =
     (if expiryBeatsRefresh z then intervalMs (z_soa_expire z div 2) else intervalMs (z_soa_refresh z))"

definition pullsFromAMaster :: "string \<Rightarrow> bool" where
  "pullsFromAMaster ty = (ToLower ty \<in> {''secondary'', ''stub''})"

section \<open>The state of a zone\<close>

record zoneState =
  rz_busy :: bool
  rz_notBefore :: int
  rz_lastAttempt :: int
  rz_fails :: int
  rz_lastErr :: string
  rz_lastFailLog :: int
  rz_expiredLogged :: bool

type_synonym refresher = "int \<rightharpoonup> zoneState"

definition due :: "zone_row \<Rightarrow> int \<Rightarrow> zoneState \<Rightarrow> bool" where
  "due z nowMs st =
     (if nowMs < rz_notBefore st then False
      else if z_refreshed_at z = 0 then True
      else nowMs \<ge> z_refreshed_at z + refreshIntervalMs z)"

definition firstAttempt :: "(int \<Rightarrow> int) \<Rightarrow> zone_row \<Rightarrow> int \<Rightarrow> int" where
  "firstAttempt jitter z nowMs =
     (if \<not> Serving \<lparr>row = z, records = []\<rparr> nowMs then 0
      else if isStub z \<and> z_refreshed_at z = 0 then 0
      else if nowMs < z_refreshed_at z + refreshIntervalMs z then 0
      else
        let spread = startupSpreadMs;
            spread = (if z_expires_at z \<noteq> 0 \<and> z_expires_at z - nowMs < spread then z_expires_at z - nowMs else spread)
        in if spread \<le> 0 then 0 else nowMs + jitter spread)"

definition stateFor :: "(int \<Rightarrow> int) \<Rightarrow> zone_row \<Rightarrow> int \<Rightarrow> refresher \<Rightarrow> zoneState \<times> refresher" where
  "stateFor jitter z nowMs r =
     (case r (z_id z) of
        Some st \<Rightarrow> (st, r)
      | None \<Rightarrow>
          let st = \<lparr>rz_busy = False, rz_notBefore = firstAttempt jitter z nowMs, rz_lastAttempt = 0, rz_fails = 0,
                    rz_lastErr = [], rz_lastFailLog = 0, rz_expiredLogged = False\<rparr>
          in (st, r(z_id z \<mapsto> st)))"

section \<open>An attempt\<close>

text \<open>\<open>recordAttempt\<close> logs a failing write and goes on.\<close>

definition recordAttempt :: "zone_row \<Rightarrow> int \<Rightarrow> string \<Rightarrow> zdb \<Rightarrow> zdb" where
  "recordAttempt z at err d = snd (NoteTransferAttempt (z_id z) at err d)"

definition noteSuccess :: "int \<Rightarrow> zoneState \<Rightarrow> zoneState" where
  "noteSuccess nowMs st =
     st\<lparr>rz_fails := 0, rz_lastErr := [], rz_lastAttempt := nowMs, rz_notBefore := 0, rz_expiredLogged := False\<rparr>"

definition noteFailure :: "zone_row \<Rightarrow> int \<Rightarrow> string \<Rightarrow> zoneState \<Rightarrow> zoneState" where
  "noteFailure z nowMs err st =
     (let st = st\<lparr>rz_fails := rz_fails st + 1, rz_lastErr := err, rz_lastAttempt := nowMs,
                  rz_notBefore := nowMs + intervalMs (z_soa_retry z)\<rparr>;
          loud = (rz_fails st = 1 \<or> nowMs - rz_lastFailLog st \<ge> failureLogEveryMs);
          st = (if loud then st\<lparr>rz_lastFailLog := nowMs\<rparr> else st);
          expired = (isSecondary z \<and> z_refreshed_at z \<noteq> 0 \<and> z_expires_at z \<noteq> 0 \<and> nowMs \<ge> z_expires_at z)
      in if expired then st\<lparr>rz_expiredLogged := True\<rparr> else st)"

definition pull ::
  "dns_lib \<Rightarrow> ip6_text \<Rightarrow> ('w, 'x) pull_net_scheme \<Rightarrow> bool \<Rightarrow> nat \<Rightarrow> (zdb \<Rightarrow> zdb) \<Rightarrow> bool \<Rightarrow> zone_row
   \<Rightarrow> 'w \<times> zdb \<Rightarrow> (xfer_err + TransferResult) \<times> 'w \<times> zdb" where
  "pull L T N attached maxR meanwhile forced z s =
     (if \<not> isStub z then
        (if forced then TransferZone L T N attached maxR meanwhile z s else Sync L T N attached maxR meanwhile z s)
      else case FetchStub L T N attached meanwhile z s of
             (Inl e, s) \<Rightarrow> (Inl e, s)
           | (Inr res, s) \<Rightarrow>
               (Inr \<lparr>tr_primary = sr_master res, tr_serial = sr_serial res, tr_records = sr_records res,
                     tr_refreshed = sr_refreshed res, tr_expires = 0, tr_unchanged = False\<rparr>, s))"

definition attempt_transfer ::
  "dns_lib \<Rightarrow> ip6_text \<Rightarrow> ('w, 'x) pull_net_scheme \<Rightarrow> bool \<Rightarrow> nat \<Rightarrow> (zdb \<Rightarrow> zdb) \<Rightarrow> (xfer_err \<Rightarrow> string) \<Rightarrow> bool \<Rightarrow> bool
   \<Rightarrow> zone_row \<Rightarrow> zoneState \<Rightarrow> 'w \<times> zdb \<Rightarrow> (xfer_err + TransferResult) \<times> zoneState \<times> 'w \<times> zdb" where
  "attempt_transfer L T N attached maxR meanwhile etext shutdown forced z st s =
     (case pull L T N attached maxR meanwhile forced z s of
        (res, w, d) \<Rightarrow>
          let (now, w) = p_now N w; nowMs = UnixMilli now
          in (case res of
                Inl e \<Rightarrow>
                  if shutdown then (Inl e, st, w, d)
                  else (Inl e, noteFailure z nowMs (etext e) st, w, recordAttempt z nowMs (etext e) d)
              | Inr r \<Rightarrow> (Inr r, noteSuccess nowMs st, w, recordAttempt z nowMs [] d)))"

text \<open>One zone of a pass: skipped unless it is pulled, enabled, due and not already in flight; the row is
  read again once the semaphore is held.\<close>

definition refresh_one ::
  "dns_lib \<Rightarrow> ip6_text \<Rightarrow> ('w, 'x) pull_net_scheme \<Rightarrow> bool \<Rightarrow> nat \<Rightarrow> (zdb \<Rightarrow> zdb) \<Rightarrow> (xfer_err \<Rightarrow> string) \<Rightarrow> bool
   \<Rightarrow> (int \<Rightarrow> int) \<Rightarrow> int \<Rightarrow> zone_row \<Rightarrow> refresher \<times> 'w \<times> zdb \<Rightarrow> refresher \<times> 'w \<times> zdb" where
  "refresh_one L T N attached maxR meanwhile etext shutdown jitter nowMs z s =
     (case s of (r, w, d) \<Rightarrow>
        if \<not> pullsFromAMaster (z_type z) \<or> \<not> z_enabled z then s
        else let (st, r) = stateFor jitter z nowMs r
             in if \<not> due z nowMs st \<or> rz_busy st then (r, w, d)
                else case Zone (z_id z) d of
                       Inl _ \<Rightarrow> (r, w, d)
                     | Inr fresh \<Rightarrow>
                         (case attempt_transfer L T N attached maxR meanwhile etext shutdown False fresh st (w, d) of
                            (_, st, w, d) \<Rightarrow> (r(z_id z \<mapsto> st), w, d)))"

definition RefreshDue ::
  "dns_lib \<Rightarrow> ip6_text \<Rightarrow> ('w, 'x) pull_net_scheme \<Rightarrow> bool \<Rightarrow> nat \<Rightarrow> (zdb \<Rightarrow> zdb) \<Rightarrow> (xfer_err \<Rightarrow> string) \<Rightarrow> bool
   \<Rightarrow> (int \<Rightarrow> int) \<Rightarrow> refresher \<times> 'w \<times> zdb \<Rightarrow> refresher \<times> 'w \<times> zdb" where
  "RefreshDue L T N attached maxR meanwhile etext shutdown jitter s =
     (case s of (r, w, d) \<Rightarrow>
        let (now, w) = p_now N w
        in fold (refresh_one L T N attached maxR meanwhile etext shutdown jitter (UnixMilli now)) (Zones d) (r, w, d))"

text \<open>\<open>Refresh\<close>, a transfer asked for by an operator or a NOTIFY: it waits for its turn and goes whether or not the
  zone is due.\<close>

definition Refresh ::
  "dns_lib \<Rightarrow> ip6_text \<Rightarrow> ('w, 'x) pull_net_scheme \<Rightarrow> bool \<Rightarrow> nat \<Rightarrow> (zdb \<Rightarrow> zdb) \<Rightarrow> (xfer_err \<Rightarrow> string) \<Rightarrow> bool
   \<Rightarrow> (int \<Rightarrow> int) \<Rightarrow> int \<Rightarrow> refresher \<times> 'w \<times> zdb \<Rightarrow> (xfer_err + TransferResult) \<times> refresher \<times> 'w \<times> zdb" where
  "Refresh L T N attached maxR meanwhile etext shutdown jitter i s =
     (case s of (r, w, d) \<Rightarrow>
        (case Zone i d of
           Inl e \<Rightarrow> (Inl (Store_failed e), r, w, d)
         | Inr z \<Rightarrow>
             let (now, w) = p_now N w; (st, r) = stateFor jitter z (UnixMilli now) r
             in if p_done N w \<and> rz_busy st then (Inl Cancelled, r, w, d)
                else case Zone i d of
                       Inl e \<Rightarrow> (Inl (Store_failed e), r, w, d)
                     | Inr z \<Rightarrow>
                         (case attempt_transfer L T N attached maxR meanwhile etext shutdown True z st (w, d) of
                            (res, st, w, d) \<Rightarrow> (res, r(z_id z \<mapsto> st), w, d))))"

section \<open>Properties\<close>

lemma intervalMs_bounds: "minIntervalMs \<le> intervalMs s \<and> (60 \<le> uint s \<longrightarrow> intervalMs s = uint s * 1000)"
  by (auto simp: intervalMs_def minIntervalMs_def Let_def)

lemma uint_half: "uint (w div 2) = uint w div 2" for w :: u32
  by (simp add: uint_div)

lemma refreshIntervalMs_min: "minIntervalMs \<le> refreshIntervalMs z"
  using intervalMs_bounds by (simp add: refreshIntervalMs_def)

lemma refreshIntervalMs_half:
  assumes "isSecondary z" "120 \<le> uint (z_soa_expire z)"
  shows "refreshIntervalMs z \<le> uint (z_soa_expire z) * 500"
proof -
  have "60 \<le> uint (z_soa_expire z) div 2" using assms(2) by linarith
  then have "intervalMs (z_soa_expire z div 2) = uint (z_soa_expire z) div 2 * 1000"
    using intervalMs_bounds [of "z_soa_expire z div 2"] by (simp add: uint_half)
  moreover have "0 < z_soa_expire z" using assms(2) by (auto simp: word_less_def)
  then have "refreshIntervalMs z \<le> intervalMs (z_soa_expire z div 2)"
    using assms(1) by (auto simp: refreshIntervalMs_def expiryBeatsRefresh_def not_less)
  ultimately show ?thesis by linarith
qed


text \<open>A zone nothing has been tried for yet.\<close>

definition ex_idle :: zoneState where
  "ex_idle = \<lparr>rz_busy = False, rz_notBefore = 0, rz_lastAttempt = 0, rz_fails = 0, rz_lastErr = [], rz_lastFailLog = 0,
     rz_expiredLogged = False\<rparr>"


text \<open>A failed pull has written nothing.\<close>

definition unwritten :: "(zdb \<Rightarrow> zdb) \<Rightarrow> zdb \<Rightarrow> zdb \<Rightarrow> bool" where
  "unwritten meanwhile d d' \<longleftrightarrow> (\<exists>k. d' = (meanwhile ^^ k) d)"

lemma unwritten_refl: "unwritten f d d"
  unfolding unwritten_def by (rule exI [of _ 0]) simp

lemma unwritten_step: "unwritten f (f d) d' \<Longrightarrow> unwritten f d d'"
  unfolding unwritten_def by (elim exE, rule_tac x = "Suc k" in exI) (simp add: funpow_swap1)

lemma markChecked_fails: "markChecked z ap now d = (Inl e, d') \<Longrightarrow> d' = d"
proof -
  assume m: "markChecked z ap now d = (Inl e, d')"
  show "d' = d"
  proof (cases "Zone (z_id z) d")
    case (Inr cur)
    have "filter (\<lambda>x. z_id x = z_id cur) (zd_zones d) \<noteq> []" using Zone_Inr [OF Inr] by (auto simp: filter_empty_conv)
    with m Inr show ?thesis
      by (auto simp: markChecked_def NoteRefreshed_def execOne_def upd_zone_def Let_def split: if_splits)
  qed (use m in \<open>simp add: markChecked_def\<close>)
qed

lemma TransferZone_fails:
  assumes "sound_writers meanwhile" "zdb_ok d" "TransferZone L T N attached maxR meanwhile z (w, d) = (Inl e, w', d')"
  shows "unwritten meanwhile d d'"
proof (cases "\<exists>aps key. isSecondary z \<and> ParsePrimaries L T (p_lookup N) (z_primaries z) = Inr aps \<and> zoneTSIGKey attached z d = Inr key")
  case False
  with assms(3) show ?thesis using unwritten_refl by (auto simp: TransferZone_def split: if_splits sum.splits)
next
  case True
  then obtain aps key where "transfer_loop L N maxR meanwhile z key aps (w, d) = (Inl e, w', d')"
    using assms(3) by (auto simp: TransferZone_def)
  from transfer_loop_result [OF assms(1,2) this] show ?thesis by (auto simp: unwritten_def)
qed

lemma Sync_fails:
  assumes sw: "sound_writers meanwhile" and ok: "zdb_ok d" and s: "Sync L T N attached maxR meanwhile z (w, d) = (Inl e, w', d')"
  shows "unwritten meanwhile d d'"
proof -
  have ok': "zdb_ok (meanwhile d)" using sw ok by (simp add: sound_writers_def)
  note t = TransferZone_fails [OF sw ok] TransferZone_fails [OF sw ok', THEN unwritten_step]
  obtain p v where p: "ProbeSerial L T N attached z d w = (p, v)" by (metis surj_pair)
  show ?thesis
  proof (cases "\<not> isSecondary z \<or> z_refreshed_at z = 0")
    case True
    with s t(1) show ?thesis by (simp add: Sync_def)
  next
    case old: False
    show ?thesis
    proof (cases p)
      case (Inl x)
      with s p old t(2) show ?thesis by (simp add: Sync_def)
    next
      case (Inr rf)
      obtain remote from' where rf: "rf = (remote, from')" by (cases rf)
      show ?thesis
      proof (cases "SerialNewer remote (z_soa_serial z)")
        case True
        with s p old Inr rf t(2) show ?thesis by (simp add: Sync_def)
      next
        case False
        with s p old Inr rf have "\<exists>now. markChecked z from' now (meanwhile d) = (Inl e, d')"
          by (auto simp: Sync_def split: prod.splits)
        then show ?thesis using markChecked_fails unwritten_refl unwritten_step by metis
      qed
    qed
  qed
qed

lemma stub_loop_fails:
  assumes "sound_writers meanwhile" "zdb_ok d" "stub_loop L T N meanwhile z key aps (w, d) = (Inl e, w', d')"
  shows "unwritten meanwhile d d'"
  using assms(2,3)
proof (induction aps arbitrary: w d)
  case Nil
  then show ?case by (simp add: unwritten_refl)
next
  case (Cons ap aps)
  have ok': "zdb_ok (meanwhile d)" using assms(1) Cons.prems(1) by (simp add: sound_writers_def)
  obtain a v where a: "stub_ask L N (z_name z) ap key w = (a, v)" by (metis surj_pair)
  show ?case
  proof (cases "p_done N w")
    case True
    with Cons.prems(2) show ?thesis by (simp add: unwritten_refl)
  next
    case go: False
    show ?thesis
    proof (cases a)
      case None
      with Cons.prems(2) go a have "stub_loop L T N meanwhile z key aps (v, meanwhile d) = (Inl e, w', d')" by simp
      from Cons.IH [OF ok' this] show ?thesis by (rule unwritten_step)
    next
      case (Some x)
      obtain soa ns extra where x: "x = (soa, ns, extra)" by (metis surj_pair)
      let ?recs = "nsRecords L T (p_lookup N) z ns extra"
      obtain now where i: "install_stub L T z ap soa ?recs (length ns) now (meanwhile d) = (Inl e, d')"
        using Cons.prems(2) go a Some x by (auto split: prod.splits)
      have "\<forall>r \<in> set ?recs. zr_zone r = z_id z" using nsRecords_rows [of L z T] by (auto simp: zone_rows_def)
      from install_stub_result [OF ok' this i] have "d' = meanwhile d" by auto
      then show ?thesis by (metis unwritten_refl unwritten_step)
    qed
  qed
qed

lemma pull_fails:
  assumes sw: "sound_writers meanwhile" and ok: "zdb_ok d"
    and p: "pull L T N attached maxR meanwhile forced z (w, d) = (Inl e, w', d')"
  shows "unwritten meanwhile d d'"
proof (cases "isStub z")
  case False
  with p show ?thesis using TransferZone_fails [OF sw ok] Sync_fails [OF sw ok] by (auto simp: pull_def split: if_splits)
next
  case True
  with p have f: "FetchStub L T N attached meanwhile z (w, d) = (Inl e, w', d')"
    by (auto simp: pull_def split: prod.splits sum.splits)
  show ?thesis
  proof (cases "\<exists>aps key. ParsePrimaries L T (p_lookup N) (z_primaries z) = Inr aps \<and> zoneTSIGKey attached z d = Inr key")
    case False
    with f True show ?thesis using unwritten_refl by (auto simp: FetchStub_def split: sum.splits)
  next
    case keyed: True
    then obtain aps key where "stub_loop L T N meanwhile z key aps (w, d) = (Inl e, w', d')"
      using f True by (auto simp: FetchStub_def)
    then show ?thesis by (rule stub_loop_fails [OF sw ok])
  qed
qed

text \<open>A failing primary costs nothing but time.  An attempt that fails has left the records and the row of
  every zone as the other writers made them, apart from the error and the time noted on the zone; it counts
  one more failure, and the zone is not asked for again before its retry interval is over.  An attempt that
  succeeds clears the failures and notes that.\<close>

theorem attempt_outcome:
  assumes sw: "sound_writers meanwhile" and ok: "zdb_ok d"
    and a: "attempt_transfer L T N attached maxR meanwhile etext False forced z st (w, d) = (res, st', w', d')"
  shows "\<exists>nowMs d1. d' = recordAttempt z nowMs (case res of Inl e \<Rightarrow> etext e | Inr _ \<Rightarrow> []) d1 \<and> rz_lastAttempt st' = nowMs \<and>
    (case res of
       Inl e \<Rightarrow> unwritten meanwhile d d1 \<and> rz_fails st' = rz_fails st + 1 \<and>
         (\<forall>z' t. t < nowMs + intervalMs (z_soa_retry z) \<longrightarrow> \<not> due z' t st')
     | Inr r \<Rightarrow> rz_fails st' = 0 \<and> rz_lastErr st' = [] \<and> rz_notBefore st' = 0)"
proof -
  obtain res1 w1 d1 where p: "pull L T N attached maxR meanwhile forced z (w, d) = (res1, w1, d1)" by (metis surj_pair)
  obtain now v where n: "p_now N w1 = (now, v)" by (metis surj_pair)
  show ?thesis
  proof (cases res1)
    case (Inl e)
    with a p n have r: "res = Inl e" "st' = noteFailure z (UnixMilli now) (etext e) st" "d' = recordAttempt z (UnixMilli now) (etext e) d1"
      by (simp_all add: attempt_transfer_def Let_def)
    moreover have "unwritten meanwhile d d1" by (rule pull_fails [OF sw ok p [unfolded Inl]])
    ultimately show ?thesis
      by (intro exI [of _ "UnixMilli now"] exI [of _ d1]) (simp add: noteFailure_def due_def Let_def)
  next
    case (Inr r)
    with a p n have "res = Inr r" "st' = noteSuccess (UnixMilli now) st" "d' = recordAttempt z (UnixMilli now) [] d1"
      by (simp_all add: attempt_transfer_def Let_def)
    then show ?thesis by (intro exI [of _ "UnixMilli now"] exI [of _ d1]) (simp add: noteSuccess_def)
  qed
qed

text \<open>An attempt at a primary that cannot be reached.\<close>

theorem attempt_outcome_witness:
  "\<exists>e st' d'. attempt_transfer plain_lib ex_text (ex_pull\<lparr>p_axfr := \<lambda>_ _ _ w. (None, w)\<rparr>) True 10 id (\<lambda>_. ''unreachable'') False True
       ex_secondary_row ex_idle ((), ex_sdb) = (Inl e, st', (), d') \<and> rz_fails st' = 1 \<and> \<not> due ex_secondary_row 60000 st'"
proof -
  let ?a = "attempt_transfer plain_lib ex_text (ex_pull\<lparr>p_axfr := \<lambda>_ _ _ w. (None, w)\<rparr>) True 10 id (\<lambda>_. ''unreachable'') False True
       ex_secondary_row ex_idle ((), ex_sdb)"
  have "isl (fst ?a)" by code_simp
  then obtain e where e: "fst ?a = Inl e" by (cases "fst ?a") auto
  obtain st' u d' where "snd ?a = (st', u, d')" by (metis surj_pair)
  with e have a: "?a = (Inl e, st', (), d')" by (simp add: prod_eq_iff)
  have t: "rz_lastAttempt (fst (snd ?a)) = 7" by code_simp
  have w: "sound_writers id" by (simp add: sound_writers_def)
  have i: "(60000::int) < 7 + intervalMs (z_soa_retry ex_secondary_row)" by code_simp
  from attempt_outcome [OF w ex_sdb_ok a] t a i show ?thesis by (auto simp: ex_idle_def)
qed

end
