(* ===== verification/Answer_Props.thy ===== *)
theory Answer_Props
  imports Answer
begin

text \<open>
  Properties of authoritative answering: what a zone keeps of the reply it fills, where its
  records come from, when it denies a name, what a zone cut hides, and which zone is asked at all.
\<close>

section \<open>Relations kept along an answer\<close>

definition same_header :: "msg \<Rightarrow> msg \<Rightarrow> bool" where
  "same_header m m' \<longleftrightarrow>
     m_id m' = m_id m \<and> m_response m' = m_response m \<and> m_opcode m' = m_opcode m \<and>
     m_tc m' = m_tc m \<and> m_rd m' = m_rd m \<and> m_question m' = m_question m"

definition from_zone :: "dns_lib \<Rightarrow> zone \<Rightarrow> rr \<Rightarrow> bool" where
  "from_zone L z rr \<longleftrightarrow>
     rr = SOA L z \<or> (\<exists>n rec fqdn. rec \<in> set (rrs z n) \<and> ToRR L fqdn rec = Inr rr)"

definition answer_extends :: "dns_lib \<Rightarrow> zone \<Rightarrow> msg \<Rightarrow> msg \<Rightarrow> bool" where
  "answer_extends L z m m' \<longleftrightarrow>
     (\<exists>ex. m_answer m' = m_answer m @ ex \<and> (\<forall>rr \<in> set ex. from_zone L z rr))"

definition rcode_kept :: "msg \<Rightarrow> msg \<Rightarrow> bool" where
  "rcode_kept m m' \<longleftrightarrow> m_rcode m' \<in> {m_rcode m, RcodeSuccess, RcodeNameError}"

lemmas msg_writes = referral_def deny_def attachNSGlue_def

lemma map_filter_from_zone:
  "rr \<in> set (typed_rrs L fqdn (rrs z n) qtype) \<Longrightarrow> from_zone L z rr"
  unfolding typed_rrs_def in_set_map_filter
proof (elim bexE)
  fix r
  assume "r \<in> set (rrs z n)"
    "(if rrType L r \<noteq> qtype then None
      else case ToRR L fqdn r of Inl _ \<Rightarrow> None | Inr rr \<Rightarrow> Some rr) = Some rr"
  then show "from_zone L z rr"
    by (cases "ToRR L fqdn r") (auto simp: from_zone_def split: if_splits)
qed

interpretation header: answer_relation L z same_header for L z
  by unfold_locales (auto simp: same_header_def msg_writes split: option.splits rr.splits)

interpretation rcode: answer_relation L z rcode_kept for L z
  by unfold_locales (auto simp: rcode_kept_def msg_writes split: option.splits rr.splits)

lemma answer_extends_same:
  "m_answer m' = m_answer m \<Longrightarrow> answer_extends L z m m'"
  by (simp add: answer_extends_def)

interpretation provenance: answer_relation L z "answer_extends L z" for L z
proof unfold_locales
  fix m m' m''
  assume "answer_extends L z m m'" "answer_extends L z m' m''"
  then show "answer_extends L z m m''" by (fastforce simp: answer_extends_def)
next
  fix m fqdn n qtype
  show "answer_extends L z m (m\<lparr>m_answer := m_answer m @ typed_rrs L fqdn (rrs z n) qtype\<rparr>)"
    by (auto simp: answer_extends_def dest: map_filter_from_zone)
next
  fix rec n fqdn rr m
  assume "rec \<in> set (rrs z n)" "ToRR L fqdn rec = Inr rr"
  then show "answer_extends L z m (m\<lparr>m_answer := m_answer m @ [rr]\<rparr>)"
    by (auto simp: answer_extends_def from_zone_def)
next
  fix m
  show "answer_extends L z m (m\<lparr>m_answer := m_answer m @ [SOA L z]\<rparr>)"
    by (simp add: answer_extends_def from_zone_def)
qed (auto intro!: answer_extends_same simp: msg_writes split: option.splits rr.splits)

section \<open>Negative answers\<close>

text \<open>The SOA a denial carries: the zone's own, with the negative TTL of RFC 2308 section 5.\<close>

definition negative_SOA :: "dns_lib \<Rightarrow> zone \<Rightarrow> rr" where
  "negative_SOA L z =
     (case SOA L z of RR hdr rd \<Rightarrow>
        RR (hdr\<lparr>h_ttl := min (z_soa_minimum (row z)) (z_soa_ttl (row z))\<rparr>) rd)"

lemma deny_simps [simp]:
  "m_rcode (deny L z m rc) = rc" "m_ns (deny L z m rc) = m_ns m @ [negative_SOA L z]"
  "m_answer (deny L z m rc) = m_answer m" "m_aa (deny L z m rc) = m_aa m"
  "m_extra (deny L z m rc) = m_extra m"
  by (simp_all add: deny_def negative_SOA_def split: rr.splits)

text \<open>A name is absent when it owns nothing, is no empty non-terminal, and the one wildcard
  allowed to answer for it is absent too.\<close>

definition name_absent :: "dns_lib \<Rightarrow> zone \<Rightarrow> string \<Rightarrow> bool" where
  "name_absent L z rel \<longleftrightarrow>
     rel \<noteq> apexName \<and> rrs z rel = [] \<and> \<not> hasDescendant z rel \<and>
     rrs z (sourceOfSynthesis L z rel) = [] \<and> \<not> hasDescendant z (sourceOfSynthesis L z rel)"

lemma answer_mono: "\<exists>ex. m_answer (resolve L z m fqdn rel qtype depth) = m_answer m @ ex"
  using provenance.resolve_rel [of L z m fqdn rel qtype depth] by (auto simp: answer_extends_def)

lemma fill_outcome:
  "(\<not> snd (fill L z m fqdn recs qtype depth) \<longrightarrow> fst (fill L z m fqdn recs qtype depth) = m) \<and>
   (snd (fill L z m fqdn recs qtype depth) \<longrightarrow>
      m_answer (fst (fill L z m fqdn recs qtype depth)) \<noteq> m_answer m)"
proof (cases rule: fill_cases [of qtype recs L z m fqdn depth])
  case (cname r)
  show ?thesis
  proof (cases rule: chase_cases [of L z m fqdn r qtype depth])
    case (follow rr target)
    obtain ex where "m_answer (resolve L z (m\<lparr>m_answer := m_answer m @ [rr]\<rparr>) (Fqdn L target)
        (RelName L target (z_name (row z))) qtype (depth + 1)) = (m_answer m @ [rr]) @ ex"
      using answer_mono [of L z "m\<lparr>m_answer := m_answer m @ [rr]\<rparr>"] by fastforce
    with cname follow show ?thesis by simp
  qed (use cname in simp_all)
next
  case (typed m')
  then show ?thesis by (auto simp: attachNSGlue_def)
qed

lemma fill_or_deny_cases [case_names denied filled]:
  obtains "fill_or_deny L z m fqdn recs qtype depth = deny L z m RcodeSuccess"
  | "fill L z m fqdn recs qtype depth = (fill_or_deny L z m fqdn recs qtype depth, True)"
    "m_answer (fill_or_deny L z m fqdn recs qtype depth) \<noteq> m_answer m"
proof (cases "snd (fill L z m fqdn recs qtype depth)")
  case True
  then have eq: "fill L z m fqdn recs qtype depth = (fill_or_deny L z m fqdn recs qtype depth, True)"
    by (cases "fill L z m fqdn recs qtype depth") (simp add: fill_or_deny_def)
  with fill_outcome [of L z m fqdn recs qtype depth] that(2) show thesis by simp
next
  case False
  with fill_outcome [of L z m fqdn recs qtype depth] that(1) show thesis
    by (cases "fill L z m fqdn recs qtype depth") (simp add: fill_or_deny_def)
qed

text \<open>An answer that adds nothing to the answer section is a referral or carries the SOA.\<close>

lemma resolve_empty_answer:
  assumes "m_answer (resolve L z m fqdn rel qtype depth) = m_answer m"
  shows "snd (referral L z m rel) \<or>
         m_ns (resolve L z m fqdn rel qtype depth) = m_ns m @ [negative_SOA L z]"
  using assms
  by (cases rule: resolve_cases [of L z m rel fqdn qtype depth];
      cases rule: fill_or_deny_cases [of L z m fqdn "rrs z rel" qtype depth];
      cases rule: fill_or_deny_cases [of L z m fqdn "rrs z (sourceOfSynthesis L z rel)" qtype depth])
     simp_all

lemma fill_NameError:
  assumes IH: "\<And>m' fqdn' rel' depth'. depth < depth' \<Longrightarrow> depth' < maxCNAMEChase \<Longrightarrow>
      m_rcode m' = RcodeSuccess \<Longrightarrow> m_rcode (resolve L z m' fqdn' rel' qtype depth') = RcodeNameError \<Longrightarrow>
      (\<exists>r. name_absent L z r)"
    and "m_rcode m = RcodeSuccess"
    and "m_rcode (fst (fill L z m fqdn recs qtype depth)) = RcodeNameError"
  shows "\<exists>r. name_absent L z r"
proof (cases rule: fill_cases [of qtype recs L z m fqdn depth])
  case (cname r)
  show ?thesis
  proof (cases rule: chase_cases [of L z m fqdn r qtype depth])
    case (follow rr target)
    then show ?thesis using assms cname by (intro IH [of "depth + 1" "m\<lparr>m_answer := m_answer m @ [rr]\<rparr>"]) auto
  qed (use assms cname in simp_all)
next
  case (typed m')
  with assms show ?thesis by (auto simp: attachNSGlue_def split: if_splits)
qed

lemma resolve_NameError:
  assumes "m_rcode m = RcodeSuccess"
    and "m_rcode (resolve L z m fqdn rel qtype depth) = RcodeNameError"
  shows "(\<exists>r. name_absent L z r) \<and>
     (m_answer (resolve L z m fqdn rel qtype depth) = m_answer m \<longrightarrow> name_absent L z rel)"
  using assms
proof (induction m fqdn rel depth rule: resolve_depth_induct)
  case (1 m fqdn rel depth)
  have ref: "m_rcode (fst (referral L z m rel)) = m_rcode m"
    by (simp add: referral_def split: option.splits)
  have fod: "(\<exists>r. name_absent L z r) \<and> m_answer (fill_or_deny L z m fqdn recs qtype depth) \<noteq> m_answer m"
    if "m_rcode (fill_or_deny L z m fqdn recs qtype depth) = RcodeNameError" for recs
  proof (cases rule: fill_or_deny_cases [of L z m fqdn recs qtype depth])
    case denied
    with that show ?thesis by simp
  next
    case filled
    with that have f: "m_rcode (fst (fill L z m fqdn recs qtype depth)) = RcodeNameError" by simp
    have "\<exists>r. name_absent L z r"
    proof (rule fill_NameError [OF _ 1(2) f])
      fix m' fqdn' rel' depth'
      assume "depth < depth'" "depth' < maxCNAMEChase" "m_rcode m' = RcodeSuccess"
        "m_rcode (resolve L z m' fqdn' rel' qtype depth') = RcodeNameError"
      then show "\<exists>r. name_absent L z r" by (rule 1(1) [THEN conjunct1])
    qed
    with filled show ?thesis by simp
  qed
  show ?case
  proof (cases rule: resolve_cases [of L z m rel fqdn qtype depth])
    case nx
    then have "name_absent L z rel" by (simp add: name_absent_def)
    then show ?thesis by blast
  next
    case exact
    then show ?thesis using 1(3) fod [of "rrs z rel"] by simp
  next
    case wild
    then show ?thesis using 1(3) fod [of "rrs z (sourceOfSynthesis L z rel)"] by simp
  qed (use 1(2,3) ref in simp_all)
qed

section \<open>The CNAME chain\<close>

definition chain_end :: "dns_lib \<Rightarrow> zone \<Rightarrow> u16 \<Rightarrow> rr list \<Rightarrow> bool" where
  "chain_end L z qtype fin \<longleftrightarrow>
     fin = [] \<or> fin = [SOA L z] \<or> (\<exists>fqdn recs. fin = typed_rrs L fqdn recs qtype)"

definition chain_shape :: "dns_lib \<Rightarrow> zone \<Rightarrow> u16 \<Rightarrow> nat \<Rightarrow> rr list \<Rightarrow> bool" where
  "chain_shape L z qtype n ex \<longleftrightarrow>
     (\<exists>cs fin. ex = cs @ fin \<and> length cs \<le> n \<and> list_all is_CNAME cs \<and> chain_end L z qtype fin)"

lemma chain_shape_end: "chain_end L z qtype ex \<Longrightarrow> chain_shape L z qtype n ex"
  unfolding chain_shape_def by (intro exI [of _ "[]"] exI [of _ ex]) simp

lemma chain_shape_simps [simp]:
  "chain_shape L z qtype n []" "chain_shape L z qtype n [SOA L z]"
  "chain_shape L z qtype n (typed_rrs L fqdn recs qtype)"
  by (rule chain_shape_end; unfold chain_end_def; blast)+

lemma chain_shape_Cons:
  "is_CNAME rr \<Longrightarrow> chain_shape L z qtype n ex \<Longrightarrow> chain_shape L z qtype (Suc n) (rr # ex)"
  unfolding chain_shape_def
proof (elim exE conjE)
  fix cs fin
  assume "is_CNAME rr" "ex = cs @ fin" "length cs \<le> n" "list_all is_CNAME cs" "chain_end L z qtype fin"
  then show "\<exists>cs fin. rr # ex = cs @ fin \<and> length cs \<le> Suc n \<and> list_all is_CNAME cs \<and>
      chain_end L z qtype fin"
    by (intro exI [of _ "rr # cs"] exI [of _ fin]) simp
qed

lemma chain_shape_mono: "chain_shape L z qtype n ex \<Longrightarrow> n \<le> n' \<Longrightarrow> chain_shape L z qtype n' ex"
  unfolding chain_shape_def using le_trans by blast

lemma fill_chain:
  assumes IH: "\<And>m' fqdn' rel' depth'. depth < depth' \<Longrightarrow> depth' < maxCNAMEChase \<Longrightarrow>
      \<exists>ex. m_answer (resolve L z m' fqdn' rel' qtype depth') = m_answer m' @ ex \<and>
           chain_shape L z qtype (maxCNAMEChase - depth') ex"
    and d: "depth < maxCNAMEChase"
  shows "\<exists>ex. m_answer (fst (fill L z m fqdn recs qtype depth)) = m_answer m @ ex \<and>
           chain_shape L z qtype (maxCNAMEChase - depth) ex"
proof (cases rule: fill_cases [of qtype recs L z m fqdn depth])
  case (cname r)
  show ?thesis
  proof (cases rule: chase_cases [of L z m fqdn r qtype depth])
    case bad
    with cname show ?thesis by simp
  next
    case (stop rr target)
    then have "chain_shape L z qtype (Suc 0) [rr]"
      by (intro chain_shape_Cons) (simp_all add: is_CNAME_def)
    then have "chain_shape L z qtype (maxCNAMEChase - depth) [rr]"
      by (rule chain_shape_mono) (use d in simp)
    with cname stop show ?thesis by simp
  next
    case (follow rr target)
    from IH [of "depth + 1" "m\<lparr>m_answer := m_answer m @ [rr]\<rparr>" "Fqdn L target"
        "RelName L target (z_name (row z))"] follow
    obtain ex where ex: "m_answer (fst (fill L z m fqdn recs qtype depth)) = m_answer m @ rr # ex"
      "chain_shape L z qtype (maxCNAMEChase - (depth + 1)) ex"
      using cname by auto
    then have "chain_shape L z qtype (Suc (maxCNAMEChase - (depth + 1))) (rr # ex)"
      by (intro chain_shape_Cons) (simp_all add: is_CNAME_def follow)
    then have "chain_shape L z qtype (maxCNAMEChase - depth) (rr # ex)"
      by (rule chain_shape_mono) (use follow in simp)
    with ex show ?thesis by auto
  qed
next
  case (typed m')
  then show ?thesis by (auto simp: attachNSGlue_def)
qed

lemma resolve_chain:
  "depth < maxCNAMEChase \<Longrightarrow>
   \<exists>ex. m_answer (resolve L z m fqdn rel qtype depth) = m_answer m @ ex \<and>
        chain_shape L z qtype (maxCNAMEChase - depth) ex"
proof (induction m fqdn rel depth rule: resolve_depth_induct)
  case (1 m fqdn rel depth)
  have fod: "\<exists>ex. m_answer (fill_or_deny L z m fqdn recs qtype depth) = m_answer m @ ex \<and>
      chain_shape L z qtype (maxCNAMEChase - depth) ex" for recs
  proof (cases rule: fill_or_deny_cases [of L z m fqdn recs qtype depth])
    case filled
    then have "fill_or_deny L z m fqdn recs qtype depth = fst (fill L z m fqdn recs qtype depth)"
      by simp
    then show ?thesis using fill_chain [OF 1] by simp
  qed simp
  have "m_answer (fst (referral L z m rel)) = m_answer m"
    by (simp add: referral_def split: option.splits)
  then show ?case
    by (cases rule: resolve_cases [of L z m rel fqdn qtype depth]) (simp_all add: fod)
qed

section \<open>Zone cuts\<close>

lemma referral_at_None: "referral_at L z ls = None \<longleftrightarrow> cut_ns L z (Join ls ''.'') = []"
  by (simp add: referral_at_def Let_def)

lemma cut_ns_NS: "x \<in> set (cut_ns L z name) \<Longrightarrow> \<exists>ns. rr_data (fst x) = RD_NS ns"
  unfolding cut_ns_def Let_def in_set_map_filter
proof (elim bexE)
  fix r
  assume "(if rrType L r \<noteq> TypeNS then None
      else case ToRR L (Fqdn L (name @ ''.'' @ z_name (row z))) r of
        Inl _ \<Rightarrow> None
      | Inr rr \<Rightarrow> (case rr_data rr of RD_NS ns \<Rightarrow> Some (rr, ns) | _ \<Rightarrow> None)) = Some x"
  then show "\<exists>ns. rr_data (fst x) = RD_NS ns"
    by (cases "ToRR L (Fqdn L (name @ ''.'' @ z_name (row z))) r")
       (auto split: if_splits rdata.splits)
qed

lemma referral_cut:
  assumes "rel \<noteq> apexName" "i < length (SplitDomainName L (normalizeName rel))"
    "cut_ns L z (Join (drop i (SplitDomainName L (normalizeName rel))) ''.'') \<noteq> []"
  shows "snd (referral L z m rel)"
proof -
  have "first_tail (referral_at L z) (SplitDomainName L (normalizeName rel)) \<noteq> None"
    using assms(2,3) by (auto simp: first_tail_None referral_at_None)
  with assms(1) show ?thesis by (auto simp: referral_def)
qed

lemma referral_True:
  assumes "snd (referral L z m rel)"
  obtains auth gl where
    "referral L z m rel =
       (m\<lparr>m_aa := False, m_ns := m_ns m @ auth, m_extra := m_extra m @ gl\<rparr>, True)"
    "auth \<noteq> []" "\<forall>rr \<in> set auth. \<exists>ns. rr_data rr = RD_NS ns"
proof -
  let ?ls = "SplitDomainName L (normalizeName rel)"
  from assms obtain auth gl where *: "first_tail (referral_at L z) ?ls = Some (auth, gl)"
    and ne: "rel \<noteq> apexName"
    by (auto simp: referral_def split: option.splits if_splits)
  then obtain j where j: "referral_at L z (drop j ?ls) = Some (auth, gl)"
    by (auto simp: first_tail_Some)
  then have auth: "auth = map fst (cut_ns L z (Join (drop j ?ls) ''.''))" "auth \<noteq> []"
    by (auto simp: referral_at_def Let_def split: if_splits)
  from auth(1) have "\<forall>rr \<in> set auth. \<exists>ns. rr_data rr = RD_NS ns"
    by (auto dest: cut_ns_NS)
  moreover from * ne have "referral L z m rel =
      (m\<lparr>m_aa := False, m_ns := m_ns m @ auth, m_extra := m_extra m @ gl\<rparr>, True)"
    by (simp add: referral_def)
  ultimately show thesis using auth(2) that by blast
qed

section \<open>Finding the zone\<close>

lemma find_at_Some:
  assumes "distinct (map (\<lambda>z. normalizeName (z_name (row z))) zs)"
  shows "find_at (NewIndex zs) ls = Some z \<longleftrightarrow>
     z \<in> set zs \<and> z_enabled (row z) \<and> normalizeName (z_name (row z)) = Join ls ''.''"
proof
  assume "find_at (NewIndex zs) ls = Some z"
  then show "z \<in> set zs \<and> z_enabled (row z) \<and> normalizeName (z_name (row z)) = Join ls ''.''"
    by (auto simp: find_at_def Let_def split: option.splits if_splits dest!: byApex_Some)
next
  assume z: "z \<in> set zs \<and> z_enabled (row z) \<and> normalizeName (z_name (row z)) = Join ls ''.''"
  with byApex_distinct [OF assms, of z] show "find_at (NewIndex zs) ls = Some z"
    by (auto simp: find_at_def)
qed

lemma find_at_None:
  assumes "distinct (map (\<lambda>z. normalizeName (z_name (row z))) zs)"
  shows "find_at (NewIndex zs) ls = None \<longleftrightarrow>
     (\<forall>z \<in> set zs. z_enabled (row z) \<longrightarrow> normalizeName (z_name (row z)) \<noteq> Join ls ''.'')"
  using find_at_Some [OF assms] by (metis not_None_eq)

section \<open>Concrete data\<close>

definition ex_row :: zone_row where
  "ex_row = \<lparr>z_id = 1, z_name = ''e412.in'', z_type = ''primary'', z_enabled = True,
     z_soa_ns = ''ns1.e412.in'', z_soa_mbox = ''admin.e412.in'', z_soa_serial = 7,
     z_soa_refresh = 3600, z_soa_retry = 600, z_soa_expire = 86400, z_soa_minimum = 60,
     z_soa_ttl = 300, z_primaries = [], z_tsig_key = 0, z_expires_at = 0, z_refreshed_at = 0,
     z_last_error = [], z_last_attempt = 0, z_allow_transfer = [], z_last_xfr_at = 0,
     z_last_xfr_peer = [], z_last_xfr_error = [], z_notify_to = [], z_forward_to = [],
     z_created_at = 0, z_modified_at = 0\<rparr>"

definition ex_rec :: "int \<Rightarrow> string \<Rightarrow> string \<Rightarrow> string \<Rightarrow> zone_record" where
  "ex_rec i n t d = \<lparr>zr_id = i, zr_zone = 1, zr_name = n, zr_type = t, zr_ttl = 300,
     zr_rdata = d, zr_enabled = True, zr_comment = []\<rparr>"

definition ex_zone :: zone where
  "ex_zone = NewZone ex_row
     [ex_rec 1 ''www'' ''A'' ''10.0.0.1'', ex_rec 2 ''alias'' ''CNAME'' ''www.e412.in.'',
      ex_rec 3 ''a.b'' ''A'' ''10.0.0.2'', ex_rec 4 ''sub'' ''NS'' ''ns.sub.e412.in.'',
      ex_rec 5 ''ns.sub'' ''A'' ''10.0.0.3'', ex_rec 6 ''gone'' ''CNAME'' ''lost.e412.in.'']"

definition ex_secondary :: zone where
  "ex_secondary = NewZone (ex_row\<lparr>z_type := ''secondary'', z_refreshed_at := 1000, z_expires_at := 2000\<rparr>)
     [ex_rec 1 ''www'' ''A'' ''10.0.0.1'']"

definition ex_query :: "string \<Rightarrow> u16 \<Rightarrow> request" where
  "ex_query n t = \<lparr>rq_msg = \<lparr>m_id = 17, m_response = False, m_opcode = 0, m_aa = False,
     m_tc = False, m_rd = True, m_rcode = 0, m_compress = False,
     m_question = [\<lparr>q_name = n, q_type = t, q_class = 1\<rparr>], m_answer = [], m_ns = [], m_extra = []\<rparr>,
     rq_ip = V4 1, rq_client = \<lparr>ci_id = 0, ci_name = [], ci_group = 1, ci_groupname = ''default''\<rparr>\<rparr>"

definition ex_msg :: msg where
  "ex_msg = plain_reply (rq_msg (ex_query ''www.e412.in.'' 1))"

lemma Answer_handled:
  "ToLower (z_type (row z)) \<notin> {''forwarder'', ''stub''} \<Longrightarrow>
   Answer L z m q t n = (fst (Answer L z m q t n), True)"
  by (simp add: Answer_def)

lemma ex_zone_handled [simp]: "ToLower (z_type ex_row) \<notin> {''forwarder'', ''stub''}"
  by code_simp

lemma ex_zone_row [simp]: "row ex_zone = ex_row"
  by (simp add: ex_zone_def)

section \<open>Properties\<close>

text \<open>C4: a name inside an enabled zone that holds data never leaves the server.  When the index
  finds such a zone for a class IN question, the zone middleware answers by itself: the response
  is the same whatever the next handler is, and the state below it is untouched.\<close>

theorem zone_never_leaks:
  assumes "Find L snap (QName r) = Some z"
    and "ToLower (z_type (row z)) \<notin> {''forwarder'', ''stub''}"
    and "m_question (rq_msg r) = [] \<or> q_class (hd (m_question (rq_msg r))) = ClassINET"
  shows "\<exists>m d. \<forall>next (w :: 'w).
    zone_middleware L snap nowMs next r w = (Returned (Some (reply m d)) None, w)"
  using assms by (auto simp: zone_middleware_def Answer_def)

theorem zone_never_leaks_witness:
  "Find plain_lib (NewIndex [ex_zone]) (QName (ex_query ''nope.e412.in.'' 1)) = Some ex_zone \<and>
   (\<exists>m d. \<forall>next (w :: nat). zone_middleware plain_lib (NewIndex [ex_zone]) 0 next
      (ex_query ''nope.e412.in.'' 1) w = (Returned (Some (reply m d)) None, w))"
proof -
  have f: "Find plain_lib (NewIndex [ex_zone]) (QName (ex_query ''nope.e412.in.'' 1)) = Some ex_zone"
    by code_simp
  have t: "ToLower (z_type (row ex_zone)) \<notin> {''forwarder'', ''stub''}" by code_simp
  have q: "m_question (rq_msg (ex_query ''nope.e412.in.'' 1)) = [] \<or>
    q_class (hd (m_question (rq_msg (ex_query ''nope.e412.in.'' 1)))) = ClassINET" by code_simp
  show ?thesis using f zone_never_leaks [OF f t q] by blast
qed

text \<open>C5: the index returns the most specific enabled zone.  With unique zone names, \<open>Find\<close> yields
  \<open>z\<close> exactly when \<open>z\<close> is an enabled zone whose apex is a run of the name's last labels and no
  enabled zone has a longer such run for its apex; a disabled zone never shadows another.\<close>

theorem Find_most_specific:
  assumes "distinct (map (\<lambda>z. normalizeName (z_name (row z))) zs)"
  shows "Find L (NewIndex zs) qname = Some z \<longleftrightarrow>
    z \<in> set zs \<and> z_enabled (row z) \<and>
    (\<exists>i < length (SplitDomainName L (normalizeName qname)).
       normalizeName (z_name (row z)) = Join (drop i (SplitDomainName L (normalizeName qname))) ''.'' \<and>
       (\<forall>j < i. \<forall>z' \<in> set zs. z_enabled (row z') \<longrightarrow>
          normalizeName (z_name (row z')) \<noteq> Join (drop j (SplitDomainName L (normalizeName qname))) ''.''))"
  unfolding Find_def first_tail_Some find_at_Some [OF assms] find_at_None [OF assms] by blast

theorem Find_most_specific_witness:
  "distinct (map (\<lambda>z. normalizeName (z_name (row z))) [ex_zone]) \<and>
   (Find plain_lib (NewIndex [ex_zone]) ''x.e412.in'' = Some ex_zone \<longleftrightarrow>
    ex_zone \<in> set [ex_zone] \<and> z_enabled (row ex_zone) \<and>
    (\<exists>i < length (SplitDomainName plain_lib (normalizeName ''x.e412.in'')).
       normalizeName (z_name (row ex_zone)) =
         Join (drop i (SplitDomainName plain_lib (normalizeName ''x.e412.in''))) ''.'' \<and>
       (\<forall>j < i. \<forall>z' \<in> set [ex_zone]. z_enabled (row z') \<longrightarrow>
          normalizeName (z_name (row z')) \<noteq>
            Join (drop j (SplitDomainName plain_lib (normalizeName ''x.e412.in''))) ''.'')))"
proof -
  have d: "distinct (map (\<lambda>z. normalizeName (z_name (row z))) [ex_zone])" by simp
  show ?thesis using d Find_most_specific [OF d, of plain_lib "''x.e412.in''" ex_zone] by blast
qed



text \<open>An absent name has nothing below it (RFC 8020).  If a zone's name is absent in the sense of
  the previous property, then no stored name at or below it has a record, so a resolver that stops
  asking below an NXDOMAIN misses nothing.\<close>

theorem absent_subtree:
  assumes "name_absent L z rel" "zone_wf z"
    and "normalizeName n = normalizeName rel \<or> HasSuffix (normalizeName n) (''.'' @ normalizeName rel)"
  shows "rrs z n = []"
proof (rule ccontr)
  assume "rrs z n \<noteq> []"
  with assms(2) have k: "normalizeName n \<in> fst ` set (records z)"
    by (simp add: rrs_def zone_wf_def lookup_list_not_Nil)
  from assms(3) show False
  proof
    assume "normalizeName n = normalizeName rel"
    with assms(1) \<open>rrs z n \<noteq> []\<close> show False by (simp add: name_absent_def rrs_def)
  next
    assume "HasSuffix (normalizeName n) (''.'' @ normalizeName rel)"
    with k assms(1) show False by (auto simp: name_absent_def hasDescendant_def list_ex_iff)
  qed
qed

theorem absent_subtree_witness:
  "name_absent plain_lib ex_zone ''lost'' \<and> zone_wf ex_zone \<and> rrs ex_zone ''deep.lost'' = []"
proof -
  have a: "name_absent plain_lib ex_zone ''lost''" by code_simp
  have w: "zone_wf ex_zone" by (simp add: ex_zone_def)
  have s: "normalizeName ''deep.lost'' = normalizeName ''lost'' \<or>
    HasSuffix (normalizeName ''deep.lost'') (''.'' @ normalizeName ''lost'')" by code_simp
  show ?thesis using a w absent_subtree [OF a w s] by blast
qed

text \<open>A reply with an empty answer section can be cached.  When a zone that is entitled to answer
  leaves the answer section empty, the reply is either a referral (AA clear, NS records in the
  authority section) or carries, as its whole authority section, the zone's SOA with the TTL
  RFC 2308 asks for, the smaller of MINIMUM and the SOA's own TTL.\<close>

theorem negative_answer_carries_soa:
  assumes "Answer L z m qname qtype nowMs = (m', True)" "Serving z nowMs"
    and "m_answer m = []" "m_ns m = []" "m_answer m' = []"
  shows "(\<not> m_aa m' \<and> m_ns m' \<noteq> [] \<and> (\<forall>rr \<in> set (m_ns m'). \<exists>ns. rr_data rr = RD_NS ns)) \<or>
    m_ns m' = [negative_SOA L z]"
proof -
  let ?m = "m\<lparr>m_aa := True, m_rcode := RcodeSuccess\<rparr>" and ?rel = "RelName L qname (z_name (row z))"
  have m': "m' = resolve L z ?m (Fqdn L qname) ?rel qtype 0"
    using assms(1,2) by (auto simp: Answer_def split: if_splits)
  from resolve_empty_answer [of L z ?m "Fqdn L qname" ?rel qtype 0] m' assms(3-5)
  have "snd (referral L z ?m ?rel) \<or> m_ns m' = [negative_SOA L z]" by simp
  then show ?thesis
  proof
    assume r: "snd (referral L z ?m ?rel)"
    then obtain auth gl where
      "referral L z ?m ?rel =
         (?m\<lparr>m_aa := False, m_ns := m_ns ?m @ auth, m_extra := m_extra ?m @ gl\<rparr>, True)"
      "auth \<noteq> []" "\<forall>rr \<in> set auth. \<exists>ns. rr_data rr = RD_NS ns"
      by (rule referral_True)
    then show ?thesis using m' assms(4) by (simp add: resolve.simps)
  qed simp
qed

theorem negative_answer_carries_soa_witness:
  "m_ns (fst (Answer plain_lib ex_zone ex_msg ''b.e412.in'' 1 0)) = [negative_SOA plain_lib ex_zone]"
proof -
  let ?m' = "fst (Answer plain_lib ex_zone ex_msg ''b.e412.in'' 1 0)"
  have a: "Answer plain_lib ex_zone ex_msg ''b.e412.in'' 1 0 = (?m', True)" by (rule Answer_handled) (use ex_zone_handled in simp)
  have s: "Serving ex_zone 0" and e: "m_answer ex_msg = []" "m_ns ex_msg = []" by code_simp+
  have e': "m_answer ?m' = []" by code_simp
  have aa: "m_aa ?m'" by code_simp
  show ?thesis using negative_answer_carries_soa [OF a s e e'] aa by blast
qed

text \<open>A zone speaks only from its own enabled data.  Every record in the answer section is the
  zone's SOA or the record some enabled row of the zone stands for, parsed by the library.\<close>

theorem answer_from_enabled_rows:
  assumes "Answer L (NewZone zr recs) m qname qtype nowMs = (m', True)" "m_answer m = []"
    and "rr \<in> set (m_answer m')"
  shows "rr = SOA L (NewZone zr recs) \<or>
    (\<exists>rec \<in> set recs. zr_enabled rec \<and> (\<exists>fqdn. ToRR L fqdn rec = Inr rr))"
proof -
  let ?z = "NewZone zr recs" and ?m = "m\<lparr>m_aa := True, m_rcode := RcodeSuccess\<rparr>"
  have "m' = m\<lparr>m_rcode := RcodeServerFailure\<rparr> \<or>
      m' = resolve L ?z ?m (Fqdn L qname) (RelName L qname (z_name zr)) qtype 0"
    using assms(1) by (auto simp: Answer_def split: if_splits)
  with assms(2,3) have "rr \<in> set (m_answer (resolve L ?z ?m (Fqdn L qname)
      (RelName L qname (z_name zr)) qtype 0))" by auto
  then have "from_zone L ?z rr"
    using provenance.resolve_rel [of L ?z ?m "Fqdn L qname" "RelName L qname (z_name zr)" qtype 0]
      assms(2) by (auto simp: answer_extends_def)
  then show ?thesis by (auto simp: from_zone_def rrs_def NewZone_lookup)
qed

theorem answer_from_enabled_rows_witness:
  "\<exists>rr \<in> set (m_answer (fst (Answer plain_lib (NewZone ex_row [ex_rec 1 ''www'' ''A'' ''10.0.0.1''])
       ex_msg ''www.e412.in'' 1 0))).
     rr = SOA plain_lib (NewZone ex_row [ex_rec 1 ''www'' ''A'' ''10.0.0.1'']) \<or>
     (\<exists>rec \<in> set [ex_rec 1 ''www'' ''A'' ''10.0.0.1'']. zr_enabled rec \<and>
        (\<exists>fqdn. ToRR plain_lib fqdn rec = Inr rr))"
proof -
  let ?recs = "[ex_rec 1 ''www'' ''A'' ''10.0.0.1'']"
  let ?m' = "fst (Answer plain_lib (NewZone ex_row ?recs) ex_msg ''www.e412.in'' 1 0)"
  have a: "Answer plain_lib (NewZone ex_row ?recs) ex_msg ''www.e412.in'' 1 0 = (?m', True)"
    by (rule Answer_handled) (use ex_zone_handled in simp)
  have e: "m_answer ex_msg = []" by code_simp
  have "m_answer ?m' \<noteq> []" by code_simp
  then have r: "hd (m_answer ?m') \<in> set (m_answer ?m')" by (rule hd_in_set)
  show ?thesis using r answer_from_enabled_rows [OF a e r] by blast
qed

text \<open>CNAME chains end.  Whatever the zone holds, a loop included, an answer is at most eight
  CNAME records followed by one final record set: nothing, the SOA, or the records of the queried
  type at one name.\<close>

theorem cname_chain_bounded:
  assumes "Answer L z m qname qtype nowMs = (m', True)" "m_answer m = []"
  shows "\<exists>cs fin. m_answer m' = cs @ fin \<and> length cs \<le> maxCNAMEChase \<and> list_all is_CNAME cs \<and>
    (fin = [] \<or> fin = [SOA L z] \<or> (\<exists>fqdn recs. fin = typed_rrs L fqdn recs qtype))"
proof -
  let ?m = "m\<lparr>m_aa := True, m_rcode := RcodeSuccess\<rparr>" and ?rel = "RelName L qname (z_name (row z))"
  have "chain_shape L z qtype maxCNAMEChase (m_answer m')"
    using resolve_chain [of 0 L z ?m "Fqdn L qname" ?rel qtype] assms
    by (auto simp: Answer_def split: if_splits)
  then show ?thesis unfolding chain_shape_def chain_end_def .
qed

theorem cname_chain_bounded_witness:
  "length (m_answer (fst (Answer plain_lib (NewZone ex_row [ex_rec 1 ''loop'' ''CNAME'' ''loop.e412.in.''])
     ex_msg ''loop.e412.in'' 1 0))) = 8 \<and>
   (\<exists>cs fin. m_answer (fst (Answer plain_lib (NewZone ex_row [ex_rec 1 ''loop'' ''CNAME'' ''loop.e412.in.''])
     ex_msg ''loop.e412.in'' 1 0)) = cs @ fin \<and> length cs \<le> maxCNAMEChase)"
proof -
  let ?z = "NewZone ex_row [ex_rec 1 ''loop'' ''CNAME'' ''loop.e412.in.'']"
  let ?m' = "fst (Answer plain_lib ?z ex_msg ''loop.e412.in'' 1 0)"
  have a: "Answer plain_lib ?z ex_msg ''loop.e412.in'' 1 0 = (?m', True)" by (rule Answer_handled) (use ex_zone_handled in simp)
  have e: "m_answer ex_msg = []" by code_simp
  have l: "length (m_answer ?m') = 8" by code_simp
  show ?thesis using l cname_chain_bounded [OF a e] by blast
qed

text \<open>Data at or below a zone cut is never answered as the zone's own.  If some run of the last
  labels of the relative name owns an NS record the library accepts, then, whatever type is asked,
  the reply has AA clear, an empty answer section and NS records only in its authority section.\<close>

theorem cut_hides_data:
  assumes "RelName L qname (z_name (row z)) = rel" "rel \<noteq> apexName"
    and "i < length (SplitDomainName L (normalizeName rel))"
    and "cut_ns L z (Join (drop i (SplitDomainName L (normalizeName rel))) ''.'') \<noteq> []"
    and "Answer L z m qname qtype nowMs = (m', True)" "Serving z nowMs"
    and "m_answer m = []" "m_ns m = []"
  shows "\<not> m_aa m' \<and> m_answer m' = [] \<and> m_ns m' \<noteq> [] \<and>
    (\<forall>rr \<in> set (m_ns m'). \<exists>ns. rr_data rr = RD_NS ns)"
proof -
  let ?m = "m\<lparr>m_aa := True, m_rcode := RcodeSuccess\<rparr>"
  have m': "m' = resolve L z ?m (Fqdn L qname) rel qtype 0"
    using assms(1,5,6) by (auto simp: Answer_def split: if_splits)
  obtain auth gl where "referral L z ?m rel =
       (?m\<lparr>m_aa := False, m_ns := m_ns ?m @ auth, m_extra := m_extra ?m @ gl\<rparr>, True)"
      "auth \<noteq> []" "\<forall>rr \<in> set auth. \<exists>ns. rr_data rr = RD_NS ns"
    by (rule referral_True [OF referral_cut [OF assms(2-4)]])
  then show ?thesis using m' assms(7,8) by (simp add: resolve.simps)
qed

theorem cut_hides_data_witness:
  "\<not> m_aa (fst (Answer plain_lib ex_zone ex_msg ''ns.sub.e412.in'' 1 0)) \<and>
   m_answer (fst (Answer plain_lib ex_zone ex_msg ''ns.sub.e412.in'' 1 0)) = []"
proof -
  let ?m' = "fst (Answer plain_lib ex_zone ex_msg ''ns.sub.e412.in'' 1 0)"
  have r: "RelName plain_lib ''ns.sub.e412.in'' (z_name (row ex_zone)) = ''ns.sub''" by code_simp
  have n: "''ns.sub'' \<noteq> apexName" by simp
  have i: "1 < length (SplitDomainName plain_lib (normalizeName ''ns.sub''))" by code_simp
  have c: "cut_ns plain_lib ex_zone
      (Join (drop 1 (SplitDomainName plain_lib (normalizeName ''ns.sub''))) ''.'') \<noteq> []" by code_simp
  have a: "Answer plain_lib ex_zone ex_msg ''ns.sub.e412.in'' 1 0 = (?m', True)" by (rule Answer_handled) (use ex_zone_handled in simp)
  have s: "Serving ex_zone 0" and e: "m_answer ex_msg = []" "m_ns ex_msg = []" by code_simp+
  show ?thesis using cut_hides_data [OF r n i c a s e] by blast
qed

text \<open>A secondary that cannot vouch for its data says nothing.  A secondary that has never
  transferred, or whose data has expired, is answered for by the zone middleware itself with
  SERVFAIL and the decision \<open>error\<close>: no AA bit, no record in any section (so no SOA that would let
  a resolver cache the failure), and nothing is forwarded.\<close>

theorem stale_secondary_servfail:
  assumes "reply_laws L" "Find L snap (QName r) = Some z"
    and "m_question (rq_msg r) = [] \<or> q_class (hd (m_question (rq_msg r))) = ClassINET"
    and "EqualFold (z_type (row z)) ''secondary''"
    and "z_refreshed_at (row z) = 0 \<or> (z_expires_at (row z) \<noteq> 0 \<and> z_expires_at (row z) \<le> nowMs)"
  shows "\<exists>m. zone_middleware L snap nowMs next r w = (Returned (Some (reply m DecisionError)) None, w) \<and>
    m_rcode m = RcodeServerFailure \<and> \<not> m_aa m \<and> m_id m = m_id (rq_msg r) \<and>
    m_answer m = [] \<and> m_ns m = [] \<and> m_extra m = []"
proof -
  have ty: "ToLower (z_type (row z)) = ''secondary''"
    using assms(4) by (simp add: EqualFold_def lower_char_def)
  have ns: "\<not> Serving z nowMs" using assms(4,5) by (auto simp: Serving_def)
  have "zone_middleware L snap nowMs next r w =
      (Returned (Some (reply ((SetReply L (rq_msg r))\<lparr>m_rcode := RcodeServerFailure\<rparr>) DecisionError)) None, w)"
    using assms(2,3) ty ns by (auto simp: zone_middleware_def Answer_def)
  then show ?thesis using reply_laws_simps [OF assms(1)] by auto
qed

theorem stale_secondary_servfail_witness:
  "\<exists>m. zone_middleware plain_lib (NewIndex [ex_secondary]) 2000 (\<lambda>r w. (Panicked, w + 1))
      (ex_query ''www.e412.in.'' 1) (0 :: nat) = (Returned (Some (reply m DecisionError)) None, 0) \<and>
    m_rcode m = RcodeServerFailure \<and> m_ns m = []"
proof -
  have f: "Find plain_lib (NewIndex [ex_secondary]) (QName (ex_query ''www.e412.in.'' 1)) = Some ex_secondary"
    by code_simp
  have q: "m_question (rq_msg (ex_query ''www.e412.in.'' 1)) = [] \<or>
    q_class (hd (m_question (rq_msg (ex_query ''www.e412.in.'' 1)))) = ClassINET" by code_simp
  have t: "EqualFold (z_type (row ex_secondary)) ''secondary''" by code_simp
  have e: "z_refreshed_at (row ex_secondary) = 0 \<or>
    (z_expires_at (row ex_secondary) \<noteq> 0 \<and> z_expires_at (row ex_secondary) \<le> 2000)" by code_simp
  show ?thesis
    using stale_secondary_servfail [OF plain_reply_laws f q t e, of "\<lambda>r w. (Panicked, w + 1)" 0] by blast
qed

text \<open>A disabled record is indistinguishable from one that was never written.  Rebuilding the
  served snapshot from rows with their disabled records removed gives the very same snapshot, so
  no answer, denial or wildcard match can depend on a disabled record.\<close>

theorem disabled_records_invisible:
  "Reload (Inr rows) (Inr recs) snap =
   Reload (Inr rows) (Inr (\<lambda>i. filter zr_enabled (recs i))) snap'"
  by (simp add: Reload_def NewZone_enabled)

text \<open>An existing name is never answered by a wildcard.  At a name with records but none of the
  asked type (and no CNAME), and at an empty non-terminal, the zone answers NODATA, rcode 0 with its
  SOA, whatever wildcard records it holds.\<close>

theorem existing_name_nodata:
  assumes "Answer L z m qname qtype nowMs = (m', True)" "Serving z nowMs"
    and "RelName L qname (z_name (row z)) = rel" "\<not> snd (referral L z m rel)"
    and "rel \<noteq> apexName \<or> qtype \<noteq> TypeSOA"
    and "rrs z rel \<noteq> [] \<or> rel = apexName \<or> hasDescendant z rel"
    and "\<forall>r \<in> set (rrs z rel). rrType L r \<noteq> TypeCNAME \<and> rrType L r \<noteq> qtype"
  shows "m_rcode m' = RcodeSuccess \<and> m_aa m' \<and> m_answer m' = m_answer m \<and>
    m_ns m' = m_ns m @ [negative_SOA L z]"
proof -
  let ?m = "m\<lparr>m_aa := True, m_rcode := RcodeSuccess\<rparr>"
  have m': "m' = resolve L z ?m (Fqdn L qname) rel qtype 0"
    using assms(1,2,3) by (auto simp: Answer_def split: if_splits)
  have ref: "\<not> snd (referral L z ?m rel)"
    using assms(4) by (auto simp: referral_def split: option.splits if_splits)
  have none: "typed_rrs L fqdn (rrs z rel) qtype = []" for fqdn
    using assms(7) by (auto simp: typed_rrs_def List.map_filter_def filter_empty_conv)
  have nocname: "List.find (\<lambda>r. rrType L r = TypeCNAME) (rrs z rel) = None"
    using assms(7) by (auto simp: find_None_iff)
  have "resolve L z ?m (Fqdn L qname) rel qtype 0 = deny L z ?m RcodeSuccess"
    using assms(5,6) ref none nocname
    by (cases rule: resolve_cases [of L z ?m rel "Fqdn L qname" qtype 0])
       (auto simp: fill_or_deny_def fill.simps)
  then show ?thesis using m' by simp
qed

theorem existing_name_nodata_witness:
  "m_rcode (fst (Answer plain_lib (NewZone ex_row [ex_rec 1 ''*'' ''A'' ''10.0.0.9'',
      ex_rec 2 ''www'' ''TXT'' ''x'']) ex_msg ''www.e412.in'' 1 0)) = RcodeSuccess"
proof -
  let ?z = "NewZone ex_row [ex_rec 1 ''*'' ''A'' ''10.0.0.9'', ex_rec 2 ''www'' ''TXT'' ''x'']"
  let ?m' = "fst (Answer plain_lib ?z ex_msg ''www.e412.in'' 1 0)"
  have a: "Answer plain_lib ?z ex_msg ''www.e412.in'' 1 0 = (?m', True)"
    by (rule Answer_handled) (use ex_zone_handled in simp)
  have s: "Serving ?z 0" by code_simp
  have rel: "RelName plain_lib ''www.e412.in'' (z_name (row ?z)) = ''www''" by code_simp
  have ref: "\<not> snd (referral plain_lib ?z ex_msg ''www'')" by code_simp
  have ap: "''www'' \<noteq> apexName \<or> (1 :: u16) \<noteq> TypeSOA" by simp
  have ex: "rrs ?z ''www'' \<noteq> [] \<or> ''www'' = apexName \<or> hasDescendant ?z ''www''" by code_simp
  have ty: "\<forall>r \<in> set (rrs ?z ''www''). rrType plain_lib r \<noteq> TypeCNAME \<and> rrType plain_lib r \<noteq> 1"
    by code_simp
  show ?thesis using existing_name_nodata [OF a s rel ref ap ex ty] by blast
qed

text \<open>With nested cuts the walk stops at the cut nearest the name, although NS records stored below
  an outer cut belong to the child.\<close>

lemma nested_cut_serves_occluded_ns:
  "m_ns (fst (Answer plain_lib (NewZone ex_row [ex_rec 1 ''b'' ''NS'' ''ns.outer.'',
       ex_rec 2 ''a.b'' ''NS'' ''ns.inner.'']) ex_msg ''x.a.b.e412.in'' 1 0)) =
   [RR \<lparr>h_name = ''a.b.e412.in.'', h_rrtype = TypeNS, h_class = ClassINET, h_ttl = 300\<rparr> (RD_NS ''ns.inner.'')]"
  by code_simp

end
