(* ===== verification/Cache.thy ===== *)
theory Cache
  imports Pipeline Domain_Set
begin

text \<open>
  The answer cache of \<open>internal/cache/cache.go\<close>: entries keyed by name and type, a recency list, the
  epoch that purges advance, and the middleware that answers from it, stores into it and falls back
  to stale entries.  Times and durations are nanoseconds.  The entries map is an association list and
  an entry's list element is its key; a copy of a message is the message.
\<close>

type_synonym ckey = "string \<times> u16"

record Options =
  MinTTL :: int
  MaxTTL :: int
  NegTTL :: int
  ServeStaleFor :: int
  MaxEntries :: int

record entry =
  en_msg :: msg
  en_storedAt :: int
  en_ttl :: int

record Cache =
  c_entries :: "(ckey \<times> entry) list"
  c_lru :: "ckey list"
  c_o :: Options
  c_epoch :: u64

definition New :: "Options \<Rightarrow> Cache" where
  "New o' =
     (let o' = (if MaxTTL o' = 0 then o'\<lparr>MaxTTL := 24 * 3600 * Second\<rparr> else o');
          o' = (if NegTTL o' = 0 then o'\<lparr>NegTTL := 30 * Second\<rparr> else o');
          o' = (if ServeStaleFor o' = 0 then o'\<lparr>ServeStaleFor := 24 * 3600 * Second\<rparr> else o');
          o' = (if MaxEntries o' = 0 then o'\<lparr>MaxEntries := 10000\<rparr> else o')
      in \<lparr>c_entries = [], c_lru = [], c_o = o', c_epoch = 0\<rparr>)"

definition cache_Len :: "Cache \<Rightarrow> nat" where
  "cache_Len c = length (c_entries c)"

section \<open>Operations\<close>

definition removeLocked :: "ckey \<Rightarrow> Cache \<Rightarrow> Cache" where
  "removeLocked k c =
     (case map_of (c_entries c) k of
        None \<Rightarrow> c
      | Some e \<Rightarrow> c\<lparr>c_lru := remove1 k (c_lru c), c_entries := filter (\<lambda>x. fst x \<noteq> k) (c_entries c)\<rparr>)"

definition nameUnder :: "string \<Rightarrow> string list \<Rightarrow> bool" where
  "nameUnder name sfxs =
     list_ex (\<lambda>s. name = s \<or>
        (length name > length s + 1 \<and> name ! (length name - length s - 1) = CHR ''.'' \<and> HasSuffix name s))
       sfxs"

text \<open>The loop over the map visits every key once, in some order; the removals commute, so the order of
  the list will do.\<close>

definition Purge :: "string list \<Rightarrow> Cache \<Rightarrow> nat \<times> Cache" where
  "Purge sfxs c =
     (let norm = filter (\<lambda>s. s \<noteq> []) (map (\<lambda>s. ToLower (TrimSuffix s ''.'')) sfxs)
      in if norm = [] then (0, c)
         else fold (\<lambda>(k, _) (n, c). if nameUnder (fst k) norm then (n + 1, removeLocked k c) else (n, c))
                (c_entries c) (0, c\<lparr>c_epoch := c_epoch c + 1\<rparr>))"

definition MoveToFront :: "ckey \<Rightarrow> ckey list \<Rightarrow> ckey list" where
  "MoveToFront k lru = k # remove1 k lru"

text \<open>\<open>get\<close> returns the fresh and the stale entry.\<close>

definition get :: "int \<Rightarrow> ckey \<Rightarrow> Cache \<Rightarrow> (entry option \<times> entry option) \<times> Cache" where
  "get now k c =
     (case map_of (c_entries c) k of
        None \<Rightarrow> ((None, None), c)
      | Some e \<Rightarrow>
          (let age = now - en_storedAt e; c = c\<lparr>c_lru := MoveToFront k (c_lru c)\<rparr>
           in if age < en_ttl e then ((Some e, None), c)
              else if age < en_ttl e + ServeStaleFor (c_o c) then ((None, Some e), c)
              else ((None, None), removeLocked k c)))"

text \<open>The eviction loop of \<open>put\<close>; \<open>None\<close> is its panic on an empty list, or not coming to an end.\<close>

partial_function (option) evict :: "Cache \<Rightarrow> Cache option" where
  [code]: "evict c =
     (if int (length (c_entries c)) > MaxEntries (c_o c)
      then (if c_lru c = [] then None else evict (removeLocked (last (c_lru c)) c))
      else Some c)"

definition put :: "int \<Rightarrow> ckey \<Rightarrow> msg \<Rightarrow> int \<Rightarrow> u64 \<Rightarrow> Cache \<Rightarrow> Cache option" where
  "put now k m ttl epoch c =
     (if c_epoch c \<noteq> epoch then Some c
      else let c = removeLocked k c;
               e = \<lparr>en_msg = m, en_storedAt = now, en_ttl = ttl\<rparr>
           in evict (c\<lparr>c_lru := k # c_lru c, c_entries := (k, e) # c_entries c\<rparr>))"

section \<open>Times to live\<close>

definition clamp :: "int \<Rightarrow> int \<Rightarrow> int \<Rightarrow> int" where
  "clamp d lo hi = (if d < lo then lo else if d > hi then hi else d)"

fun first_soa :: "rr list \<Rightarrow> (u32 \<times> u32) option" where
  "first_soa [] = None"
| "first_soa (r # rs) =
     (case rr_data r of RD_SOA s \<Rightarrow> Some (soa_minttl s, h_ttl (rr_hdr r)) | _ \<Rightarrow> first_soa rs)"

definition respTTL :: "Options \<Rightarrow> msg \<Rightarrow> int option" where
  "respTTL o' m =
     (if m_rcode m \<noteq> RcodeSuccess \<and> m_rcode m \<noteq> RcodeNameError then None
      else if m_answer m = [] then
        (let ttl = (case first_soa (m_ns m) of
                      None \<Rightarrow> NegTTL o'
                    | Some (mn, t) \<Rightarrow> uint (min mn t) * Second)
         in Some (clamp ttl (MinTTL o') (MaxTTL o')))
      else
        (let minTTL = fold (\<lambda>r t. if h_ttl (rr_hdr r) < t then h_ttl (rr_hdr r) else t) (m_answer m) (- 1 :: u32)
         in Some (clamp (uint minTTL * Second) (MinTTL o') (MaxTTL o'))))"

definition rewriteQuestion :: "msg \<Rightarrow> request \<Rightarrow> msg" where
  "rewriteQuestion m r =
     (case (m_question (rq_msg r), m_question m) of
        (qn # _, qo # _) \<Rightarrow>
          map_rrs (\<lambda>h. if EqualFold (h_name h) (q_name qo) then h\<lparr>h_name := q_name qn\<rparr> else h)
            (m\<lparr>m_question := m_question (rq_msg r)\<rparr>)
      | _ \<Rightarrow> m)"

definition withTTLs :: "msg \<Rightarrow> (u32 \<Rightarrow> u32) \<Rightarrow> msg" where
  "withTTLs m set' = map_rrs (\<lambda>h. if h_rrtype h \<noteq> TypeOPT then h\<lparr>h_ttl := set' (h_ttl h)\<rparr> else h) m"

section \<open>The middleware\<close>

text \<open>\<open>uint32(d / time.Second)\<close>: integer division of durations truncates toward zero, the conversion
  wraps.\<close>

definition age_seconds :: "int \<Rightarrow> u32" where
  "age_seconds d = word_of_int (sgn d * (\<bar>d\<bar> div Second))"

definition fresh_reply :: "int \<Rightarrow> entry \<Rightarrow> request \<Rightarrow> response" where
  "fresh_reply now e r =
     (let age = age_seconds (now - en_storedAt e);
          m = withTTLs (en_msg e) (\<lambda>cur. if cur \<le> age then 1 else cur - age)
      in reply (rewriteQuestion (m\<lparr>m_id := m_id (rq_msg r)\<rparr>) r) DecisionCached)"

definition stale_reply :: "entry \<Rightarrow> request \<Rightarrow> response" where
  "stale_reply e r =
     (let m = withTTLs (en_msg e) (\<lambda>_. 30)
      in reply (rewriteQuestion (m\<lparr>m_id := m_id (rq_msg r)\<rparr>) r) DecisionStale)"

definition own_copy :: "response \<Rightarrow> msg \<Rightarrow> request \<Rightarrow> response" where
  "own_copy resp m r = resp\<lparr>rs_msg := Some (rewriteQuestion (m\<lparr>m_id := m_id (rq_msg r)\<rparr>) r)\<rparr>"

text \<open>What the function given to the single-flight group does after the next handler returned.\<close>

definition store_answer :: "int \<Rightarrow> ckey \<Rightarrow> u64 \<Rightarrow> response option \<Rightarrow> string option \<Rightarrow> Cache \<Rightarrow> Cache option" where
  "store_answer now k epoch resp err c =
     (case (err, resp) of
        (None, Some rs) \<Rightarrow>
          (case rs_msg rs of
             Some m \<Rightarrow>
               if rs_decision rs = DecisionForwarded
               then (case respTTL (c_o c) m of None \<Rightarrow> Some c | Some ttl \<Rightarrow> put now k m ttl epoch c)
               else Some c
           | None \<Rightarrow> Some c)
      | _ \<Rightarrow> Some c)"

text \<open>What every caller of the group, leader or follower, does with the shared result.\<close>

definition finish :: "int \<Rightarrow> ckey \<Rightarrow> request \<Rightarrow> response option \<Rightarrow> string option \<Rightarrow> Cache \<Rightarrow> outcome \<times> Cache" where
  "finish now k r resp err c =
     (let m = (case resp of None \<Rightarrow> None | Some rs \<Rightarrow> rs_msg rs);
          failed = (err \<noteq> None \<or> m = None \<or> m_rcode (the m) = RcodeServerFailure)
      in if failed then
           (case get now k c of
              ((_, Some stale), c) \<Rightarrow> (Returned (Some (stale_reply stale r)) None, c)
            | ((_, None), c) \<Rightarrow>
                (case (resp, m) of
                   (Some rs, Some m) \<Rightarrow> (Returned (Some (own_copy rs m r)) err, c)
                 | _ \<Rightarrow> (Returned resp err, c)))
         else (Returned (Some (own_copy (the resp) (the m) r)) None, c))"

text \<open>The middleware for a caller that leads its group.  \<open>clock\<close> are the readings of the clock, in order;
  the state of everything below may change the cache too, as a concurrent purge does.\<close>

definition cache_middleware :: "(nat \<Rightarrow> int) \<Rightarrow> (Cache \<times> 'v) middleware" where
  "cache_middleware clock next r w =
     (case w of (c, v) \<Rightarrow>
        if length (m_question (rq_msg r)) \<noteq> 1 \<or> q_class (hd (m_question (rq_msg r))) \<noteq> ClassINET
        then next r (c, v)
        else let epoch = c_epoch c; k = (QName r, QType r)
             in case get (clock 0) k c of
                  ((Some fresh, _), c) \<Rightarrow> (Returned (Some (fresh_reply (clock 1) fresh r)) None, (c, v))
                | ((None, _), c) \<Rightarrow>
                    (case next r (c, v) of
                       (Panicked, w) \<Rightarrow> (Panicked, w)
                     | (Returned resp err, (c, v)) \<Rightarrow>
                         (case store_answer (clock 2) k epoch resp err c of
                            None \<Rightarrow> (Panicked, (c, v))
                          | Some c \<Rightarrow>
                              (case finish (clock 3) k r resp err c of (out, c) \<Rightarrow> (out, (c, v))))))"

section \<open>The invariant\<close>

text \<open>The recency list holds exactly the keys of the map, each once.\<close>

definition linked :: "Cache \<Rightarrow> bool" where
  "linked c \<longleftrightarrow> distinct (map fst (c_entries c)) \<and> distinct (c_lru c) \<and> set (c_lru c) = fst ` set (c_entries c)"

definition cache_ok :: "Cache \<Rightarrow> bool" where
  "cache_ok c \<longleftrightarrow> linked c \<and> 0 < MaxEntries (c_o c) \<and> int (length (c_entries c)) \<le> MaxEntries (c_o c)"

lemma linked_length: "linked c \<Longrightarrow> length (c_lru c) = length (c_entries c)"
  unfolding linked_def by (metis distinct_card length_map set_map)

lemma removeLocked_frame [simp]:
  "c_o (removeLocked k c) = c_o c" "c_epoch (removeLocked k c) = c_epoch c"
  by (simp_all add: removeLocked_def split: option.splits)

lemma map_of_filter_key:
  "map_of (filter (\<lambda>x. fst x \<noteq> k) al) j = (if j = k then None else map_of al j)"
  by (induction al) auto

lemma removeLocked_lookup [simp]:
  "map_of (c_entries (removeLocked k c)) j = (if j = k then None else map_of (c_entries c) j)"
  by (auto simp: removeLocked_def map_of_filter_key split: option.splits)

lemma removeLocked_entries:
  "linked c \<Longrightarrow> c_entries (removeLocked k c) = filter (\<lambda>x. fst x \<noteq> k) (c_entries c)"
  by (auto simp: removeLocked_def map_of_eq_None_iff image_iff split: option.splits intro!: filter_True [symmetric])

lemma removeLocked_linked: "linked c \<Longrightarrow> linked (removeLocked k c)"
proof -
  assume l: "linked c"
  then have "set (remove1 k (c_lru c)) = set (c_lru c) - {k}" by (simp add: linked_def)
  with l show ?thesis
    by (auto simp: linked_def removeLocked_def distinct_map_filter split: option.splits)
qed

lemma removeLocked_length: "length (c_entries (removeLocked k c)) \<le> length (c_entries c)"
  by (simp add: removeLocked_def split: option.splits)

lemma removeLocked_last:
  assumes "linked c" "c_lru c \<noteq> []"
  shows "c_lru (removeLocked (last (c_lru c)) c) = butlast (c_lru c)"
    "length (c_entries (removeLocked (last (c_lru c)) c)) < length (c_entries c)"
proof -
  have d: "distinct (c_lru c)" and k: "last (c_lru c) \<in> fst ` set (c_entries c)"
    using assms by (auto simp: linked_def)
  have "remove1 (last (c_lru c)) (c_lru c) = butlast (c_lru c)"
    using d assms(2) by (metis append_butlast_last_id distinct1_rotate distinct_append remove1_append rotate1.simps(2) remove1.simps(2) remove1_idem append_Nil2 not_distinct_conv_prefix)
  with k show "c_lru (removeLocked (last (c_lru c)) c) = butlast (c_lru c)"
    by (auto simp: removeLocked_def map_of_eq_None_iff split: option.splits)
  have "filter (\<lambda>x. fst x \<noteq> last (c_lru c)) (c_entries c) \<noteq> c_entries c"
    using k by (force simp: filter_id_conv)
  then show "length (c_entries (removeLocked (last (c_lru c)) c)) < length (c_entries c)"
    unfolding removeLocked_entries [OF assms(1)] by (metis length_filter_less filter_id_conv)
qed

text \<open>Eviction always ends, within the bound, and never takes the entry just stored.\<close>

lemma evict_total:
  assumes "linked c" "0 < MaxEntries (c_o c)" "c_lru c = k # rest"
  shows "\<exists>c'. evict c = Some c' \<and> cache_ok c' \<and> map_of (c_entries c') k = map_of (c_entries c) k \<and>
    c_o c' = c_o c \<and> c_epoch c' = c_epoch c \<and>
    (\<forall>j e. map_of (c_entries c') j = Some e \<longrightarrow> map_of (c_entries c) j = Some e)"
  using assms
proof (induction "length (c_entries c)" arbitrary: c rest rule: less_induct)
  case less
  show ?case
  proof (cases "int (length (c_entries c)) > MaxEntries (c_o c)")
    case False
    with less.prems show ?thesis by (auto simp: evict.simps [of c] cache_ok_def)
  next
    case True
    let ?k = "last (c_lru c)" and ?c = "removeLocked (last (c_lru c)) c"
    have ne: "c_lru c \<noteq> []" using less.prems by simp
    have len: "length (c_lru c) \<ge> 2" using True less.prems(2) linked_length [OF less.prems(1)] by linarith
    then have rest: "rest \<noteq> []" using less.prems(3) by auto
    then have kk: "?k \<noteq> k" using less.prems(1,3) by (auto simp: linked_def)
    have "c_lru ?c = k # butlast rest" using removeLocked_last(1) [OF less.prems(1) ne] less.prems(3) rest by simp
    from less.hyps [OF removeLocked_last(2) [OF less.prems(1) ne] removeLocked_linked [OF less.prems(1)] _ this]
    obtain c' where "evict ?c = Some c'" "cache_ok c'" "map_of (c_entries c') k = map_of (c_entries ?c) k"
      "c_o c' = c_o c" "c_epoch c' = c_epoch c" "\<forall>j e. map_of (c_entries c') j = Some e \<longrightarrow> map_of (c_entries ?c) j = Some e"
      using less.prems(2) by auto
    moreover from this(6) have "\<forall>j e. map_of (c_entries c') j = Some e \<longrightarrow> map_of (c_entries c) j = Some e"
      by (metis removeLocked_lookup option.distinct(1))
    ultimately show ?thesis using True ne kk by (simp add: evict.simps [of c])
  qed
qed

lemma removeLocked_ok: "cache_ok c \<Longrightarrow> cache_ok (removeLocked k c)"
  using removeLocked_length [of k c] by (auto simp: cache_ok_def removeLocked_linked)

text \<open>Storing: the entry is there afterwards, and every other entry is an old one.\<close>

lemma put_total:
  assumes "cache_ok c"
  shows "\<exists>c'. put now k m ttl epoch c = Some c' \<and> cache_ok c' \<and> c_o c' = c_o c \<and> c_epoch c' = c_epoch c \<and>
    (if epoch = c_epoch c
     then map_of (c_entries c') k = Some \<lparr>en_msg = m, en_storedAt = now, en_ttl = ttl\<rparr> \<and>
          (\<forall>j e. j \<noteq> k \<longrightarrow> map_of (c_entries c') j = Some e \<longrightarrow> map_of (c_entries c) j = Some e)
     else c' = c)"
proof (cases "c_epoch c = epoch")
  case True
  let ?c = "removeLocked k c"
  let ?e = "\<lparr>en_msg = m, en_storedAt = now, en_ttl = ttl\<rparr>"
  let ?c1 = "?c\<lparr>c_lru := k # c_lru ?c, c_entries := (k, ?e) # c_entries ?c\<rparr>"
  have l: "linked ?c" using assms by (simp add: cache_ok_def removeLocked_linked)
  have "k \<notin> fst ` set (c_entries ?c)" by (metis map_of_eq_None_iff removeLocked_lookup)
  with l have l1: "linked ?c1" by (auto simp: linked_def)
  have "0 < MaxEntries (c_o ?c1)" "c_lru ?c1 = k # c_lru ?c" using assms by (simp_all add: cache_ok_def)
  from evict_total [OF l1 this] obtain c' where c': "evict ?c1 = Some c'" "cache_ok c'"
    "map_of (c_entries c') k = map_of (c_entries ?c1) k" "c_o c' = c_o ?c1" "c_epoch c' = c_epoch ?c1"
    "\<forall>j e. map_of (c_entries c') j = Some e \<longrightarrow> map_of (c_entries ?c1) j = Some e" by blast
  moreover have "put now k m ttl epoch c = evict ?c1" using True by (simp add: put_def Let_def)
  moreover from c'(6) have "\<forall>j e. j \<noteq> k \<longrightarrow> map_of (c_entries c') j = Some e \<longrightarrow> map_of (c_entries c) j = Some e"
    by (auto split: if_splits)
  ultimately show ?thesis using True by auto
next
  case False
  then show ?thesis using assms by (auto simp: put_def)
qed

lemma get_ok:
  assumes "cache_ok c" "get now k c = (fs, c')"
  shows "cache_ok c' \<and> c_o c' = c_o c \<and> c_epoch c' = c_epoch c \<and>
    (\<forall>j e. map_of (c_entries c') j = Some e \<longrightarrow> map_of (c_entries c) j = Some e)"
proof (cases "map_of (c_entries c) k")
  case None
  with assms show ?thesis by (auto simp: get_def)
next
  case (Some e)
  let ?c = "c\<lparr>c_lru := MoveToFront k (c_lru c)\<rparr>"
  have "k \<in> set (c_lru c)" using assms(1) map_of_SomeD [OF Some] by (force simp: cache_ok_def linked_def)
  with assms(1) have ok: "cache_ok ?c" by (auto simp: cache_ok_def linked_def MoveToFront_def)
  have "c' = ?c \<or> c' = removeLocked k ?c" using assms(2) Some by (auto simp: get_def Let_def split: if_splits)
  with ok removeLocked_ok [OF ok, of k] show ?thesis by (auto split: if_splits)
qed

section \<open>Purging\<close>

lemma under_one:
  "(n = s \<or> (length n > length s + 1 \<and> n ! (length n - length s - 1) = CHR ''.'' \<and> HasSuffix n s)) \<longleftrightarrow>
     covers s n \<and> n \<noteq> ''.'' @ s"
proof (cases "n = s")
  case False
  show ?thesis
  proof
    assume "n = s \<or> (length n > length s + 1 \<and> n ! (length n - length s - 1) = CHR ''.'' \<and> HasSuffix n s)"
    with False obtain zs where n: "n = zs @ s" and zs: "length zs > 1" "(zs @ s) ! (length zs - 1) = CHR ''.''"
      by (auto simp: HasSuffix_suffix suffix_def)
    then have "zs \<noteq> []" "zs ! (length zs - 1) = CHR ''.''" by (auto simp: nth_append split: if_splits)
    then have "last zs = CHR ''.''" "zs \<noteq> []" by (simp_all add: last_conv_nth)
    then have "zs = butlast zs @ ''.''" by (metis append_butlast_last_id)
    then have "n = butlast zs @ ''.'' @ s" using n by (metis append.assoc)
    then have "HasSuffix n (''.'' @ s)" unfolding HasSuffix_suffix suffix_def by blast
    then show "covers s n \<and> n \<noteq> ''.'' @ s" using n zs(1) by (auto simp: covers_def)
  next
    assume "covers s n \<and> n \<noteq> ''.'' @ s"
    with False obtain zs where "n = zs @ ''.'' @ s" "zs \<noteq> []"
      by (auto simp: covers_def HasSuffix_suffix suffix_def)
    then show "n = s \<or> (length n > length s + 1 \<and> n ! (length n - length s - 1) = CHR ''.'' \<and> HasSuffix n s)"
      by (auto simp: nth_append HasSuffix_suffix suffix_def)
  qed
qed simp

text \<open>\<open>nameUnder\<close> is the same label-wise notion the domain sets use; only a name with an empty first
  label, which no query has, is outside.\<close>

lemma nameUnder_covers: "nameUnder n ss \<longleftrightarrow> (\<exists>s \<in> set ss. covers s n \<and> n \<noteq> ''.'' @ s)"
  unfolding nameUnder_def list_ex_iff under_one ..

definition purge_names :: "string list \<Rightarrow> string list" where
  "purge_names sfxs = filter (\<lambda>s. s \<noteq> []) (map (\<lambda>s. ToLower (TrimSuffix s ''.'')) sfxs)"

lemma purge_fold:
  assumes "linked c" "distinct (map fst es)" "set es \<subseteq> set (c_entries c)"
    and "fold (\<lambda>(k, _) (n, c). if nameUnder (fst k) norm then (n + 1, removeLocked k c) else (n, c)) es (n, c) = (n', c')"
  shows "linked c' \<and> c_o c' = c_o c \<and> c_epoch c' = c_epoch c \<and>
    n' = n + length (filter (\<lambda>x. nameUnder (fst (fst x)) norm) es) \<and>
    c_entries c' = filter (\<lambda>x. \<not> (fst x \<in> fst ` set es \<and> nameUnder (fst (fst x)) norm)) (c_entries c)"
  using assms
proof (induction es arbitrary: n c)
  case (Cons x es)
  obtain k e where x: "x = (k, e)" by (cases x)
  show ?case
  proof (cases "nameUnder (fst k) norm")
    case True
    have sub: "set es \<subseteq> set (c_entries (removeLocked k c))"
      using Cons.prems by (auto simp: x removeLocked_entries rev_image_eqI)
    have "fold (\<lambda>(k, _) (n, c). if nameUnder (fst k) norm then (n + 1, removeLocked k c) else (n, c)) es
        (n + 1, removeLocked k c) = (n', c')" using Cons.prems(4) True by (simp add: x)
    from Cons.IH [OF removeLocked_linked [OF Cons.prems(1)] _ sub this] Cons.prems(1,2) True
    show ?thesis by (auto simp: x removeLocked_entries intro!: filter_cong)
  next
    case False
    with Cons show ?thesis by (auto simp: x intro!: filter_cong)
  qed
qed simp

lemma Purge_spec:
  assumes "cache_ok c" "Purge sfxs c = (n, c')"
  shows "cache_ok c' \<and> c_o c' = c_o c \<and>
    c_epoch c' = (if purge_names sfxs = [] then c_epoch c else c_epoch c + 1) \<and>
    c_entries c' = filter (\<lambda>x. \<not> nameUnder (fst (fst x)) (purge_names sfxs)) (c_entries c) \<and>
    n = length (filter (\<lambda>x. nameUnder (fst (fst x)) (purge_names sfxs)) (c_entries c))"
proof (cases "purge_names sfxs = []")
  case True
  have "\<not> nameUnder m []" for m by (simp add: nameUnder_def)
  with True assms show ?thesis by (auto simp: Purge_def purge_names_def [symmetric])
next
  case False
  let ?c = "c\<lparr>c_epoch := c_epoch c + 1\<rparr>"
  have l: "linked ?c" "distinct (map fst (c_entries c))" "set (c_entries c) \<subseteq> set (c_entries ?c)"
    using assms(1) by (auto simp: cache_ok_def linked_def)
  have f: "fold (\<lambda>(k, _) (n, c). if nameUnder (fst k) (purge_names sfxs) then (n + 1, removeLocked k c) else (n, c))
      (c_entries c) (0, ?c) = (n, c')"
    using assms(2) False by (simp add: Purge_def purge_names_def [symmetric])
  note p = purge_fold [OF l f]
  have e: "c_entries c' = filter (\<lambda>x. \<not> nameUnder (fst (fst x)) (purge_names sfxs)) (c_entries c)"
    using p by (auto intro!: filter_cong)
  then have "length (c_entries c') \<le> length (c_entries c)" by simp
  with assms(1) have le: "int (length (c_entries c')) \<le> MaxEntries (c_o c)" "0 < MaxEntries (c_o c)"
    by (simp_all add: cache_ok_def)
  from p have "linked c'" "c_o c' = c_o c" "c_epoch c' = c_epoch c + 1"
    "n = length (filter (\<lambda>x. nameUnder (fst (fst x)) (purge_names sfxs)) (c_entries c))" by auto
  with le e False show ?thesis by (simp add: cache_ok_def)
qed

section \<open>Interleavings\<close>

text \<open>What any number of queries and zone changes do to the cache, one critical section at a time.\<close>

datatype cache_op =
    OpGet int ckey
  | OpPut int ckey msg int u64
  | OpPurge "string list"

primrec cache_step :: "cache_op \<Rightarrow> Cache \<Rightarrow> Cache option" where
  "cache_step (OpGet now k) c = Some (snd (get now k c))"
| "cache_step (OpPut now k m ttl ep) c = put now k m ttl ep c"
| "cache_step (OpPurge sfxs) c = Some (snd (Purge sfxs c))"

fun cache_run :: "cache_op list \<Rightarrow> Cache \<Rightarrow> Cache option" where
  "cache_run [] c = Some c"
| "cache_run (x # xs) c = (case cache_step x c of None \<Rightarrow> None | Some c' \<Rightarrow> cache_run xs c')"

definition real_purge :: "cache_op \<Rightarrow> bool" where
  "real_purge x = (case x of OpPurge sfxs \<Rightarrow> purge_names sfxs \<noteq> [] | _ \<Rightarrow> False)"

lemma cache_step_ok:
  assumes "cache_ok c"
  shows "\<exists>c'. cache_step x c = Some c' \<and> cache_ok c' \<and> c_o c' = c_o c \<and>
    c_epoch c' = c_epoch c + (if real_purge x then 1 else 0)"
proof (cases x)
  case (OpGet now k)
  obtain fs c' where "get now k c = (fs, c')" by (metis prod.exhaust)
  with get_ok [OF assms this] OpGet show ?thesis by (simp add: real_purge_def)
next
  case (OpPut now k m ttl ep)
  with put_total [OF assms, of now k m ttl ep] show ?thesis by (auto simp: real_purge_def)
next
  case (OpPurge sfxs)
  obtain n c' where "Purge sfxs c = (n, c')" by (metis prod.exhaust)
  with Purge_spec [OF assms this] OpPurge show ?thesis by (simp add: real_purge_def)
qed

lemma cache_run_ok:
  assumes "cache_ok c"
  shows "\<exists>c'. cache_run xs c = Some c' \<and> cache_ok c' \<and> c_o c' = c_o c \<and>
    c_epoch c' = c_epoch c + of_nat (length (filter real_purge xs))"
  using assms
proof (induction xs arbitrary: c)
  case (Cons x xs)
  from cache_step_ok [OF Cons.prems, of x] obtain c1 where c1: "cache_step x c = Some c1" "cache_ok c1" "c_o c1 = c_o c"
    "c_epoch c1 = c_epoch c + (if real_purge x then 1 else 0)" by blast
  with Cons.IH [OF c1(2)] show ?case by auto
qed simp

lemma epoch_moved: "n < 2 ^ 64 \<Longrightarrow> 0 < n \<Longrightarrow> (e :: u64) + of_nat n \<noteq> e"
  by (auto simp: word_of_nat_eq_0_iff dest: dvd_imp_le)

section \<open>Properties\<close>

text \<open>C11: the cache stays consistent and bounded under every interleaving.  From a new cache with a
  positive limit, any sequence of lookups, stores and purges runs to its end, no store panics or
  loops, and afterwards the recency list holds exactly the cached keys, each once, and there are at
  most \<open>MaxEntries\<close> of them.\<close>

theorem cache_bounded:
  assumes "0 \<le> MaxEntries o'"
  shows "\<exists>c. cache_run xs (New o') = Some c \<and> linked c \<and>
    int (cache_Len c) \<le> (if MaxEntries o' = 0 then 10000 else MaxEntries o')"
proof -
  have "cache_ok (New o')" using assms by (auto simp: cache_ok_def linked_def New_def Let_def)
  moreover have "MaxEntries (c_o (New o')) = (if MaxEntries o' = 0 then 10000 else MaxEntries o')"
    by (simp add: New_def Let_def)
  ultimately show ?thesis using cache_run_ok [of "New o'" xs] by (auto simp: cache_ok_def cache_Len_def)
qed

text \<open>An answer obtained before a purge is never stored after it.  A lookup that read the epoch and
  went upstream stores nothing if, whatever else happened meanwhile, at least one purge (and fewer
  than \<open>2^64\<close>) ran before its store; without one, and with room, it is stored.\<close>

theorem purge_refuses_in_flight:
  assumes "cache_ok c" "length (filter real_purge xs) < 2 ^ 64" "cache_run xs c = Some c'"
  shows "\<exists>c''. put now k m ttl (c_epoch c) c' = Some c'' \<and>
    (if \<exists>x \<in> set xs. real_purge x then c'' = c'
     else map_of (c_entries c'') k = Some \<lparr>en_msg = m, en_storedAt = now, en_ttl = ttl\<rparr>)"
proof -
  from cache_run_ok [OF assms(1), of xs] assms(3) have ok: "cache_ok c'"
    and ep: "c_epoch c' = c_epoch c + of_nat (length (filter real_purge xs))" by auto
  have "c_epoch c = c_epoch c' \<longleftrightarrow> \<not> (\<exists>x \<in> set xs. real_purge x)"
    using epoch_moved [OF assms(2), of "c_epoch c"] ep by (auto simp: filter_empty_conv)
  with put_total [OF ok, of now k m ttl "c_epoch c"] show ?thesis by (auto split: if_splits)
qed

text \<open>A purge removes exactly the names it is asked to.  Afterwards an entry is cached if and only if
  it was before and its name is neither one of the suffixes nor below one, on label boundaries and
  without regard to the case or final dot of the suffix; the result counts what was removed.\<close>

theorem Purge_exact:
  assumes "cache_ok c" "Purge sfxs c = (n, c')"
  shows "(\<forall>nm t. map_of (c_entries c') (nm, t) =
      (if \<exists>s \<in> set sfxs. normalize_d s \<noteq> [] \<and> covers (normalize_d s) nm \<and> nm \<noteq> ''.'' @ normalize_d s
       then None else map_of (c_entries c) (nm, t))) \<and>
    cache_Len c = n + cache_Len c'"
proof -
  note p = Purge_spec [OF assms]
  have under: "nameUnder nm (purge_names sfxs) \<longleftrightarrow>
      (\<exists>s \<in> set sfxs. normalize_d s \<noteq> [] \<and> covers (normalize_d s) nm \<and> nm \<noteq> ''.'' @ normalize_d s)" for nm
    by (auto simp: nameUnder_covers purge_names_def normalize_d_def)
  have "map_of (filter (\<lambda>x. \<not> nameUnder (fst (fst x)) ss) al) (nm, t) =
      (if nameUnder nm ss then None else map_of al (nm, t))" for nm t ss and al :: "(ckey \<times> entry) list"
    by (induction al) auto
  then have "\<forall>nm t. map_of (c_entries c') (nm, t) =
      (if nameUnder nm (purge_names sfxs) then None else map_of (c_entries c) (nm, t))" using p by simp
  moreover have "cache_Len c = n + cache_Len c'"
    using p sum_length_filter_compl [of "\<lambda>x. nameUnder (fst (fst x)) (purge_names sfxs)" "c_entries c"]
    by (simp add: cache_Len_def)
  ultimately show ?thesis unfolding under by blast
qed

section \<open>Properties of the middleware\<close>

lemma rewriteQuestion_frame [simp]:
  "m_id (rewriteQuestion m r) = m_id m"
  "m_question (rewriteQuestion m r) =
     (if m_question m = [] \<or> m_question (rq_msg r) = [] then m_question m else m_question (rq_msg r))"
  by (auto simp: rewriteQuestion_def split: list.splits)

definition echoes :: "request \<Rightarrow> msg \<Rightarrow> bool" where
  "echoes r m \<longleftrightarrow> m_id m = m_id (rq_msg r) \<and> (m_question m = [] \<or> m_question m = m_question (rq_msg r))"

lemma echoes_rewrite: "m_question (rq_msg r) \<noteq> [] \<Longrightarrow> echoes r (rewriteQuestion (m\<lparr>m_id := m_id (rq_msg r)\<rparr>) r)"
  by (auto simp: echoes_def)

lemma finish_echoes:
  assumes "finish now k r resp err c = (Returned (Some rs) e, c')" "rs_msg rs = Some m" "m_question (rq_msg r) \<noteq> []"
  shows "echoes r m"
  using assms
  by (auto simp: finish_def Let_def stale_reply_def own_copy_def reply_def echoes_rewrite
      split: if_splits prod.splits option.splits)

lemma finish_returns: "\<exists>resp err. fst (finish now k r resp0 err0 c) = Returned resp err"
  by (auto simp: finish_def Let_def split: prod.splits option.splits)

text \<open>The conditions under which the cache handles a query itself.\<close>

definition cacheable :: "request \<Rightarrow> bool" where
  "cacheable r \<longleftrightarrow> length (m_question (rq_msg r)) = 1 \<and> q_class (hd (m_question (rq_msg r))) = ClassINET"

text \<open>A reply through the cache is the client's own.  Whether it comes fresh from the cache, stale,
  or from the upstream through a shared lookup, every message returned to a single-question query
  carries that query's id and, when it has a question section, that query's question.\<close>

theorem cache_reply_matches_request:
  assumes "cacheable r" "cache_middleware clock next r (c, v) = (Returned (Some rs) err, w')" "rs_msg rs = Some m"
  shows "echoes r m"
proof -
  have q: "m_question (rq_msg r) \<noteq> []" using assms(1) by (auto simp: cacheable_def)
  show ?thesis
  proof (cases "fst (fst (get (clock 0) (QName r, QType r) c))")
    case (Some e)
    with assms q show ?thesis
      by (auto simp: cache_middleware_def cacheable_def fresh_reply_def reply_def Let_def echoes_rewrite
          split: prod.splits option.splits)
  next
    case None
    with assms obtain resp0 err0 c1 c2 w1 where
      "finish (clock 3) (QName r, QType r) r resp0 err0 c1 = (Returned (Some rs) err, c2)"
      by (auto simp: cache_middleware_def cacheable_def Let_def
          split: prod.splits option.splits outcome.splits if_splits)
    from finish_echoes [OF this assms(3) q] show ?thesis .
  qed
qed

text \<open>A fresh entry answers without the upstream, and its times to live count down.  While its age is
  below its time to live, the entry of a query's name and type is the answer, with decision cached,
  whatever the upstream is and without consulting it; each record's TTL is the stored one less the
  whole seconds it has been held, and never below 1.\<close>

theorem fresh_entry_answers:
  assumes "cacheable r" "map_of (c_entries c) (QName r, QType r) = Some e"
    and "clock 0 - en_storedAt e < en_ttl e" "clock 1 = clock 0" "0 \<le> clock 0 - en_storedAt e"
    and "(clock 0 - en_storedAt e) div Second < 2 ^ 32"
  shows "\<exists>m c'. cache_middleware clock next r (c, v) = (Returned (Some (reply m DecisionCached)) None, (c', v)) \<and>
    map (\<lambda>x. (h_rrtype (rr_hdr x), rr_data x)) (m_answer m) =
      map (\<lambda>x. (h_rrtype (rr_hdr x), rr_data x)) (m_answer (en_msg e)) \<and>
    map (\<lambda>x. uint (h_ttl (rr_hdr x))) (filter (\<lambda>x. h_rrtype (rr_hdr x) \<noteq> TypeOPT) (m_answer m)) =
      map (\<lambda>x. max 1 (uint (h_ttl (rr_hdr x)) - (clock 0 - en_storedAt e) div Second))
        (filter (\<lambda>x. h_rrtype (rr_hdr x) \<noteq> TypeOPT) (m_answer (en_msg e)))"
proof -
  let ?d = "clock 0 - en_storedAt e"
  let ?age = "age_seconds ?d"
  have age: "uint ?age = ?d div Second"
    using assms(5,6) by (cases "?d = 0") (auto simp: age_seconds_def sgn_if uint_word_of_int take_bit_int_eq_self zdiv_mono1)
  define tick where "tick = (\<lambda>cur :: u32. if cur \<le> ?age then 1 else cur - ?age)"
  have dec: "uint (tick cur) = max 1 (uint cur - ?d div Second)" for cur
    unfolding tick_def using iffD1 [OF uint_sub_lem, of ?age cur] by (auto simp: word_le_def age [symmetric] max_def)
  have "fst (get (clock 0) (QName r, QType r) c) = (Some e, None)"
    using assms(2,3) by (simp add: get_def Let_def)
  then obtain c' where g: "get (clock 0) (QName r, QType r) c = ((Some e, None), c')" by (metis prod.collapse)
  define m where "m = rewriteQuestion ((withTTLs (en_msg e) tick)\<lparr>m_id := m_id (rq_msg r)\<rparr>) r"
  have "cache_middleware clock next r (c, v) = (Returned (Some (reply m DecisionCached)) None, (c', v))"
    using assms(1,4) g by (simp add: cache_middleware_def cacheable_def Let_def fresh_reply_def m_def tick_def)
  moreover have "map (\<lambda>x. (h_rrtype (rr_hdr x), rr_data x)) (m_answer m) =
      map (\<lambda>x. (h_rrtype (rr_hdr x), rr_data x)) (m_answer (en_msg e))"
    by (auto simp: m_def rewriteQuestion_def withTTLs_def split: list.splits)
  moreover have "map (\<lambda>x. uint (h_ttl (rr_hdr x))) (filter (\<lambda>x. h_rrtype (rr_hdr x) \<noteq> TypeOPT) (m_answer m)) =
      map (\<lambda>x. max 1 (uint (h_ttl (rr_hdr x)) - ?d div Second))
        (filter (\<lambda>x. h_rrtype (rr_hdr x) \<noteq> TypeOPT) (m_answer (en_msg e)))"
    by (auto simp: m_def rewriteQuestion_def withTTLs_def filter_map comp_def dec if_distrib cong: if_cong split: list.splits)
  ultimately show ?thesis by blast
qed

lemma get_stale:
  "snd (fst (get now k c)) = Some e \<Longrightarrow>
     map_of (c_entries c) k = Some e \<and> now - en_storedAt e < en_ttl e + ServeStaleFor (c_o c)"
  by (auto simp: get_def Let_def split: option.splits if_splits)

text \<open>An expired entry is served only when the upstream failed, and not for ever.  If a query that
  misses is answered with decision stale, though nothing below answers so, then the lookup below
  returned an error, no message or SERVFAIL, and the entry served is the one cached for the query's
  name and type, no older than its time to live and the configured grace together.\<close>

theorem stale_only_on_failure:
  assumes "cacheable r" "fst (fst (get (clock 0) (QName r, QType r) c)) = None"
    and "next r (snd (get (clock 0) (QName r, QType r) c), v) = (Returned resp err, (c1, v1))"
    and "\<forall>rs. resp = Some rs \<longrightarrow> rs_decision rs \<noteq> DecisionStale"
    and "cache_middleware clock next r (c, v) = (Returned (Some out) err', (c', v'))" "rs_decision out = DecisionStale"
  shows "(err \<noteq> None \<or> resp = None \<or> rs_msg (the resp) = None \<or> m_rcode (the (rs_msg (the resp))) = RcodeServerFailure) \<and>
    (\<exists>e c2. out = stale_reply e r \<and> map_of (c_entries c2) (QName r, QType r) = Some e \<and>
       store_answer (clock 2) (QName r, QType r) (c_epoch c) resp err c1 = Some c2 \<and>
       clock 3 - en_storedAt e < en_ttl e + ServeStaleFor (c_o c2))"
proof -
  let ?k = "(QName r, QType r)"
  obtain c0 where g: "get (clock 0) ?k c = ((None, snd (fst (get (clock 0) ?k c))), c0)"
    using assms(2) by (metis prod.collapse)
  from assms(1,3,5) g obtain c2 where c2: "store_answer (clock 2) ?k (c_epoch c) resp err c1 = Some c2"
    "finish (clock 3) ?k r resp err c2 = (Returned (Some out) err', c')"
    by (auto simp: cache_middleware_def cacheable_def Let_def split: option.splits prod.splits)
  define m where "m = (case resp of None \<Rightarrow> None | Some rs \<Rightarrow> rs_msg rs)"
  define failed where "failed = (err \<noteq> None \<or> m = None \<or> m_rcode (the m) = RcodeServerFailure)"
  have f: failed
  proof (rule ccontr)
    assume "\<not> failed"
    with c2(2) have "out = own_copy (the resp) (the m) r" by (cases resp) (auto simp: finish_def m_def failed_def Let_def)
    moreover have "resp \<noteq> None" using \<open>\<not> failed\<close> by (auto simp: failed_def m_def split: option.splits)
    ultimately show False using assms(4,6) by (auto simp: own_copy_def)
  qed
  obtain fr st c3 where g3: "get (clock 3) ?k c2 = ((fr, st), c3)" by (metis prod.exhaust)
  have "\<exists>e. st = Some e \<and> out = stale_reply e r"
  proof (cases st)
    case None
    with c2(2) f g3 assms(4,6) show ?thesis
      by (auto simp: finish_def m_def failed_def own_copy_def split: option.splits)
  next
    case (Some e)
    with c2(2) f g3 show ?thesis by (simp add: finish_def m_def failed_def)
  qed
  then obtain e where e: "st = Some e" "out = stale_reply e r" by blast
  with get_stale [of "clock 3" ?k c2 e] g3 have "map_of (c_entries c2) ?k = Some e \<and> clock 3 - en_storedAt e < en_ttl e + ServeStaleFor (c_o c2)"
    by simp
  with e c2(1) f show ?thesis by (auto simp: failed_def m_def split: option.splits)
qed

lemma clamp_bounds: "lo \<le> hi \<Longrightarrow> lo \<le> clamp d lo hi \<and> clamp d lo hi \<le> hi"
  by (simp add: clamp_def)

lemma min_ttl_fold:
  "\<forall>r \<in> set rs. fold (\<lambda>r t. if h_ttl (rr_hdr r) < t then h_ttl (rr_hdr r) else t) rs (t0 :: u32) \<le> h_ttl (rr_hdr r)"
  "fold (\<lambda>r t. if h_ttl (rr_hdr r) < t then h_ttl (rr_hdr r) else t) rs t0 \<le> t0"
proof (induction rs arbitrary: t0)
  case (Cons r rs)
  {
    case 1
    show ?case using Cons(1,2) [of "if h_ttl (rr_hdr r) < t0 then h_ttl (rr_hdr r) else t0"]
      by (auto split: if_splits intro: order.trans)
  next
    case 2
    show ?case using Cons(2) [of "if h_ttl (rr_hdr r) < t0 then h_ttl (rr_hdr r) else t0"]
      by (auto split: if_splits intro: order.trans)
  }
qed simp_all

text \<open>No answer is cached past its records or the configured limits.  The time an answer is kept lies
  between the configured minimum and maximum; unless the minimum stretches it, a positive answer is
  kept no longer than the smallest TTL of its answer records, and a negative one with an SOA no longer
  than the smaller of that record's MINIMUM and TTL; other failures are not cached at all.\<close>

theorem respTTL_bounds:
  assumes "MinTTL o' \<le> MaxTTL o'"
  shows "case respTTL o' m of
     None \<Rightarrow> m_rcode m \<noteq> RcodeSuccess \<and> m_rcode m \<noteq> RcodeNameError
   | Some t \<Rightarrow> MinTTL o' \<le> t \<and> t \<le> MaxTTL o' \<and>
       (t = MinTTL o' \<or>
        (\<forall>x \<in> set (m_answer m). t \<le> uint (h_ttl (rr_hdr x)) * Second) \<and>
        (m_answer m = [] \<longrightarrow> (\<forall>mn ttl. first_soa (m_ns m) = Some (mn, ttl) \<longrightarrow> t \<le> uint mn * Second \<and> t \<le> uint ttl * Second)))"
proof -
  have cl: "clamp d (MinTTL o') (MaxTTL o') = MinTTL o' \<or> clamp d (MinTTL o') (MaxTTL o') \<le> u" if "d \<le> u" for d u
    using that by (auto simp: clamp_def)
  note cb = clamp_bounds [OF assms]
  show ?thesis
  proof (cases "m_answer m = []")
    case True
    have neg: "uint (min a b) * Second \<le> uint a * Second" "uint (min a b) * Second \<le> uint b * Second" for a b :: u32
      by (auto simp: min_def word_le_def not_le)
    show ?thesis
    proof (cases "first_soa (m_ns m)")
      case None
      with True cb show ?thesis by (auto simp: respTTL_def)
    next
      case (Some p)
      obtain a b where "p = (a, b)" by (cases p)
      with Some True cb cl [OF neg(1) [of a b]] cl [OF neg(2) [of a b]] show ?thesis by (auto simp: respTTL_def)
    qed
  next
    case False
    let ?t = "fold (\<lambda>r t. if h_ttl (rr_hdr r) < t then h_ttl (rr_hdr r) else t) (m_answer m) (- 1 :: u32)"
    have "uint ?t * Second \<le> uint (h_ttl (rr_hdr x)) * Second" if "x \<in> set (m_answer m)" for x
      using that min_ttl_fold(1) [of "m_answer m" "- 1"] by (auto simp: word_le_def)
    then have "clamp (uint ?t * Second) (MinTTL o') (MaxTTL o') = MinTTL o' \<or>
        (\<forall>x \<in> set (m_answer m). clamp (uint ?t * Second) (MinTTL o') (MaxTTL o') \<le> uint (h_ttl (rr_hdr x)) * Second)"
      using cl by blast
    with False cb show ?thesis by (auto simp: respTTL_def Let_def)
  qed
qed

section \<open>Witnesses\<close>

definition ex_opts :: Options where
  "ex_opts = \<lparr>MinTTL = 0, MaxTTL = 0, NegTTL = 0, ServeStaleFor = 0, MaxEntries = 2\<rparr>"

definition ex_question :: question where
  "ex_question = \<lparr>q_name = ''Www.Corp.example.'', q_type = 1, q_class = 1\<rparr>"

definition ex_answer :: msg where
  "ex_answer = \<lparr>m_id = 9, m_response = True, m_opcode = 0, m_aa = False, m_tc = False, m_rd = True, m_rcode = 0,
     m_compress = False, m_question = [ex_question\<lparr>q_name := ''www.corp.example.''\<rparr>],
     m_answer = [RR \<lparr>h_name = ''www.corp.example.'', h_rrtype = 1, h_class = 1, h_ttl = 60\<rparr> (RD_A [1, 2, 3, 4])],
     m_ns = [], m_extra = []\<rparr>"

definition ex_creq :: request where
  "ex_creq = \<lparr>rq_msg = ex_answer\<lparr>m_id := 7, m_response := False, m_question := [ex_question], m_answer := []\<rparr>,
     rq_ip = NoAddr, rq_client = \<lparr>ci_id = 0, ci_name = [], ci_group = 0, ci_groupname = []\<rparr>\<rparr>"

definition ex_key :: ckey where
  "ex_key = (''www.corp.example'', 1)"

definition ex_cache :: Cache where
  "ex_cache = (New ex_opts)\<lparr>c_entries := [(ex_key, \<lparr>en_msg = ex_answer, en_storedAt = 0, en_ttl = 60 * Second\<rparr>)],
     c_lru := [ex_key]\<rparr>"

lemma ex_cache_ok: "cache_ok ex_cache"
  by (simp add: cache_ok_def linked_def ex_cache_def New_def ex_opts_def)

lemma ex_creq_facts: "cacheable ex_creq" "QName ex_creq = ''www.corp.example''" "QType ex_creq = 1"
  by code_simp+

theorem cache_bounded_witness:
  "\<exists>c. cache_run [OpPut 0 ex_key ex_answer 5 0, OpPurge [''x'']] (New ex_opts) = Some c \<and> int (cache_Len c) \<le> 2"
  using cache_bounded [of ex_opts "[OpPut 0 ex_key ex_answer 5 0, OpPurge [''x'']]"] by (auto simp: ex_opts_def)

theorem purge_refuses_in_flight_witness:
  "\<exists>c'. cache_run [OpPurge [''corp.example'']] ex_cache = Some c' \<and> put 5 ex_key ex_answer 9 (c_epoch ex_cache) c' = Some c'"
proof -
  obtain c' where c': "cache_run [OpPurge [''corp.example'']] ex_cache = Some c'"
    using cache_run_ok [OF ex_cache_ok] by blast
  have r: "real_purge (OpPurge [''corp.example''])" by code_simp
  have "length (filter real_purge [OpPurge [''corp.example'']]) < 2 ^ 64" by simp
  from purge_refuses_in_flight [OF ex_cache_ok this c'] r c' show ?thesis by auto
qed

theorem Purge_exact_witness:
  "map_of (c_entries (snd (Purge [''Corp.example.''] ex_cache))) ex_key = None"
proof -
  obtain n c' where p: "Purge [''Corp.example.''] ex_cache = (n, c')" by (metis prod.exhaust)
  have "list_ex (\<lambda>s. normalize_d s \<noteq> [] \<and> covers (normalize_d s) ''www.corp.example'' \<and> ''www.corp.example'' \<noteq> ''.'' @ normalize_d s) [''Corp.example.'']"
    by code_simp
  with Purge_exact [OF ex_cache_ok p] p show ?thesis by (simp add: ex_key_def)
qed

theorem fresh_entry_answers_witness:
  "\<exists>m c'. cache_middleware (\<lambda>_. 10 * Second) (\<lambda>r w. (Panicked, w)) ex_creq (ex_cache, ()) =
     (Returned (Some (reply m DecisionCached)) None, (c', ())) \<and>
     map (\<lambda>x. uint (h_ttl (rr_hdr x))) (filter (\<lambda>x. h_rrtype (rr_hdr x) \<noteq> TypeOPT) (m_answer m)) = [50]"
proof -
  let ?e = "\<lparr>en_msg = ex_answer, en_storedAt = 0, en_ttl = 60 * Second\<rparr>"
  have e: "map_of (c_entries ex_cache) (QName ex_creq, QType ex_creq) = Some ?e"
    by (simp add: ex_cache_def ex_creq_facts ex_key_def)
  have "\<exists>m c'. cache_middleware (\<lambda>_. 10 * Second) (\<lambda>r w. (Panicked, w)) ex_creq (ex_cache, ()) =
        (Returned (Some (reply m DecisionCached)) None, (c', ())) \<and>
      map (\<lambda>x. (h_rrtype (rr_hdr x), rr_data x)) (m_answer m) =
        map (\<lambda>x. (h_rrtype (rr_hdr x), rr_data x)) (m_answer ex_answer) \<and>
      map (\<lambda>x. uint (h_ttl (rr_hdr x))) (filter (\<lambda>x. h_rrtype (rr_hdr x) \<noteq> TypeOPT) (m_answer m)) =
        map (\<lambda>x. max 1 (uint (h_ttl (rr_hdr x)) - 10)) (filter (\<lambda>x. h_rrtype (rr_hdr x) \<noteq> TypeOPT) (m_answer ex_answer))"
    using fresh_entry_answers [OF ex_creq_facts(1) e, of "\<lambda>_. 10 * Second" "\<lambda>r w. (Panicked, w)" "()"] by simp
  moreover have "map (\<lambda>x. max 1 (uint (h_ttl (rr_hdr x)) - 10)) (filter (\<lambda>x. h_rrtype (rr_hdr x) \<noteq> TypeOPT) (m_answer ex_answer)) = [50]"
    by (simp add: ex_answer_def)
  ultimately show ?thesis by (elim exE conjE) (intro exI conjI, assumption, simp)
qed

theorem cache_reply_matches_request_witness:
  "\<exists>m c'. cache_middleware (\<lambda>_. 10 * Second) (\<lambda>r w. (Panicked, w)) ex_creq (ex_cache, ()) =
     (Returned (Some (reply m DecisionCached)) None, (c', ())) \<and> m_id m = 7"
proof -
  let ?e = "\<lparr>en_msg = ex_answer, en_storedAt = 0, en_ttl = 60 * Second\<rparr>"
  let ?m = "the (rs_msg (fresh_reply (10 * Second) ?e ex_creq))"
  have "map_of (c_entries ex_cache) (QName ex_creq, QType ex_creq) = Some ?e"
    by (simp add: ex_cache_def ex_creq_facts ex_key_def)
  then obtain c' where r: "cache_middleware (\<lambda>_. 10 * Second) (\<lambda>r w. (Panicked, w)) ex_creq (ex_cache, ()) =
      (Returned (Some (reply ?m DecisionCached)) None, (c', ()))"
    using ex_creq_facts(1) by (simp add: cache_middleware_def cacheable_def get_def fresh_reply_def reply_def Let_def)
  have "echoes ex_creq ?m" by (rule cache_reply_matches_request [OF ex_creq_facts(1) r]) (simp add: reply_def)
  with r show ?thesis by (auto simp: echoes_def ex_creq_def)
qed

text \<open>An upstream that fails, and the cached answer long expired but within the grace.\<close>

definition ex_down :: "(Cache \<times> unit) handler" where
  "ex_down r w = (Returned None (Some ''timeout''), w)"

theorem stale_only_on_failure_witness:
  "\<exists>e. fst (cache_middleware (\<lambda>_. 100 * Second) ex_down ex_creq (ex_cache, ())) = Returned (Some (stale_reply e ex_creq)) None"
proof -
  let ?e = "\<lparr>en_msg = ex_answer, en_storedAt = 0, en_ttl = 60 * Second\<rparr>"
  let ?c = "ex_cache\<lparr>c_lru := MoveToFront ex_key (c_lru ex_cache)\<rparr>"
  have l: "map_of (c_entries ex_cache) ex_key = Some ?e" "ServeStaleFor (c_o ex_cache) = 86400 * Second"
    "map_of (c_entries ?c) ex_key = Some ?e" "ServeStaleFor (c_o ?c) = 86400 * Second"
    by (simp_all add: ex_cache_def New_def ex_opts_def)
  have k: "(QName ex_creq, QType ex_creq) = ex_key" by (simp add: ex_creq_facts ex_key_def)
  have g: "get (100 * Second) ex_key ex_cache = ((None, Some ?e), ?c)" using l by (simp add: get_def)
  have g2: "fst (get (100 * Second) ex_key ?c) = (None, Some ?e)" using l by (simp add: get_def)
  obtain c' where r: "cache_middleware (\<lambda>_. 100 * Second) ex_down ex_creq (ex_cache, ()) =
      (Returned (Some (stale_reply ?e ex_creq)) None, (c', ()))"
    using ex_creq_facts(1) g g2 k
    by (cases "get (100 * Second) ex_key ?c")
       (auto simp: cache_middleware_def cacheable_def ex_down_def store_answer_def finish_def Let_def)
  have "rs_decision (stale_reply ?e ex_creq) = DecisionStale" by (simp add: stale_reply_def reply_def Let_def)
  moreover have "ex_down ex_creq (snd (get (100 * Second) (QName ex_creq, QType ex_creq) ex_cache), ()) =
      (Returned None (Some ''timeout''), (?c, ()))" using g k by (simp add: ex_down_def)
  ultimately show ?thesis
    using stale_only_on_failure [OF ex_creq_facts(1) _ _ _ r] g k r by auto
qed

theorem respTTL_bounds_witness:
  "\<exists>t. respTTL (c_o (New ex_opts)) ex_answer = Some t \<and> t \<le> 86400 * Second"
proof -
  have o: "MinTTL (c_o (New ex_opts)) = 0" "MaxTTL (c_o (New ex_opts)) = 86400 * Second"
    by (simp_all add: New_def ex_opts_def)
  then have "MinTTL (c_o (New ex_opts)) \<le> MaxTTL (c_o (New ex_opts))" by simp
  from respTTL_bounds [OF this, of ex_answer] o show ?thesis
    by (auto simp: respTTL_def ex_answer_def Let_def split: option.splits)
qed

end
