(* ===== verification/Clients.thy ===== *)
theory Clients
  imports Netip_Text Pipeline Config_Store
begin

text \<open>
  The client registry of \<open>internal/clients/registry.go\<close>: stored client rows become a snapshot of exact
  addresses and prefixes, hardware addresses resolve through the lease table, and the middleware
  gives every request the client it comes from.
\<close>

section \<open>Matchers\<close>

definition macPrefix :: string where
  "macPrefix = ''mac:''"

definition NormalizeMatcher :: "ip6_text \<Rightarrow> string \<Rightarrow> string option" where
  "NormalizeMatcher T m =
     (case CutPrefix m macPrefix of
        Some mac \<Rightarrow> map_option ((@) macPrefix) (CanonicalMAC mac)
      | None \<Rightarrow>
          (case ParseAddr T m of
             Some ip \<Rightarrow> if Zone ip \<noteq> [] then None else Some (AddrString T (Unmap ip))
           | None \<Rightarrow>
               (case ParsePrefix T m of
                  None \<Rightarrow> None
                | Some p \<Rightarrow>
                    let addr = prefix_addr p; bits = prefix_bits p
                    in if Is4In6 addr then
                         (if bits < 96 then None
                          else Some (PrefixString T (Masked (PrefixFrom (Unmap addr) (nat (bits - 96))))))
                       else Some (PrefixString T (Masked (PrefixFrom addr (nat bits)))))))"

section \<open>The registry\<close>

record cidrEntry =
  ce_prefix :: prefix
  ce_info :: ClientInfo

record snapshot =
  sn_exact :: "addr \<rightharpoonup> ClientInfo"
  sn_cidrs :: "cidrEntry list"

record client =
  cl_matcher :: string
  cl_info :: ClientInfo

type_synonym LeaseLookup = "string \<Rightarrow> addr option"

record Registry =
  r_snap :: snapshot
  r_rows :: "client list"
  r_leases :: "LeaseLookup option"

definition NewRegistry :: Registry where
  "NewRegistry = \<lparr>r_snap = \<lparr>sn_exact = Map.empty, sn_cidrs = []\<rparr>, r_rows = [], r_leases = None\<rparr>"

text \<open>One row of the rebuild loop; a later claim of an address replaces an earlier one.\<close>

definition rebuild_row :: "ip6_text \<Rightarrow> LeaseLookup option \<Rightarrow> client \<Rightarrow> snapshot \<Rightarrow> snapshot" where
  "rebuild_row T leases c s =
     (case NormalizeMatcher T (cl_matcher c) of
        None \<Rightarrow> s
      | Some m \<Rightarrow>
          (case CutPrefix m macPrefix of
             Some mac \<Rightarrow>
               (case leases of
                  None \<Rightarrow> s
                | Some look \<Rightarrow>
                    (case look mac of
                       None \<Rightarrow> s
                     | Some ip \<Rightarrow> s\<lparr>sn_exact := (sn_exact s)(Unmap ip \<mapsto> cl_info c)\<rparr>))
           | None \<Rightarrow>
               (case ParseAddr T m of
                  Some ip \<Rightarrow> s\<lparr>sn_exact := (sn_exact s)(ip \<mapsto> cl_info c)\<rparr>
                | None \<Rightarrow>
                    (case ParsePrefix T m of
                       Some p \<Rightarrow> s\<lparr>sn_cidrs := sn_cidrs s @ [\<lparr>ce_prefix = p, ce_info = cl_info c\<rparr>]\<rparr>
                     | None \<Rightarrow> s))))"

definition rebuild :: "ip6_text \<Rightarrow> Registry \<Rightarrow> Registry" where
  "rebuild T r =
     (let s = fold (rebuild_row T (r_leases r)) (r_rows r) \<lparr>sn_exact = Map.empty, sn_cidrs = []\<rparr>
      in r\<lparr>r_snap := s\<lparr>sn_cidrs := sort_key (\<lambda>e. - prefix_bits (ce_prefix e)) (sn_cidrs s)\<rparr>\<rparr>)"

definition SetLeaseLookup :: "ip6_text \<Rightarrow> LeaseLookup \<Rightarrow> Registry \<Rightarrow> Registry" where
  "SetLeaseLookup T look r = rebuild T (r\<lparr>r_leases := Some look\<rparr>)"

text \<open>\<open>Reload\<close>: the map of group names is read with the zero value for a missing group.\<close>

definition ReloadClients :: "ip6_text \<Rightarrow> 'z db_scheme \<Rightarrow> Registry \<Rightarrow> Registry" where
  "ReloadClients T d r =
     (let gname = (\<lambda>i. case map_of (rev (map (\<lambda>g. (g_id g, g_name g)) (Groups d))) i of Some n \<Rightarrow> n | None \<Rightarrow> []);
          rows = map (\<lambda>c. \<lparr>cl_matcher = c_matcher c,
                           cl_info = \<lparr>ci_id = c_id c, ci_name = c_name c, ci_group = c_group c,
                                      ci_groupname = gname (c_group c)\<rparr>\<rparr>) (Clients d)
      in rebuild T (r\<lparr>r_rows := rows\<rparr>))"

fun first_cidr :: "addr \<Rightarrow> cidrEntry list \<Rightarrow> ClientInfo option" where
  "first_cidr ip [] = None"
| "first_cidr ip (e # es) = (if Contains (ce_prefix e) ip then Some (ce_info e) else first_cidr ip es)"

definition Lookup :: "Registry \<Rightarrow> addr \<Rightarrow> ClientInfo" where
  "Lookup r ip =
     (let ip = Unmap ip; s = r_snap r
      in case sn_exact s ip of
           Some info \<Rightarrow> info
         | None \<Rightarrow>
             (case first_cidr ip (sn_cidrs s) of
                Some info \<Rightarrow> info
              | None \<Rightarrow> \<lparr>ci_id = 0, ci_name = [], ci_group = 1, ci_groupname = ''default''\<rparr>))"

definition registry_middleware :: "Registry \<Rightarrow> 'w middleware" where
  "registry_middleware reg next r w = next (r\<lparr>rq_client := Lookup reg (rq_ip r)\<rparr>) w"

section \<open>What a matcher means\<close>

text \<open>The meaning of a stored matcher, read directly from its text: one host, a network, or nothing.\<close>

datatype target = Host addr | Net prefix | Nothing

definition matcher_target :: "ip6_text \<Rightarrow> LeaseLookup option \<Rightarrow> string \<Rightarrow> target" where
  "matcher_target T leases m =
     (case CutPrefix m macPrefix of
        Some mac \<Rightarrow>
          (case (CanonicalMAC mac, leases) of
             (Some c, Some look) \<Rightarrow> (case look c of Some ip \<Rightarrow> Host (Unmap ip) | None \<Rightarrow> Nothing)
           | _ \<Rightarrow> Nothing)
      | None \<Rightarrow>
          (case ParseAddr T m of
             Some ip \<Rightarrow> if Zone ip \<noteq> [] then Nothing else Host (Unmap ip)
           | None \<Rightarrow>
               (case ParsePrefix T m of
                  Some (Prefix a n) \<Rightarrow>
                    if \<not> Is4In6 a then Net (Masked (Prefix a n))
                    else if n < 96 then Nothing else Net (Masked (PrefixFrom (Unmap a) (n - 96)))
                | _ \<Rightarrow> Nothing)))"

lemma Unmap_NoAddr: "a \<noteq> NoAddr \<Longrightarrow> Unmap a \<noteq> NoAddr"
  by (cases a) (auto simp: Unmap_def)

lemma Zone_Unmap: "Zone a = [] \<Longrightarrow> Zone (Unmap a) = []"
  by (cases a) (auto simp: Unmap_def Zone_def)

lemma CutPrefix_mac_None:
  assumes "\<And>c. c \<in> set s \<Longrightarrow> c \<noteq> CHR ''m''"
  shows "CutPrefix s macPrefix = None"
proof (rule ccontr)
  assume "CutPrefix s macPrefix \<noteq> None"
  then obtain r where "s = macPrefix @ r" by (auto simp: CutPrefix_Some)
  then have "CHR ''m'' \<in> set s" by (simp add: macPrefix_def)
  with assms show False by blast
qed

lemma AddrString_no_m:
  "ip6_laws T \<Longrightarrow> a \<noteq> NoAddr \<Longrightarrow> Zone a = [] \<Longrightarrow> c \<in> set (AddrString T a) \<Longrightarrow> c \<noteq> CHR ''m''"
  using AddrString_chars by fastforce

lemma PrefixString_no_mac:
  assumes "ip6_laws T" "prefix_ok p"
  shows "CutPrefix (PrefixString T p) macPrefix = None"
proof -
  obtain a n where p: "p = Prefix a n" "a \<noteq> NoAddr" "Zone a = []"
    using assms(2) by (auto simp: prefix_ok_def split: prefix.splits)
  have "c \<noteq> CHR ''m''" if "c \<in> set (dec n)" for c using dec_digits [OF that] by (auto simp: is_digit_def)
  with AddrString_no_m [OF assms(1) p(2,3)] show ?thesis
    by (intro CutPrefix_mac_None) (auto simp: p(1))
qed

lemma PrefixFrom_Prefix: "prefix_ok (Prefix a n) \<Longrightarrow> PrefixFrom a n = Prefix a n"
  by (cases a) (simp_all add: prefix_ok_def PrefixFrom_def Zone_def)

text \<open>Clearing host bits does not make a prefix IPv4-mapped.\<close>

lemma Masked_4in6:
  assumes "\<not> Is4In6 a" "n \<le> BitLen a"
  shows "\<not> Is4In6 (prefix_addr (Masked (Prefix a n)))"
proof (cases a)
  case (V6 w z)
  show ?thesis
  proof (cases "96 \<le> n")
    case True
    then have "drop_bit 32 (push_bit (128 - n) (drop_bit (128 - n) w)) = drop_bit 32 w"
      by (intro bit_word_eqI) (auto simp: bit_simps dest: bit_imp_le_length)
    with assms(1) V6 show ?thesis by (simp add: Is4In6_def)
  next
    case False
    have "\<not> bit (drop_bit 32 (push_bit (128 - n) (drop_bit (128 - n) w))) 0" using False by (auto simp: bit_simps)
    moreover have "bit (0xffff :: 128 word) 0" by simp
    ultimately have "drop_bit 32 (push_bit (128 - n) (drop_bit (128 - n) w)) \<noteq> 0xffff" by metis
    with V6 show ?thesis by (simp add: Is4In6_def)
  qed
qed (simp_all add: Is4In6_def)

text \<open>The three kinds of matcher that normalise.\<close>

lemma NormalizeMatcher_cases:
  assumes T: "ip6_laws T" and m: "NormalizeMatcher T m = Some m'"
  obtains mac c where "CutPrefix m macPrefix = Some mac" "CanonicalMAC mac = Some c" "m' = macPrefix @ c"
  | a where "CutPrefix m macPrefix = None" "ParseAddr T m = Some a" "Zone a = []" "a \<noteq> NoAddr" "m' = AddrString T (Unmap a)"
  | a n p where "CutPrefix m macPrefix = None" "ParseAddr T m = None" "ParsePrefix T m = Some (Prefix a n)" "prefix_ok p"
      "m' = PrefixString T p" "Masked p = p" "\<not> Is4In6 (prefix_addr p)"
      "p = (if Is4In6 a then Masked (PrefixFrom (Unmap a) (n - 96)) else Masked (Prefix a n))" "Is4In6 a \<longrightarrow> 96 \<le> n"
proof (cases "CutPrefix m macPrefix")
  case (Some mac)
  with m that(1) show ?thesis by (auto simp: NormalizeMatcher_def)
next
  case mac: None
  show ?thesis
  proof (cases "ParseAddr T m")
    case (Some a)
    with m mac that(2) ParseAddr_valid [OF T Some] show ?thesis by (auto simp: NormalizeMatcher_def split: if_splits)
  next
    case addr: None
    then obtain p where p: "ParsePrefix T m = Some p" using m mac by (auto simp: NormalizeMatcher_def split: option.splits)
    have ok: "prefix_ok p" using ParsePrefix_ok [OF T p] .
    then obtain a n where an: "p = Prefix a n" "a \<noteq> NoAddr" "n \<le> BitLen a" by (auto simp: prefix_ok_def split: prefix.splits)
    show ?thesis
    proof (cases "Is4In6 a")
      case True
      then have k: "96 \<le> n" "m' = PrefixString T (Masked (PrefixFrom (Unmap a) (n - 96)))"
        using m mac addr p an by (auto simp: NormalizeMatcher_def Let_def nat_diff_distrib split: if_splits)
      obtain w z where w: "a = V6 w z" "Unmap a = V4 (ucast w)" using True by (cases a) (auto simp: Is4In6_def Unmap_def)
      have "prefix_ok (PrefixFrom (Unmap a) (n - 96))" using an(3) w by (intro PrefixFrom_ok) (auto simp: BitLen_def)
      moreover have "\<not> Is4In6 (prefix_addr (Masked (PrefixFrom (Unmap a) (n - 96))))"
        using w an(3) by (simp add: PrefixFrom_def BitLen_def Is4In6_def)
      ultimately show ?thesis using that(3) [of a n "Masked (PrefixFrom (Unmap a) (n - 96))"] mac addr p an(1) k True by simp
    next
      case False
      then have "m' = PrefixString T (Masked (Prefix a n))"
        using m mac addr p an ok PrefixFrom_Prefix [of a n] by (auto simp: NormalizeMatcher_def Let_def)
      with Masked_4in6 [OF False an(3)] show ?thesis
        using that(3) [of a n "Masked (Prefix a n)"] mac addr p an(1) ok False by simp
    qed
  qed
qed

lemma NormalizeMatcher_None_target: "NormalizeMatcher T m = None \<Longrightarrow> matcher_target T leases m = Nothing"
  by (auto simp: NormalizeMatcher_def matcher_target_def Let_def split: option.splits if_splits prefix.splits)

definition place :: "target \<Rightarrow> ClientInfo \<Rightarrow> snapshot \<Rightarrow> snapshot" where
  "place t info s =
     (case t of
        Host a \<Rightarrow> s\<lparr>sn_exact := (sn_exact s)(a \<mapsto> info)\<rparr>
      | Net p \<Rightarrow> s\<lparr>sn_cidrs := sn_cidrs s @ [\<lparr>ce_prefix = p, ce_info = info\<rparr>]\<rparr>
      | Nothing \<Rightarrow> s)"

text \<open>Going through the canonical text and back loses nothing: a row is placed by what its matcher means.\<close>

lemma rebuild_row_target:
  assumes "ip6_laws T"
  shows "rebuild_row T leases c s = place (matcher_target T leases (cl_matcher c)) (cl_info c) s"
proof (cases "NormalizeMatcher T (cl_matcher c)")
  case None
  then show ?thesis by (simp add: rebuild_row_def place_def NormalizeMatcher_None_target)
next
  case (Some m')
  from assms this show ?thesis
  proof (cases rule: NormalizeMatcher_cases)
    case (1 mac x)
    then show ?thesis using Some
      by (simp add: rebuild_row_def matcher_target_def place_def CutPrefix_def HasPrefix_def split: option.split)
  next
    case (2 a)
    have "CutPrefix m' macPrefix = None" "ParseAddr T m' = Some (Unmap a)"
      using 2 CutPrefix_mac_None AddrString_no_m [OF assms Unmap_NoAddr Zone_Unmap] ParseAddr_String [OF assms Unmap_NoAddr] by auto
    then show ?thesis using Some 2 by (simp add: rebuild_row_def matcher_target_def place_def)
  next
    case (3 a n p)
    have "CutPrefix m' macPrefix = None" "ParseAddr T m' = None" "ParsePrefix T m' = Some p"
      using 3 PrefixString_no_mac [OF assms] ParsePrefix_String [OF assms] by auto
    then show ?thesis using Some 3(1-3,8,9)
      by (cases "Is4In6 a") (simp_all add: rebuild_row_def matcher_target_def place_def)
  qed
qed

section \<open>The snapshot\<close>

lemma place_fold:
  fixes R :: "(target \<times> ClientInfo) list"
  shows "sn_exact (fold (\<lambda>(t, i). place t i) R s) = sn_exact s ++ map_of (rev (List.map_filter (\<lambda>(t, i). case t of Host a \<Rightarrow> Some (a, i) | _ \<Rightarrow> None) R))"
    and "sn_cidrs (fold (\<lambda>(t, i). place t i) R s) = sn_cidrs s @ List.map_filter (\<lambda>(t, i). case t of Net p \<Rightarrow> Some \<lparr>ce_prefix = p, ce_info = i\<rparr> | _ \<Rightarrow> None) R"
  by (induction R arbitrary: s)
     (auto simp: place_def List.map_filter_simps map_of_append map_add_assoc split: target.split)

definition row_targets :: "ip6_text \<Rightarrow> Registry \<Rightarrow> (target \<times> ClientInfo) list" where
  "row_targets T r = map (\<lambda>c. (matcher_target T (r_leases r) (cl_matcher c), cl_info c)) (r_rows r)"

lemma rebuild_targets:
  assumes "ip6_laws T"
  shows "r_snap (rebuild T r) =
    \<lparr>sn_exact = map_of (rev (List.map_filter (\<lambda>(t, i). case t of Host a \<Rightarrow> Some (a, i) | _ \<Rightarrow> None) (row_targets T r))),
     sn_cidrs = sort_key (\<lambda>e. - prefix_bits (ce_prefix e))
       (List.map_filter (\<lambda>(t, i). case t of Net p \<Rightarrow> Some \<lparr>ce_prefix = p, ce_info = i\<rparr> | _ \<Rightarrow> None) (row_targets T r))\<rparr>"
proof -
  have "fold (rebuild_row T l) cs s = fold (\<lambda>(t, i). place t i) (map (\<lambda>c. (matcher_target T l (cl_matcher c), cl_info c)) cs) s" for l cs s
    by (induction cs arbitrary: s) (simp_all add: rebuild_row_target [OF assms])
  then show ?thesis by (simp add: rebuild_def Let_def row_targets_def place_fold)
qed

lemma first_cidr_None: "first_cidr ip es = None \<longleftrightarrow> (\<forall>e \<in> set es. \<not> Contains (ce_prefix e) ip)"
  by (induction es) auto

lemma first_cidr_sorted:
  assumes "first_cidr ip es = Some i" "sorted (map (\<lambda>e. - prefix_bits (ce_prefix e)) es)"
  shows "\<exists>e \<in> set es. ce_info e = i \<and> Contains (ce_prefix e) ip \<and>
    (\<forall>e' \<in> set es. Contains (ce_prefix e') ip \<longrightarrow> prefix_bits (ce_prefix e') \<le> prefix_bits (ce_prefix e))"
  using assms
proof (induction es)
  case (Cons e es)
  show ?case
  proof (cases "Contains (ce_prefix e) ip")
    case True
    with Cons.prems show ?thesis by (intro bexI [of _ e]) auto
  next
    case False
    with Cons show ?thesis by auto
  qed
qed simp

text \<open>C18: who a request comes from.  After a rebuild, an address that some row means exactly is the client
  of the last such row; otherwise it is a client whose network contains it, and no row's network that
  contains it is longer; and when no row means it, it is in the default group.  The registry reads what a
  row means from its text: one address, in either spelling of an IPv4 address, a network, or the address
  the lease table holds for a hardware address.\<close>

theorem Lookup_longest_match:
  assumes "ip6_laws T"
  shows "(\<forall>i. (Host (Unmap ip), i) \<in> set (row_targets T r) \<longrightarrow>
       Some (Lookup (rebuild T r) ip) = map_option snd (find (\<lambda>(t, i). t = Host (Unmap ip)) (rev (row_targets T r)))) \<and>
    ((\<forall>i. (Host (Unmap ip), i) \<notin> set (row_targets T r)) \<and> (\<exists>p i. (Net p, i) \<in> set (row_targets T r) \<and> Contains p (Unmap ip)) \<longrightarrow>
       (\<exists>p. (Net p, Lookup (rebuild T r) ip) \<in> set (row_targets T r) \<and> Contains p (Unmap ip) \<and>
         (\<forall>p' i'. (Net p', i') \<in> set (row_targets T r) \<and> Contains p' (Unmap ip) \<longrightarrow> prefix_bits p' \<le> prefix_bits p))) \<and>
    ((\<forall>i. (Host (Unmap ip), i) \<notin> set (row_targets T r)) \<and> (\<forall>p i. (Net p, i) \<in> set (row_targets T r) \<longrightarrow> \<not> Contains p (Unmap ip)) \<longrightarrow>
       Lookup (rebuild T r) ip = \<lparr>ci_id = 0, ci_name = [], ci_group = 1, ci_groupname = ''default''\<rparr>)"
proof -
  define R where "R = row_targets T r"
  define H where "H = rev (List.map_filter (\<lambda>(t, i). case t of Host a \<Rightarrow> Some (a, i) | _ \<Rightarrow> None) R)"
  define C where "C = List.map_filter (\<lambda>(t, i). case t of Net p \<Rightarrow> Some \<lparr>ce_prefix = p, ce_info = i\<rparr> | _ \<Rightarrow> None) R"
  define es where "es = sort_key (\<lambda>e. - prefix_bits (ce_prefix e)) C"
  have look: "Lookup (rebuild T r) ip =
      (case map_of H (Unmap ip) of Some info \<Rightarrow> info
       | None \<Rightarrow> (case first_cidr (Unmap ip) es of Some info \<Rightarrow> info
                 | None \<Rightarrow> \<lparr>ci_id = 0, ci_name = [], ci_group = 1, ci_groupname = ''default''\<rparr>))"
    unfolding Lookup_def rebuild_targets [OF assms] Let_def snapshot.simps es_def C_def H_def R_def by (rule refl)
  have mapof: "map_of (rev (List.map_filter (\<lambda>(t, i). case t of Host a \<Rightarrow> Some (a, i) | _ \<Rightarrow> None) Q)) a =
      map_option snd (find (\<lambda>(t, i). t = Host a) (rev Q))" for a and Q :: "(target \<times> ClientInfo) list"
  proof (induction Q rule: rev_induct)
    case (snoc q Q)
    then show ?case by (cases q) (auto simp: List.map_filter_def split: target.split)
  qed (simp add: List.map_filter_simps)
  have H: "map_of H (Unmap ip) = map_option snd (find (\<lambda>(t, i). t = Host (Unmap ip)) (rev R))" by (simp add: H_def mapof)
  have none: "map_of H (Unmap ip) = None \<longleftrightarrow> (\<forall>i. (Host (Unmap ip), i) \<notin> set R)"
    by (auto simp: H find_None_iff)
  have mem: "\<lparr>ce_prefix = p, ce_info = i\<rparr> \<in> set es \<longleftrightarrow> (Net p, i) \<in> set R" for p i
    by (auto simp: es_def C_def in_set_map_filter split: target.splits intro: rev_bexI)
  have net: "\<exists>p i. e = \<lparr>ce_prefix = p, ce_info = i\<rparr>" for e :: cidrEntry by (cases e) auto
  have "sorted (map (\<lambda>e. - prefix_bits (ce_prefix e)) es)" by (simp add: es_def)
  note best = first_cidr_sorted [OF _ this]
  have longest: "\<exists>p. (Net p, Lookup (rebuild T r) ip) \<in> set R \<and> Contains p (Unmap ip) \<and>
         (\<forall>p' i'. (Net p', i') \<in> set R \<and> Contains p' (Unmap ip) \<longrightarrow> prefix_bits p' \<le> prefix_bits p)"
    if n: "map_of H (Unmap ip) = None" and ex: "(Net q, j) \<in> set R" "Contains q (Unmap ip)" for q j
  proof -
    have "\<lparr>ce_prefix = q, ce_info = j\<rparr> \<in> set es" using ex(1) by (simp only: mem)
    then have "first_cidr (Unmap ip) es \<noteq> None" using ex(2) unfolding first_cidr_None by force
    then obtain i where i: "first_cidr (Unmap ip) es = Some i" by blast
    from best [OF this] obtain e where e: "e \<in> set es" "ce_info e = i" "Contains (ce_prefix e) (Unmap ip)"
      "\<forall>e' \<in> set es. Contains (ce_prefix e') (Unmap ip) \<longrightarrow> prefix_bits (ce_prefix e') \<le> prefix_bits (ce_prefix e)" by blast
    have "(Net (ce_prefix e), i) \<in> set R" using e(1,2) mem [of "ce_prefix e" i] by (metis cidrEntry.surjective old.unit.exhaust)
    moreover have "prefix_bits p' \<le> prefix_bits (ce_prefix e)" if "(Net p', i') \<in> set R" "Contains p' (Unmap ip)" for p' i'
      using e(4) mem [of p' i'] that by force
    ultimately show ?thesis using n i e(3) look by auto
  qed
  have default: "Lookup (rebuild T r) ip = \<lparr>ci_id = 0, ci_name = [], ci_group = 1, ci_groupname = ''default''\<rparr>"
    if "map_of H (Unmap ip) = None" "\<forall>p i. (Net p, i) \<in> set R \<longrightarrow> \<not> Contains p (Unmap ip)"
  proof -
    have "first_cidr (Unmap ip) es = None" 
      unfolding first_cidr_None
    proof
      fix e
      assume "e \<in> set es"
      moreover obtain p i where e: "e = \<lparr>ce_prefix = p, ce_info = i\<rparr>" using net by blast
      ultimately have "(Net p, i) \<in> set R" by (simp only: mem)
      with that(2) e show "\<not> Contains (ce_prefix e) (Unmap ip)" by auto
    qed
    with that(1) look show ?thesis by simp
  qed
  show ?thesis using look H none longest default unfolding R_def [symmetric] by (auto split: option.splits)
qed

definition ex_registry :: Registry where
  "ex_registry = NewRegistry\<lparr>r_rows :=
     [\<lparr>cl_matcher = ''10.0.0.7/8'', cl_info = \<lparr>ci_id = 1, ci_name = ''lan'', ci_group = 2, ci_groupname = ''lan''\<rparr>\<rparr>,
      \<lparr>cl_matcher = ''10.1.0.0/16'', cl_info = \<lparr>ci_id = 2, ci_name = ''kids'', ci_group = 3, ci_groupname = ''kids''\<rparr>\<rparr>,
      \<lparr>cl_matcher = ''mac:AA-BB-CC-00-11-22'', cl_info = \<lparr>ci_id = 3, ci_name = ''tv'', ci_group = 4, ci_groupname = ''tv''\<rparr>\<rparr>],
     r_leases := Some (\<lambda>m. if m = ''aa:bb:cc:00:11:22'' then Some (V4 0x0A010009) else None)\<rparr>"

theorem Lookup_longest_match_witness:
  "\<exists>p. (Net p, Lookup (rebuild ex_text ex_registry) (V4 0x0A010203)) \<in> set (row_targets ex_text ex_registry) \<and>
     Contains p (V4 0x0A010203)"
proof -
  have t: "row_targets ex_text ex_registry =
    [(Net (Prefix (V4 0x0A000000) 8), \<lparr>ci_id = 1, ci_name = ''lan'', ci_group = 2, ci_groupname = ''lan''\<rparr>),
     (Net (Prefix (V4 0x0A010000) 16), \<lparr>ci_id = 2, ci_name = ''kids'', ci_group = 3, ci_groupname = ''kids''\<rparr>),
     (Host (V4 0x0A010009), \<lparr>ci_id = 3, ci_name = ''tv'', ci_group = 4, ci_groupname = ''tv''\<rparr>)]" by code_simp
  have "Contains (Prefix (V4 0x0A000000) 8) (V4 0x0A010203)" by code_simp
  then have "(\<forall>i. (Host (Unmap (V4 0x0A010203)), i) \<notin> set (row_targets ex_text ex_registry)) \<and>
      (\<exists>p i. (Net p, i) \<in> set (row_targets ex_text ex_registry) \<and> Contains p (Unmap (V4 0x0A010203)))"
    unfolding t by auto
  with Lookup_longest_match [OF ex_text_laws, of "V4 0x0A010203" ex_registry] show ?thesis by auto
qed

text \<open>One spelling per matcher.  Normalising an accepted matcher again changes nothing, so what is
  stored is what every later read computes, and two spellings of one address, network or hardware address
  are stored alike.\<close>

theorem NormalizeMatcher_idem:
  assumes "ip6_laws T" "NormalizeMatcher T m = Some m'"
  shows "NormalizeMatcher T m' = Some m' \<and> matcher_target T leases m' = matcher_target T leases m"
  using assms
proof (cases rule: NormalizeMatcher_cases)
  case (1 mac c)
  then show ?thesis
    by (simp add: NormalizeMatcher_def matcher_target_def CutPrefix_def HasPrefix_def CanonicalMAC_idem)
next
  case (2 a)
  have *: "CutPrefix m' macPrefix = None" "ParseAddr T m' = Some (Unmap a)" "Zone (Unmap a) = []"
    using 2 CutPrefix_mac_None AddrString_no_m [OF assms(1) Unmap_NoAddr Zone_Unmap] ParseAddr_String [OF assms(1) Unmap_NoAddr] Zone_Unmap
    by auto
  then show ?thesis using 2 by (simp add: NormalizeMatcher_def matcher_target_def)
next
  case (3 a n p)
  have *: "CutPrefix m' macPrefix = None" "ParseAddr T m' = None" "ParsePrefix T m' = Some p"
    using 3 PrefixString_no_mac [OF assms(1)] ParsePrefix_String [OF assms(1)] by auto
  obtain b k where p: "p = Prefix b k" using 3(4) by (auto simp: prefix_ok_def split: prefix.splits)
  have "PrefixFrom b k = Prefix b k" using 3(4) p PrefixFrom_Prefix by simp
  with * p 3(5-7) have "NormalizeMatcher T m' = Some m'" by (simp add: NormalizeMatcher_def Let_def)
  moreover have "matcher_target T leases m' = Net p" using * p 3(6,7) by (simp add: matcher_target_def)
  moreover have "matcher_target T leases m = Net p" using 3(1-3,8,9) by (cases "Is4In6 a") (simp_all add: matcher_target_def)
  ultimately show ?thesis by simp
qed

theorem NormalizeMatcher_idem_witness:
  "NormalizeMatcher ex_text ''10.0.0.7/8'' = Some ''10.0.0.0/8'' \<and> NormalizeMatcher ex_text ''10.0.0.0/8'' = Some ''10.0.0.0/8''"
proof -
  have "NormalizeMatcher ex_text ''10.0.0.7/8'' = Some ''10.0.0.0/8''" by code_simp
  with NormalizeMatcher_idem [OF ex_text_laws this] show ?thesis by blast
qed

end
