(* ===== verification/Forwarder.thy ===== *)
theory Forwarder
  imports Pipeline Domain_Set "HOL-Library.AList" "HOL-Library.Finite_Map" "HOL-Library.Signed_Division"
begin

text \<open>
  The forwarder of \<open>internal/upstream\<close>: the plain transport of \<open>exchanger.go\<close> and the upstream
  selection, health tracking, conditional routing and failure cache of \<open>forwarder.go\<close>.

  An \<open>*up\<close> is a pointer that several suffixes may share, so upstreams live in a store, the list
  \<open>f_ups\<close>, and a pointer is an index into it.  Everything outside the process is the record \<open>net\<close>:
  the clock, fresh message ids, random bits, the \<open>dns.Client\<close> exchanges, the encrypted transports,
  the state of the request's context and the order in which the attempts of a race report.
\<close>

section \<open>Upstreams and the network\<close>

datatype Scheme = SchemePlain | SchemeDoT | SchemeDoH

record Upstream =
  us_Scheme :: Scheme
  us_Addr :: string
  us_VerifyName :: string
  us_Path :: string
  us_Canonical :: string

record transport =
  tr_up :: Upstream
  tr_timeout :: int

datatype ex_result = Ex "msg option" "string option" | ExPanic

record 'w net =
  n_now :: "'w \<Rightarrow> int \<times> 'w"
  n_id :: "'w \<Rightarrow> u16 \<times> 'w"
  n_bits :: "'w \<Rightarrow> (nat \<Rightarrow> bool) \<times> 'w"
  n_udp :: "string \<Rightarrow> int \<Rightarrow> msg \<Rightarrow> 'w \<Rightarrow> ex_result \<times> 'w"
  n_tcp :: "string \<Rightarrow> int \<Rightarrow> msg \<Rightarrow> 'w \<Rightarrow> ex_result \<times> 'w"
  n_encrypted :: "transport \<Rightarrow> msg \<Rightarrow> 'w \<Rightarrow> ex_result \<times> 'w"
  n_close :: "transport \<Rightarrow> string option"
  n_ctxerr :: "'w \<Rightarrow> string option"
  n_arrival :: "nat list \<Rightarrow> 'w \<Rightarrow> nat list \<times> 'w"

section \<open>The plain transport\<close>

text \<open>\<open>scramble\<close> raises the letters its random bits choose; the bit drawn for position \<open>i\<close> is
  \<open>bits i\<close>.\<close>

definition scramble :: "(nat \<Rightarrow> bool) \<Rightarrow> string \<Rightarrow> string" where
  "scramble bits name =
     map (\<lambda>(i, c). if 97 \<le> (of_char c :: nat) \<and> (of_char c :: nat) \<le> 122 \<and> bits i
                   then char_of ((of_char c :: nat) - 32) else c)
       (List.enumerate 0 name)"

text \<open>The end of \<open>plainExchanger.Exchange\<close>: the checks on the reply and the restored spelling.\<close>

definition accept_reply :: "string \<Rightarrow> string \<Rightarrow> string \<Rightarrow> msg option \<Rightarrow> string option \<Rightarrow> ex_result" where
  "accept_reply addr orig sent r err =
     (case err of
        Some e \<Rightarrow> Ex None (Some e)
      | None \<Rightarrow>
          (case r of
             None \<Rightarrow> Ex None (Some (''upstream '' @ addr @ '': no reply''))
           | Some r \<Rightarrow>
               (case m_question r of
                  [q] \<Rightarrow>
                    if q_name q \<noteq> sent then Ex None (Some (''upstream '' @ addr @ '': 0x20 case check failed''))
                    else Ex (Some (map_rrs (\<lambda>h. if EqualFold (h_name h) orig then h\<lparr>h_name := orig\<rparr> else h)
                                     (r\<lparr>m_question := [q\<lparr>q_name := orig\<rparr>]\<rparr>))) None
                | _ \<Rightarrow> Ex None (Some (''upstream '' @ addr @ '': 0x20 case check failed'')))))"

definition plain_Exchange :: "('w, 'x) net_scheme \<Rightarrow> string \<Rightarrow> int \<Rightarrow> msg \<Rightarrow> 'w \<Rightarrow> ex_result \<times> 'w" where
  "plain_Exchange N addr timeout m w =
     (case m_question m of
        [] \<Rightarrow> (ExPanic, w)
      | q # qs \<Rightarrow>
          let orig = q_name q;
              (bits, w) = n_bits N w;
              sent = scramble bits (ToLower orig);
              m = m\<lparr>m_question := q\<lparr>q_name := sent\<rparr> # qs\<rparr>
          in case n_udp N addr timeout m w of
               (Ex (Some r) None, w) \<Rightarrow>
                 if m_tc r then
                   (case n_tcp N addr timeout m w of
                      (Ex r e, w) \<Rightarrow> (accept_reply addr orig sent r e, w)
                    | (ExPanic, w) \<Rightarrow> (ExPanic, w))
                 else (accept_reply addr orig sent (Some r) None, w)
             | (Ex r (Some e), w) \<Rightarrow> (accept_reply addr orig sent r (Some e), w)
             | (Ex None None, w) \<Rightarrow> (ExPanic, w)
             | (ExPanic, w) \<Rightarrow> (ExPanic, w))"

definition Exchange :: "('w, 'x) net_scheme \<Rightarrow> transport \<Rightarrow> msg \<Rightarrow> 'w \<Rightarrow> ex_result \<times> 'w" where
  "Exchange N t m w =
     (case us_Scheme (tr_up t) of
        SchemePlain \<Rightarrow> plain_Exchange N (us_Addr (tr_up t)) (tr_timeout t) m w
      | _ \<Rightarrow> n_encrypted N t m w)"

text \<open>\<open>plainExchanger.Close\<close> does nothing and returns nil.\<close>

definition ex_Close :: "('w, 'x) net_scheme \<Rightarrow> transport \<Rightarrow> string option" where
  "ex_Close N t = (case us_Scheme (tr_up t) of SchemePlain \<Rightarrow> None | _ \<Rightarrow> n_close N t)"

section \<open>Health\<close>

record up =
  u_addr :: string
  u_ex :: transport
  u_ewmaMicro :: int
  u_fails :: int
  u_downUntil :: int
  u_closed :: bool

definition encryptedTimeout :: int where
  "encryptedTimeout = 5 * Second"

definition newUp :: "Upstream \<Rightarrow> int \<Rightarrow> up" where
  "newUp u timeout =
     (let t = (case us_Scheme u of SchemePlain \<Rightarrow> timeout | _ \<Rightarrow> max timeout encryptedTimeout)
      in \<lparr>u_addr = us_Canonical u, u_ex = \<lparr>tr_up = u, tr_timeout = t\<rparr>, u_ewmaMicro = 0, u_fails = 0,
          u_downUntil = 0, u_closed = False\<rparr>)"

definition healthy :: "int \<Rightarrow> up \<Rightarrow> bool" where
  "healthy now u \<longleftrightarrow> now \<ge> u_downUntil u"

definition Microseconds :: "int \<Rightarrow> int" where
  "Microseconds d = d sdiv 1000"

definition markResult :: "bool \<Rightarrow> int \<Rightarrow> int \<Rightarrow> int \<Rightarrow> up \<Rightarrow> up" where
  "markResult ok latency now timeoutMicro u =
     (if ok then
        u\<lparr>u_fails := 0, u_downUntil := 0,
          u_ewmaMicro := (u_ewmaMicro u * 7 + Microseconds latency) sdiv 8\<rparr>
      else
        let u = u\<lparr>u_ewmaMicro := max (u_ewmaMicro u) timeoutMicro\<rparr>;
            u = u\<lparr>u_fails := u_fails u + 1\<rparr>
        in if u_fails u \<ge> 3 then u\<lparr>u_downUntil := now + 15 * Second, u_fails := 0\<rparr> else u)"

section \<open>The forwarder\<close>

type_synonym failKey = "string \<times> u16"

record condTable =
  ct_set :: domain_set
  ct_routes :: "(string \<times> nat list) list"

record Forwarder =
  f_ups :: "up list"
  f_def :: "nat list"
  f_cond :: "condTable option"
  f_strategy :: string
  f_timeout :: int
  f_failCache :: "(failKey, int) fmap"
  f_closed :: bool

definition maxFailCacheEntries :: nat where
  "maxFailCacheEntries = 4096"

definition markLatency :: "('w, 'x) net_scheme \<Rightarrow> nat \<Rightarrow> bool \<Rightarrow> int \<Rightarrow> Forwarder \<times> 'w \<Rightarrow> Forwarder \<times> 'w" where
  "markLatency N u ok start s =
     (let (f, w) = s; (now, w) = n_now N w
      in (f\<lparr>f_ups := (f_ups f)[u := markResult ok (now - start) now (Microseconds (f_timeout f)) (f_ups f ! u)]\<rparr>, w))"

text \<open>\<open>exchange\<close> returns the reply and the error of the code, or propagates a panic of the transport,
  which skips the bookkeeping.\<close>

definition exchange ::
  "('w, 'x) net_scheme \<Rightarrow> msg \<Rightarrow> nat \<Rightarrow> Forwarder \<times> 'w \<Rightarrow> ex_result \<times> Forwarder \<times> 'w" where
  "exchange N m u s =
     (let (f, w) = s
      in case n_ctxerr N w of
           Some e \<Rightarrow> (Ex None (Some e), f, w)
         | None \<Rightarrow>
             let (start, w) = n_now N w
             in case Exchange N (u_ex (f_ups f ! u)) m w of
                  (ExPanic, w) \<Rightarrow> (ExPanic, f, w)
                | (Ex r err, w) \<Rightarrow>
                    let ok = (err = None \<and> r \<noteq> None);
                        s = markLatency N u ok start (f, w)
                    in (if ok then Ex r None else Ex None err, s))"

definition upstreamQuery :: "dns_lib \<Rightarrow> u16 \<Rightarrow> question \<Rightarrow> bool \<Rightarrow> msg" where
  "upstreamQuery L mid q do =
     SetEdns0 L \<lparr>m_id = mid, m_response = False, m_opcode = 0, m_aa = False, m_tc = False, m_rd = True,
       m_rcode = 0, m_compress = False, m_question = [q], m_answer = [], m_ns = [], m_extra = []\<rparr> 1232 do"

definition formerr :: "dns_lib \<Rightarrow> request \<Rightarrow> response" where
  "formerr L r = reply (SetRcode L (rq_msg r) RcodeFormatError) DecisionError"

definition pick :: "Forwarder \<Rightarrow> string \<Rightarrow> nat list" where
  "pick f qname =
     (case f_cond f of
        Some t \<Rightarrow>
          (case Match (ct_set t) qname of
             Some matched \<Rightarrow> (case map_of (ct_routes t) matched of Some us \<Rightarrow> us | None \<Rightarrow> [])
           | None \<Rightarrow> f_def f)
      | None \<Rightarrow> f_def f)"

section \<open>The routing table\<close>

text \<open>\<open>closeOrphans\<close>: \<open>Close\<close> on every upstream of the outgoing table that the new one does not keep.\<close>

definition closeOrphans :: "condTable option \<Rightarrow> nat list \<Rightarrow> up list \<Rightarrow> up list" where
  "closeOrphans old kept h =
     (case old of
        None \<Rightarrow> h
      | Some t \<Rightarrow>
          fold (\<lambda>u h. if u \<in> set kept then h else h[u := (h ! u)\<lparr>u_closed := True\<rparr>])
            (concat (map snd (ct_routes t))) h)"

text \<open>The inner loop: the upstreams of one suffix, adopted by address or made and remembered.  The
  address table \<open>byAddr\<close> and the store are threaded through.\<close>

fun route_ups :: "int \<Rightarrow> string list \<Rightarrow> (string \<rightharpoonup> nat) \<Rightarrow> up list \<Rightarrow> nat list \<times> (string \<rightharpoonup> nat) \<times> up list" where
  "route_ups timeout [] byAddr h = ([], byAddr, h)"
| "route_ups timeout (a # as) byAddr h =
     (case byAddr a of
        Some u \<Rightarrow>
          let (us, byAddr, h) = route_ups timeout as byAddr h in (u # us, byAddr, h)
      | None \<Rightarrow>
          let u = length h;
              h = h @ [newUp \<lparr>us_Scheme = SchemePlain, us_Addr = a, us_VerifyName = [], us_Path = [], us_Canonical = a\<rparr> timeout];
              (us, byAddr, h) = route_ups timeout as (byAddr(a \<mapsto> u)) h
          in (u # us, byAddr, h))"

text \<open>The outer loop over the suffixes, in the order the map is ranged over.\<close>

fun route_loop ::
  "int \<Rightarrow> (string \<times> string list) list \<Rightarrow> condTable \<Rightarrow> nat list \<Rightarrow> (string \<rightharpoonup> nat) \<Rightarrow> up list
   \<Rightarrow> condTable \<times> nat list \<times> (string \<rightharpoonup> nat) \<times> up list" where
  "route_loop timeout [] t kept byAddr h = (t, kept, byAddr, h)"
| "route_loop timeout ((suf, addrs) # rs) t kept byAddr h =
     (let t = t\<lparr>ct_set := Add (ct_set t) suf\<rparr>;
          (us, byAddr, h) = route_ups timeout addrs byAddr h;
          t = t\<lparr>ct_routes := AList.update (normalize_d suf) us (ct_routes t)\<rparr>
      in route_loop timeout rs t (kept @ us) byAddr h)"

text \<open>\<open>byAddr\<close> starts from the outgoing table.\<close>

definition adopt :: "condTable option \<Rightarrow> up list \<Rightarrow> string \<rightharpoonup> nat" where
  "adopt old h =
     (case old of
        None \<Rightarrow> Map.empty
      | Some t \<Rightarrow> fold (\<lambda>u m. m(u_addr (h ! u) \<mapsto> u)) (concat (map snd (ct_routes t))) Map.empty)"

definition SetConditional :: "(string \<times> string list) list \<Rightarrow> Forwarder \<Rightarrow> Forwarder" where
  "SetConditional routes f =
     (if routes = [] then f\<lparr>f_ups := closeOrphans (f_cond f) [] (f_ups f), f_cond := None\<rparr>
      else
        let old = f_cond f;
            (t, kept, _, h) = route_loop (f_timeout f) routes \<lparr>ct_set = NewDomainSet, ct_routes = []\<rparr> []
                                (adopt old (f_ups f)) (f_ups f)
        in f\<lparr>f_ups := closeOrphans old kept h, f_cond := Some t\<rparr>)"

record Config =
  cf_Upstreams :: "Upstream list"
  cf_Strategy :: string
  cf_Timeout :: int
  cf_Conditional :: "(string \<times> string list) list"

text \<open>\<open>New\<close> on entries that are already parsed.\<close>

definition NewForwarder :: "Config \<Rightarrow> string + Forwarder" where
  "NewForwarder cfg =
     (let timeout = (if cf_Timeout cfg = 0 then 2 * Second else cf_Timeout cfg);
          strategy = (if cf_Strategy cfg = [] then ''race'' else cf_Strategy cfg)
      in if strategy \<notin> {''failover'', ''fastest'', ''race''} then Inl (''unknown strategy '' @ strategy)
         else Inr (SetConditional (cf_Conditional cfg)
                \<lparr>f_ups = map (\<lambda>u. newUp u timeout) (cf_Upstreams cfg),
                 f_def = [0..<length (cf_Upstreams cfg)], f_cond = None, f_strategy = strategy,
                 f_timeout = timeout, f_failCache = fmempty, f_closed = False\<rparr>))"

text \<open>\<open>Close\<close> closes every upstream once and returns the first error.\<close>

fun closeAll ::
  "('w, 'x) net_scheme \<Rightarrow> nat list \<Rightarrow> nat list \<Rightarrow> string option \<Rightarrow> up list \<Rightarrow> nat list \<times> string option \<times> up list" where
  "closeAll N [] seen first h = (seen, first, h)"
| "closeAll N (u # us) seen first h =
     (if u \<in> set seen then closeAll N us seen first h
      else closeAll N us (u # seen)
             (case first of None \<Rightarrow> ex_Close N (u_ex (h ! u)) | Some e \<Rightarrow> Some e)
             (h[u := (h ! u)\<lparr>u_closed := True\<rparr>]))"

definition CloseForwarder :: "('w, 'x) net_scheme \<Rightarrow> Forwarder \<Rightarrow> string option \<times> Forwarder" where
  "CloseForwarder N f =
     (if f_closed f then (None, f)
      else
        let f = f\<lparr>f_closed := True\<rparr>;
            (seen, first, h) = closeAll N (f_def f) [] None (f_ups f);
            (seen, first, h) =
              (case f_cond f of
                 None \<Rightarrow> (seen, first, h)
               | Some t \<Rightarrow> closeAll N (concat (map snd (ct_routes t))) seen first h)
        in (first, f\<lparr>f_ups := h\<rparr>))"

section \<open>The handler\<close>

datatype attempt = Got msg nat | Failed "string option" | Crashed

text \<open>The loop of \<open>failover\<close> and \<open>fastest\<close>: a nil reply without an error is dereferenced.\<close>

fun failover :: "('w, 'x) net_scheme \<Rightarrow> msg \<Rightarrow> nat list \<Rightarrow> string option \<Rightarrow> Forwarder \<times> 'w \<Rightarrow> attempt \<times> Forwarder \<times> 'w" where
  "failover N m [] lastErr s = (Failed lastErr, s)"
| "failover N m (u # us) lastErr s =
     (case exchange N m u s of
        (ExPanic, s) \<Rightarrow> (Crashed, s)
      | (Ex None None, s) \<Rightarrow> (Crashed, s)
      | (Ex r (Some e), s) \<Rightarrow> failover N m us (Some e) s
      | (Ex (Some r) None, s) \<Rightarrow>
          if m_rcode r \<noteq> RcodeServerFailure then (Got r u, s) else failover N m us None s)"

text \<open>\<open>race\<close> receives the results in the order the attempts report.  An attempt that panics reports
  an error.  Attempts that report after the winner no longer matter to the query; their bookkeeping
  is the separate step \<open>late_result\<close> below.\<close>

fun race_results :: "('w, 'x) net_scheme \<Rightarrow> msg \<Rightarrow> nat list \<Rightarrow> string option \<Rightarrow> Forwarder \<times> 'w \<Rightarrow> attempt \<times> Forwarder \<times> 'w" where
  "race_results N m [] lastErr s = (Failed lastErr, s)"
| "race_results N m (u # us) lastErr s =
     (case exchange N m u s of
        (ExPanic, s) \<Rightarrow>
          race_results N m us (Some (''upstream '' @ u_addr (f_ups (fst s) ! u) @ '': panic'')) s
      | (Ex None None, s) \<Rightarrow> (Crashed, s)
      | (Ex r (Some e), s) \<Rightarrow> race_results N m us (Some e) s
      | (Ex (Some r) None, s) \<Rightarrow>
          if m_rcode r \<noteq> RcodeServerFailure then (Got r u, s) else race_results N m us None s)"

definition race :: "('w, 'x) net_scheme \<Rightarrow> msg \<Rightarrow> nat list \<Rightarrow> Forwarder \<times> 'w \<Rightarrow> attempt \<times> Forwarder \<times> 'w" where
  "race N m us s = (let (f, w) = s; (order, w) = n_arrival N us w in race_results N m order None (f, w))"

text \<open>The failure cache: the read with its prune, and the insertion with its sweep.\<close>

definition cached_failure :: "int \<Rightarrow> failKey \<Rightarrow> Forwarder \<Rightarrow> bool" where
  "cached_failure now k f \<longleftrightarrow> (case fmlookup (f_failCache f) k of Some until \<Rightarrow> now < until | None \<Rightarrow> False)"

definition note_failure :: "('w, 'x) net_scheme \<Rightarrow> failKey \<Rightarrow> Forwarder \<times> 'w \<Rightarrow> Forwarder \<times> 'w" where
  "note_failure N k s =
     (let (f, w) = s;
          (f, w) =
            (if fcard (fmdom (f_failCache f)) \<ge> maxFailCacheEntries then
               let (now, w) = n_now N w
               in (f\<lparr>f_failCache := fmfilter (\<lambda>kk. case fmlookup (f_failCache f) kk of
                                                Some until \<Rightarrow> now < until | None \<Rightarrow> False) (f_failCache f)\<rparr>, w)
             else (f, w));
          (now, w) = n_now N w
      in (f\<lparr>f_failCache := fmupd k (now + 30 * Second) (f_failCache f)\<rparr>, w))"

text \<open>The candidates of a query that are not backing off; the clock is read once for each.\<close>

fun healthy_of :: "('w, 'x) net_scheme \<Rightarrow> nat list \<Rightarrow> Forwarder \<Rightarrow> 'w \<Rightarrow> nat list \<times> 'w" where
  "healthy_of N [] f w = ([], w)"
| "healthy_of N (u # us) f w =
     (let (now, w) = n_now N w;
          ok = healthy now (f_ups f ! u);
          (hs, w) = healthy_of N us f w
      in (if ok then u # hs else hs, w))"

definition attempt_order :: "Forwarder \<Rightarrow> nat list \<Rightarrow> nat list" where
  "attempt_order f us =
     (if f_strategy f = ''fastest'' then sort_key (\<lambda>u. u_ewmaMicro (f_ups f ! u)) us else us)"

definition do_bit :: "dns_lib \<Rightarrow> request \<Rightarrow> bool" where
  "do_bit L r = (case IsEdns0 L (rq_msg r) of Some e \<Rightarrow> e_do e | None \<Rightarrow> False)"

text \<open>The part of the handler below the failure cache: choose, ask, record.\<close>

definition resolve_upstream ::
  "dns_lib \<Rightarrow> ('w, 'x) net_scheme \<Rightarrow> question \<Rightarrow> bool \<Rightarrow> failKey \<Rightarrow> Forwarder \<times> 'w \<Rightarrow> attempt \<times> Forwarder \<times> 'w" where
  "resolve_upstream L N q do k s =
     (let (f, w) = s;
          candidates = pick f (fst k);
          (hs, w) = healthy_of N candidates f w;
          hs = (if hs = [] then candidates else hs);
          (mid, w) = n_id N w;
          out = upstreamQuery L mid q do;
          (a, s) = (if f_strategy f = ''race'' then race N out hs (f, w)
                    else failover N out (attempt_order f hs) None (f, w))
      in (case a of Failed e \<Rightarrow> (a, note_failure N k s) | _ \<Rightarrow> (a, s)))"

definition Handler :: "dns_lib \<Rightarrow> ('w, 'x) net_scheme \<Rightarrow> (Forwarder \<times> 'w) handler" where
  "Handler L N r s =
     (case m_question (rq_msg r) of
        [q] \<Rightarrow>
          let k = (QName r, QType r);
              (f, w) = s;
              (now, w) = (case fmlookup (f_failCache f) k of Some _ \<Rightarrow> n_now N w | None \<Rightarrow> (0, w))
          in if cached_failure now k f then (Returned (Some (Servfail L r)) None, f, w)
             else
               let f = f\<lparr>f_failCache := fmdrop k (f_failCache f)\<rparr>
               in (case resolve_upstream L N q (do_bit L r) k (f, w) of
                     (Crashed, s) \<Rightarrow> (Panicked, s)
                   | (Failed e, s) \<Rightarrow>
                       (Returned None (Some (case e of None \<Rightarrow> ''all upstreams failed'' | Some e \<Rightarrow> e)), s)
                   | (Got m u, s) \<Rightarrow>
                       (Returned (Some ((reply (m\<lparr>m_id := m_id (rq_msg r)\<rparr>) DecisionForwarded)
                          \<lparr>rs_upstream := u_addr (f_ups (fst s) ! u)\<rparr>)) None, s))
      | _ \<Rightarrow> (Returned (Some (formerr L r)) None, s))"

text \<open>The bookkeeping of an attempt of a race that reports after the query was answered.\<close>

definition late_result :: "('w, 'x) net_scheme \<Rightarrow> msg \<Rightarrow> nat \<Rightarrow> Forwarder \<times> 'w \<Rightarrow> Forwarder \<times> 'w" where
  "late_result N m u s = snd (exchange N m u s)"


section \<open>The store of upstreams\<close>

text \<open>An address table is sound for a store when it maps an address to an upstream of that address.\<close>

definition addr_ok :: "(string \<rightharpoonup> nat) \<Rightarrow> up list \<Rightarrow> bool" where
  "addr_ok b h \<longleftrightarrow> (\<forall>a u. b a = Some u \<longrightarrow> u < length h \<and> u_addr (h ! u) = a)"

lemma addr_okD: "addr_ok b h \<Longrightarrow> b a = Some u \<Longrightarrow> u < length h \<and> u_addr (h ! u) = a"
  by (auto simp: addr_ok_def)

lemma addr_ok_append: "addr_ok b h \<Longrightarrow> addr_ok b (h @ t)"
  by (fastforce simp: addr_ok_def nth_append)

lemma newUp_addr [simp]: "u_addr (newUp u t) = us_Canonical u" "\<not> u_closed (newUp u t)"
  "u_fails (newUp u t) = 0" "u_downUntil (newUp u t) = 0" "u_ewmaMicro (newUp u t) = 0"
  by (simp_all add: newUp_def Let_def)

lemma addr_ok_alloc:
  "addr_ok b h \<Longrightarrow> u_addr u = a \<Longrightarrow> addr_ok (b(a \<mapsto> length h)) (h @ [u])"
  by (auto simp: addr_ok_def nth_append intro: less_SucI)

text \<open>What both loops keep: the table only grows, the store only grows at its end, with open upstreams
  that have no history, and entries added to the table are new upstreams.\<close>

definition extends :: "(string \<rightharpoonup> nat) \<times> up list \<Rightarrow> (string \<rightharpoonup> nat) \<times> up list \<Rightarrow> bool" where
  "extends s s' \<longleftrightarrow>
     (\<exists>t. snd s' = snd s @ t \<and> list_all (\<lambda>u. \<not> u_closed u \<and> u_fails u = 0 \<and> u_downUntil u = 0 \<and> u_ewmaMicro u = 0) t) \<and>
     fst s \<subseteq>\<^sub>m fst s' \<and>
     (\<forall>a u. fst s' a = Some u \<longrightarrow> fst s a = Some u \<or> (fst s a = None \<and> length (snd s) \<le> u)) \<and>
     (\<forall>u. length (snd s) \<le> u \<longrightarrow> u < length (snd s') \<longrightarrow> u \<in> ran (fst s'))"

lemma extends_refl [simp]: "extends s s"
  by (auto simp: extends_def)

lemma extends_trans:
  assumes "extends s1 s2" "extends s2 s3"
  shows "extends s1 s3"
proof -
  obtain t1 t2 where t: "snd s2 = snd s1 @ t1" "snd s3 = snd s1 @ t1 @ t2"
      "list_all (\<lambda>u. \<not> u_closed u \<and> u_fails u = 0 \<and> u_downUntil u = 0 \<and> u_ewmaMicro u = 0) (t1 @ t2)"
    using assms by (auto simp: extends_def)
  have le: "fst s1 \<subseteq>\<^sub>m fst s3" using assms map_le_trans by (auto simp: extends_def)
  have "fst s1 a = Some u \<or> (fst s1 a = None \<and> length (snd s1) \<le> u)" if a: "fst s3 a = Some u" for a u
  proof -
    have "fst s2 a = Some u \<or> (fst s2 a = None \<and> length (snd s2) \<le> u)"
      using assms(2) a by (simp only: extends_def)
    then show ?thesis
    proof (elim disjE conjE)
      assume "fst s2 a = Some u"
      with assms(1) show ?thesis by (simp only: extends_def)
    next
      assume 2: "fst s2 a = None" "length (snd s2) \<le> u"
      with assms(1) have "fst s1 a = None" unfolding extends_def map_le_def by (metis domIff)
      with 2 t show ?thesis by simp
    qed
  qed
  moreover have "u \<in> ran (fst s3)" if u: "length (snd s1) \<le> u" "u < length (snd s3)" for u
  proof (cases "u < length (snd s2)")
    case True
    with u(1) assms(1) obtain a where "fst s2 a = Some u" by (auto simp: extends_def ran_def)
    moreover have "fst s2 \<subseteq>\<^sub>m fst s3" using assms(2) by (simp only: extends_def)
    ultimately show ?thesis by (metis domI map_le_def ranI)
  qed (use u(2) assms(2) in \<open>simp add: extends_def\<close>)
  ultimately show ?thesis using t le unfolding extends_def by blast
qed

lemma extends_length: "extends (b, h) (b', h') \<Longrightarrow> length h \<le> length h'"
  by (auto simp: extends_def)

lemma extends_nth: "extends (b, h) (b', h') \<Longrightarrow> u < length h \<Longrightarrow> h' ! u = h ! u"
  by (auto simp: extends_def nth_append)

lemma extends_le: "extends (b, h) (b', h') \<Longrightarrow> b a = Some u \<Longrightarrow> b' a = Some u"
  by (auto simp: extends_def map_le_def dom_def)

lemma route_ups_spec:
  assumes "route_ups t as b h = (us, b', h')" "addr_ok b h"
  shows "extends (b, h) (b', h') \<and> addr_ok b' h' \<and> map Some us = map b' as \<and> dom b' = dom b \<union> set as"
  using assms
proof (induction t as b h arbitrary: us rule: route_ups.induct)
  case (2 t a as b h)
  show ?case
  proof (cases "b a")
    case (Some u)
    with 2 obtain us' where us': "route_ups t as b h = (us', b', h')" "us = u # us'"
      by (auto split: prod.splits)
    note IH = 2(2) [OF Some us'(1) 2(4)]
    have "b' a = Some u" using IH extends_le [of b h b' h' a u] Some by blast
    with IH us' Some show ?thesis by auto
  next
    case None
    define h1 where "h1 = h @ [newUp \<lparr>us_Scheme = SchemePlain, us_Addr = a, us_VerifyName = [], us_Path = [], us_Canonical = a\<rparr> t]"
    have ok1: "addr_ok (b(a \<mapsto> length h)) h1"
      unfolding h1_def by (rule addr_ok_alloc [OF 2(4)]) simp
    obtain us' where us': "route_ups t as (b(a \<mapsto> length h)) h1 = (us', b', h')" "us = length h # us'"
      using 2(3) None by (auto simp: h1_def Let_def split: prod.splits)
    note IH = 2(1) [OF None refl h1_def us'(1) ok1]
    have "extends (b, h) (b(a \<mapsto> length h), h1)"
      using None by (auto simp: extends_def h1_def map_le_def ran_def less_Suc_eq)
    note ext = extends_trans [OF this conjunct1 [OF IH]]
    have "b' a = Some (length h)" by (rule extends_le [OF conjunct1 [OF IH]]) simp
    with IH us' ext show ?thesis by auto
  qed
qed auto

text \<open>The table that the outer loop builds: every suffix is in the set, the route of a suffix is the
  list of the upstreams of its addresses, and only those upstreams are kept.\<close>

definition routes_of :: "(string \<rightharpoonup> nat) \<Rightarrow> (string \<times> string list) list \<Rightarrow> string \<rightharpoonup> nat list" where
  "routes_of b rs = map_of (rev (map (\<lambda>(s, as). (normalize_d s, map (the \<circ> b) as)) rs))"

lemma map_Some_the: "map Some us = map b as \<Longrightarrow> us = map (the \<circ> b) as"
proof (induction us arbitrary: as)
  case (Cons u us)
  then obtain a as' where "as = a # as'" "Some u = b a" "map Some us = map b as'" by (cases as) auto
  moreover from \<open>Some u = b a\<close> have "the (b a) = u" by (metis option.sel)
  ultimately show ?case using Cons.IH by simp
qed simp

lemma map_the_le:
  "b \<subseteq>\<^sub>m b' \<Longrightarrow> set as \<subseteq> dom b \<Longrightarrow> map (the \<circ> b) as = map (the \<circ> b') as"
  unfolding map_le_def by (auto intro!: arg_cong [where f = the])

lemma ran_the: "set as \<subseteq> dom b \<Longrightarrow> set (map (the \<circ> b) as) \<subseteq> ran b"
  by (force simp: ran_def)

lemma routes_of_Cons: "m ++ routes_of b ((s, as) # rs) = m(normalize_d s \<mapsto> map (the \<circ> b) as) ++ routes_of b rs"
  by (simp add: routes_of_def map_of_append map_add_assoc)

lemma route_loop_spec:
  assumes "route_loop tm rs t kept b h = (t', kept', b', h')" "addr_ok b h"
  shows "extends (b, h) (b', h') \<and> addr_ok b' h' \<and>
    set (ct_set t') = normalize_d ` fst ` set rs \<union> set (ct_set t) \<and>
    map_of (ct_routes t') = map_of (ct_routes t) ++ routes_of b' rs \<and>
    (distinct (map fst (ct_routes t)) \<longrightarrow> distinct (map fst (ct_routes t'))) \<and>
    set kept' = set kept \<union> (\<Union>(s, as) \<in> set rs. set (map (the \<circ> b') as)) \<and>
    dom b' = dom b \<union> (\<Union>(s, as) \<in> set rs. set as)"
  using assms
proof (induction tm rs t kept b h rule: route_loop.induct)
  case (1 tm t kept b h)
  then show ?case by (simp add: routes_of_def)
next
  case (2 tm suf addrs rs t kept b h)
  obtain us b1 h1 where r: "route_ups tm addrs b h = (us, b1, h1)" by (cases "route_ups tm addrs b h") auto
  note R = route_ups_spec [OF r 2(3)]
  define t1 where "t1 = t\<lparr>ct_set := Add (ct_set t) suf, ct_routes := AList.update (normalize_d suf) us (ct_routes t)\<rparr>"
  have call: "route_loop tm rs t1 (kept @ us) b1 h1 = (t', kept', b', h')"
    using 2(2) r by (simp add: t1_def Let_def)
  have IH: "extends (b1, h1) (b', h') \<and> addr_ok b' h' \<and>
    set (ct_set t') = normalize_d ` fst ` set rs \<union> set (ct_set t1) \<and>
    map_of (ct_routes t') = map_of (ct_routes t1) ++ routes_of b' rs \<and>
    (distinct (map fst (ct_routes t1)) \<longrightarrow> distinct (map fst (ct_routes t'))) \<and>
    set kept' = set (kept @ us) \<union> (\<Union>(s, as) \<in> set rs. set (map (the \<circ> b') as)) \<and>
    dom b' = dom b1 \<union> (\<Union>(s, as) \<in> set rs. set as)"
    using 2(1) [OF refl r [symmetric] refl refl] call R by (simp add: t1_def)
  have us: "us = map (the \<circ> b') addrs"
  proof -
    have "us = map (the \<circ> b1) addrs" using R by (blast intro: map_Some_the)
    also have "\<dots> = map (the \<circ> b') addrs" using R IH by (intro map_the_le) (auto simp: extends_def)
    finally show ?thesis .
  qed
  note extends_trans [OF conjunct1 [OF R] conjunct1 [OF IH]]
  moreover have "map_of (ct_routes t') = map_of (ct_routes t) ++ routes_of b' ((suf, addrs) # rs)"
    using IH us by (simp add: t1_def update_conv' routes_of_Cons)
  moreover have "distinct (map fst (ct_routes t)) \<longrightarrow> distinct (map fst (ct_routes t'))"
    using IH by (simp add: t1_def distinct_update)
  moreover have "dom b' = dom b \<union> (\<Union>(s, as) \<in> set ((suf, addrs) # rs). set as)"
    using IH R by simp blast
  moreover have "set (ct_set t') = normalize_d ` fst ` set ((suf, addrs) # rs) \<union> set (ct_set t)"
    using IH by (simp add: t1_def set_Add)
  moreover have "set kept' = set kept \<union> (\<Union>(s, as) \<in> set ((suf, addrs) # rs). set (map (the \<circ> b') as))"
    using IH us by (simp add: Un_assoc)
  ultimately show ?case using IH by blast
qed

section \<open>Replacing the routing table\<close>

definition cond_refs :: "Forwarder \<Rightarrow> nat list" where
  "cond_refs f = (case f_cond f of None \<Rightarrow> [] | Some t \<Rightarrow> concat (map snd (ct_routes t)))"

text \<open>The invariant of a forwarder: pointers are valid, conditional upstreams are not shared with the
  defaults and there is one of them per address, the set and the map of the routing table agree, the
  upstreams in use are open, and a failure count is below the threshold that resets it.\<close>

definition wf_fwd :: "Forwarder \<Rightarrow> bool" where
  "wf_fwd f \<longleftrightarrow>
     set (f_def f) \<union> set (cond_refs f) \<subseteq> {..<length (f_ups f)} \<and>
     set (f_def f) \<inter> set (cond_refs f) = {} \<and>
     inj_on (\<lambda>u. u_addr (f_ups f ! u)) (set (cond_refs f)) \<and>
     (case f_cond f of None \<Rightarrow> True
      | Some t \<Rightarrow> distinct (map fst (ct_routes t)) \<and> set (ct_set t) = fst ` set (ct_routes t)) \<and>
     (\<not> f_closed f \<longrightarrow> (\<forall>u \<in> set (f_def f) \<union> set (cond_refs f). \<not> u_closed (f_ups f ! u))) \<and>
     (\<forall>u < length (f_ups f). 0 \<le> u_fails (f_ups f ! u) \<and> u_fails (f_ups f ! u) < 3)"

lemma wf_fwdD:
  assumes "wf_fwd f"
  shows "u \<in> set (f_def f) \<Longrightarrow> u < length (f_ups f)"
    and "u \<in> set (cond_refs f) \<Longrightarrow> u < length (f_ups f)"
    and "u \<in> set (f_def f) \<Longrightarrow> u \<notin> set (cond_refs f)"
    and "u \<in> set (cond_refs f) \<Longrightarrow> v \<in> set (cond_refs f) \<Longrightarrow> u_addr (f_ups f ! u) = u_addr (f_ups f ! v) \<Longrightarrow> u = v"
    and "\<not> f_closed f \<Longrightarrow> u \<in> set (f_def f) \<Longrightarrow> \<not> u_closed (f_ups f ! u)"
    and "\<not> f_closed f \<Longrightarrow> u \<in> set (cond_refs f) \<Longrightarrow> \<not> u_closed (f_ups f ! u)"
    and "u < length (f_ups f) \<Longrightarrow> 0 \<le> u_fails (f_ups f ! u)"
    and "u < length (f_ups f) \<Longrightarrow> u_fails (f_ups f ! u) < 3"
    and "f_cond f = Some t \<Longrightarrow> distinct (map fst (ct_routes t))"
    and "f_cond f = Some t \<Longrightarrow> set (ct_set t) = fst ` set (ct_routes t)"
  using assms by (auto simp: wf_fwd_def dest: inj_onD)

lemma wf_fwdI:
  assumes "\<And>u. u \<in> set (f_def f) \<Longrightarrow> u < length (f_ups f)"
    and "\<And>u. u \<in> set (cond_refs f) \<Longrightarrow> u < length (f_ups f) \<and> u \<notin> set (f_def f)"
    and "\<And>u v. u \<in> set (cond_refs f) \<Longrightarrow> v \<in> set (cond_refs f) \<Longrightarrow> u_addr (f_ups f ! u) = u_addr (f_ups f ! v) \<Longrightarrow> u = v"
    and "\<And>t. f_cond f = Some t \<Longrightarrow> distinct (map fst (ct_routes t)) \<and> set (ct_set t) = fst ` set (ct_routes t)"
    and "\<And>u. \<not> f_closed f \<Longrightarrow> u \<in> set (f_def f) \<or> u \<in> set (cond_refs f) \<Longrightarrow> \<not> u_closed (f_ups f ! u)"
    and "\<And>u. u < length (f_ups f) \<Longrightarrow> 0 \<le> u_fails (f_ups f ! u) \<and> u_fails (f_ups f ! u) < 3"
  shows "wf_fwd f"
  using assms by (auto simp: wf_fwd_def inj_on_def split: option.split)

lemma length_close_fold [simp]:
  "length (fold (\<lambda>u h. if u \<in> K then h else h[u := (h ! u)\<lparr>u_closed := True\<rparr>]) us h) = length h"
  by (induction us arbitrary: h) auto

lemma close_fold_nth:
  "v < length h \<Longrightarrow>
   fold (\<lambda>u h. if u \<in> K then h else h[u := (h ! u)\<lparr>u_closed := True\<rparr>]) us h ! v =
     (if v \<in> set us - K then (h ! v)\<lparr>u_closed := True\<rparr> else h ! v)"
proof (induction us arbitrary: h)
  case (Cons u us)
  then show ?case by (cases "u = v") (auto simp: nth_list_update)
qed simp

lemma closeOrphans_length [simp]: "length (closeOrphans old kept h) = length h"
  by (simp add: closeOrphans_def split: option.split)

lemma closeOrphans_nth:
  "v < length h \<Longrightarrow> closeOrphans (f_cond f) kept h ! v =
     (if v \<in> set (cond_refs f) - set kept then (h ! v)\<lparr>u_closed := True\<rparr> else h ! v)"
  by (simp add: closeOrphans_def cond_refs_def close_fold_nth split: option.split)

lemma closeOrphans_addr:
  fixes f :: Forwarder
  shows "v < length h \<Longrightarrow> u_addr (closeOrphans (f_cond f) kept h ! v) = u_addr (h ! v)"
  by (simp add: closeOrphans_nth)

lemma adopt_fold:
  "fold (\<lambda>u m. m(g u \<mapsto> u)) us m a = Some u \<Longrightarrow> m a = Some u \<or> (u \<in> set us \<and> g u = a)"
  by (induction us arbitrary: m) (fastforce split: if_splits)+

lemma adopt_fold_dom: "dom (fold (\<lambda>u m. m(g u \<mapsto> u)) us m) = dom m \<union> g ` set us"
  by (induction us arbitrary: m) auto

lemma adopt_SomeD: "adopt (f_cond f) h a = Some u \<Longrightarrow> u \<in> set (cond_refs f) \<and> u_addr (h ! u) = a"
  using adopt_fold [where m = Map.empty] by (fastforce simp: adopt_def cond_refs_def split: option.splits)

lemma dom_adopt: "dom (adopt (f_cond f) h) = (\<lambda>u. u_addr (h ! u)) ` set (cond_refs f)"
  by (auto simp: adopt_def cond_refs_def adopt_fold_dom split: option.split)

lemma adopt_addr:
  assumes "wf_fwd f" "u \<in> set (cond_refs f)"
  shows "adopt (f_cond f) (f_ups f) (u_addr (f_ups f ! u)) = Some u"
proof -
  have "u_addr (f_ups f ! u) \<in> dom (adopt (f_cond f) (f_ups f))" using assms(2) by (simp add: dom_adopt)
  then obtain v where v: "adopt (f_cond f) (f_ups f) (u_addr (f_ups f ! u)) = Some v" by blast
  from adopt_SomeD [OF v] assms have "v = u" by (auto simp: wf_fwd_def dest: inj_onD)
  with v show ?thesis by simp
qed

lemma adopt_ok: "wf_fwd f \<Longrightarrow> addr_ok (adopt (f_cond f) (f_ups f)) (f_ups f)"
  unfolding addr_ok_def using adopt_SomeD [of f "f_ups f"] by (fastforce simp: wf_fwd_def)

text \<open>The whole of \<open>SetConditional\<close> on a table that is not empty, in terms of the address table the
  loops end with.\<close>

definition addresses :: "(string \<times> string list) list \<Rightarrow> string set" where
  "addresses rs = (\<Union>(s, as) \<in> set rs. set as)"

lemma SetConditional_loop:
  assumes "wf_fwd f" "rs \<noteq> []"
  obtains t kept b h where
    "SetConditional rs f = f\<lparr>f_ups := closeOrphans (f_cond f) kept h, f_cond := Some t\<rparr>"
    "extends (adopt (f_cond f) (f_ups f), f_ups f) (b, h)" "addr_ok b h"
    "set (ct_set t) = normalize_d ` fst ` set rs" "map_of (ct_routes t) = routes_of b rs"
    "distinct (map fst (ct_routes t))" "set kept = (the \<circ> b) ` addresses rs"
    "dom b = dom (adopt (f_cond f) (f_ups f)) \<union> addresses rs"
proof -
  obtain t kept b h where r: "route_loop (f_timeout f) rs \<lparr>ct_set = NewDomainSet, ct_routes = []\<rparr> []
      (adopt (f_cond f) (f_ups f)) (f_ups f) = (t, kept, b, h)" by (metis prod_cases4)
  note L = route_loop_spec [OF r adopt_ok [OF assms(1)]]
  have "set kept = (the \<circ> b) ` addresses rs" using L by (fastforce simp: addresses_def)
  moreover have "dom b = dom (adopt (f_cond f) (f_ups f)) \<union> addresses rs" using L by (simp only: addresses_def)
  ultimately show ?thesis
    using that [where t = t and kept = kept and b = b and h = h] L r assms(2) by (simp add: SetConditional_def Let_def NewDomainSet_def)
qed

lemma routes_of_distinct:
  "distinct (map (normalize_d \<circ> fst) rs) \<Longrightarrow> (s, as) \<in> set rs \<Longrightarrow>
   routes_of b rs (normalize_d s) = Some (map (the \<circ> b) as)"
  unfolding routes_of_def
  by (rule map_of_is_SomeI) (auto simp: o_def case_prod_unfold rev_map [symmetric] intro: rev_image_eqI)

lemma routes_of_SomeD: "routes_of b rs k = Some us \<Longrightarrow> \<exists>(s, as) \<in> set rs. k = normalize_d s \<and> us = map (the \<circ> b) as"
  unfolding routes_of_def by (auto dest!: map_of_SomeD intro: rev_bexI)

lemma dom_routes_of: "dom (routes_of b rs) = normalize_d ` fst ` set rs"
  by (force simp: routes_of_def dom_map_of_conv_image_fst)

lemma covers_antisym: "covers a b \<Longrightarrow> covers b a \<Longrightarrow> a = b"
  unfolding covers_labels by (metis Join_Split suffix_order.antisym)

lemma map_of_routes_refs:
  assumes "distinct (map fst ps)" "map_of ps = routes_of b rs"
  shows "set (concat (map snd ps)) \<subseteq> (the \<circ> b) ` addresses rs"
proof
  fix u
  assume "u \<in> set (concat (map snd ps))"
  then obtain k us where k: "(k, us) \<in> set ps" "u \<in> set us" by auto
  then have "routes_of b rs k = Some us" using assms by (metis map_of_is_SomeI)
  then show "u \<in> (the \<circ> b) ` addresses rs" using k(2) by (auto simp: addresses_def dest!: routes_of_SomeD) blast
qed

text \<open>What the loops guarantee, read off the resulting forwarder: \<open>b\<close> is the address table they end
  with.\<close>

definition swapped :: "Forwarder \<Rightarrow> (string \<times> string list) list \<Rightarrow> Forwarder \<Rightarrow> (string \<rightharpoonup> nat) \<Rightarrow> bool" where
  "swapped f rs f' b \<longleftrightarrow>
     (\<forall>a u. b a = Some u \<longrightarrow> u < length (f_ups f') \<and> u_addr (f_ups f' ! u) = a) \<and>
     (\<forall>a u. b a = Some u \<longrightarrow> adopt (f_cond f) (f_ups f) a = Some u \<or>
        (adopt (f_cond f) (f_ups f) a = None \<and> length (f_ups f) \<le> u \<and> \<not> u_closed (f_ups f' ! u))) \<and>
     (\<forall>a u. adopt (f_cond f) (f_ups f) a = Some u \<longrightarrow> b a = Some u) \<and>
     addresses rs \<subseteq> dom b \<and>
     (\<forall>u. u < length (f_ups f) \<longrightarrow> f_ups f' ! u =
        (if u \<in> set (cond_refs f) \<and> u \<notin> (the \<circ> b) ` addresses rs then (f_ups f ! u)\<lparr>u_closed := True\<rparr> else f_ups f ! u)) \<and>
     (\<forall>u. length (f_ups f) \<le> u \<longrightarrow> u < length (f_ups f') \<longrightarrow>
        u_fails (f_ups f' ! u) = 0 \<and> u_downUntil (f_ups f' ! u) = 0 \<and> u_ewmaMicro (f_ups f' ! u) = 0) \<and>
     length (f_ups f) \<le> length (f_ups f') \<and>
     (\<exists>t. f_cond f' = Some t \<and> set (ct_set t) = normalize_d ` fst ` set rs \<and>
         map_of (ct_routes t) = routes_of b rs \<and> distinct (map fst (ct_routes t))) \<and>
     set (cond_refs f') \<subseteq> (the \<circ> b) ` addresses rs \<and>
     (\<forall>u. length (f_ups f) \<le> u \<longrightarrow> u < length (f_ups f') \<longrightarrow> u \<in> (the \<circ> b) ` addresses rs)"

lemma swappedD:
  assumes "swapped f rs f' b"
  shows "b a = Some u \<Longrightarrow> u < length (f_ups f') \<and> u_addr (f_ups f' ! u) = a"
    and "b a = Some u \<Longrightarrow> adopt (f_cond f) (f_ups f) a = Some u \<or>
        (adopt (f_cond f) (f_ups f) a = None \<and> length (f_ups f) \<le> u \<and> \<not> u_closed (f_ups f' ! u))"
    and "adopt (f_cond f) (f_ups f) a = Some u \<Longrightarrow> b a = Some u"
    and "addresses rs \<subseteq> dom b"
    and "u < length (f_ups f) \<Longrightarrow> f_ups f' ! u =
        (if u \<in> set (cond_refs f) \<and> u \<notin> (the \<circ> b) ` addresses rs then (f_ups f ! u)\<lparr>u_closed := True\<rparr> else f_ups f ! u)"
    and "length (f_ups f) \<le> u \<Longrightarrow> u < length (f_ups f') \<Longrightarrow>
        u_fails (f_ups f' ! u) = 0 \<and> u_downUntil (f_ups f' ! u) = 0 \<and> u_ewmaMicro (f_ups f' ! u) = 0"
    and "length (f_ups f) \<le> length (f_ups f')"
    and "\<exists>t. f_cond f' = Some t \<and> set (ct_set t) = normalize_d ` fst ` set rs \<and>
         map_of (ct_routes t) = routes_of b rs \<and> distinct (map fst (ct_routes t))"
    and "set (cond_refs f') \<subseteq> (the \<circ> b) ` addresses rs"
    and "length (f_ups f) \<le> u \<Longrightarrow> u < length (f_ups f') \<Longrightarrow> u \<in> (the \<circ> b) ` addresses rs"
  using assms unfolding swapped_def by simp_all

lemma SetConditional_swapped:
  fixes f rs
  defines "f' \<equiv> SetConditional rs f"
  assumes wf: "wf_fwd f" and ne: "rs \<noteq> []"
  shows "\<exists>b. swapped f rs f' b"
proof -
  obtain t kept b h where S: "f' = f\<lparr>f_ups := closeOrphans (f_cond f) kept h, f_cond := Some t\<rparr>"
    and E: "extends (adopt (f_cond f) (f_ups f), f_ups f) (b, h)" and ok: "addr_ok b h"
    and t: "set (ct_set t) = normalize_d ` fst ` set rs" "map_of (ct_routes t) = routes_of b rs" "distinct (map fst (ct_routes t))"
    and kept: "set kept = (the \<circ> b) ` addresses rs" and dom: "dom b = dom (adopt (f_cond f) (f_ups f)) \<union> addresses rs"
    using SetConditional_loop [OF wf ne] unfolding f'_def by metis
  obtain new where h: "h = f_ups f @ new"
    and fresh: "\<And>i. i < length new \<Longrightarrow> \<not> u_closed (new ! i) \<and> u_fails (new ! i) = 0 \<and> u_downUntil (new ! i) = 0 \<and> u_ewmaMicro (new ! i) = 0"
    using E by (auto simp: extends_def list_all_length)
  have nth: "f_ups f' ! u = (if u \<in> set (cond_refs f) - set kept then (h ! u)\<lparr>u_closed := True\<rparr> else h ! u)" if "u < length h" for u
    using that by (simp add: S closeOrphans_nth)
  have new: "f_ups f' ! u = new ! (u - length (f_ups f))" if "length (f_ups f) \<le> u" "u < length h" for u
    using that wf_fwdD(2) [OF wf, of u] by (auto simp: nth h nth_append)
  have refs: "set (cond_refs f') \<subseteq> (the \<circ> b) ` addresses rs"
    using map_of_routes_refs [OF t(3,2)] by (simp add: S cond_refs_def)
  show ?thesis
  unfolding swapped_def
  proof (intro exI [of _ b] conjI allI impI)
    show "u < length (f_ups f')" "u_addr (f_ups f' ! u) = a" if "b a = Some u" for a u
      using addr_okD [OF ok that] by (simp_all add: nth) (simp add: S)
    show "adopt (f_cond f) (f_ups f) a = Some u \<or>
        (adopt (f_cond f) (f_ups f) a = None \<and> length (f_ups f) \<le> u \<and> \<not> u_closed (f_ups f' ! u))"
      if "b a = Some u" for a u
    proof -
      have "adopt (f_cond f) (f_ups f) a = Some u \<or> (adopt (f_cond f) (f_ups f) a = None \<and> length (f_ups f) \<le> u)"
        using E that by (simp only: extends_def fst_conv snd_conv)
      moreover have "u < length h" using addr_okD [OF ok that] by simp
      ultimately show ?thesis using new [of u] fresh [of "u - length (f_ups f)"] by (auto simp: h)
    qed
    show "b a = Some u" if "adopt (f_cond f) (f_ups f) a = Some u" for a u
      using that by (rule extends_le [OF E])
    show "f_ups f' ! u = (if u \<in> set (cond_refs f) \<and> u \<notin> (the \<circ> b) ` addresses rs then (f_ups f ! u)\<lparr>u_closed := True\<rparr> else f_ups f ! u)"
      if "u < length (f_ups f)" for u
      using that by (simp add: nth h nth_append kept)
    show "u_fails (f_ups f' ! u) = 0" "u_downUntil (f_ups f' ! u) = 0" "u_ewmaMicro (f_ups f' ! u) = 0"
      if "length (f_ups f) \<le> u" "u < length (f_ups f')" for u
      using that new [of u] fresh [of "u - length (f_ups f)"] by (simp_all add: S h)
    show "length (f_ups f) \<le> length (f_ups f')" by (simp add: S h)
    show "u \<in> (the \<circ> b) ` addresses rs" if u: "length (f_ups f) \<le> u" "u < length (f_ups f')" for u
    proof -
      have "u \<in> ran b" using E u by (simp add: extends_def S)
      then obtain a where a: "b a = Some u" by (auto simp: ran_def)
      have "a \<notin> dom (adopt (f_cond f) (f_ups f))"
      proof
        assume "a \<in> dom (adopt (f_cond f) (f_ups f))"
        then obtain v where v: "adopt (f_cond f) (f_ups f) a = Some v" by blast
        with extends_le [OF E v] a have "v = u" by simp
        with v u(1) adopt_SomeD [OF v] wf_fwdD(2) [OF wf, of u] show False by simp
      qed
      with a dom have "a \<in> addresses rs" by blast
      with a show ?thesis by force
    qed
  qed (use dom t refs in \<open>auto simp: S\<close>)
qed

lemma SetConditional_frame [simp]:
  "f_def (SetConditional rs f) = f_def f" "f_failCache (SetConditional rs f) = f_failCache f"
  "f_strategy (SetConditional rs f) = f_strategy f" "f_timeout (SetConditional rs f) = f_timeout f"
  "f_closed (SetConditional rs f) = f_closed f"
  by (simp_all add: SetConditional_def Let_def split: prod.split)

lemma SetConditional_Nil:
  assumes wf: "wf_fwd f"
  shows "wf_fwd (SetConditional [] f)"
proof (rule wf_fwdI)
  show "\<not> u_closed (f_ups (SetConditional [] f) ! u)"
    if "\<not> f_closed (SetConditional [] f)" "u \<in> set (f_def (SetConditional [] f)) \<or> u \<in> set (cond_refs (SetConditional [] f))" for u
    using that wf_fwdD [OF wf] by (simp add: SetConditional_def cond_refs_def [of "f\<lparr>f_ups := _, f_cond := _\<rparr>"] closeOrphans_nth)
  show "0 \<le> u_fails (f_ups (SetConditional [] f) ! u) \<and> u_fails (f_ups (SetConditional [] f) ! u) < 3"
    if "u < length (f_ups (SetConditional [] f))" for u
    using that wf_fwdD [OF wf] by (simp add: SetConditional_def closeOrphans_nth)
qed (use wf_fwdD [OF wf] in \<open>simp_all add: SetConditional_def cond_refs_def\<close>)

lemma SetConditional_wf:
  assumes wf: "wf_fwd f"
  shows "wf_fwd (SetConditional rs f)"
proof (cases "rs = []")
  case True
  with wf show ?thesis by (simp add: SetConditional_Nil)
next
  case False
  let ?f = "SetConditional rs f"
  from SetConditional_swapped [OF wf False] obtain b where "swapped f rs ?f b" by blast
  note B = swappedD [OF this]
  have ref: "b (u_addr (f_ups ?f ! u)) = Some u" if u: "u \<in> set (cond_refs ?f)" for u
  proof -
    from u B(9,4) obtain a where "b a = Some u" by fastforce
    with B(1) show ?thesis by blast
  qed
  have old: "u < length (f_ups ?f) \<and> (u \<in> set (cond_refs f) \<and> f_ups ?f ! u = f_ups f ! u \<or>
      length (f_ups f) \<le> u \<and> \<not> u_closed (f_ups ?f ! u))" if u: "u \<in> set (cond_refs ?f)" for u
  proof (intro conjI)
    show "u < length (f_ups ?f)" using B(1) [OF ref [OF u]] by simp
    from B(2) [OF ref [OF u]] consider "adopt (f_cond f) (f_ups f) (u_addr (f_ups ?f ! u)) = Some u"
      | "length (f_ups f) \<le> u" "\<not> u_closed (f_ups ?f ! u)" by blast
    then show "u \<in> set (cond_refs f) \<and> f_ups ?f ! u = f_ups f ! u \<or> length (f_ups f) \<le> u \<and> \<not> u_closed (f_ups ?f ! u)"
    proof cases
      case 1
      then have "u \<in> set (cond_refs f)" by (simp add: adopt_SomeD)
      moreover have "u \<in> (the \<circ> b) ` addresses rs" using u B(9) by (rule subsetD [rotated])
      ultimately show ?thesis using B(5) [OF wf_fwdD(2) [OF wf]] by simp
    qed simp
  qed
  show ?thesis
  proof (rule wf_fwdI)
    show "u < length (f_ups ?f)" if "u \<in> set (f_def ?f)" for u
      using that wf_fwdD(1) [OF wf, of u] B(7) by simp
    show "u < length (f_ups ?f) \<and> u \<notin> set (f_def ?f)" if "u \<in> set (cond_refs ?f)" for u
      using old [OF that] wf_fwdD(1,3) [OF wf, of u] by (metis SetConditional_frame(1) not_le)
    show "u = v" if "u \<in> set (cond_refs ?f)" "v \<in> set (cond_refs ?f)" "u_addr (f_ups ?f ! u) = u_addr (f_ups ?f ! v)" for u v
      by (metis ref [OF that(1)] ref [OF that(2)] that(3) option.inject)
    show "distinct (map fst (ct_routes t)) \<and> set (ct_set t) = fst ` set (ct_routes t)" if "f_cond ?f = Some t" for t
      using B(8) that dom_routes_of [of b rs] by (metis dom_map_of_conv_image_fst option.inject)
    show "\<not> u_closed (f_ups ?f ! u)" if "\<not> f_closed ?f" "u \<in> set (f_def ?f) \<or> u \<in> set (cond_refs ?f)" for u
    proof -
      have "\<not> u_closed (f_ups ?f ! u)" if u: "u \<in> set (f_def f)"
        using that wf_fwdD(5) [OF wf _ u] wf_fwdD(3) [OF wf u] B(5) [OF wf_fwdD(1) [OF wf u]] \<open>\<not> f_closed ?f\<close> by simp
      moreover have "\<not> u_closed (f_ups ?f ! u)" if u: "u \<in> set (cond_refs ?f)"
        using old [OF u] wf_fwdD(6) [OF wf, of u] \<open>\<not> f_closed ?f\<close> by (metis SetConditional_frame(5))
      ultimately show ?thesis using that(2) by (metis SetConditional_frame(1))
    qed
    show "0 \<le> u_fails (f_ups ?f ! u) \<and> u_fails (f_ups ?f ! u) < 3" if "u < length (f_ups ?f)" for u
      using that B(5,6) [of u] wf_fwdD(7,8) [OF wf, of u] by (cases "u < length (f_ups f)") auto
  qed
qed

text \<open>With one entry per normalised suffix every address named is in use afterwards.\<close>

lemma swapped_refs:
  assumes sw: "swapped f rs f' b" and d: "distinct (map (normalize_d \<circ> fst) rs)"
  shows "set (cond_refs f') = (the \<circ> b) ` addresses rs"
proof
  show "set (cond_refs f') \<subseteq> (the \<circ> b) ` addresses rs" by (rule swappedD(9) [OF sw])
  obtain t where t: "f_cond f' = Some t" "map_of (ct_routes t) = routes_of b rs"
    using swappedD(8) [OF sw] by blast
  show "(the \<circ> b) ` addresses rs \<subseteq> set (cond_refs f')"
  proof
    fix u
    assume "u \<in> (the \<circ> b) ` addresses rs"
    then obtain suf as a where r: "(suf, as) \<in> set rs" "a \<in> set as" "u = the (b a)" by (auto simp: addresses_def)
    have "map_of (ct_routes t) (normalize_d suf) = Some (map (the \<circ> b) as)"
      using routes_of_distinct [OF d r(1)] t(2) by simp
    then have "(normalize_d suf, map (the \<circ> b) as) \<in> set (ct_routes t)" by (rule map_of_SomeD)
    then show "u \<in> set (cond_refs f')" using t(1) r(2,3) by (force simp: cond_refs_def)
  qed
qed

section \<open>Properties of the routing table\<close>

text \<open>The addresses a name is sent to.\<close>

definition route_addrs :: "Forwarder \<Rightarrow> string \<Rightarrow> string list" where
  "route_addrs f q = map (\<lambda>u. u_addr (f_ups f ! u)) (pick f q)"

text \<open>The most specific suffix of a table that covers a name, with its addresses.\<close>

definition best_route :: "(string \<times> string list) list \<Rightarrow> string \<Rightarrow> string \<times> string list \<Rightarrow> bool" where
  "best_route rs q r \<longleftrightarrow> r \<in> set rs \<and> covers (normalize_d (fst r)) (normalize_d q) \<and>
     (\<forall>r' \<in> set rs. covers (normalize_d (fst r')) (normalize_d q) \<longrightarrow> covers (normalize_d (fst r')) (normalize_d (fst r)))"

lemma SetConditional_best:
  assumes wf: "wf_fwd f" and d: "distinct (map (normalize_d \<circ> fst) rs)" and r: "best_route rs q (suf, as)"
  shows "route_addrs (SetConditional rs f) q = as"
proof -
  let ?f = "SetConditional rs f"
  have "rs \<noteq> []" using r by (auto simp: best_route_def)
  from SetConditional_swapped [OF wf this] obtain b where sw: "swapped f rs ?f b" by blast
  obtain t where t: "f_cond ?f = Some t" "set (ct_set t) = normalize_d ` fst ` set rs" "map_of (ct_routes t) = routes_of b rs"
    using swappedD(8) [OF sw] by blast
  have mem: "normalize_d suf \<in> set (ct_set t)" and cov: "covers (normalize_d suf) (normalize_d q)"
    using r t(2) by (force simp: best_route_def)+
  then obtain m where m: "Match (ct_set t) q = Some m" using dset.match_complete by (metis not_None_eq)
  from dset.match_sound [OF m] have "covers m (normalize_d suf)" using t(2) r by (force simp: best_route_def)
  moreover have "covers (normalize_d suf) m" using dset.match_longest [OF m mem cov] .
  ultimately have "m = normalize_d suf" by (rule covers_antisym)
  then have "pick ?f q = map (the \<circ> b) as"
    using m t routes_of_distinct [OF d, of suf as b] r by (simp add: pick_def best_route_def)
  moreover have "u_addr (f_ups ?f ! the (b a)) = a" if "a \<in> set as" for a
  proof -
    from that r swappedD(4) [OF sw] obtain u where "b a = Some u" by (fastforce simp: addresses_def best_route_def)
    with swappedD(1) [OF sw] show ?thesis by simp
  qed
  ultimately show ?thesis by (simp add: map_idI route_addrs_def)
qed

lemma SetConditional_default:
  assumes wf: "wf_fwd f" and none: "\<forall>r \<in> set rs. \<not> covers (normalize_d (fst r)) (normalize_d q)"
  shows "pick (SetConditional rs f) q = f_def f"
proof (cases "rs = []")
  case True
  then show ?thesis by (simp add: pick_def SetConditional_def)
next
  case False
  from SetConditional_swapped [OF wf False] obtain b where sw: "swapped f rs (SetConditional rs f) b" by blast
  obtain t where t: "f_cond (SetConditional rs f) = Some t" "set (ct_set t) = normalize_d ` fst ` set rs"
    using swappedD(8) [OF sw] by blast
  have "Match (ct_set t) q = None" using none t(2) by (fastforce simp: dset.match_None)
  with t(1) show ?thesis by (simp add: pick_def)
qed

text \<open>Conditional routing.  After the table is replaced, a name below configured suffixes goes to
  exactly the addresses of the most specific of them, also when that list is empty; a name below none
  of them goes to the default upstreams, which are the same as before.\<close>

theorem SetConditional_routes:
  assumes "wf_fwd f" "distinct (map (normalize_d \<circ> fst) rs)"
  shows "(\<forall>(suf, as) \<in> set rs. covers (normalize_d suf) (normalize_d q) \<longrightarrow>
           (\<forall>(suf', as') \<in> set rs. covers (normalize_d suf') (normalize_d q) \<longrightarrow> covers (normalize_d suf') (normalize_d suf)) \<longrightarrow>
           map (\<lambda>u. u_addr (f_ups (SetConditional rs f) ! u)) (pick (SetConditional rs f) q) = as) \<and>
         ((\<forall>(suf, as) \<in> set rs. \<not> covers (normalize_d suf) (normalize_d q)) \<longrightarrow> pick (SetConditional rs f) q = f_def f)"
proof -
  have "route_addrs (SetConditional rs f) q = as"
    if "(suf, as) \<in> set rs" "covers (normalize_d suf) (normalize_d q)"
      "\<forall>(suf', as') \<in> set rs. covers (normalize_d suf') (normalize_d q) \<longrightarrow> covers (normalize_d suf') (normalize_d suf)"
    for suf as
    by (rule SetConditional_best [OF assms]) (use that in \<open>auto simp: best_route_def\<close>)
  then show ?thesis
    using SetConditional_default [OF assms(1), of rs q] unfolding route_addrs_def by (auto simp: case_prod_beta)
qed

text \<open>Replacing the routing table keeps what the forwarder has learnt.  The invariant is kept, the
  defaults and the failure cache are untouched, a conditional upstream whose address is still named is
  the same upstream with the same latency, failures and back-off, one that is no longer named is
  closed, and an upstream made by the call starts with a clean record.\<close>

theorem SetConditional_keeps_health:
  assumes "wf_fwd f" "distinct (map (normalize_d \<circ> fst) rs)" "f' = SetConditional rs f"
  shows "wf_fwd f' \<and> f_def f' = f_def f \<and> f_failCache f' = f_failCache f \<and>
    (\<forall>u \<in> set (f_def f). f_ups f' ! u = f_ups f ! u) \<and>
    (\<forall>u \<in> set (cond_refs f). u_addr (f_ups f ! u) \<in> addresses rs \<longrightarrow>
       u \<in> set (cond_refs f') \<and> f_ups f' ! u = f_ups f ! u) \<and>
    (\<forall>u \<in> set (cond_refs f). u_addr (f_ups f ! u) \<notin> addresses rs \<longrightarrow>
       u \<notin> set (cond_refs f') \<and> f_ups f' ! u = (f_ups f ! u)\<lparr>u_closed := True\<rparr>) \<and>
    (\<forall>u \<in> set (cond_refs f') - set (cond_refs f). u_fails (f_ups f' ! u) = 0 \<and> u_downUntil (f_ups f' ! u) = 0)"
proof (cases "rs = []")
  case True
  then have f': "f' = SetConditional [] f" "cond_refs f' = []" "addresses rs = {}"
    using assms(3) by (simp_all add: cond_refs_def SetConditional_def addresses_def)
  have "f_ups f' ! u = (if u \<in> set (cond_refs f) then (f_ups f ! u)\<lparr>u_closed := True\<rparr> else f_ups f ! u)"
    if "u < length (f_ups f)" for u
    using that f'(1) by (simp add: SetConditional_def closeOrphans_nth)
  then show ?thesis using f' SetConditional_wf [OF assms(1)] wf_fwdD(1,2,3) [OF assms(1)] by simp
next
  case False
  from SetConditional_swapped [OF assms(1) False] obtain b where sw: "swapped f rs f' b" using assms(3) by blast
  note refs = swapped_refs [OF sw assms(2)]
  have b: "b (u_addr (f_ups f ! u)) = Some u" if "u \<in> set (cond_refs f)" for u
    by (rule swappedD(3) [OF sw adopt_addr [OF assms(1) that]])
  have used: "u \<in> (the \<circ> b) ` addresses rs \<longleftrightarrow> u_addr (f_ups f ! u) \<in> addresses rs" if u: "u \<in> set (cond_refs f)" for u
  proof
    assume "u \<in> (the \<circ> b) ` addresses rs"
    then obtain a where a: "a \<in> addresses rs" "b a = Some u" using swappedD(4) [OF sw] by fastforce
    have "u_addr (f_ups f' ! u) = u_addr (f_ups f ! u)"
      using swappedD(5) [OF sw wf_fwdD(2) [OF assms(1) u]] by simp
    with a swappedD(1) [OF sw a(2)] show "u_addr (f_ups f ! u) \<in> addresses rs" by simp
  next
    assume "u_addr (f_ups f ! u) \<in> addresses rs"
    with b [OF u] show "u \<in> (the \<circ> b) ` addresses rs" by force
  qed
  have "u_fails (f_ups f' ! u) = 0 \<and> u_downUntil (f_ups f' ! u) = 0" if u: "u \<in> set (cond_refs f') - set (cond_refs f)" for u
  proof -
    from u refs obtain a where a: "b a = Some u" using swappedD(4) [OF sw] by fastforce
    with u swappedD(2) [OF sw a] adopt_SomeD [of f "f_ups f" a u] have "length (f_ups f) \<le> u" by blast
    with swappedD(1) [OF sw a] swappedD(6) [OF sw] show ?thesis by blast
  qed
  then show ?thesis
    using assms(3) SetConditional_wf [OF assms(1), of rs] refs used swappedD(5) [OF sw] wf_fwdD(1,2,3) [OF assms(1)] by simp
qed

end
