(* ===== verification/Forwarder_Props.thy ===== *)
theory Forwarder_Props
  imports Forwarder
begin

text \<open>
  Properties of the forwarder's query path: health tracking, what leaves the server, where a
  forwarded reply comes from, when a query is answered, and the failure cache.
\<close>

section \<open>Health of one upstream\<close>

text \<open>A history of outcomes \<open>(ok, latency, now)\<close> applied to an upstream, and the times of the
  failures since the last success.\<close>

fun mark_all :: "int \<Rightarrow> (bool \<times> int \<times> int) list \<Rightarrow> up \<Rightarrow> up" where
  "mark_all tm [] u = u"
| "mark_all tm ((ok, lat, now) # hs) u = mark_all tm hs (markResult ok lat now tm u)"

definition trailing_failures :: "(bool \<times> int \<times> int) list \<Rightarrow> int list" where
  "trailing_failures hs = rev (map (\<lambda>(ok, lat, now). now) (takeWhile (\<lambda>(ok, lat, now). \<not> ok) (rev hs)))"

lemma mark_all_snoc: "mark_all tm (hs @ [(ok, lat, now)]) u = markResult ok lat now tm (mark_all tm hs u)"
  by (induction hs arbitrary: u) auto

lemma trailing_failures_snoc:
  "trailing_failures (hs @ [(ok, lat, now)]) = (if ok then [] else trailing_failures hs @ [now])"
  by (simp add: trailing_failures_def)

lemma mark_all_frame: "u_addr (mark_all tm hs u) = u_addr u" "u_ex (mark_all tm hs u) = u_ex u"
  "u_closed (mark_all tm hs u) = u_closed u"
  by (induction tm hs u rule: mark_all.induct) (simp_all add: markResult_def Let_def)

text \<open>The failure count is the number of failures in a row modulo three, and the back-off was last set
  by the latest failure that completed a group of three.\<close>

lemma mark_all_state:
  assumes "u_fails u = 0" "u_downUntil u = 0"
  shows "u_fails (mark_all tm hs u) = int (length (trailing_failures hs) mod 3) \<and>
    u_downUntil (mark_all tm hs u) =
      (let tf = trailing_failures hs in if length tf < 3 then 0 else tf ! (3 * (length tf div 3) - 1) + 15 * Second)"
proof (induction hs rule: rev_induct)
  case Nil
  then show ?case using assms by (simp add: trailing_failures_def)
next
  case (snoc x hs)
  obtain ok lat now where x: "x = (ok, lat, now)" by (cases x) auto
  define tf where "tf = trailing_failures hs"
  define v where "v = mark_all tm hs u"
  have IH: "u_fails v = int (length tf mod 3)"
    "u_downUntil v = (if length tf < 3 then 0 else tf ! (3 * (length tf div 3) - 1) + 15 * Second)"
    using snoc by (simp_all add: v_def tf_def Let_def)
  show ?case
  proof (cases ok)
    case True
    then show ?thesis by (simp add: x mark_all_snoc trailing_failures_snoc markResult_def Let_def)
  next
    case False
    define n where "n = length tf"
    show ?thesis
    proof (cases "n mod 3 = 2")
      case True
      then have n: "Suc n mod 3 = 0" "3 * (Suc n div 3) = Suc n" "\<not> Suc n < 3" by presburger+
      then have "(tf @ [now]) ! (3 * (Suc n div 3) - 1) = now" by (simp add: n_def nth_append)
      with True n IH False show ?thesis
        by (simp add: x mark_all_snoc trailing_failures_snoc markResult_def Let_def v_def [symmetric] tf_def [symmetric] n_def [symmetric])
    next
      case nm: False
      then have n: "Suc n mod 3 = Suc (n mod 3)" "Suc n div 3 = n div 3" "n mod 3 < 2" by presburger+
      have lt: "Suc n < 3 \<longleftrightarrow> n < 3" using nm by presburger
      have "(tf @ [now]) ! (3 * (n div 3) - 1) = tf ! (3 * (n div 3) - 1)" if "\<not> n < 3"
        using that by (simp add: n_def nth_append) presburger
      with n lt IH False show ?thesis
        by (simp add: x mark_all_snoc trailing_failures_snoc markResult_def Let_def v_def [symmetric] tf_def [symmetric] n_def [symmetric])
    qed
  qed
qed

text \<open>An upstream is taken out of use exactly by failures in a row.  Whatever the history of a new
  upstream, it counts as unhealthy at a time exactly when the last outcomes were at least three failures
  with no success in between and the latest failure that completed a group of three is less than fifteen
  seconds old; one success makes it healthy again, and the failure count never reaches three.\<close>

theorem upstream_backoff:
  assumes "0 \<le> now"
  shows "(\<not> healthy now (mark_all tm hs (newUp up t)) \<longleftrightarrow>
      (let tf = trailing_failures hs
       in 3 \<le> length tf \<and> now < tf ! (3 * (length tf div 3) - 1) + 15 * Second)) \<and>
    healthy now (mark_all tm (hs @ [(True, lat, now')]) (newUp up t)) \<and>
    u_fails (mark_all tm hs (newUp up t)) \<in> {0, 1, 2}"
proof -
  have "length (trailing_failures hs) mod 3 \<in> {0, 1, 2}" by auto
  then have "int (length (trailing_failures hs) mod 3) \<in> {0, 1, 2}" by auto
  then show ?thesis
    using assms mark_all_state [of "newUp up t" tm hs] mark_all_state [of "newUp up t" tm "hs @ [(True, lat, now')]"]
    by (auto simp: healthy_def Let_def trailing_failures_snoc)
qed

theorem upstream_backoff_witness:
  "\<not> healthy (20 * Second) (mark_all 2000000 [(True, 5000, 1), (False, 5000, 2), (False, 5000, 3), (False, 5000, 10 * Second)]
       (newUp \<lparr>us_Scheme = SchemePlain, us_Addr = ''192.0.2.1:53'', us_VerifyName = [], us_Path = [], us_Canonical = ''192.0.2.1:53''\<rparr> (2 * Second)))"
proof -
  let ?hs = "[(True, 5000, 1), (False, 5000, 2), (False, 5000, 3), (False, 5000, 10 * Second)] :: (bool \<times> int \<times> int) list"
  have tf: "trailing_failures ?hs = [2, 3, 10 * Second]" by (simp add: trailing_failures_def)
  have "(0 :: int) \<le> 20 * Second" by simp
  from upstream_backoff [OF this, of 2000000 ?hs "\<lparr>us_Scheme = SchemePlain, us_Addr = ''192.0.2.1:53'', us_VerifyName = [], us_Path = [], us_Canonical = ''192.0.2.1:53''\<rparr>" "2 * Second"]
  have "(\<not> healthy (20 * Second) (mark_all 2000000 ?hs (newUp \<lparr>us_Scheme = SchemePlain, us_Addr = ''192.0.2.1:53'', us_VerifyName = [], us_Path = [], us_Canonical = ''192.0.2.1:53''\<rparr> (2 * Second)))) \<longleftrightarrow>
      3 \<le> length [2, 3, 10 * Second] \<and> 20 * Second < [2, 3, 10 * Second] ! (3 * (length [2, 3, 10 * Second] div 3) - 1) + 15 * Second"
    unfolding tf Let_def by (rule conjunct1)
  then show ?thesis by simp
qed

section \<open>Relations kept by the attempts of a query\<close>

text \<open>The attempts of a query change a forwarder only by recording outcomes, so a reflexive and
  transitive relation that recording an outcome respects relates the states before and after.\<close>

locale recording_relation =
  fixes R :: "Forwarder \<Rightarrow> Forwarder \<Rightarrow> bool"
  assumes rel_refl: "R f f"
    and rel_trans: "R f g \<Longrightarrow> R g h \<Longrightarrow> R f h"
    and rel_mark: "R f (f\<lparr>f_ups := (f_ups f)[u := markResult ok lat now tm (f_ups f ! u)]\<rparr>)"
begin

lemma markLatency_rel: "R f (fst (markLatency N u ok start (f, w)))"
  by (simp add: markLatency_def Let_def rel_mark split: prod.split)

lemma exchange_rel: "exchange N m u (f, w) = (x, s) \<Longrightarrow> R f (fst s)"
  using markLatency_rel rel_refl
  by (auto simp: exchange_def Let_def split: option.splits prod.splits ex_result.splits)

lemma failover_rel: "failover N m us e (f, w) = (a, s) \<Longrightarrow> R f (fst s)"
proof (induction us arbitrary: e f w)
  case Nil
  then show ?case by (auto intro: rel_refl)
next
  case (Cons u us)
  obtain x g v where x: "exchange N m u (f, w) = (x, g, v)" by (cases "exchange N m u (f, w)") auto
  have "R f g" using exchange_rel [OF x] by simp
  moreover have "R g (fst s)"
    using Cons.prems x Cons.IH [of _ g v] rel_refl by (auto split: ex_result.splits option.splits if_splits)
  ultimately show ?case by (rule rel_trans)
qed

lemma race_results_rel: "race_results N m us e (f, w) = (a, s) \<Longrightarrow> R f (fst s)"
proof (induction us arbitrary: e f w)
  case Nil
  then show ?case by (auto intro: rel_refl)
next
  case (Cons u us)
  obtain x g v where x: "exchange N m u (f, w) = (x, g, v)" by (cases "exchange N m u (f, w)") auto
  have "R f g" using exchange_rel [OF x] by simp
  moreover have "R g (fst s)"
    using Cons.prems x Cons.IH [of _ g v] rel_refl by (auto split: ex_result.splits option.splits if_splits)
  ultimately show ?case by (rule rel_trans)
qed

lemma race_rel: "race N m us (f, w) = (a, s) \<Longrightarrow> R f (fst s)"
  by (auto simp: race_def split: prod.splits intro: race_results_rel)

end

definition same_shape :: "Forwarder \<Rightarrow> Forwarder \<Rightarrow> bool" where
  "same_shape f g \<longleftrightarrow>
     f_def g = f_def f \<and> f_cond g = f_cond f \<and> f_strategy g = f_strategy f \<and> f_timeout g = f_timeout f \<and>
     f_failCache g = f_failCache f \<and> f_closed g = f_closed f \<and>
     map (\<lambda>u. (u_addr u, u_ex u, u_closed u)) (f_ups g) = map (\<lambda>u. (u_addr u, u_ex u, u_closed u)) (f_ups f)"

lemma markResult_frame [simp]:
  "u_addr (markResult ok lat now tm u) = u_addr u" "u_ex (markResult ok lat now tm u) = u_ex u"
  "u_closed (markResult ok lat now tm u) = u_closed u"
  by (simp_all add: markResult_def Let_def)

lemma map_update_same: "g y = g (xs ! i) \<Longrightarrow> map g (xs[i := y]) = map g xs"
  by (cases "i < length xs") (simp_all add: map_update list_update_same_conv list_update_beyond)

interpretation shape: recording_relation same_shape
  by unfold_locales (simp_all add: same_shape_def map_update_same)

lemma same_shape_nth:
  assumes "same_shape f g" "u < length (f_ups f)"
  shows "u_addr (f_ups g ! u) = u_addr (f_ups f ! u)" "u_ex (f_ups g ! u) = u_ex (f_ups f ! u)"
    "u_closed (f_ups g ! u) = u_closed (f_ups f ! u)"
proof -
  have m: "map (\<lambda>u. (u_addr u, u_ex u, u_closed u)) (f_ups g) = map (\<lambda>u. (u_addr u, u_ex u, u_closed u)) (f_ups f)"
    using assms(1) by (simp only: same_shape_def)
  have "map (\<lambda>u. (u_addr u, u_ex u, u_closed u)) (f_ups g) ! u = map (\<lambda>u. (u_addr u, u_ex u, u_closed u)) (f_ups f) ! u"
    by (simp only: m)
  moreover have "length (f_ups g) = length (f_ups f)" using m by (rule map_eq_imp_length_eq)
  ultimately show "u_addr (f_ups g ! u) = u_addr (f_ups f ! u)" "u_ex (f_ups g ! u) = u_ex (f_ups f ! u)"
    "u_closed (f_ups g ! u) = u_closed (f_ups f ! u)" using assms(2) by simp_all
qed

lemma markResult_fails: "0 \<le> u_fails u \<Longrightarrow> u_fails u < 3 \<Longrightarrow>
  0 \<le> u_fails (markResult ok lat now tm u) \<and> u_fails (markResult ok lat now tm u) < 3"
  by (simp add: markResult_def Let_def)

lemma wf_mark:
  assumes wf: "wf_fwd f"
  shows "wf_fwd (f\<lparr>f_ups := (f_ups f)[u := markResult ok lat now tm (f_ups f ! u)]\<rparr>)"
proof -
  let ?g = "f\<lparr>f_ups := (f_ups f)[u := markResult ok lat now tm (f_ups f ! u)]\<rparr>"
  have sh: "same_shape f ?g" by (rule shape.rel_mark)
  have refs: "cond_refs ?g = cond_refs f" by (simp add: cond_refs_def)
  show ?thesis
  proof (rule wf_fwdI)
    show "v = v'" if "v \<in> set (cond_refs ?g)" "v' \<in> set (cond_refs ?g)" "u_addr (f_ups ?g ! v) = u_addr (f_ups ?g ! v')" for v v'
    proof (rule wf_fwdD(4) [OF wf])
      show "v \<in> set (cond_refs f)" "v' \<in> set (cond_refs f)" using that by (simp_all only: refs)
      then show "u_addr (f_ups f ! v) = u_addr (f_ups f ! v')"
        using that(3) wf_fwdD(2) [OF wf] by (simp only: same_shape_nth [OF sh])
    qed
    show "\<not> u_closed (f_ups ?g ! v)" if "\<not> f_closed ?g" "v \<in> set (f_def ?g) \<or> v \<in> set (cond_refs ?g)" for v
      using that wf_fwdD(1,2,5,6) [OF wf, of v] same_shape_nth(3) [OF sh, of v] by (auto simp: refs)
    show "0 \<le> u_fails (f_ups ?g ! v) \<and> u_fails (f_ups ?g ! v) < 3" if "v < length (f_ups ?g)" for v
      using that wf_fwdD(7,8) [OF wf, of v] markResult_fails by (cases "v = u") auto
  qed (use wf_fwdD [OF wf] refs in auto)
qed

interpretation kept: recording_relation "\<lambda>f g. wf_fwd f \<longrightarrow> wf_fwd g"
  by unfold_locales (blast intro: wf_mark)+

section \<open>What leaves the server\<close>

lemma ToLower_scramble: "ToLower (scramble bits (ToLower s)) = ToLower s"
proof -
  have "lower_char (if 97 \<le> (of_char (lower_char c) :: nat) \<and> (of_char (lower_char c) :: nat) \<le> 122 \<and> b
        then char_of ((of_char (lower_char c) :: nat) - 32) else lower_char c) = lower_char c" for c b
    by (auto simp: lower_char_def)
  then show ?thesis
    by (simp add: scramble_def ToLower_def list_eq_iff_nth_eq nth_enumerate_eq)
qed

text \<open>The messages a query for \<open>q\<close> may put on the wire: the question, spelled in any case, in dnsaur's
  own envelope.\<close>

definition sent :: "dns_lib \<Rightarrow> question \<Rightarrow> bool \<Rightarrow> msg \<Rightarrow> bool" where
  "sent L q do m \<longleftrightarrow> (\<exists>mid nm. EqualFold nm (q_name q) \<and> m = upstreamQuery L mid (q\<lparr>q_name := nm\<rparr>) do)"

lemma upstreamQuery_fields:
  assumes "edns_laws L"
  shows "m_question (upstreamQuery L mid q do) = [q]"
    "(upstreamQuery L mid q do)\<lparr>m_question := [q']\<rparr> = upstreamQuery L mid q' do"
  using assms by (simp_all add: upstreamQuery_def edns_laws_def)

lemma sent_scrambled:
  "edns_laws L \<Longrightarrow>
   sent L q do ((upstreamQuery L mid q do)\<lparr>m_question := [q\<lparr>q_name := scramble bits (ToLower (q_name q))\<rparr>]\<rparr>)"
  using ToLower_scramble by (auto simp: sent_def upstreamQuery_fields EqualFold_def)

lemma sent_self: "sent L q do (upstreamQuery L mid q do)"
  unfolding sent_def by (rule exI [of _ mid], rule exI [of _ "q_name q"]) simp

text \<open>Two networks that treat those messages alike cannot be told apart by a query.\<close>

definition alike :: "dns_lib \<Rightarrow> question \<Rightarrow> bool \<Rightarrow> 'w net \<Rightarrow> 'w net \<Rightarrow> bool" where
  "alike L q do N N' \<longleftrightarrow>
     n_now N' = n_now N \<and> n_id N' = n_id N \<and> n_bits N' = n_bits N \<and> n_ctxerr N' = n_ctxerr N \<and>
     n_arrival N' = n_arrival N \<and>
     (\<forall>m. sent L q do m \<longrightarrow> (\<forall>a t w. n_udp N' a t m w = n_udp N a t m w \<and> n_tcp N' a t m w = n_tcp N a t m w) \<and>
        (\<forall>t w. n_encrypted N' t m w = n_encrypted N t m w))"

lemma Exchange_alike:
  assumes "edns_laws L" "alike L q do N N'"
  shows "Exchange N' t (upstreamQuery L mid q do) w = Exchange N t (upstreamQuery L mid q do) w"
proof (cases "us_Scheme (tr_up t)")
  case SchemePlain
  have "plain_Exchange N' a tm (upstreamQuery L mid q do) w = plain_Exchange N a tm (upstreamQuery L mid q do) w" for a tm
  proof -
    obtain bits v where bits: "n_bits N w = (bits, v)" by (cases "n_bits N w") auto
    define m where "m = (upstreamQuery L mid q do)\<lparr>m_question := [q\<lparr>q_name := scramble bits (ToLower (q_name q))\<rparr>]\<rparr>"
    have "sent L q do m" unfolding m_def by (rule sent_scrambled [OF assms(1)])
    then have *: "n_udp N' a tm m x = n_udp N a tm m x" "n_tcp N' a tm m x = n_tcp N a tm m x" for x
      using assms(2) by (simp_all add: alike_def)
    have "n_bits N' w = (bits, v)" using assms(2) bits by (simp add: alike_def)
    then show ?thesis
      by (simp add: plain_Exchange_def upstreamQuery_fields(1) [OF assms(1)] bits Let_def)
         (unfold * [unfolded m_def], rule refl)
  qed
  with SchemePlain show ?thesis by (simp add: Exchange_def)
qed (use assms(2) sent_self in \<open>auto simp: Exchange_def alike_def\<close>)

lemma exchange_alike:
  assumes "edns_laws L" "alike L q do N N'"
  shows "exchange N' (upstreamQuery L mid q do) u s = exchange N (upstreamQuery L mid q do) u s"
proof -
  have eqs: "n_now N' = n_now N" "n_ctxerr N' = n_ctxerr N" using assms(2) by (simp_all add: alike_def)
  show ?thesis unfolding exchange_def markLatency_def Exchange_alike [OF assms] eqs by (rule refl)
qed

lemma failover_alike:
  assumes "edns_laws L" "alike L q do N N'"
  shows "failover N' (upstreamQuery L mid q do) us e s = failover N (upstreamQuery L mid q do) us e s"
proof (induction us arbitrary: e s)
  case (Cons u us)
  show ?case unfolding failover.simps exchange_alike [OF assms] Cons.IH by (rule refl)
qed simp

lemma race_alike:
  assumes "edns_laws L" "alike L q do N N'"
  shows "race N' (upstreamQuery L mid q do) us s = race N (upstreamQuery L mid q do) us s"
proof -
  have "race_results N' (upstreamQuery L mid q do) us e s = race_results N (upstreamQuery L mid q do) us e s" for us e s
  proof (induction us arbitrary: e s)
    case (Cons u us)
    show ?case unfolding race_results.simps exchange_alike [OF assms] Cons.IH by (rule refl)
  qed simp
  moreover have "n_arrival N' = n_arrival N" using assms(2) by (simp add: alike_def)
  ultimately show ?thesis by (simp add: race_def)
qed

lemma healthy_of_alike: "n_now N' = n_now N \<Longrightarrow> healthy_of N' us f w = healthy_of N us f w"
  by (induction us arbitrary: w) (simp_all add: Let_def)

lemma note_failure_alike:
  assumes "n_now N' = n_now N"
  shows "note_failure N' k s = note_failure N k s"
  unfolding note_failure_def assms by (rule refl)

lemma resolve_upstream_alike:
  assumes "edns_laws L" "alike L q do N N'"
  shows "resolve_upstream L N' q do k s = resolve_upstream L N q do k s"
proof -
  have eqs: "n_now N' = n_now N" "n_id N' = n_id N" using assms(2) by (simp_all add: alike_def)
  show ?thesis
    unfolding resolve_upstream_def Let_def failover_alike [OF assms] race_alike [OF assms] eqs
      healthy_of_alike [OF eqs(1)] note_failure_alike [OF eqs(1)] by (rule refl)
qed

text \<open>C16: only the question leaves.  Whatever else the client's message carries, a query puts nothing on
  the wire but its question, in any letter case, inside an envelope of dnsaur's own that holds the DO bit
  and no other option: two networks that treat those messages alike give the same result and the same
  final state.  Two clients that ask the same question with the same DO bit leave everything, the network
  included, in the same state.\<close>

theorem only_the_question_leaves:
  assumes "edns_laws L" "m_question (rq_msg r) = [q]"
    and "alike L q (do_bit L r) N N'"
    and "m_question (rq_msg r') = [q]" "do_bit L r' = do_bit L r"
  shows "Handler L N' r s = Handler L N r s \<and> snd (Handler L N r' s) = snd (Handler L N r s) \<and>
    (\<forall>m. sent L q (do_bit L r) m \<longrightarrow>
       (\<exists>q'. m_question m = [q'] \<and> EqualFold (q_name q') (q_name q) \<and> q_type q' = q_type q \<and> q_class q' = q_class q) \<and>
       m_answer m = [] \<and> m_ns m = [] \<and>
       map rr_data (m_extra m) = [RD_OPT \<lparr>e_udpsize = 1232, e_do = do_bit L r, e_options = []\<rparr>])"
proof -
  have now: "n_now N' = n_now N" using assms(3) by (simp add: alike_def)
  have "QName r' = QName r" "QType r' = QType r" using assms(2,4) by (simp_all add: QName_def QType_def)
  then have "snd (Handler L N r' s) = snd (Handler L N r s)"
    using assms(2,4,5) by (simp add: Handler_def Let_def split: prod.splits attempt.splits option.splits)
  moreover have "Handler L N' r s = Handler L N r s"
    unfolding Handler_def Let_def assms(2) list.case now
    by (simp only: resolve_upstream_alike [OF assms(1,3)])
  moreover have "m_extra (upstreamQuery L mid q do) =
      [RR \<lparr>h_name = ''.'', h_rrtype = TypeOPT, h_class = 1232, h_ttl = (if do then 0x8000 else 0)\<rparr>
         (RD_OPT \<lparr>e_udpsize = 1232, e_do = do, e_options = []\<rparr>)] \<and>
      m_answer (upstreamQuery L mid q do) = [] \<and> m_ns (upstreamQuery L mid q do) = []" for mid q do
    using assms(1) by (simp add: upstreamQuery_def edns_laws_def)
  ultimately show ?thesis by (auto simp: sent_def upstreamQuery_fields [OF assms(1)])
qed

section \<open>Where a reply comes from\<close>

text \<open>A race reports every attempt once, in some order.\<close>

definition arrival_law :: "('w, 'x) net_scheme \<Rightarrow> bool" where
  "arrival_law N \<longleftrightarrow> (\<forall>us w. set (fst (n_arrival N us w)) = set us)"

definition from_upstream :: "('w, 'x) net_scheme \<Rightarrow> Forwarder \<Rightarrow> msg \<Rightarrow> nat \<Rightarrow> msg \<Rightarrow> bool" where
  "from_upstream N f out u m \<longleftrightarrow>
     (\<exists>w1 w2. Exchange N (u_ex (f_ups f ! u)) out w1 = (Ex (Some m) None, w2)) \<and> m_rcode m \<noteq> RcodeServerFailure"

lemma exchange_reply:
  assumes "exchange N m u (f, w) = (Ex (Some r) None, s)"
  shows "\<exists>w1 w2. Exchange N (u_ex (f_ups f ! u)) m w1 = (Ex (Some r) None, w2)"
  using assms by (auto simp: exchange_def Let_def split: option.splits prod.splits ex_result.splits if_splits)

lemma from_upstream_shape:
  "same_shape f g \<Longrightarrow> u < length (f_ups f) \<Longrightarrow> from_upstream N g out u m \<Longrightarrow> from_upstream N f out u m"
  by (simp add: from_upstream_def same_shape_nth)

lemma same_shape_length: "same_shape f g \<Longrightarrow> length (f_ups g) = length (f_ups f)"
  unfolding same_shape_def by (blast intro: map_eq_imp_length_eq)

lemma failover_reply:
  assumes "failover N out us e (f, w) = (Got m u, s)" "set us \<subseteq> {..<length (f_ups f)}"
  shows "u \<in> set us \<and> from_upstream N f out u m"
  using assms
proof (induction us arbitrary: e f w)
  case (Cons v us)
  obtain x g y where x: "exchange N out v (f, w) = (x, g, y)" by (cases "exchange N out v (f, w)") auto
  have sh: "same_shape f g" using shape.exchange_rel [OF x] by simp
  have rec: ?case if "failover N out us e' (g, y) = (Got m u, s)" for e'
    using Cons.IH [OF that] Cons.prems(2) from_upstream_shape [OF sh, of u] same_shape_length [OF sh] by auto
  show ?case
  proof (cases x)
    case (Ex r e')
    with Cons.prems(1) x rec exchange_reply [of N out v f w m s] show ?thesis
      by (auto simp: from_upstream_def split: option.splits if_splits dest: exchange_reply)
  qed (use Cons.prems(1) x in simp)
qed simp

lemma race_results_reply:
  assumes "race_results N out us e (f, w) = (Got m u, s)" "set us \<subseteq> {..<length (f_ups f)}"
  shows "u \<in> set us \<and> from_upstream N f out u m"
  using assms
proof (induction us arbitrary: e f w)
  case (Cons v us)
  obtain x g y where x: "exchange N out v (f, w) = (x, g, y)" by (cases "exchange N out v (f, w)") auto
  have sh: "same_shape f g" using shape.exchange_rel [OF x] by simp
  have rec: ?case if "race_results N out us e' (g, y) = (Got m u, s)" for e'
    using Cons.IH [OF that] Cons.prems(2) from_upstream_shape [OF sh, of u] same_shape_length [OF sh] by auto
  show ?case
  proof (cases x)
    case (Ex r e')
    with Cons.prems(1) x rec show ?thesis
      by (auto simp: from_upstream_def split: option.splits if_splits dest: exchange_reply)
  qed (use Cons.prems(1) x rec in simp)
qed simp

lemma healthy_of_set: "set (fst (healthy_of N us f w)) \<subseteq> set us"
proof (induction us arbitrary: w)
  case (Cons u us)
  obtain now v where n: "n_now N w = (now, v)" by (cases "n_now N w") auto
  obtain hs x where h: "healthy_of N us f v = (hs, x)" by (cases "healthy_of N us f v") auto
  have "set hs \<subseteq> set us" using Cons.IH [of v] h by simp
  then show ?case by (auto simp: n h Let_def)
qed simp

text \<open>The two strategies behind one result.\<close>

definition ask :: "('w, 'x) net_scheme \<Rightarrow> msg \<Rightarrow> nat list \<Rightarrow> Forwarder \<times> 'w \<Rightarrow> attempt \<times> Forwarder \<times> 'w" where
  "ask N out us s =
     (if f_strategy (fst s) = ''race'' then race N out us s else failover N out (attempt_order (fst s) us) None s)"

lemma ask_reply:
  assumes "ask N out us (f, w) = (Got m u, s)" "set us \<subseteq> {..<length (f_ups f)}" "arrival_law N"
  shows "u \<in> set us \<and> from_upstream N f out u m"
proof (cases "f_strategy f = ''race''")
  case True
  obtain order v where o: "n_arrival N us w = (order, v)" by (cases "n_arrival N us w") auto
  have "set order = set us" using assms(3) o by (metis arrival_law_def fst_conv)
  with True assms o race_results_reply [of N out order None f v] show ?thesis by (simp add: ask_def race_def)
next
  case False
  with assms failover_reply [of N out "attempt_order f us" None f w m u s] show ?thesis
    by (simp add: ask_def attempt_order_def split: if_splits)
qed

lemma ask_shape: "ask N out us (f, w) = (a, s) \<Longrightarrow> same_shape f (fst s)"
  by (auto simp: ask_def split: if_splits intro: shape.race_rel shape.failover_rel)

lemma ask_wf: "ask N out us (f, w) = (a, s) \<Longrightarrow> wf_fwd f \<Longrightarrow> wf_fwd (fst s)"
  using kept.race_rel [of N out us f w a s] kept.failover_rel [of N out _ None f w a s] by (auto simp: ask_def split: if_splits)

lemma resolve_upstream_ask:
  "\<exists>hs mid v. set hs \<subseteq> set (pick f (fst k)) \<and>
     (fst (healthy_of N (pick f (fst k)) f w) \<noteq> [] \<longrightarrow> hs = fst (healthy_of N (pick f (fst k)) f w)) \<and>
     (fst (healthy_of N (pick f (fst k)) f w) = [] \<longrightarrow> hs = pick f (fst k)) \<and>
     resolve_upstream L N q do k (f, w) =
       (case ask N (upstreamQuery L mid q do) hs (f, v) of
          (Failed e, s) \<Rightarrow> (Failed e, note_failure N k s) | (a, s) \<Rightarrow> (a, s))"
proof -
  obtain hs0 w1 where h: "healthy_of N (pick f (fst k)) f w = (hs0, w1)" by (cases "healthy_of N (pick f (fst k)) f w") auto
  obtain mid w2 where i: "n_id N w1 = (mid, w2)" by (cases "n_id N w1") auto
  define hs where "hs = (if hs0 = [] then pick f (fst k) else hs0)"
  have "set hs \<subseteq> set (pick f (fst k))" using healthy_of_set [of N "pick f (fst k)" f w] h by (simp add: hs_def)
  moreover have "resolve_upstream L N q do k (f, w) =
       (case ask N (upstreamQuery L mid q do) hs (f, w2) of
          (Failed e, s) \<Rightarrow> (Failed e, note_failure N k s) | (a, s) \<Rightarrow> (a, s))"
    by (simp add: resolve_upstream_def h i hs_def ask_def Let_def split: prod.split attempt.split)
  ultimately show ?thesis using h by (intro exI [of _ hs] exI [of _ mid] exI [of _ w2]) (auto simp: hs_def)
qed

lemma pick_failCache [simp]: "pick (f\<lparr>f_failCache := c\<rparr>) n = pick f n"
  by (simp add: pick_def split: option.split)

lemma pick_range:
  assumes "wf_fwd f" "u \<in> set (pick f n)"
  shows "u < length (f_ups f)"
proof -
  have "u \<in> set (f_def f) \<or> u \<in> set (cond_refs f)"
  proof (cases "f_cond f")
    case (Some t)
    show ?thesis
    proof (cases "Match (ct_set t) n")
      case (Some m)
      with assms(2) \<open>f_cond f = Some t\<close> obtain us where "map_of (ct_routes t) m = Some us" "u \<in> set us"
        by (cases "map_of (ct_routes t) m") (simp_all add: pick_def)
      then show ?thesis using \<open>f_cond f = Some t\<close> by (force simp: cond_refs_def dest: map_of_SomeD)
    qed (use assms(2) Some in \<open>simp add: pick_def\<close>)
  qed (use assms(2) in \<open>simp add: pick_def\<close>)
  then show ?thesis using wf_fwdD(1,2) [OF assms(1)] by blast
qed

text \<open>The handler below the failure cache.\<close>

lemma Handler_cases:
  assumes "m_question (rq_msg r) = [q]"
  shows "\<exists>now v. (Handler L N r (f, w) = (Returned (Some (Servfail L r)) None, f, v) \<and> cached_failure now (QName r, QType r) f)
    \<or> (\<not> cached_failure now (QName r, QType r) f \<and>
       Handler L N r (f, w) =
         (case resolve_upstream L N q (do_bit L r) (QName r, QType r) (f\<lparr>f_failCache := fmdrop (QName r, QType r) (f_failCache f)\<rparr>, v) of
            (Crashed, s) \<Rightarrow> (Panicked, s)
          | (Failed e, s) \<Rightarrow> (Returned None (Some (case e of None \<Rightarrow> ''all upstreams failed'' | Some e \<Rightarrow> e)), s)
          | (Got m u, s) \<Rightarrow>
              (Returned (Some ((reply (m\<lparr>m_id := m_id (rq_msg r)\<rparr>) DecisionForwarded)
                 \<lparr>rs_upstream := u_addr (f_ups (fst s) ! u)\<rparr>)) None, s)))"
proof -
  obtain now v where *: "(case fmlookup (f_failCache f) (QName r, QType r) of Some _ \<Rightarrow> n_now N w | None \<Rightarrow> (0, w)) = (now, v)"
    by (metis surj_pair)
  show ?thesis
    by (rule exI [of _ now], rule exI [of _ v]) (simp add: Handler_def assms * Let_def)
qed

text \<open>A forwarded reply is an upstream's reply.  When the handler answers from upstream, the message
  is, up to the message id, which is the client's, the reply that one of the upstreams chosen for the name
  gave to dnsaur's own query for the client's question; it is not SERVFAIL, and the response names that
  upstream.\<close>

theorem forwarded_reply_from_upstream:
  assumes "wf_fwd f" "arrival_law N" "m_question (rq_msg r) = [q]"
    and "Handler L N r (f, w) = (Returned (Some rs) err, s)" "rs_decision rs = DecisionForwarded"
  shows "err = None \<and> (\<exists>u mid m. u \<in> set (pick f (QName r)) \<and> rs_upstream rs = u_addr (f_ups f ! u) \<and>
    from_upstream N f (upstreamQuery L mid q (do_bit L r)) u m \<and>
    rs_msg rs = Some (m\<lparr>m_id := m_id (rq_msg r)\<rparr>))"
proof -
  let ?k = "(QName r, QType r)"
  let ?f = "f\<lparr>f_failCache := fmdrop ?k (f_failCache f)\<rparr>"
  have same: "from_upstream N ?f out u m = from_upstream N f out u m" for out u m by (simp add: from_upstream_def)
  have range: "set (pick f (QName r)) \<subseteq> {..<length (f_ups f)}"
    using pick_range [OF assms(1)] by auto
  obtain v where H: "Handler L N r (f, w) =
      (case resolve_upstream L N q (do_bit L r) ?k (?f, v) of
         (Crashed, s) \<Rightarrow> (Panicked, s)
       | (Failed e, s) \<Rightarrow> (Returned None (Some (case e of None \<Rightarrow> ''all upstreams failed'' | Some e \<Rightarrow> e)), s)
       | (Got m u, s) \<Rightarrow>
           (Returned (Some ((reply (m\<lparr>m_id := m_id (rq_msg r)\<rparr>) DecisionForwarded)
              \<lparr>rs_upstream := u_addr (f_ups (fst s) ! u)\<rparr>)) None, s))"
    using Handler_cases [OF assms(3), of L N f w] assms(4,5) by (auto simp: Servfail_def reply_def)
  obtain m u where g: "resolve_upstream L N q (do_bit L r) ?k (?f, v) = (Got m u, s)" "err = None"
    "rs = (reply (m\<lparr>m_id := m_id (rq_msg r)\<rparr>) DecisionForwarded)\<lparr>rs_upstream := u_addr (f_ups (fst s) ! u)\<rparr>"
    using H assms(4) by (auto split: prod.splits attempt.splits)
  obtain hs mid v' where a: "set hs \<subseteq> set (pick f (QName r))"
    "resolve_upstream L N q (do_bit L r) ?k (?f, v) =
       (case ask N (upstreamQuery L mid q (do_bit L r)) hs (?f, v') of
          (Failed e, s) \<Rightarrow> (Failed e, note_failure N ?k s) | (a, s) \<Rightarrow> (a, s))"
    using resolve_upstream_ask [of ?f ?k N v L q "do_bit L r"] by auto
  have got: "ask N (upstreamQuery L mid q (do_bit L r)) hs (?f, v') = (Got m u, s)"
    using a(2) g(1) by (auto split: prod.splits attempt.splits)
  have u: "u \<in> set hs \<and> from_upstream N f (upstreamQuery L mid q (do_bit L r)) u m"
    using ask_reply [OF got _ assms(2)] a(1) range same by auto
  have "u_addr (f_ups (fst s) ! u) = u_addr (f_ups f ! u)"
    using same_shape_nth(1) [OF ask_shape [OF got], of u] u a(1) range by auto
  with u a(1) g show ?thesis by (auto simp: reply_def intro!: exI [of _ u] exI [of _ mid] exI [of _ m])
qed

section \<open>When a query is answered\<close>

text \<open>For queries with one question: a transport that answers every one, transports that never misbehave (a nil reply without an
  error, or a panic) and a request whose deadline has not passed.\<close>

definition answers :: "('w, 'x) net_scheme \<Rightarrow> transport \<Rightarrow> bool" where
  "answers N t \<longleftrightarrow> (\<forall>m w. length (m_question m) = 1 \<longrightarrow> (\<exists>r w'. Exchange N t m w = (Ex (Some r) None, w') \<and> m_rcode r \<noteq> RcodeServerFailure))"

definition behaves :: "('w, 'x) net_scheme \<Rightarrow> bool" where
  "behaves N \<longleftrightarrow> (\<forall>t m w. length (m_question m) = 1 \<longrightarrow> fst (Exchange N t m w) \<noteq> ExPanic \<and> fst (Exchange N t m w) \<noteq> Ex None None)"

definition in_time :: "('w, 'x) net_scheme \<Rightarrow> bool" where
  "in_time N \<longleftrightarrow> (\<forall>w. n_ctxerr N w = None)"

lemma exchange_answers:
  assumes "answers N (u_ex (f_ups f ! u))" "in_time N" "length (m_question m) = 1"
  shows "\<exists>r s. exchange N m u (f, w) = (Ex (Some r) None, s) \<and> m_rcode r \<noteq> RcodeServerFailure"
proof -
  obtain t w1 where n: "n_now N w = (t, w1)" by (cases "n_now N w") auto
  obtain r w2 where "Exchange N (u_ex (f_ups f ! u)) m w1 = (Ex (Some r) None, w2)" "m_rcode r \<noteq> RcodeServerFailure"
    using assms(1,3) unfolding answers_def by blast
  with n assms(2) show ?thesis by (simp add: exchange_def in_time_def Let_def)
qed

lemma exchange_behaves:
  assumes "behaves N" "length (m_question m) = 1"
  shows "fst (exchange N m u s) \<noteq> ExPanic \<and> fst (exchange N m u s) \<noteq> Ex None None"
proof -
  obtain f w where s: "s = (f, w)" by (cases s)
  obtain t w1 where n: "n_now N w = (t, w1)" by (cases "n_now N w") auto
  obtain x w2 where x: "Exchange N (u_ex (f_ups f ! u)) m w1 = (x, w2)" by (cases "Exchange N (u_ex (f_ups f ! u)) m w1") auto
  have "x \<noteq> ExPanic \<and> x \<noteq> Ex None None" using assms x unfolding behaves_def by (metis fst_conv)
  then show ?thesis by (cases x) (auto simp: s n x exchange_def Let_def split: option.splits)
qed

lemma failover_answers:
  assumes "behaves N" "in_time N" "length (m_question out) = 1"
    and "u \<in> set us" "answers N (u_ex (f_ups f ! u))" "u < length (f_ups f)"
  shows "\<exists>m v s. failover N out us e (f, w) = (Got m v, s)"
  using assms(4-6)
proof (induction us arbitrary: e f w)
  case (Cons v us)
  obtain x g y where x: "exchange N out v (f, w) = (x, g, y)" by (cases "exchange N out v (f, w)") auto
  have sh: "same_shape f g" using shape.exchange_rel [OF x] by simp
  show ?case
  proof (cases "v = u")
    case True
    with exchange_answers [of N f u out w] Cons.prems(2) assms(2,3) show ?thesis by fastforce
  next
    case False
    then have rec: "\<exists>m v s. failover N out us e' (g, y) = (Got m v, s)" for e'
      using Cons.IH [of g e' y] Cons.prems sh by (simp add: same_shape_nth same_shape_length)
    from exchange_behaves [OF assms(1,3), of v "(f, w)"] x rec show ?thesis
      by (cases x) (auto split: option.splits)
  qed
qed simp

lemma race_results_answers:
  assumes "behaves N" "in_time N" "length (m_question out) = 1"
    and "u \<in> set us" "answers N (u_ex (f_ups f ! u))" "u < length (f_ups f)"
  shows "\<exists>m v s. race_results N out us e (f, w) = (Got m v, s)"
  using assms(4-6)
proof (induction us arbitrary: e f w)
  case (Cons v us)
  obtain x g y where x: "exchange N out v (f, w) = (x, g, y)" by (cases "exchange N out v (f, w)") auto
  have sh: "same_shape f g" using shape.exchange_rel [OF x] by simp
  show ?case
  proof (cases "v = u")
    case True
    with exchange_answers [of N f u out w] Cons.prems(2) assms(2,3) show ?thesis by fastforce
  next
    case False
    then have rec: "\<exists>m v s. race_results N out us e' (g, y) = (Got m v, s)" for e'
      using Cons.IH [of g e' y] Cons.prems sh by (simp add: same_shape_nth same_shape_length)
    from exchange_behaves [OF assms(1,3), of v "(f, w)"] x rec show ?thesis
      by (cases x) (auto split: option.splits)
  qed
qed simp

lemma ask_answers:
  assumes "behaves N" "in_time N" "arrival_law N" "length (m_question out) = 1"
    and "u \<in> set us" "answers N (u_ex (f_ups f ! u))" "u < length (f_ups f)"
  shows "\<exists>m v s. ask N out us (f, w) = (Got m v, s)"
proof (cases "f_strategy f = ''race''")
  case True
  obtain order v where o: "n_arrival N us w = (order, v)" by (cases "n_arrival N us w") auto
  have "u \<in> set order" using assms(3,5) o by (metis arrival_law_def fst_conv)
  from race_results_answers [OF assms(1,2,4) this assms(6,7), of None v] True o show ?thesis by (simp add: ask_def race_def)
next
  case False
  have "u \<in> set (attempt_order f us)" using assms(5) by (simp add: attempt_order_def)
  from failover_answers [OF assms(1,2,4) this assms(6,7), of None w] False show ?thesis by (simp add: ask_def)
qed

lemma healthy_of_mem:
  "u \<in> set us \<Longrightarrow> (\<And>w. healthy (fst (n_now N w)) (f_ups f ! u)) \<Longrightarrow> u \<in> set (fst (healthy_of N us f w))"
proof (induction us arbitrary: w)
  case (Cons v us)
  obtain now x where n: "n_now N w = (now, x)" by (cases "n_now N w") auto
  obtain hs y where h: "healthy_of N us f x = (hs, y)" by (cases "healthy_of N us f x") auto
  have "healthy now (f_ups f ! u)" using Cons.prems(2) [of w] n by simp
  moreover have "u \<in> set us \<longrightarrow> u \<in> set hs" using Cons.IH [of x] Cons.prems(2) h by auto
  ultimately show ?case using Cons.prems(1) by (auto simp: n h Let_def)
qed simp


section \<open>The failure cache\<close>

text \<open>A failed name is not asked again for thirty seconds.  When no upstream could answer, the failure
  is recorded under the name and type until thirty seconds after the last reading of the clock; while
  that time has not come, every query for the same name and type is answered SERVFAIL without any upstream
  being asked: nothing of the forwarder changes and the network sees only a reading of the clock.  No other
  name or type gains an entry.\<close>

theorem failure_is_cached:
  assumes "m_question (rq_msg r) = [q]" "Handler L N r (f, w) = (Returned None (Some e), f', w')"
    and "m_question (rq_msg r') = [q']" "QName r' = QName r" "QType r' = QType r"
  shows "(\<exists>v. fmlookup (f_failCache f') (QName r, QType r) = Some (fst (n_now N v) + 30 * Second) \<and> w' = snd (n_now N v)) \<and>
    (\<forall>w2. fst (n_now N w2) < the (fmlookup (f_failCache f') (QName r, QType r)) \<longrightarrow>
       Handler L N r' (f', w2) = (Returned (Some (Servfail L r')) None, f', snd (n_now N w2))) \<and>
    (\<forall>k. k \<noteq> (QName r, QType r) \<longrightarrow> fmlookup (f_failCache f') k \<in> {None, fmlookup (f_failCache f) k})"
proof -
  let ?k = "(QName r, QType r)"
  let ?f = "f\<lparr>f_failCache := fmdrop ?k (f_failCache f)\<rparr>"
  obtain v where H: "Handler L N r (f, w) =
      (case resolve_upstream L N q (do_bit L r) ?k (?f, v) of
         (Crashed, s) \<Rightarrow> (Panicked, s)
       | (Failed e, s) \<Rightarrow> (Returned None (Some (case e of None \<Rightarrow> ''all upstreams failed'' | Some e \<Rightarrow> e)), s)
       | (Got m u, s) \<Rightarrow>
           (Returned (Some ((reply (m\<lparr>m_id := m_id (rq_msg r)\<rparr>) DecisionForwarded)
              \<lparr>rs_upstream := u_addr (f_ups (fst s) ! u)\<rparr>)) None, s))"
    using Handler_cases [OF assms(1), of L N f w] assms(2) by auto
  obtain e' where g: "resolve_upstream L N q (do_bit L r) ?k (?f, v) = (Failed e', f', w')"
    using H assms(2) by (auto split: prod.splits attempt.splits)
  obtain hs mid v' where a: "resolve_upstream L N q (do_bit L r) ?k (?f, v) =
       (case ask N (upstreamQuery L mid q (do_bit L r)) hs (?f, v') of
          (Failed e, s) \<Rightarrow> (Failed e, note_failure N ?k s) | (a, s) \<Rightarrow> (a, s))"
    using resolve_upstream_ask [of ?f ?k N v L q "do_bit L r"] by auto
  then obtain g0 w0 where n: "note_failure N ?k (g0, w0) = (f', w')"
    "ask N (upstreamQuery L mid q (do_bit L r)) hs (?f, v') = (Failed e', g0, w0)"
    using g by (auto split: prod.splits attempt.splits)
  have fc: "f_failCache g0 = fmdrop ?k (f_failCache f)" using ask_shape [OF n(2)] by (simp add: same_shape_def)
  have N1: "\<exists>v. fmlookup (f_failCache f') ?k = Some (fst (n_now N v) + 30 * Second) \<and> w' = snd (n_now N v)"
  proof (cases "fcard (fmdom (f_failCache g0)) \<ge> maxFailCacheEntries")
    case True
    with n(1) show ?thesis by (intro exI [of _ "snd (n_now N w0)"]) (auto simp: note_failure_def Let_def split: prod.splits)
  next
    case False
    with n(1) show ?thesis by (intro exI [of _ w0]) (auto simp: note_failure_def Let_def split: prod.splits)
  qed
  have N2: "fmlookup (f_failCache f') k \<in> {None, fmlookup (f_failCache f) k}" if "k \<noteq> ?k" for k
    using n(1) that fc by (auto simp: note_failure_def Let_def split: prod.splits if_splits)
  have N3: "Handler L N r' (f', w2) = (Returned (Some (Servfail L r')) None, f', snd (n_now N w2))"
    if "fst (n_now N w2) < the (fmlookup (f_failCache f') ?k)" for w2
  proof -
    obtain until where u: "fmlookup (f_failCache f') ?k = Some until" using N1 by blast
    have "cached_failure (fst (n_now N w2)) ?k f'" using that u by (simp add: cached_failure_def)
    moreover obtain now v2 where "n_now N w2 = (now, v2)" by (cases "n_now N w2") auto
    ultimately show ?thesis using u assms(3-5) by (simp add: Handler_def Let_def)
  qed
  from N1 N2 N3 show ?thesis by blast
qed


section \<open>Histories of a forwarder\<close>

text \<open>No upstream is forgotten while it is open: each one is in use or closed.\<close>

definition no_leak :: "Forwarder \<Rightarrow> bool" where
  "no_leak f \<longleftrightarrow>
     (\<forall>u < length (f_ups f). u \<in> set (f_def f) \<or> u \<in> set (cond_refs f) \<or> u_closed (f_ups f ! u)) \<and>
     (f_closed f \<longrightarrow> (\<forall>u < length (f_ups f). u_closed (f_ups f ! u)))"

text \<open>The steps of a forwarder's life: queries, results that arrive after their query was answered,
  replacements of the routing table while it is open, and \<open>Close\<close>.\<close>

inductive fwd_steps :: "dns_lib \<Rightarrow> ('w, 'x) net_scheme \<Rightarrow> Forwarder \<Rightarrow> Forwarder \<Rightarrow> bool" for L N where
  steps_refl: "fwd_steps L N f f"
| steps_query: "fwd_steps L N f g \<Longrightarrow> Handler L N r (g, w) = (out, h, w') \<Longrightarrow> fwd_steps L N f h"
| steps_late: "fwd_steps L N f g \<Longrightarrow> late_result N m u (g, w) = (h, w') \<Longrightarrow> fwd_steps L N f h"
| steps_routes: "fwd_steps L N f g \<Longrightarrow> \<not> f_closed g \<Longrightarrow> distinct (map (normalize_d \<circ> fst) rs) \<Longrightarrow>
    fwd_steps L N f (SetConditional rs g)"
| steps_close: "fwd_steps L N f g \<Longrightarrow> fwd_steps L N f (snd (CloseForwarder N g))"

lemma shape_no_leak:
  assumes "same_shape f g" "no_leak f"
  shows "no_leak g"
proof -
  have "cond_refs g = cond_refs f" "f_def g = f_def f" "f_closed g = f_closed f"
    using assms(1) by (simp_all add: same_shape_def cond_refs_def)
  then show ?thesis
    using assms(2) same_shape_nth(3) [OF assms(1)] same_shape_length [OF assms(1)] by (simp add: no_leak_def)
qed

lemma failCache_inv: "wf_fwd (f\<lparr>f_failCache := c\<rparr>) = wf_fwd f" "no_leak (f\<lparr>f_failCache := c\<rparr>) = no_leak f"
  by (simp_all add: wf_fwd_def no_leak_def cond_refs_def)

lemma note_failure_inv:
  assumes "note_failure N k (f, w) = (g, w')"
  shows "\<exists>c. g = f\<lparr>f_failCache := c\<rparr>"
  using assms by (auto simp: note_failure_def Let_def split: prod.splits if_splits)

lemma failCache_self: "g = g\<lparr>f_failCache := f_failCache g\<rparr>"
  by simp

lemma same_self: "\<exists>c c' h. same_shape (f\<lparr>f_failCache := c\<rparr>) h \<and> f = h\<lparr>f_failCache := c'\<rparr> \<and> (wf_fwd f \<longrightarrow> wf_fwd h)"
  by (intro exI [of _ "f_failCache f"] exI [of _ f]) (simp add: same_shape_def)

text \<open>A query only records results and failures.\<close>

lemma Handler_shape:
  assumes "Handler L N r (f, w) = (out, g, w')"
  shows "\<exists>c c' h. same_shape (f\<lparr>f_failCache := c\<rparr>) h \<and> g = h\<lparr>f_failCache := c'\<rparr> \<and> (wf_fwd f \<longrightarrow> wf_fwd h)"
proof (cases "\<exists>q. m_question (rq_msg r) = [q]")
  case False
  then have "Handler L N r (f, w) = (Returned (Some (formerr L r)) None, f, w)"
    by (auto simp: Handler_def split: list.split)
  with assms show ?thesis using same_self by auto
next
  case True
  then obtain q where q: "m_question (rq_msg r) = [q]" by blast
  let ?k = "(QName r, QType r)"
  let ?f = "f\<lparr>f_failCache := fmdrop ?k (f_failCache f)\<rparr>"
  have "g = f \<or> (\<exists>v a. resolve_upstream L N q (do_bit L r) ?k (?f, v) = (a, g, w'))"
    using Handler_cases [OF q, of L N f w]
  proof (elim exE disjE conjE)
    fix v
    assume H: "Handler L N r (f, w) =
         (case resolve_upstream L N q (do_bit L r) ?k (?f, v) of
            (Crashed, s) \<Rightarrow> (Panicked, s)
          | (Failed e, s) \<Rightarrow> (Returned None (Some (case e of None \<Rightarrow> ''all upstreams failed'' | Some e \<Rightarrow> e)), s)
          | (Got m u, s) \<Rightarrow>
              (Returned (Some ((reply (m\<lparr>m_id := m_id (rq_msg r)\<rparr>) DecisionForwarded)
                 \<lparr>rs_upstream := u_addr (f_ups (fst s) ! u)\<rparr>)) None, s))"
    obtain a s where a: "resolve_upstream L N q (do_bit L r) ?k (?f, v) = (a, s)" by (metis surj_pair)
    with H assms have "s = (g, w')" by (cases a) simp_all
    with a show ?thesis by blast
  qed (use assms in simp)
  then consider "g = f" | v a where "resolve_upstream L N q (do_bit L r) ?k (?f, v) = (a, g, w')" by blast
  then show ?thesis
  proof cases
    case 1
    then show ?thesis using same_self by auto
  next
    case (2 v a)
    obtain hs mid v' where "resolve_upstream L N q (do_bit L r) ?k (?f, v) =
         (case ask N (upstreamQuery L mid q (do_bit L r)) hs (?f, v') of
            (Failed e, s) \<Rightarrow> (Failed e, note_failure N ?k s) | (a, s) \<Rightarrow> (a, s))"
      using resolve_upstream_ask [of ?f ?k N v L q "do_bit L r"] by auto
    moreover obtain b h x where h: "ask N (upstreamQuery L mid q (do_bit L r)) hs (?f, v') = (b, h, x)" by (metis prod_cases3)
    ultimately have g: "g = h \<or> (\<exists>c. g = h\<lparr>f_failCache := c\<rparr>)"
      using 2 note_failure_inv [of N ?k h x g w'] by (cases b) simp_all
    then obtain c' where "g = h\<lparr>f_failCache := c'\<rparr>" by (metis failCache_self)
    with ask_shape [OF h] ask_wf [OF h] show ?thesis by (metis failCache_inv(1) fst_conv)
  qed
qed

lemma Handler_inv:
  assumes "Handler L N r (f, w) = (out, g, w')" "wf_fwd f \<and> no_leak f"
  shows "wf_fwd g \<and> no_leak g"
proof -
  obtain c c' h where h: "same_shape (f\<lparr>f_failCache := c\<rparr>) h" "g = h\<lparr>f_failCache := c'\<rparr>" "wf_fwd f \<longrightarrow> wf_fwd h"
    using Handler_shape [OF assms(1)] by blast
  with shape_no_leak [OF h(1)] assms(2) show ?thesis by (simp add: failCache_inv)
qed

text \<open>Where a name is sent is not changed by queries.\<close>

lemma shape_route_addrs:
  assumes "same_shape f g" "wf_fwd f"
  shows "route_addrs g q = route_addrs f q"
proof -
  have "pick g q = pick f q" using assms(1) by (simp add: same_shape_def pick_def split: option.split)
  with same_shape_nth(1) [OF assms(1)] pick_range [OF assms(2)] show ?thesis by (auto simp: route_addrs_def)
qed

lemma Handler_route_addrs:
  assumes "Handler L N r (f, w) = (out, g, w')" "wf_fwd f"
  shows "route_addrs g q = route_addrs f q" "wf_fwd g" "f_def g = f_def f"
proof -
  obtain c c' h where h: "same_shape (f\<lparr>f_failCache := c\<rparr>) h" "g = h\<lparr>f_failCache := c'\<rparr>" "wf_fwd f \<longrightarrow> wf_fwd h"
    using Handler_shape [OF assms(1)] by blast
  with assms(2) show "wf_fwd g" "f_def g = f_def f" by (simp_all add: failCache_inv same_shape_def)
  show "route_addrs g q = route_addrs f q"
    using shape_route_addrs [OF h(1), of q] assms(2) h(2) by (simp add: failCache_inv route_addrs_def)
qed

lemma SetConditional_no_leak:
  assumes "wf_fwd f" "no_leak f" "\<not> f_closed f" "distinct (map (normalize_d \<circ> fst) rs)"
  shows "no_leak (SetConditional rs f)"
proof -
  let ?g = "SetConditional rs f"
  have "u \<in> set (f_def ?g) \<or> u \<in> set (cond_refs ?g) \<or> u_closed (f_ups ?g ! u)" if u: "u < length (f_ups ?g)" for u
  proof (cases "rs = []")
    case True
    with u assms(2) show ?thesis by (auto simp: no_leak_def SetConditional_def closeOrphans_nth)
  next
    case False
    from SetConditional_swapped [OF assms(1) False] obtain b where sw: "swapped f rs ?g b" by blast
    note refs = swapped_refs [OF sw assms(4)]
    show ?thesis
    proof (cases "u < length (f_ups f)")
      case True
      with assms(2) swappedD(5) [OF sw True] refs show ?thesis by (auto simp: no_leak_def)
    next
      case False
      with u swappedD(10) [OF sw, of u] refs show ?thesis by simp
    qed
  qed
  with assms(3) show ?thesis by (simp add: no_leak_def)
qed

lemma closeAll_spec:
  assumes "closeAll N us seen first h = (seen', first', h')" "\<forall>u \<in> set seen. u < length h \<longrightarrow> u_closed (h ! u)"
  shows "length h' = length h \<and> set seen' = set seen \<union> set us \<and>
    (\<forall>u < length h. h' ! u = (if u \<in> set us - set seen then (h ! u)\<lparr>u_closed := True\<rparr> else h ! u))"
  using assms
proof (induction N us seen first h rule: closeAll.induct)
  case (2 N u us seen first h)
  show ?case
  proof (cases "u \<in> set seen")
    case True
    with 2 show ?thesis by (simp add: insert_absorb)
  next
    case False
    have "\<forall>v \<in> set (u # seen). v < length (h[u := (h ! u)\<lparr>u_closed := True\<rparr>]) \<longrightarrow> u_closed (h[u := (h ! u)\<lparr>u_closed := True\<rparr>] ! v)"
    proof (intro ballI impI)
      fix v
      assume "v \<in> set (u # seen)" "v < length (h[u := (h ! u)\<lparr>u_closed := True\<rparr>])"
      then show "u_closed (h[u := (h ! u)\<lparr>u_closed := True\<rparr>] ! v)" using 2(4) by (cases "v = u") auto
    qed
    note IH = 2(2) [OF False _ this]
    show ?thesis
    proof (intro conjI allI impI)
      show "h' ! v = (if v \<in> set (u # us) - set seen then (h ! v)\<lparr>u_closed := True\<rparr> else h ! v)" if "v < length h" for v
        using that IH 2(3) False by (cases "v = u") auto
    qed (use IH 2(3) False in auto)
  qed
qed simp

lemma CloseForwarder_inv:
  assumes "wf_fwd f" "no_leak f"
  shows "wf_fwd (snd (CloseForwarder N f)) \<and> no_leak (snd (CloseForwarder N f)) \<and> f_closed (snd (CloseForwarder N f))"
proof (cases "f_closed f")
  case True
  with assms show ?thesis by (simp add: CloseForwarder_def)
next
  case False
  obtain seen e h where c1: "closeAll N (f_def f) [] None (f_ups f) = (seen, e, h)" by (metis prod_cases3)
  obtain seen' e' h' where c2: "closeAll N (cond_refs f) seen e h = (seen', e', h')" by (metis prod_cases3)
  have S: "snd (CloseForwarder N f) = f\<lparr>f_closed := True, f_ups := h'\<rparr>"
    using False c1 c2 by (cases "f_cond f") (simp_all add: CloseForwarder_def cond_refs_def Let_def)
  note C1 = closeAll_spec [OF c1]
  have "\<forall>u \<in> set seen. u < length h \<longrightarrow> u_closed (h ! u)" using C1 by simp
  note C2 = closeAll_spec [OF c2 this]
  have nth: "h' ! u = (f_ups f ! u)\<lparr>u_closed := u_closed (f_ups f ! u) \<or> u \<in> set (f_def f) \<or> u \<in> set (cond_refs f)\<rparr>"
    if "u < length (f_ups f)" for u
    using that C1 C2 by (cases "u_closed (f_ups f ! u)") auto
  have len: "length h' = length (f_ups f)" using C1 C2 by simp
  have refs: "cond_refs (f\<lparr>f_closed := True, f_ups := h'\<rparr>) = cond_refs f" by (simp add: cond_refs_def)
  have "no_leak (f\<lparr>f_closed := True, f_ups := h'\<rparr>)"
    using assms(2) nth len refs by (auto simp: no_leak_def)
  moreover have "wf_fwd (f\<lparr>f_closed := True, f_ups := h'\<rparr>)"
  proof (rule wf_fwdI)
    show "u = v" if "u \<in> set (cond_refs (f\<lparr>f_closed := True, f_ups := h'\<rparr>))" "v \<in> set (cond_refs (f\<lparr>f_closed := True, f_ups := h'\<rparr>))"
      "u_addr (f_ups (f\<lparr>f_closed := True, f_ups := h'\<rparr>) ! u) = u_addr (f_ups (f\<lparr>f_closed := True, f_ups := h'\<rparr>) ! v)" for u v
      using that wf_fwdD(2,4) [OF assms(1)] nth by (simp add: refs)
    show "u < length (f_ups (f\<lparr>f_closed := True, f_ups := h'\<rparr>)) \<and> u \<notin> set (f_def (f\<lparr>f_closed := True, f_ups := h'\<rparr>))"
      if "u \<in> set (cond_refs (f\<lparr>f_closed := True, f_ups := h'\<rparr>))" for u
      using that wf_fwdD(2,3) [OF assms(1), of u] len by (auto simp: refs)
  qed (use wf_fwdD [OF assms(1)] nth len in simp_all)
  ultimately show ?thesis using S by simp
qed

lemma NewForwarder_inv:
  assumes "NewForwarder cfg = Inr f" "distinct (map (normalize_d \<circ> fst) (cf_Conditional cfg))"
  shows "wf_fwd f \<and> no_leak f"
proof -
  obtain tm st where f: "f = SetConditional (cf_Conditional cfg)
                \<lparr>f_ups = map (\<lambda>u. newUp u tm) (cf_Upstreams cfg),
                 f_def = [0..<length (cf_Upstreams cfg)], f_cond = None, f_strategy = st,
                 f_timeout = tm, f_failCache = fmempty, f_closed = False\<rparr>" (is "f = SetConditional _ ?g")
    using assms(1) by (auto simp: NewForwarder_def Let_def split: if_splits)
  have "wf_fwd ?g" by (simp add: wf_fwd_def cond_refs_def) auto
  moreover have "no_leak ?g" by (simp add: no_leak_def)
  ultimately show ?thesis using f SetConditional_wf SetConditional_no_leak assms(2) by simp
qed

text \<open>C17: the life of a forwarder.  From its construction on, through any interleaving of queries, late
  results, routing table replacements and \<open>Close\<close>, the pointers stay valid, there is one conditional
  upstream per address, the failure counts stay below three, every upstream that was ever made is in use
  or closed, and after \<open>Close\<close> all of them are closed.\<close>

theorem forwarder_history:
  assumes "NewForwarder cfg = Inr f" "distinct (map (normalize_d \<circ> fst) (cf_Conditional cfg))"
    and "fwd_steps L N f g"
  shows "wf_fwd g \<and> no_leak g \<and> no_leak (snd (CloseForwarder N g)) \<and> f_closed (snd (CloseForwarder N g))"
proof -
  have "wf_fwd g \<and> no_leak g"
    using assms(3,1,2)
  proof (induction rule: fwd_steps.induct)
    case (steps_refl f)
    then show ?case by (rule NewForwarder_inv)
  next
    case (steps_query f g r w out h w')
    then show ?case using Handler_inv [OF steps_query(2)] by simp
  next
    case (steps_late f g m u w h w')
    obtain x where x: "exchange N m u (g, w) = (x, h, w')" using steps_late(2) by (metis late_result_def prod.collapse)
    from steps_late(3) [OF steps_late(4,5)] show ?case
      using kept.exchange_rel [OF x] shape_no_leak [OF shape.exchange_rel [OF x]] by simp
  next
    case (steps_routes f g rs)
    then show ?case using SetConditional_wf [of g rs] SetConditional_no_leak [of g rs] by simp
  next
    case (steps_close f g)
    then show ?case using CloseForwarder_inv [of g N] by simp
  qed
  then show ?thesis using CloseForwarder_inv [of g N] by simp
qed

section \<open>A concrete network\<close>

text \<open>A network whose world is its clock: the resolver at 192.0.2.1 answers every query, any other address
  refuses, and a race reports in the order of the list.\<close>

definition ex_udp :: "string \<Rightarrow> int \<Rightarrow> msg \<Rightarrow> int \<Rightarrow> ex_result \<times> int" where
  "ex_udp a t m w =
     (if a = ''192.0.2.1:53'' then (Ex (Some (plain_reply m)) None, w + 1) else (Ex None (Some ''refused''), w + 1))"

definition ex_net :: "int net" where
  "ex_net = \<lparr>n_now = (\<lambda>w. (max 0 w, w + 1)), n_id = (\<lambda>w. (7, w)), n_bits = (\<lambda>w. (even, w)),
     n_udp = ex_udp, n_tcp = ex_udp, n_encrypted = (\<lambda>t m w. (Ex None (Some ''no TLS''), w)),
     n_close = (\<lambda>t. None), n_ctxerr = (\<lambda>w. None), n_arrival = (\<lambda>us w. (us, w))\<rparr>"

definition ex_upstream :: "string \<Rightarrow> Upstream" where
  "ex_upstream a = \<lparr>us_Scheme = SchemePlain, us_Addr = a, us_VerifyName = [], us_Path = [], us_Canonical = a\<rparr>"

definition ex_fwd :: Forwarder where
  "ex_fwd = projr (NewForwarder \<lparr>cf_Upstreams = [ex_upstream ''198.51.100.9:53'', ex_upstream ''192.0.2.1:53''],
     cf_Strategy = ''failover'', cf_Timeout = 0, cf_Conditional = [(''corp.example'', [''203.0.113.5:53''])]\<rparr>)"

definition ex_req :: "string \<Rightarrow> request" where
  "ex_req n =
     \<lparr>rq_msg = \<lparr>m_id = 42, m_response = False, m_opcode = 0, m_aa = False, m_tc = False, m_rd = True, m_rcode = 0,
        m_compress = False, m_question = [\<lparr>q_name = n, q_type = TypeA, q_class = ClassINET\<rparr>], m_answer = [], m_ns = [], m_extra = []\<rparr>,
      rq_ip = V4 0x0A000001, rq_client = \<lparr>ci_id = 0, ci_name = [], ci_group = 1, ci_groupname = ''default''\<rparr>\<rparr>"

lemma ex_req_question [simp]: "m_question (rq_msg (ex_req n)) = [\<lparr>q_name = n, q_type = TypeA, q_class = ClassINET\<rparr>]"
  by (simp add: ex_req_def)

lemma ex_fwd_wf: "wf_fwd ex_fwd"
  by code_simp

lemma ex_net_laws: "arrival_law ex_net" "in_time ex_net" "0 \<le> fst (n_now ex_net w)"
  by (simp_all add: arrival_law_def in_time_def ex_net_def)

lemma ex_Exchange:
  assumes "m_question m = [q]"
  shows "Exchange ex_net t m w =
    (case us_Scheme (tr_up t) of
       SchemePlain \<Rightarrow>
         if us_Addr (tr_up t) = ''192.0.2.1:53''
         then (Ex (Some (map_rrs (\<lambda>h. if EqualFold (h_name h) (q_name q) then h\<lparr>h_name := q_name q\<rparr> else h)
                (plain_reply m\<lparr>m_question := [q]\<rparr>))) None, w + 1)
         else (Ex None (Some ''refused''), w + 1)
     | _ \<Rightarrow> (Ex None (Some ''no TLS''), w))"
  using assms
  by (simp add: Exchange_def plain_Exchange_def ex_net_def ex_udp_def accept_reply_def plain_reply_def Let_def split: Scheme.split)

lemma ex_net_behaves: "behaves ex_net"
  unfolding behaves_def
proof (intro allI impI)
  fix t :: transport and m :: msg and w :: int
  assume "length (m_question m) = 1"
  then obtain q where "m_question m = [q]" by (auto simp: length_Suc_conv)
  then show "fst (Exchange ex_net t m w) \<noteq> ExPanic \<and> fst (Exchange ex_net t m w) \<noteq> Ex None None"
    by (simp add: ex_Exchange split: Scheme.split)
qed

lemma ex_answers: "answers ex_net \<lparr>tr_up = ex_upstream ''192.0.2.1:53'', tr_timeout = t\<rparr>"
  unfolding answers_def
proof (intro allI impI)
  fix m :: msg and w :: int
  assume "length (m_question m) = 1"
  then obtain q where "m_question m = [q]" by (auto simp: length_Suc_conv)
  then show "\<exists>r w'. Exchange ex_net \<lparr>tr_up = ex_upstream ''192.0.2.1:53'', tr_timeout = t\<rparr> m w = (Ex (Some r) None, w') \<and> m_rcode r \<noteq> RcodeServerFailure"
    by (simp add: ex_Exchange ex_upstream_def plain_reply_def)
qed

section \<open>Witnesses\<close>

theorem only_the_question_leaves_witness:
  "Handler plain_lib (ex_net\<lparr>n_encrypted := (\<lambda>t m w. if m_answer m \<noteq> [] then (ExPanic, w) else (Ex None (Some ''no TLS''), w))\<rparr>)
     (ex_req ''www.example.com.'') (ex_fwd, 5) = Handler plain_lib ex_net (ex_req ''www.example.com.'') (ex_fwd, 5)"
proof -
  let ?N = "ex_net\<lparr>n_encrypted := (\<lambda>t m w. if m_answer m \<noteq> [] then (ExPanic, w) else (Ex None (Some ''no TLS''), w))\<rparr>"
  have "m_answer (upstreamQuery plain_lib mid q do) = []" for mid q do
    by (simp add: upstreamQuery_def plain_lib_def)
  then have "alike plain_lib \<lparr>q_name = ''www.example.com.'', q_type = TypeA, q_class = ClassINET\<rparr>
      (do_bit plain_lib (ex_req ''www.example.com.'')) ex_net ?N"
    by (auto simp: alike_def sent_def) (simp_all add: ex_net_def)
  from only_the_question_leaves [OF plain_edns_laws ex_req_question this ex_req_question refl] show ?thesis by blast
qed

theorem forwarded_reply_from_upstream_witness:
  "\<exists>u mid m. u \<in> set (pick ex_fwd ''www.example.com'') \<and>
     rs_upstream (the (out_resp (fst (Handler plain_lib ex_net (ex_req ''www.example.com.'') (ex_fwd, 5))))) = u_addr (f_ups ex_fwd ! u) \<and>
     from_upstream ex_net ex_fwd (upstreamQuery plain_lib mid \<lparr>q_name = ''www.example.com.'', q_type = TypeA, q_class = ClassINET\<rparr> False) u m"
proof -
  let ?h = "Handler plain_lib ex_net (ex_req ''www.example.com.'') (ex_fwd, 5)"
  have "out_resp (fst ?h) \<noteq> None \<and> rs_decision (the (out_resp (fst ?h))) = DecisionForwarded \<and> fst ?h \<noteq> Panicked" by code_simp
  then have d: "out_resp (fst ?h) \<noteq> None" "rs_decision (the (out_resp (fst ?h))) = DecisionForwarded" "fst ?h \<noteq> Panicked"
    by blast+
  have e: "do_bit plain_lib (ex_req ''www.example.com.'') = False" "QName (ex_req ''www.example.com.'') = ''www.example.com''"
    by code_simp+
  have h: "?h = (Returned (Some (the (out_resp (fst ?h)))) (out_err (fst ?h)), snd ?h)"
    using d(1,3) by (cases "fst ?h") (auto simp: prod_eq_iff)
  from forwarded_reply_from_upstream [OF ex_fwd_wf ex_net_laws(1) ex_req_question h d(2)] e show ?thesis by auto
qed


theorem failure_is_cached_witness:
  "\<exists>f' w'. snd (Handler plain_lib ex_net (ex_req ''x.corp.example.'') (ex_fwd, 5)) = (f', w') \<and>
     Handler plain_lib ex_net (ex_req ''X.corp.example.'') (f', 10) =
       (Returned (Some (Servfail plain_lib (ex_req ''X.corp.example.''))) None, f', 11)"
proof -
  let ?r = "ex_req ''x.corp.example.''"
  let ?h = "Handler plain_lib ex_net ?r (ex_fwd, 5)"
  obtain f' w' where s: "snd ?h = (f', w')" by (cases "snd ?h")
  have d: "fst ?h = Returned None (Some ''refused'')" "10 < the (fmlookup (f_failCache (fst (snd ?h))) (QName ?r, QType ?r))" by code_simp+
  have h: "?h = (Returned None (Some ''refused''), f', w')" using d(1) s by (simp add: prod_eq_iff)
  have q: "QName (ex_req ''X.corp.example.'') = QName ?r" "QType (ex_req ''X.corp.example.'') = QType ?r" by code_simp+
  have now: "n_now ex_net 10 = (10, 11)" by (simp add: ex_net_def)
  from failure_is_cached [OF ex_req_question h ex_req_question q] d(2) s now
  have "Handler plain_lib ex_net (ex_req ''X.corp.example.'') (f', 10) =
       (Returned (Some (Servfail plain_lib (ex_req ''X.corp.example.''))) None, f', 11)"
    by (metis fst_conv snd_conv)
  with s show ?thesis by blast
qed

theorem SetConditional_routes_witness:
  "map (\<lambda>u. u_addr (f_ups (SetConditional [(''corp.example'', [''203.0.113.5:53'']), (''lab.Corp.example.'', [])] ex_fwd) ! u))
     (pick (SetConditional [(''corp.example'', [''203.0.113.5:53'']), (''lab.Corp.example.'', [])] ex_fwd) ''a.lab.corp.example'') = []"
proof -
  let ?rs = "[(''corp.example'', [''203.0.113.5:53'']), (''lab.Corp.example.'', [])]"
  have "distinct (map (normalize_d \<circ> fst) ?rs)" by code_simp
  from SetConditional_routes [OF ex_fwd_wf this, of "''a.lab.corp.example''"] have
    "\<forall>(suf, as) \<in> set ?rs. covers (normalize_d suf) (normalize_d ''a.lab.corp.example'') \<longrightarrow>
           (\<forall>(suf', as') \<in> set ?rs. covers (normalize_d suf') (normalize_d ''a.lab.corp.example'') \<longrightarrow> covers (normalize_d suf') (normalize_d suf)) \<longrightarrow>
           map (\<lambda>u. u_addr (f_ups (SetConditional ?rs ex_fwd) ! u)) (pick (SetConditional ?rs ex_fwd) ''a.lab.corp.example'') = as"
    by (rule conjunct1)
  moreover have "covers (normalize_d ''lab.Corp.example.'') (normalize_d ''a.lab.corp.example'')"
    "covers (normalize_d ''corp.example'') (normalize_d ''lab.Corp.example.'')" by code_simp+
  ultimately show ?thesis by auto
qed

theorem SetConditional_keeps_health_witness:
  "f_ups (SetConditional [(''lab.example'', [''203.0.113.5:53''])] ex_fwd) ! 2 = f_ups ex_fwd ! 2"
proof -
  have d: "distinct (map (normalize_d \<circ> fst) [(''lab.example'', [''203.0.113.5:53''])])" by simp
  have "2 \<in> set (cond_refs ex_fwd)" "u_addr (f_ups ex_fwd ! 2) \<in> addresses [(''lab.example'', [''203.0.113.5:53''])]" by code_simp+
  with SetConditional_keeps_health [OF ex_fwd_wf d refl] show ?thesis by blast
qed

theorem forwarder_history_witness:
  "no_leak (snd (CloseForwarder ex_net (SetConditional [] (fst (snd (Handler plain_lib ex_net (ex_req ''x.corp.example.'') (ex_fwd, 5)))))))"
proof -
  let ?cfg = "\<lparr>cf_Upstreams = [ex_upstream ''198.51.100.9:53'', ex_upstream ''192.0.2.1:53''],
     cf_Strategy = ''failover'', cf_Timeout = 0, cf_Conditional = [(''corp.example'', [''203.0.113.5:53''])]\<rparr>"
  let ?g = "fst (snd (Handler plain_lib ex_net (ex_req ''x.corp.example.'') (ex_fwd, 5)))"
  have n: "NewForwarder ?cfg = Inr ex_fwd" by (simp add: NewForwarder_def ex_fwd_def Let_def)
  have q: "fwd_steps plain_lib ex_net ex_fwd ?g"
    by (rule steps_query [OF steps_refl, where r = "ex_req ''x.corp.example.''" and w = 5,
          OF prod.collapse [symmetric, THEN trans, OF arg_cong2 [where f = Pair, OF refl prod.collapse [symmetric]]]])
  have "\<not> f_closed ?g" by code_simp
  then have "fwd_steps plain_lib ex_net ex_fwd (SetConditional [] ?g)" by (intro steps_routes [OF q]) simp_all
  from forwarder_history [OF n _ this] show ?thesis by simp
qed

end
