(* ===== verification/Query_Log.thy ===== *)
theory Query_Log
  imports Pipeline Netip_Text Config_Store
begin

unbundle bit_operations_syntax

text \<open>
  The query log: \<open>internal/qlog/qlog.go\<close> (the bounded channel between the query path and the flush loop,
  the privacy modes, the live subscribers, retention), its table (\<open>internal/store/qlogstore.go\<close>,
  \<open>search.go\<close>) and the hourly counters derived from it (\<open>internal/store/statsstore.go\<close>,
  \<open>internal/stats/rollup.go\<close>).  The channel is the list of what is in it, oldest first; the
  goroutines that share it interleave as steps.
\<close>

section \<open>Entries and the tables\<close>

record QueryLogEntry =
  e_id :: int
  e_at :: int
  e_instance :: string
  e_client_ip :: string
  e_client_id :: int
  e_qname :: string
  e_qtype :: string
  e_decision :: string
  e_rule :: int
  e_list :: int
  e_upstream :: string
  e_rcode :: string
  e_duration :: int
  e_matched :: string

fun DecisionString :: "Decision \<Rightarrow> string" where
  "DecisionString DecisionBlocked = ''blocked''"
| "DecisionString DecisionAuthoritative = ''authoritative''"
| "DecisionString DecisionCached = ''cached''"
| "DecisionString DecisionStale = ''stale''"
| "DecisionString DecisionForwarded = ''forwarded''"
| "DecisionString DecisionError = ''error''"

text \<open>The tables, beside the configuration: the log, the last id it gave out, and the counters by bucket,
  metric and key.\<close>

record ldb = db +
  q_log :: "QueryLogEntry list"
  q_seq :: int
  q_stats :: "((int \<times> string \<times> string) \<times> int) list"

section \<open>qlog.go: the channel\<close>

record LogOptions =
  o_BatchSize :: int
  o_FlushEvery :: int
  o_Buffer :: int
  o_Privacy :: string
  o_InstanceID :: string

text \<open>\<open>lastReport\<close> is \<open>None\<close> for the zero time.  A subscriber is the number it was given and what its
  channel holds.\<close>

record Logger =
  lg_o :: LogOptions
  lg_ch :: "QueryLogEntry list"
  lg_dropped :: int
  lg_privacy :: string
  lg_subs :: "(int \<times> QueryLogEntry list) list"
  lg_next :: int
  lg_reported :: int
  lg_lastReport :: "int option"

text \<open>\<open>New\<close>: making a channel of negative size panics.\<close>

definition NewLogger :: "LogOptions \<Rightarrow> Logger option" where
  "NewLogger o1 =
     (let o2 = o1\<lparr>o_BatchSize := (if o_BatchSize o1 = 0 then 1000 else o_BatchSize o1),
                  o_FlushEvery := (if o_FlushEvery o1 = 0 then Second else o_FlushEvery o1),
                  o_Buffer := (if o_Buffer o1 = 0 then 10000 else o_Buffer o1),
                  o_Privacy := (if o_Privacy o1 = [] then ''full'' else o_Privacy o1)\<rparr>
      in if o_Buffer o2 < 0 then None
         else Some \<lparr>lg_o = o2, lg_ch = [], lg_dropped = 0, lg_privacy = o_Privacy o2, lg_subs = [], lg_next = 0,
                    lg_reported = 0, lg_lastReport = None\<rparr>)"

definition dropWarnEvery :: int where
  "dropWarnEvery = 60 * Second"

definition reportDropped :: "int \<Rightarrow> Logger \<Rightarrow> Logger" where
  "reportDropped now l =
     (if lg_dropped l = lg_reported l then l
      else case lg_lastReport l of
             Some t \<Rightarrow> if now - t < dropWarnEvery then l
                       else l\<lparr>lg_reported := lg_dropped l, lg_lastReport := Some now\<rparr>
           | None \<Rightarrow> l\<lparr>lg_reported := lg_dropped l, lg_lastReport := Some now\<rparr>)"

definition SetPrivacy :: "string \<Rightarrow> Logger \<Rightarrow> Logger" where
  "SetPrivacy p l = l\<lparr>lg_privacy := (if p = [] then ''full'' else p)\<rparr>"

text \<open>\<open>anonymize\<close>: the last byte of an IPv4 address, or the last ten of the sixteen, are zeroed.\<close>

definition anonymize :: "ip6_text \<Rightarrow> string \<Rightarrow> string" where
  "anonymize T ip =
     (case ParseAddr T ip of
        None \<Rightarrow> ip
      | Some NoAddr \<Rightarrow> ip
      | Some (V4 w) \<Rightarrow> AddrString T (V4 (push_bit 8 (drop_bit 8 w)))
      | Some (V6 w z) \<Rightarrow> AddrString T (V6 (push_bit 80 (drop_bit 80 w)) []))"

definition Subscribe :: "Logger \<Rightarrow> int \<times> Logger" where
  "Subscribe l = (lg_next l, l\<lparr>lg_next := lg_next l + 1, lg_subs := lg_subs l @ [(lg_next l, [])]\<rparr>)"

definition Unsubscribe :: "int \<Rightarrow> Logger \<Rightarrow> Logger" where
  "Unsubscribe i l = l\<lparr>lg_subs := filter (\<lambda>s. fst s \<noteq> i) (lg_subs l)\<rparr>"

definition Publish :: "QueryLogEntry \<Rightarrow> Logger \<Rightarrow> Logger" where
  "Publish e l = l\<lparr>lg_subs := map (\<lambda>(i, ch). (i, if length ch < 64 then ch @ [e] else ch)) (lg_subs l)\<rparr>"

text \<open>The loop of \<open>emit\<close>: send, or take the oldest entry out and try again.  With a channel of no capacity
  it would not end.\<close>

partial_function (option) emit :: "QueryLogEntry \<Rightarrow> Logger \<Rightarrow> Logger option" where
  [code]: "emit e l =
     (if int (length (lg_ch l)) < o_Buffer (lg_o l) then Some (l\<lparr>lg_ch := lg_ch l @ [e]\<rparr>)
      else emit e (case lg_ch l of
                     [] \<Rightarrow> l
                   | _ # ch \<Rightarrow> l\<lparr>lg_ch := ch, lg_dropped := lg_dropped l + 1\<rparr>))"

text \<open>The entry of one query.  \<open>clock\<close> are the two readings of the clock.  The client is the one the request
  carries after the handlers below have identified it.\<close>

record name_tables =
  TypeToString :: "u16 \<Rightarrow> string"
  RcodeToString :: "int \<Rightarrow> string"

definition entry_of ::
  "name_tables \<Rightarrow> ip6_text \<Rightarrow> (nat \<Rightarrow> int) \<Rightarrow> Logger \<Rightarrow> request \<Rightarrow> response option \<Rightarrow> string option \<Rightarrow> QueryLogEntry" where
  "entry_of N T clock l r resp err =
     (let ip = AddrString T (rq_ip r);
          e = \<lparr>e_id = 0, e_at = UnixMilli (clock 0), e_instance = o_InstanceID (lg_o l),
               e_client_ip = (if lg_privacy l = ''anon'' then anonymize T ip else ip), e_client_id = ci_id (rq_client r),
               e_qname = QName r, e_qtype = TypeToString N (QType r), e_decision = [], e_rule = 0, e_list = 0, e_upstream = [],
               e_rcode = [], e_duration = (clock 1 - clock 0) div 1000000, e_matched = []\<rparr>
      in case (err, resp) of
           (None, Some rs) \<Rightarrow>
             e\<lparr>e_decision := DecisionString (rs_decision rs), e_rule := rs_rule rs, e_list := rs_list rs,
               e_upstream := rs_upstream rs, e_matched := rs_matched rs,
               e_rcode := (case rs_msg rs of Some m \<Rightarrow> RcodeToString N (m_rcode m) | None \<Rightarrow> [])\<rparr>
         | _ \<Rightarrow> e\<lparr>e_decision := DecisionString DecisionError, e_rcode := ''SERVFAIL''\<rparr>)"

text \<open>The middleware; the loop of \<open>emit\<close> that never ends is \<open>None\<close>.\<close>

definition qlog_middleware ::
  "name_tables \<Rightarrow> ip6_text \<Rightarrow> (request \<Rightarrow> ClientInfo) \<Rightarrow> (nat \<Rightarrow> int) \<Rightarrow> (Logger \<times> 'w) handler \<Rightarrow> request \<Rightarrow> Logger \<times> 'w \<Rightarrow>
     (outcome \<times> Logger \<times> 'w) option" where
  "qlog_middleware N T ident clock next r w =
     (case next r w of
        (Panicked, w) \<Rightarrow> Some (Panicked, w)
      | (Returned resp err, (l, v)) \<Rightarrow>
          if lg_privacy l = ''none'' then Some (Returned resp err, (l, v))
          else let e = entry_of N T clock l (r\<lparr>rq_client := ident r\<rparr>) resp err
               in map_option (\<lambda>l. (Returned resp err, (Publish e l, v))) (emit e l))"

section \<open>qlog.go: the flush loop\<close>

definition InsertBatch :: "QueryLogEntry list \<Rightarrow> ldb \<Rightarrow> ldb" where
  "InsertBatch batch d =
     d\<lparr>q_log := q_log d @ map (\<lambda>(i, e). e\<lparr>e_id := q_seq d + int i\<rparr>) (enumerate 1 batch),
       q_seq := q_seq d + int (length batch)\<rparr>"

text \<open>\<open>Run\<close>: the batch it accumulates, the logger it receives from and the table it writes to.  \<open>ok\<close> says whether
  the insertion succeeds; a batch that cannot be written is discarded.\<close>

type_synonym run_state = "QueryLogEntry list \<times> Logger \<times> ldb"

definition flush :: "bool \<Rightarrow> run_state \<Rightarrow> run_state" where
  "flush ok s = (case s of (batch, l, d) \<Rightarrow> ([], l, if ok \<and> batch \<noteq> [] then InsertBatch batch d else d))"

definition append_entry :: "bool \<Rightarrow> QueryLogEntry \<Rightarrow> run_state \<Rightarrow> run_state" where
  "append_entry ok e s =
     (case s of (batch, l, d) \<Rightarrow>
        let batch = batch @ [e]
        in if int (length batch) \<ge> o_BatchSize (lg_o l) then flush ok (batch, l, d) else (batch, l, d))"

definition run_receive :: "bool \<Rightarrow> run_state \<Rightarrow> run_state" where
  "run_receive ok s =
     (case s of (batch, l, d) \<Rightarrow>
        (case lg_ch l of [] \<Rightarrow> s | e # ch \<Rightarrow> append_entry ok e (batch, l\<lparr>lg_ch := ch\<rparr>, d)))"

definition run_tick :: "bool \<Rightarrow> int \<Rightarrow> run_state \<Rightarrow> run_state" where
  "run_tick ok now s = (case flush ok s of (batch, l, d) \<Rightarrow> (batch, reportDropped now l, d))"

text \<open>The drain after the context is cancelled; \<open>oks\<close> answers each insertion in turn.\<close>

fun drain_loop :: "(nat \<Rightarrow> bool) \<Rightarrow> nat \<Rightarrow> QueryLogEntry list \<Rightarrow> run_state \<Rightarrow> run_state" where
  "drain_loop oks n [] s = flush (oks n) s"
| "drain_loop oks n (e # ch) s =
     (case s of (batch, l, d) \<Rightarrow> drain_loop oks (Suc n) ch (append_entry (oks n) e (batch, l\<lparr>lg_ch := ch\<rparr>, d)))"

definition run_cancel :: "(nat \<Rightarrow> bool) \<Rightarrow> run_state \<Rightarrow> run_state" where
  "run_cancel oks s = drain_loop oks 0 (lg_ch (fst (snd s))) s"

section \<open>Retention\<close>

text \<open>One bounded delete: the first \<open>limit\<close> rows that match, in the order of the table.\<close>

fun delete_some :: "('r \<Rightarrow> bool) \<Rightarrow> nat \<Rightarrow> 'r list \<Rightarrow> nat \<times> 'r list" where
  "delete_some P 0 rows = (0, rows)"
| "delete_some P limit [] = (0, [])"
| "delete_some P (Suc limit) (r # rows) =
     (if P r then (case delete_some P limit rows of (n, rows) \<Rightarrow> (Suc n, rows))
      else (case delete_some P (Suc limit) rows of (n, rows) \<Rightarrow> (n, r # rows)))"

definition pruneChunk :: nat where
  "pruneChunk = 10000"

lemma delete_some_length: "fst (delete_some P k rows) + length (snd (delete_some P k rows)) = length rows"
  by (induction P k rows rule: delete_some.induct) (auto split: prod.splits)

text \<open>\<open>deleteInChunks\<close>: passes until one comes back short; \<open>stop n\<close> says whether the context is done after
  pass \<open>n\<close>.  The result is the rows deleted, whether it ended by itself, and the table.  The chunk is never zero.\<close>

function deleteInChunks :: "(nat \<Rightarrow> bool) \<Rightarrow> nat \<Rightarrow> nat \<Rightarrow> ('r \<Rightarrow> bool) \<Rightarrow> 'r list \<Rightarrow> nat \<times> bool \<times> 'r list" where
  "deleteInChunks stop i chunk P rows =
     (case delete_some P chunk rows of (n, rows') \<Rightarrow>
        if n < chunk \<or> chunk = 0 then (n, True, rows')
        else if stop i then (n, False, rows')
        else (case deleteInChunks stop (Suc i) chunk P rows' of (t, fin, rows'') \<Rightarrow> (n + t, fin, rows'')))"
  by auto
termination
proof (relation "measure (\<lambda>(stop, i, chunk, P, rows). length rows)", goal_cases)
  case (2 stop i chunk P rows)
  then show ?case using delete_some_length [of P chunk rows] by (cases "delete_some P chunk rows") auto
qed simp

definition DeleteBefore :: "(nat \<Rightarrow> bool) \<Rightarrow> int \<Rightarrow> ldb \<Rightarrow> (nat \<times> bool) \<times> ldb" where
  "DeleteBefore stop cutoffMs d =
     (case deleteInChunks stop 0 pruneChunk (\<lambda>e. e_at e < cutoffMs) (q_log d) of (n, fin, rows) \<Rightarrow> ((n, fin), d\<lparr>q_log := rows\<rparr>))"

definition PruneBefore :: "(nat \<Rightarrow> bool) \<Rightarrow> int \<Rightarrow> ldb \<Rightarrow> (nat \<times> bool) \<times> ldb" where
  "PruneBefore stop bucketBeforeSec d =
     (case deleteInChunks stop 0 pruneChunk (\<lambda>((b, _, _), _). b < bucketBeforeSec) (q_stats d) of
        (n, fin, rows) \<Rightarrow> ((n, fin), d\<lparr>q_stats := rows\<rparr>))"

text \<open>\<open>pruneOnce\<close>, with the two retentions in days as they are read.\<close>

definition pruneOnce :: "(nat \<Rightarrow> bool) \<Rightarrow> int \<Rightarrow> int \<Rightarrow> int \<Rightarrow> ldb \<Rightarrow> ldb" where
  "pruneOnce stop retentionDays statsRetentionDays now d =
     (let d = snd (DeleteBefore stop (UnixMilli now - retentionDays * 24 * 3600 * 1000) d)
      in snd (PruneBefore stop (now div Second - statsRetentionDays * 24 * 3600) d))"

section \<open>The hourly counters\<close>

definition StatsWatermarkKey :: string where
  "StatsWatermarkKey = ''stats.watermark''"

fun upsertStat :: "int \<times> string \<times> string \<Rightarrow> int \<Rightarrow> ((int \<times> string \<times> string) \<times> int) list \<Rightarrow> ((int \<times> string \<times> string) \<times> int) list" where
  "upsertStat k n [] = [(k, n)]"
| "upsertStat k n ((k', v) # st) = (if k' = k then (k', v + n) # st else (k', v) # upsertStat k n st)"

text \<open>The hour of an entry, by the integer division of SQL, which truncates.\<close>

definition bucket :: "QueryLogEntry \<Rightarrow> int" where
  "bucket e = (if e_at e < 0 then - (- e_at e div 3600000) else e_at e div 3600000) * 3600"

text \<open>One statement: the rows that qualify, grouped and counted, added to the counters.\<close>

definition count_into ::
  "string \<Rightarrow> (QueryLogEntry \<Rightarrow> bool) \<Rightarrow> (QueryLogEntry \<Rightarrow> string) \<Rightarrow> QueryLogEntry list \<Rightarrow>
     ((int \<times> string \<times> string) \<times> int) list \<Rightarrow> ((int \<times> string \<times> string) \<times> int) list" where
  "count_into metric P key rows st =
     (let ks = map (\<lambda>e. (bucket e, metric, key e)) (filter P rows)
      in fold (\<lambda>k. upsertStat k (int (count_list ks k))) (remdups ks) st)"

definition resolved :: "QueryLogEntry \<Rightarrow> bool" where
  "resolved e \<longleftrightarrow> e_decision e \<in> {''forwarded'', ''cached'', ''stale''}"

definition Rollup :: "int \<Rightarrow> ldb \<Rightarrow> int \<times> ldb" where
  "Rollup afterID d =
     (let lastID = fold max (map e_id (filter (\<lambda>e. e_id e > afterID) (q_log d))) afterID;
          rows = filter (\<lambda>e. e_id e > afterID \<and> e_id e \<le> lastID) (q_log d)
      in if lastID = afterID then (afterID, d)
         else (lastID,
               d\<lparr>q_stats := count_into ''client'' (\<lambda>_. True) e_client_ip rows
                             (count_into ''blocked_domain'' (\<lambda>e. e_decision e = ''blocked'') e_qname rows
                               (count_into ''domain'' resolved e_qname rows
                                 (count_into ''decision'' (\<lambda>_. True) e_decision rows (q_stats d)))),
                 db_settings := settingUpsert StatsWatermarkKey (FormatInt lastID) (db_settings d)\<rparr>))"

text \<open>\<open>Runner.once\<close>: a watermark that does not parse skips the tick.\<close>

definition once :: "ldb \<Rightarrow> ldb" where
  "once d =
     (case Get StatsWatermarkKey d of
        None \<Rightarrow> snd (Rollup 0 d)
      | Some v \<Rightarrow> (case undec_int64 v of None \<Rightarrow> d | Some after \<Rightarrow> snd (Rollup after d)))"

definition Counter :: "int \<Rightarrow> string \<Rightarrow> ldb \<Rightarrow> string \<Rightarrow> int" where
  "Counter fromSec metric d key =
     sum_list (map snd (filter (\<lambda>((b, m, k), _). m = metric \<and> b \<ge> fromSec \<and> k = key) (q_stats d)))"

section \<open>search.go\<close>

fun escapeLike :: "string \<Rightarrow> string" where
  "escapeLike [] = []"
| "escapeLike (c # s) =
     (if c = CHR 0x5C \<or> c = CHR ''%'' \<or> c = CHR ''_'' then CHR 0x5C # c # escapeLike s else c # escapeLike s)"

text \<open>\<open>LIKE ... ESCAPE\<close> of SQL with a backslash; \<open>same\<close> compares two characters, which the two databases do
  differently.\<close>

fun like :: "(char \<Rightarrow> char \<Rightarrow> bool) \<Rightarrow> string \<Rightarrow> string \<Rightarrow> bool" where
  "like same [] s = (s = [])"
| "like same (p # ps) [] = (p = CHR ''%'' \<and> like same ps [])"
| "like same (p # ps) (c # s) =
     (if p = CHR ''%'' then like same ps (c # s) \<or> like same (p # ps) s
      else if p = CHR ''_'' then like same ps s
      else if p = CHR 0x5C then (case ps of [] \<Rightarrow> False | q # qs \<Rightarrow> same q c \<and> like same qs s)
      else same p c \<and> like same ps s)"

record QueryLogFilter =
  qf_FromMs :: int
  qf_ToMs :: int
  qf_ClientIP :: string
  qf_QNameContains :: string
  qf_Decision :: string
  qf_QType :: string
  qf_Limit :: int
  qf_Offset :: int

definition filter_keeps :: "(char \<Rightarrow> char \<Rightarrow> bool) \<Rightarrow> QueryLogFilter \<Rightarrow> QueryLogEntry \<Rightarrow> bool" where
  "filter_keeps same f e \<longleftrightarrow>
     (qf_FromMs f > 0 \<longrightarrow> e_at e \<ge> qf_FromMs f) \<and> (qf_ToMs f > 0 \<longrightarrow> e_at e \<le> qf_ToMs f) \<and>
     (qf_ClientIP f \<noteq> [] \<longrightarrow> e_client_ip e = qf_ClientIP f) \<and> (qf_Decision f \<noteq> [] \<longrightarrow> e_decision e = qf_Decision f) \<and>
     (qf_QType f \<noteq> [] \<longrightarrow> e_qtype e = qf_QType f) \<and>
     (qf_QNameContains f \<noteq> [] \<longrightarrow> like same (''%'' @ escapeLike (qf_QNameContains f) @ ''%'') (e_qname e))"

definition Search :: "(char \<Rightarrow> char \<Rightarrow> bool) \<Rightarrow> QueryLogFilter \<Rightarrow> ldb \<Rightarrow> QueryLogEntry list" where
  "Search same f d =
     (let limit = (if qf_Limit f \<le> 0 then 100 else if qf_Limit f > 1000 then 1000 else qf_Limit f)
      in take (nat limit) (drop (nat (qf_Offset f))
           (rev (sort_key e_id (filter (filter_keeps same f) (q_log d))))))"

end
