(* ===== verification/Query_Log_Props.thy ===== *)
theory Query_Log_Props
  imports Query_Log
begin

text \<open>
  What the query log promises: the channel never blocks a query and keeps the newest entries, what is
  stored is what was logged, in order and without repetition, a query is answered as if it were not
  logged, an anonymised address does not name a host, a search finds what contains the needle, and
  every entry is counted once.
\<close>

section \<open>The channel\<close>

lemma emit_step:
  "emit e l = (if int (length (lg_ch l)) < o_Buffer (lg_o l) then Some (l\<lparr>lg_ch := lg_ch l @ [e]\<rparr>)
     else emit e (case lg_ch l of [] \<Rightarrow> l | _ # ch \<Rightarrow> l\<lparr>lg_ch := ch, lg_dropped := lg_dropped l + 1\<rparr>))"
  by (rule emit.simps)

lemma emit_result:
  assumes "0 < o_Buffer (lg_o l)"
  shows "emit e l = (let k = length (lg_ch l) - (nat (o_Buffer (lg_o l)) - 1)
    in Some (l\<lparr>lg_ch := drop k (lg_ch l) @ [e], lg_dropped := lg_dropped l + int k\<rparr>))"
  using assms
proof (induction "length (lg_ch l)" arbitrary: l rule: less_induct)
  case less
  show ?case
  proof (cases "int (length (lg_ch l)) < o_Buffer (lg_o l)")
    case True
    then have "length (lg_ch l) - (nat (o_Buffer (lg_o l)) - 1) = 0" by linarith
    with True show ?thesis by (simp add: emit_step [of e l] Let_def)
  next
    case False
    with less(2) obtain x ch where ch: "lg_ch l = x # ch" by (cases "lg_ch l") auto
    let ?l = "l\<lparr>lg_ch := ch, lg_dropped := lg_dropped l + 1\<rparr>"
    have "emit e l = emit e ?l" using False by (simp add: emit_step [of e l] ch)
    moreover have "length (lg_ch l) - (nat (o_Buffer (lg_o l)) - 1) = Suc (length ch - (nat (o_Buffer (lg_o l)) - 1))"
      using False ch less(2) by (simp; linarith)
    ultimately show ?thesis using less(1) [of ?l] less(2) by (simp add: ch Let_def)
  qed
qed

text \<open>Logging a query never blocks it.  With any channel that can hold an entry the loop that sends ends,
  whatever is in the channel: afterwards the channel holds the new entry last, behind the newest of
  the old ones that fit, the entries it had to take out are counted, and nothing else has changed.\<close>

theorem emit_ends:
  assumes "0 < o_Buffer (lg_o l)"
  shows "\<exists>k \<le> length (lg_ch l).
    emit e l = Some (l\<lparr>lg_ch := drop k (lg_ch l) @ [e], lg_dropped := lg_dropped l + int k\<rparr>) \<and>
    int (length (drop k (lg_ch l) @ [e])) \<le> o_Buffer (lg_o l) \<and>
    (k = 0 \<or> int (length (drop k (lg_ch l) @ [e])) = o_Buffer (lg_o l))"
proof -
  define k where "k = length (lg_ch l) - (nat (o_Buffer (lg_o l)) - 1)"
  have "k \<le> length (lg_ch l)" by (simp add: k_def)
  moreover have "int (length (drop k (lg_ch l) @ [e])) \<le> o_Buffer (lg_o l)"
    using assms by (simp add: k_def; linarith)
  moreover have "k = 0 \<or> int (length (drop k (lg_ch l) @ [e])) = o_Buffer (lg_o l)"
    using assms by (simp add: k_def; linarith)
  ultimately show ?thesis using emit_result [OF assms, of e] unfolding Let_def k_def [symmetric] by blast
qed

definition ex_entry :: QueryLogEntry where
  "ex_entry = \<lparr>e_id = 0, e_at = 0, e_instance = [], e_client_ip = ''10.0.0.1'', e_client_id = 1, e_qname = ''a.example'',
     e_qtype = ''A'', e_decision = ''blocked'', e_rule = 0, e_list = 0, e_upstream = [], e_rcode = [], e_duration = 0, e_matched = []\<rparr>"

lemma ex_entry_id [simp]: "e_id ex_entry = 0"
  by (simp add: ex_entry_def)

definition ex_options :: LogOptions where
  "ex_options = \<lparr>o_BatchSize = 2, o_FlushEvery = 0, o_Buffer = 1, o_Privacy = [], o_InstanceID = []\<rparr>"

definition ex_logger :: Logger where
  "ex_logger = the (NewLogger ex_options)"

lemma ex_logger_new: "NewLogger ex_options = Some ex_logger" "o_Buffer (lg_o ex_logger) = 1" "lg_ch ex_logger = []"
  by (simp_all add: NewLogger_def ex_options_def ex_logger_def)

theorem emit_ends_witness:
  "\<exists>l. emit ex_entry (ex_logger\<lparr>lg_ch := [ex_entry\<lparr>e_qname := ''old''\<rparr>]\<rparr>) = Some l \<and> lg_ch l = [ex_entry]"
proof -
  let ?l = "ex_logger\<lparr>lg_ch := [ex_entry\<lparr>e_qname := ''old''\<rparr>]\<rparr>"
  have "0 < o_Buffer (lg_o ?l)" by (simp add: ex_logger_new)
  from emit_ends [OF this, of ex_entry] obtain k where k: "k \<le> 1"
    "emit ex_entry ?l = Some (?l\<lparr>lg_ch := drop k (lg_ch ?l) @ [ex_entry], lg_dropped := lg_dropped ?l + int k\<rparr>)"
    "int (length (drop k (lg_ch ?l) @ [ex_entry])) \<le> 1" by (auto simp: ex_logger_new)
  then have "k = 1" by simp
  with k(2) show ?thesis by simp
qed

section \<open>The middleware\<close>

text \<open>A query is answered as if it were not logged, and logged once.  With a usable channel the middleware
  always ends with the very outcome of the handler below, a panic included.  In the mode that logs
  nothing it touches nothing; otherwise exactly one entry is added behind what the channel keeps and
  shown to the subscribers: it names the question, the outcome's decision, and the client's address,
  or in the anonymous mode only its network.\<close>

theorem qlog_transparent:
  assumes "next r w = (out, l, v)" "0 < o_Buffer (lg_o l)"
  shows "\<exists>l'. qlog_middleware N T ident clock next r w = Some (out, l', v) \<and>
    (case out of
       Panicked \<Rightarrow> l' = l
     | Returned resp err \<Rightarrow>
         if lg_privacy l = ''none'' then l' = l
         else \<exists>k e. l' = Publish e (l\<lparr>lg_ch := drop k (lg_ch l) @ [e], lg_dropped := lg_dropped l + int k\<rparr>) \<and>
           e_qname e = QName r \<and> e_client_id e = ci_id (ident r) \<and>
           e_client_ip e = (if lg_privacy l = ''anon'' then anonymize T (AddrString T (rq_ip r)) else AddrString T (rq_ip r)) \<and>
           e_decision e = (case (err, resp) of (None, Some rs) \<Rightarrow> DecisionString (rs_decision rs) | _ \<Rightarrow> ''error''))"
proof (cases out)
  case Panicked
  with assms show ?thesis by (simp add: qlog_middleware_def)
next
  case (Returned resp err)
  show ?thesis
  proof (cases "lg_privacy l = ''none''")
    case True
    with assms Returned show ?thesis by (simp add: qlog_middleware_def)
  next
    case False
    let ?r = "r\<lparr>rq_client := ident r\<rparr>"
    define e where "e = entry_of N T clock l ?r resp err"
    have q: "QName ?r = QName r" by (simp add: QName_def)
    have "e_qname e = QName r" "e_client_id e = ci_id (ident r)"
      "e_client_ip e = (if lg_privacy l = ''anon'' then anonymize T (AddrString T (rq_ip r)) else AddrString T (rq_ip r))"
      "e_decision e = (case (err, resp) of (None, Some rs) \<Rightarrow> DecisionString (rs_decision rs) | _ \<Rightarrow> ''error'')"
      unfolding e_def entry_of_def by (simp_all add: q Let_def split: option.split)
    moreover obtain k where "emit e l = Some (l\<lparr>lg_ch := drop k (lg_ch l) @ [e], lg_dropped := lg_dropped l + int k\<rparr>)"
      using emit_result [OF assms(2)] by (auto simp: Let_def)
    then have "qlog_middleware N T ident clock next r w =
        Some (out, Publish e (l\<lparr>lg_ch := drop k (lg_ch l) @ [e], lg_dropped := lg_dropped l + int k\<rparr>), v)"
      using assms(1) Returned False by (simp add: qlog_middleware_def e_def [symmetric])
    ultimately show ?thesis using Returned False
      by (intro exI [of _ "Publish e (l\<lparr>lg_ch := drop k (lg_ch l) @ [e], lg_dropped := lg_dropped l + int k\<rparr>)"])
        (simp only: outcome.case if_False, blast)
  qed
qed

definition ex_log_req :: request where
  "ex_log_req = \<lparr>rq_msg = \<lparr>m_id = 7, m_response = False, m_opcode = 0, m_aa = False, m_tc = False, m_rd = True, m_rcode = 0, m_compress = False,
     m_question = [\<lparr>q_name = ''a.example.'', q_type = 1, q_class = 1\<rparr>], m_answer = [], m_ns = [], m_extra = []\<rparr>,
     rq_ip = V4 0x0a000005, rq_client = \<lparr>ci_id = 0, ci_name = [], ci_group = 0, ci_groupname = []\<rparr>\<rparr>"

definition ex_tables :: name_tables where
  "ex_tables = \<lparr>TypeToString = (\<lambda>_. ''A''), RcodeToString = (\<lambda>_. ''NOERROR'')\<rparr>"

theorem qlog_transparent_witness:
  "\<exists>l'. qlog_middleware ex_tables ex_text rq_client (\<lambda>_. 0) (\<lambda>r w. (Returned None (Some ''x''), w)) ex_log_req
      (ex_logger\<lparr>lg_privacy := ''anon''\<rparr>, ()) = Some (Returned None (Some ''x''), l', ()) \<and>
    lg_ch l' \<noteq> [] \<and> e_client_ip (last (lg_ch l')) = ''10.0.0.0''"
proof -
  let ?l = "ex_logger\<lparr>lg_privacy := ''anon''\<rparr>"
  let ?next = "\<lambda>(r :: request) w. (Returned None (Some ''x''), w)"
  have a: "anonymize ex_text (AddrString ex_text (rq_ip ex_log_req)) = ''10.0.0.0''" by code_simp
  have "0 < o_Buffer (lg_o ?l)" by (simp add: ex_logger_new)
  from qlog_transparent [of ?next ex_log_req "(?l, ())", OF _ this] obtain l' k e where
    l: "qlog_middleware ex_tables ex_text rq_client (\<lambda>_. 0) ?next ex_log_req (?l, ()) = Some (Returned None (Some ''x''), l', ())"
    "l' = Publish e (?l\<lparr>lg_ch := drop k (lg_ch ?l) @ [e], lg_dropped := lg_dropped ?l + int k\<rparr>)"
    "e_client_ip e = anonymize ex_text (AddrString ex_text (rq_ip ex_log_req))" by fastforce
  have "lg_ch l' = drop k (lg_ch ?l) @ [e]" unfolding l(2) by (simp add: Publish_def)
  then show ?thesis using l(1,3) a by (intro exI [of _ l']) simp
qed

text \<open>Two clients of one network are logged alike in the anonymous mode: of an IPv4 address three bytes are
  kept, of any other six.\<close>

lemma anonymize_network:
  assumes "ip6_laws T"
  shows "anonymize T (AddrString T (V4 w)) = AddrString T (V4 (push_bit 8 (drop_bit 8 w)))"
    "anonymize T (AddrString T (V6 u z)) = AddrString T (V6 (push_bit 80 (drop_bit 80 u)) [])"
proof -
  have "ParseAddr T (AddrString T (V4 w)) = Some (V4 w)" by (rule ParseAddr_String [OF assms]) simp
  then show "anonymize T (AddrString T (V4 w)) = AddrString T (V4 (push_bit 8 (drop_bit 8 w)))"
    unfolding anonymize_def by simp
  have "ParseAddr T (AddrString T (V6 u z)) = Some (V6 u z)" by (rule ParseAddr_String [OF assms]) simp
  then show "anonymize T (AddrString T (V6 u z)) = AddrString T (V6 (push_bit 80 (drop_bit 80 u)) [])"
    unfolding anonymize_def by simp
qed

section \<open>What is stored is what was logged\<close>

abbreviation strip :: "QueryLogEntry \<Rightarrow> QueryLogEntry" where
  "strip e \<equiv> e\<lparr>e_id := 0\<rparr>"

text \<open>Everything logged that is not dropped: stored since the table had \<open>n\<close> rows, in the batch, in the channel.\<close>

definition trail :: "nat \<Rightarrow> run_state \<Rightarrow> QueryLogEntry list" where
  "trail n s = (case s of (b, l, d) \<Rightarrow> map strip (drop n (q_log d)) @ b @ lg_ch l)"

definition log_ok :: "Logger \<Rightarrow> ldb \<Rightarrow> run_state \<Rightarrow> bool" where
  "log_ok l0 d0 s \<longleftrightarrow>
     (case s of (b, l, d) \<Rightarrow>
        lg_o l = lg_o l0 \<and> (\<forall>e \<in> set b \<union> set (lg_ch l). e_id e = 0) \<and>
        (\<exists>rows. q_log d = q_log d0 @ rows \<and> q_seq d = q_seq d0 + int (length rows) \<and>
                map e_id rows = map (\<lambda>i. q_seq d0 + 1 + int i) [0..<length rows]))"

lemma InsertBatch_rows:
  "q_log (InsertBatch b d) = q_log d @ map (\<lambda>(i, e). e\<lparr>e_id := q_seq d + int i\<rparr>) (enumerate 1 b)"
  "q_seq (InsertBatch b d) = q_seq d + int (length b)"
  by (simp_all add: InsertBatch_def)

lemma batch_ids: "map e_id (map (\<lambda>(i, e). e\<lparr>e_id := q + int i\<rparr>) (enumerate (Suc k) b)) = map (\<lambda>i. q + 1 + int (k + i)) [0..<length b]"
proof (induction b arbitrary: k)
  case (Cons e b)
  have "[0..<Suc n] = 0 # map Suc [0..<n]" for n by (metis map_Suc_upt upt_conv_Cons zero_less_Suc)
  with Cons [of "Suc k"] show ?case by (simp del: upt_Suc)
qed simp

lemma batch_strip: "\<forall>e \<in> set b. e_id e = 0 \<Longrightarrow> map strip (map (\<lambda>(i, e). e\<lparr>e_id := q + int i\<rparr>) (enumerate k b)) = b"
  by (induction b arbitrary: k) simp_all

lemma log_okI_insert:
  assumes "log_ok l0 d0 (b, l, d)"
  shows "log_ok l0 d0 ([], l, InsertBatch b d)" "trail (length (q_log d0)) ([], l, InsertBatch b d) = trail (length (q_log d0)) (b, l, d)"
proof -
  from assms obtain rows where r: "q_log d = q_log d0 @ rows" "q_seq d = q_seq d0 + int (length rows)"
    "map e_id rows = map (\<lambda>i. q_seq d0 + 1 + int i) [0..<length rows]" "\<forall>e \<in> set b. e_id e = 0" "\<forall>e \<in> set (lg_ch l). e_id e = 0"
    "lg_o l = lg_o l0" by (auto simp: log_ok_def)
  let ?new = "map (\<lambda>(i, e). e\<lparr>e_id := q_seq d + int i\<rparr>) (enumerate 1 b)"
  have "[0..<m + n] = [0..<m] @ map (\<lambda>i. m + i) [0..<n]" for m n :: nat
    using upt_add_eq_append [of 0 m n] map_add_upt [of m n] by (simp add: add.commute)
  then have "map e_id (rows @ ?new) = map (\<lambda>i. q_seq d0 + 1 + int i) [0..<length rows + length b]"
    using batch_ids [of "q_seq d" 0 b] by (simp add: r(2,3) add.assoc add.left_commute)
  then have "\<exists>rs. q_log (InsertBatch b d) = q_log d0 @ rs \<and> q_seq (InsertBatch b d) = q_seq d0 + int (length rs) \<and>
      map e_id rs = map (\<lambda>i. q_seq d0 + 1 + int i) [0..<length rs]"
    by (intro exI [of _ "rows @ ?new"]) (simp add: InsertBatch_rows r(1,2))
  then show "log_ok l0 d0 ([], l, InsertBatch b d)" using r(5,6) by (simp add: log_ok_def)
  show "trail (length (q_log d0)) ([], l, InsertBatch b d) = trail (length (q_log d0)) (b, l, d)"
    using batch_strip [OF r(4)] by (simp add: trail_def InsertBatch_rows r(1) del: map_map)
qed

text \<open>The steps of the flush loop move entries along, and lose none while the table takes them.\<close>

definition moves :: "Logger \<Rightarrow> ldb \<Rightarrow> run_state \<Rightarrow> run_state \<Rightarrow> bool" where
  "moves l0 d0 s s' \<longleftrightarrow>
     log_ok l0 d0 s' \<and> trail (length (q_log d0)) s' = trail (length (q_log d0)) s \<and>
     lg_dropped (fst (snd s')) = lg_dropped (fst (snd s)) \<and> length (lg_ch (fst (snd s'))) \<le> length (lg_ch (fst (snd s)))"

lemma moves_trans: "moves l0 d0 s t \<Longrightarrow> moves l0 d0 t u \<Longrightarrow> moves l0 d0 s u"
  by (auto simp: moves_def)

lemma flush_moves: "log_ok l0 d0 s \<Longrightarrow> moves l0 d0 s (flush True s)"
proof -
  assume ok: "log_ok l0 d0 s"
  obtain b l d where s: "s = (b, l, d)" by (cases s) auto
  show "moves l0 d0 s (flush True s)"
  proof (cases "b = []")
    case True
    with ok s show ?thesis by (simp add: flush_def moves_def)
  next
    case False
    with log_okI_insert [of l0 d0 b l d] ok s show ?thesis by (simp add: flush_def moves_def)
  qed
qed

lemma append_moves:
  assumes "log_ok l0 d0 (b, l, d)" "lg_ch l = e # ch"
  shows "moves l0 d0 (b, l, d) (append_entry True e (b, l\<lparr>lg_ch := ch\<rparr>, d))"
proof -
  let ?s = "(b @ [e], l\<lparr>lg_ch := ch\<rparr>, d)"
  have ok: "log_ok l0 d0 ?s" using assms by (auto simp: log_ok_def)
  have m: "moves l0 d0 (b, l, d) ?s" using ok assms(2) by (simp add: moves_def trail_def)
  from moves_trans [OF this flush_moves [OF ok]] m show ?thesis by (simp add: append_entry_def Let_def)
qed

lemma receive_moves: "log_ok l0 d0 s \<Longrightarrow> moves l0 d0 s (run_receive True s)"
proof -
  assume ok: "log_ok l0 d0 s"
  obtain b l d where s: "s = (b, l, d)" by (cases s) auto
  show "moves l0 d0 s (run_receive True s)"
  proof (cases "lg_ch l")
    case Nil
    with ok s show ?thesis by (simp add: run_receive_def moves_def)
  next
    case (Cons e ch)
    with append_moves [of l0 d0 b l d e ch] ok s show ?thesis by (simp add: run_receive_def)
  qed
qed

lemma reportDropped_frame [simp]:
  "lg_ch (reportDropped now l) = lg_ch l" "lg_o (reportDropped now l) = lg_o l" "lg_dropped (reportDropped now l) = lg_dropped l"
  by (simp_all add: reportDropped_def split: option.split)

lemma tick_moves: "log_ok l0 d0 s \<Longrightarrow> moves l0 d0 s (run_tick True now s)"
  using flush_moves [of l0 d0 s] by (auto simp: run_tick_def moves_def log_ok_def trail_def split: prod.splits)

lemma append_entry_ch [simp]: "fst (snd (append_entry ok e (b, l, d))) = l"
  by (simp add: append_entry_def flush_def Let_def)

lemma drain_empties:
  "lg_ch (fst (snd s)) = ch \<Longrightarrow> lg_ch (fst (snd (drain_loop oks n ch s))) = [] \<and> fst (drain_loop oks n ch s) = []"
proof (induction ch arbitrary: s n)
  case Nil
  then show ?case by (cases s) (simp add: flush_def)
next
  case (Cons e ch)
  obtain b l d where s: "s = (b, l, d)" by (cases s) auto
  show ?case using Cons(1) [of "append_entry (oks n) e (b, l\<lparr>lg_ch := ch\<rparr>, d)" "Suc n"] by (simp add: s)
qed

lemma drain_moves:
  "log_ok l0 d0 s \<Longrightarrow> ch = lg_ch (fst (snd s)) \<Longrightarrow> moves l0 d0 s (drain_loop (\<lambda>_. True) n ch s)"
proof (induction ch arbitrary: s n)
  case Nil
  then show ?case using flush_moves by simp
next
  case (Cons e ch)
  obtain b l d where s: "s = (b, l, d)" by (cases s) auto
  let ?t = "append_entry True e (b, l\<lparr>lg_ch := ch\<rparr>, d)"
  have m: "moves l0 d0 s ?t" using append_moves Cons(2,3) s by simp
  then have "log_ok l0 d0 ?t" by (simp add: moves_def)
  from moves_trans [OF m Cons(1) [OF this]] show ?case by (simp add: s)
qed

text \<open>The life of the log while the table takes what it is given: queries are logged, the flush loop receives,
  ticks and at the end drains, in any order; the privacy mode and the subscribers change.\<close>

inductive log_steps :: "Logger \<Rightarrow> ldb \<Rightarrow> QueryLogEntry list \<Rightarrow> run_state \<Rightarrow> bool" for l0 d0 where
  log_start: "log_steps l0 d0 [] ([], l0, d0)"
| log_query: "log_steps l0 d0 em (b, l, d) \<Longrightarrow> e_id e = 0 \<Longrightarrow> emit e l = Some l' \<Longrightarrow> log_steps l0 d0 (em @ [e]) (b, Publish e l', d)"
| log_receive: "log_steps l0 d0 em s \<Longrightarrow> log_steps l0 d0 em (run_receive True s)"
| log_tick: "log_steps l0 d0 em s \<Longrightarrow> log_steps l0 d0 em (run_tick True now s)"
| log_cancel: "log_steps l0 d0 em s \<Longrightarrow> log_steps l0 d0 em (run_cancel (\<lambda>_. True) s)"
| log_privacy: "log_steps l0 d0 em (b, l, d) \<Longrightarrow> log_steps l0 d0 em (b, SetPrivacy p l, d)"
| log_subscribe: "log_steps l0 d0 em (b, l, d) \<Longrightarrow> log_steps l0 d0 em (b, snd (Subscribe l), d)"
| log_unsubscribe: "log_steps l0 d0 em (b, l, d) \<Longrightarrow> log_steps l0 d0 em (b, Unsubscribe i l, d)"

definition log_inv :: "Logger \<Rightarrow> ldb \<Rightarrow> QueryLogEntry list \<Rightarrow> run_state \<Rightarrow> bool" where
  "log_inv l0 d0 em s \<longleftrightarrow>
     log_ok l0 d0 s \<and> subseq (trail (length (q_log d0)) s) em \<and> int (length (lg_ch (fst (snd s)))) \<le> o_Buffer (lg_o l0) \<and>
     int (length em) = int (length (trail (length (q_log d0)) s)) + lg_dropped (fst (snd s))"

lemma moves_inv: "moves l0 d0 s s' \<Longrightarrow> log_inv l0 d0 em s \<Longrightarrow> log_inv l0 d0 em s'"
  by (simp add: log_inv_def moves_def)

text \<open>Changes of the logger that leave its channel alone.\<close>

lemma log_inv_frame:
  "log_inv l0 d0 em (b, l, d) \<Longrightarrow> lg_o l' = lg_o l \<Longrightarrow> lg_ch l' = lg_ch l \<Longrightarrow> lg_dropped l' = lg_dropped l \<Longrightarrow> log_inv l0 d0 em (b, l', d)"
  by (simp add: log_inv_def log_ok_def trail_def)

lemma subseq_drop_middle: "subseq (xs @ b @ ch) em \<Longrightarrow> subseq (xs @ b @ drop k ch @ [e]) (em @ [e])"
proof -
  assume a: "subseq (xs @ b @ ch) em"
  have "subseq (drop k ch) ch" using suffix_drop by (rule suffix_imp_subseq)
  then have "subseq (xs @ b @ drop k ch) (xs @ b @ ch)" by (intro list_emb_append_mono subseq_order.order_refl)
  with a have "subseq (xs @ b @ drop k ch) em" using subseq_order.trans by blast
  then have "subseq ((xs @ b @ drop k ch) @ [e]) (em @ [e])" by (intro list_emb_append_mono subseq_order.order_refl)
  then show ?thesis by simp
qed

lemma emit_inv:
  assumes inv: "log_inv l0 d0 em (b, l, d)" and B: "0 < o_Buffer (lg_o l0)" and e: "e_id e = 0" and em: "emit e l = Some l'"
  shows "log_inv l0 d0 (em @ [e]) (b, l', d)"
proof -
  have o: "lg_o l = lg_o l0" using inv by (simp add: log_inv_def log_ok_def)
  then have B': "0 < o_Buffer (lg_o l)" using B by simp
  define k where "k = length (lg_ch l) - (nat (o_Buffer (lg_o l)) - 1)"
  have l': "l' = l\<lparr>lg_ch := drop k (lg_ch l) @ [e], lg_dropped := lg_dropped l + int k\<rparr>"
    using em emit_result [OF B', of e] by (simp add: Let_def k_def)
  have k1: "k \<le> length (lg_ch l)" by (simp add: k_def)
  have k2: "int (length (lg_ch l)) - int k + 1 \<le> o_Buffer (lg_o l)" using B' by (simp add: k_def; linarith)
  have "log_ok l0 d0 (b, l', d)" using inv e by (auto simp: log_inv_def log_ok_def l' dest: in_set_dropD)
  moreover have "subseq (trail (length (q_log d0)) (b, l', d)) (em @ [e])"
  proof -
    have "subseq (map strip (drop (length (q_log d0)) (q_log d)) @ b @ lg_ch l) em"
      using inv by (simp add: log_inv_def trail_def)
    from subseq_drop_middle [OF this, of k e] show ?thesis by (simp add: trail_def l')
  qed
  moreover have "int (length (em @ [e])) = int (length (trail (length (q_log d0)) (b, l', d))) + lg_dropped l'"
    using inv k1 by (simp add: log_inv_def trail_def l')
  ultimately show ?thesis using k1 k2 o by (simp add: log_inv_def l')
qed

lemma NewLogger_facts:
  assumes "NewLogger o1 = Some l0"
  shows "0 < o_Buffer (lg_o l0)" "lg_ch l0 = []" "lg_dropped l0 = 0"
  using assms by (auto simp: NewLogger_def Let_def split: if_splits)

lemma log_steps_inv:
  assumes "NewLogger o1 = Some l0" "log_steps l0 d0 em s"
  shows "log_inv l0 d0 em s"
  using assms(2)
proof induction
  case log_start
  show ?case using NewLogger_facts [OF assms(1)] by (simp add: log_inv_def log_ok_def trail_def)
next
  case (log_query em b l d e l')
  then have "log_inv l0 d0 (em @ [e]) (b, l', d)" using emit_inv NewLogger_facts(1) [OF assms(1)] by blast
  then show ?case by (rule log_inv_frame) (simp_all add: Publish_def)
next
  case (log_receive em s)
  then show ?case using receive_moves moves_inv by (metis log_inv_def)
next
  case (log_tick em s now)
  then show ?case using tick_moves moves_inv by (metis log_inv_def)
next
  case (log_cancel em s)
  then show ?case using drain_moves [of l0 d0 s _ 0] moves_inv unfolding run_cancel_def by (metis log_inv_def)
qed (erule log_inv_frame; simp add: SetPrivacy_def Subscribe_def Unsubscribe_def)+


definition ex_ldb :: ldb where
  "ex_ldb = \<lparr>db_version = 0, db_subs = [], db_settings = [], db_groups = [], db_clients = [], db_lists = [], db_group_lists = [],
     db_rules = [], seq_groups = 0, seq_clients = 0, seq_lists = 0, seq_rules = 0, q_log = [], q_seq = 0, q_stats = []\<rparr>"


section \<open>The counters\<close>

definition stat :: "((int \<times> string \<times> string) \<times> int) list \<Rightarrow> int \<times> string \<times> string \<Rightarrow> int" where
  "stat st k = (case map_of st k of Some v \<Rightarrow> v | None \<Rightarrow> 0)"

lemma upsertStat_stat: "stat (upsertStat k n st) k' = stat st k' + (if k' = k then n else 0)"
  by (induction k n st rule: upsertStat.induct) (auto simp: stat_def split: option.splits)

lemma fold_upsert:
  "distinct ks \<Longrightarrow> stat (fold (\<lambda>k. upsertStat k (f k)) ks st) k' = stat st k' + (if k' \<in> set ks then f k' else 0)"
  by (induction ks arbitrary: st) (auto simp: upsertStat_stat)

text \<open>The metrics, each with the entries it counts and the key it counts them under.\<close>

definition counts :: "string \<Rightarrow> string \<Rightarrow> QueryLogEntry \<Rightarrow> bool" where
  "counts metric key e \<longleftrightarrow>
     metric = ''decision'' \<and> key = e_decision e \<or>
     metric = ''domain'' \<and> resolved e \<and> key = e_qname e \<or>
     metric = ''blocked_domain'' \<and> e_decision e = ''blocked'' \<and> key = e_qname e \<or>
     metric = ''client'' \<and> key = e_client_ip e"

definition tally :: "int \<times> string \<times> string \<Rightarrow> QueryLogEntry list \<Rightarrow> int" where
  "tally k rows = (case k of (b, metric, key) \<Rightarrow> int (length (filter (\<lambda>e. bucket e = b \<and> counts metric key e) rows)))"

lemma tally_append [simp]: "tally k (xs @ ys) = tally k xs + tally k ys" "tally k [] = 0"
  by (simp_all add: tally_def split: prod.splits)

lemma count_list_filter: "count_list (map f xs) k = length (filter (\<lambda>x. f x = k) xs)"
  by (induction xs) auto

lemma count_into_stat:
  "stat (count_into metric P key rows st) (b, m, k) =
     stat st (b, m, k) + (if m = metric then int (length (filter (\<lambda>e. P e \<and> bucket e = b \<and> key e = k) rows)) else 0)"
proof -
  let ?ks = "map (\<lambda>e. (bucket e, metric, key e)) (filter P rows)"
  have "stat (count_into metric P key rows st) (b, m, k) =
      stat st (b, m, k) + (if (b, m, k) \<in> set ?ks then int (count_list ?ks (b, m, k)) else 0)"
    unfolding count_into_def Let_def by (subst fold_upsert) simp_all
  also have "\<dots> = stat st (b, m, k) + int (count_list ?ks (b, m, k))" by (simp add: count_list_0_iff)
  also have "int (count_list ?ks (b, m, k)) =
      (if m = metric then int (length (filter (\<lambda>e. P e \<and> bucket e = b \<and> key e = k) rows)) else 0)"
    unfolding count_list_filter by (auto simp: conj_commute intro: arg_cong [of _ _ length])
  finally show ?thesis .
qed

lemma fold_max_init: "a \<le> fold max xs a" for a :: int
proof (induction xs arbitrary: a)
  case (Cons y ys)
  from Cons [of "max y a"] show ?case by simp
qed simp

lemma fold_max_ge: "x \<in> set xs \<Longrightarrow> x \<le> fold max xs a" for a :: int
proof (induction xs arbitrary: a)
  case (Cons y ys)
  then show ?case using fold_max_init [of "max y a" ys] by auto
qed simp

lemma fold_max_in: "fold max xs a = a \<or> fold max xs a \<in> set xs" for a :: int
proof (induction xs arbitrary: a)
  case (Cons y ys)
  from Cons [of "max y a"] show ?case by (auto simp: max_def split: if_splits)
qed simp

lemma Rollup_stats:
  assumes "Rollup after d = (lst, d')"
  shows "stat (q_stats d') k = stat (q_stats d) k + tally k (filter (\<lambda>e. after < e_id e) (q_log d))"
    and "after \<le> lst" "\<forall>e \<in> set (q_log d). e_id e \<le> lst" "q_log d' = q_log d" "q_seq d' = q_seq d"
    and "lst = after \<and> d' = d \<or> lst \<in> e_id ` set (q_log d) \<and> Get StatsWatermarkKey d' = Some (FormatInt lst)"
proof -
  let ?ids = "map e_id (filter (\<lambda>e. after < e_id e) (q_log d))"
  define m where "m = fold max ?ids after"
  have all: "e_id e \<le> m" if "e \<in> set (q_log d)" for e
    using fold_max_ge [of "e_id e" ?ids after] fold_max_init [of after ?ids] that by (cases "after < e_id e") (auto simp: m_def)
  have l: "lst = m" using assms by (auto simp: Rollup_def Let_def m_def split: if_splits)
  show "after \<le> lst" unfolding l m_def by (rule fold_max_init)
  show "\<forall>e \<in> set (q_log d). e_id e \<le> lst" unfolding l using all by blast
  have rows: "filter (\<lambda>e. after < e_id e \<and> e_id e \<le> m) (q_log d) = filter (\<lambda>e. after < e_id e) (q_log d)"
    using all by (intro filter_cong) auto
  show "q_log d' = q_log d" "q_seq d' = q_seq d" using assms by (auto simp: Rollup_def Let_def split: if_splits)
  show "lst = after \<and> d' = d \<or> lst \<in> e_id ` set (q_log d) \<and> Get StatsWatermarkKey d' = Some (FormatInt lst)"
    using assms fold_max_in [of ?ids after] by (auto simp: Rollup_def Let_def Get_def settingUpsert_def split: if_splits)
  show "stat (q_stats d') k = stat (q_stats d) k + tally k (filter (\<lambda>e. after < e_id e) (q_log d))"
  proof (cases "m = after")
    case True
    then have "filter (\<lambda>e. after < e_id e) (q_log d) = []" using all by (force simp: filter_empty_conv)
    moreover have "d' = d" using assms True by (auto simp: Rollup_def Let_def m_def)
    ultimately show ?thesis by simp
  next
    case False
    obtain b me ky where k: "k = (b, me, ky)" by (cases k) auto
    let ?r = "filter (\<lambda>e. after < e_id e) (q_log d)"
    have "q_stats d' = count_into ''client'' (\<lambda>_. True) e_client_ip ?r
             (count_into ''blocked_domain'' (\<lambda>e. e_decision e = ''blocked'') e_qname ?r
               (count_into ''domain'' resolved e_qname ?r (count_into ''decision'' (\<lambda>_. True) e_decision ?r (q_stats d))))"
      using assms False rows by (auto simp: Rollup_def Let_def m_def)
    then show ?thesis unfolding k tally_def prod.case
      by (simp only: count_into_stat) (auto simp: counts_def conj_commute intro!: arg_cong [of _ _ length] filter_cong)
  qed
qed

text \<open>Where the next rollup resumes.\<close>

definition watermark :: "ldb \<Rightarrow> int option" where
  "watermark d = (case Get StatsWatermarkKey d of None \<Rightarrow> Some 0 | Some v \<Rightarrow> undec_int64 v)"

lemma undec_FormatInt: "0 \<le> n \<Longrightarrow> n < 2 ^ 63 \<Longrightarrow> undec_int64 (FormatInt n) = Some n"
proof -
  assume n: "0 \<le> n" "n < 2 ^ 63"
  have "hd (dec k) \<noteq> CHR ''-'' \<and> hd (dec k) \<noteq> CHR ''+''" for k
    using dec_digits [of "hd (dec k)" k] by (auto simp: is_digit_def)
  moreover have "nat n < 2 ^ 63" using n by (simp add: nat_less_iff)
  ultimately show "undec_int64 (FormatInt n) = Some n" using n by (simp add: undec_int64_def FormatInt_def Let_def)
qed

lemma once_watermark: "once d = (case watermark d of None \<Rightarrow> d | Some a \<Rightarrow> snd (Rollup a d))"
  by (simp add: once_def watermark_def split: option.split)

section \<open>Retention\<close>

lemma delete_some_result:
  "subseq (snd (delete_some P k rows)) rows \<and> filter (\<lambda>r. \<not> P r) (snd (delete_some P k rows)) = filter (\<lambda>r. \<not> P r) rows \<and>
   fst (delete_some P k rows) + length (filter P (snd (delete_some P k rows))) = length (filter P rows) \<and>
   (fst (delete_some P k rows) < k \<longrightarrow> snd (delete_some P k rows) = filter (\<lambda>r. \<not> P r) rows)"
proof (induction P k rows rule: delete_some.induct)
  case (3 P limit r rows)
  then show ?case by (cases "P r") (auto split: prod.splits)
qed auto

declare deleteInChunks.simps [simp del]

lemma deleteInChunks_result:
  assumes "0 < chunk"
  shows "subseq (snd (snd (deleteInChunks stop i chunk P rows))) rows \<and>
    (fst (snd (deleteInChunks stop i chunk P rows)) \<longrightarrow>
       snd (snd (deleteInChunks stop i chunk P rows)) = filter (\<lambda>r. \<not> P r) rows \<and>
       fst (deleteInChunks stop i chunk P rows) = length (filter P rows)) \<and>
    ((\<forall>j. \<not> stop j) \<longrightarrow> fst (snd (deleteInChunks stop i chunk P rows)))"
  using assms
proof (induction stop i chunk P rows rule: deleteInChunks.induct)
  case (1 stop i chunk P rows)
  obtain n rows' where d: "delete_some P chunk rows = (n, rows')" by (cases "delete_some P chunk rows") auto
  note r = delete_some_result [of P chunk rows, unfolded d, simplified]
  show ?case
  proof (cases "n < chunk")
    case True
    with r have "rows' = filter (\<lambda>r. \<not> P r) rows" by simp
    then have e: "filter P rows' = []" by (simp add: filter_empty_conv)
    have D: "deleteInChunks stop i chunk P rows = (n, True, rows')" using True d by (simp add: deleteInChunks.simps [of stop i chunk P rows])
    show ?thesis unfolding D using True r e by simp
  next
    case False
    show ?thesis
    proof (cases "stop i")
      case True
      then show ?thesis using False r d 1(2) by (auto simp: deleteInChunks.simps [of stop i chunk P rows])
    next
      case go: False
      have "\<not> (n < chunk \<or> chunk = 0)" using False 1(2) by simp
      note ih = 1(1) [OF d [symmetric] this go 1(2)]
      obtain t fin rows'' where d': "deleteInChunks stop (Suc i) chunk P rows' = (t, fin, rows'')"
        by (cases "deleteInChunks stop (Suc i) chunk P rows'") auto
      have D: "deleteInChunks stop i chunk P rows = (n + t, fin, rows'')"
        using False go d d' 1(2) by (simp add: deleteInChunks.simps [of stop i chunk P rows])
      have "subseq rows'' rows" using ih r unfolding d' by (auto intro: subseq_order.trans)
      with ih r show ?thesis unfolding D d' by simp
    qed
  qed
qed

lemma DeleteBefore_exact:
  assumes "\<forall>j. \<not> stop j"
  shows "DeleteBefore stop cutoff d =
    ((length (filter (\<lambda>e. e_at e < cutoff) (q_log d)), True), d\<lparr>q_log := filter (\<lambda>e. \<not> e_at e < cutoff) (q_log d)\<rparr>)"
proof -
  have c: "0 < pruneChunk" by (simp add: pruneChunk_def)
  show ?thesis using deleteInChunks_result [OF c, of stop 0 "\<lambda>e. e_at e < cutoff" "q_log d"] assms
    unfolding DeleteBefore_def by (cases "deleteInChunks stop 0 pruneChunk (\<lambda>e. e_at e < cutoff) (q_log d)") simp
qed

lemma DeleteBefore_frame:
  "subseq (q_log (snd (DeleteBefore stop cutoff d))) (q_log d)" "q_seq (snd (DeleteBefore stop cutoff d)) = q_seq d"
  "q_stats (snd (DeleteBefore stop cutoff d)) = q_stats d" "watermark (snd (DeleteBefore stop cutoff d)) = watermark d"
proof -
  have c: "0 < pruneChunk" by (simp add: pruneChunk_def)
  show "subseq (q_log (snd (DeleteBefore stop cutoff d))) (q_log d)"
    using deleteInChunks_result [OF c, of stop 0 "\<lambda>e. e_at e < cutoff" "q_log d"]
    by (cases "deleteInChunks stop 0 pruneChunk (\<lambda>e. e_at e < cutoff) (q_log d)") (simp add: DeleteBefore_def)
qed (simp_all add: DeleteBefore_def watermark_def Get_def split: prod.split)

section \<open>Every entry is counted once\<close>

text \<open>The life of the tables: batches are inserted, the counters are brought up to date, old entries are deleted,
  settings other than the watermark are written.  The list is what has been counted so far.\<close>

inductive stats_steps :: "ldb \<Rightarrow> QueryLogEntry list \<Rightarrow> ldb \<Rightarrow> bool" for d0 where
  st_start: "stats_steps d0 [] d0"
| st_insert: "stats_steps d0 c d \<Longrightarrow> q_seq d + int (length b) < 2 ^ 63 \<Longrightarrow> stats_steps d0 c (InsertBatch b d)"
| st_once: "stats_steps d0 c d \<Longrightarrow> watermark d = Some a \<Longrightarrow> stats_steps d0 (c @ filter (\<lambda>e. a < e_id e) (q_log d)) (once d)"
| st_delete: "stats_steps d0 c d \<Longrightarrow> stats_steps d0 c (snd (DeleteBefore stop cutoff d))"
| st_settings: "stats_steps d0 c d \<Longrightarrow> StatsWatermarkKey \<notin> fst ` set vals \<Longrightarrow> stats_steps d0 c (snd (SetMany vals d))"

definition stats_inv :: "QueryLogEntry list \<Rightarrow> ldb \<Rightarrow> bool" where
  "stats_inv c d \<longleftrightarrow>
     (\<exists>a. watermark d = Some a \<and> 0 \<le> a \<and> a \<le> q_seq d \<and> (\<forall>e \<in> set c. e_id e \<le> a) \<and>
          (\<forall>e \<in> set (q_log d). e_id e \<le> a \<longrightarrow> e \<in> set c)) \<and>
     q_seq d < 2 ^ 63 \<and> distinct (map e_id (q_log d)) \<and> (\<forall>e \<in> set (q_log d). e_id e \<le> q_seq d) \<and>
     distinct (map e_id c) \<and> (\<forall>k. stat (q_stats d) k = tally k c)"

lemma stats_invI_once:
  assumes inv: "stats_inv c d" and a: "watermark d = Some a"
  shows "stats_inv (c @ filter (\<lambda>e. a < e_id e) (q_log d)) (once d)"
proof -
  let ?new = "filter (\<lambda>e. a < e_id e) (q_log d)"
  obtain m d' where R: "Rollup a d = (m, d')" by (cases "Rollup a d") auto
  then have o: "once d = d'" using a by (simp add: once_watermark)
  note r = Rollup_stats [OF R]
  from inv a have i: "0 \<le> a" "a \<le> q_seq d" "\<forall>e \<in> set c. e_id e \<le> a" "\<forall>e \<in> set (q_log d). e_id e \<le> a \<longrightarrow> e \<in> set c"
    "q_seq d < 2 ^ 63" "distinct (map e_id (q_log d))" "\<forall>e \<in> set (q_log d). e_id e \<le> q_seq d" "distinct (map e_id c)"
    "\<forall>k. stat (q_stats d) k = tally k c" unfolding stats_inv_def by auto
  have m: "m \<le> q_seq d" using r(6) i(2,7) by auto
  have "watermark d' = Some m"
    using r(6)
  proof
    assume "m \<in> e_id ` set (q_log d) \<and> Get StatsWatermarkKey d' = Some (FormatInt m)"
    then show ?thesis using undec_FormatInt [of m] r(2) i(1,5) m by (simp add: watermark_def)
  qed (use a in simp)
  moreover have "distinct (map e_id (c @ ?new))"
    using i(3,6,8) by (auto simp: distinct_map_filter)
  moreover have "\<forall>e \<in> set (c @ ?new). e_id e \<le> m" using i(3) r(2,3) by fastforce
  moreover have "\<forall>e \<in> set (q_log d). e_id e \<le> m \<longrightarrow> e \<in> set (c @ ?new)" using i(4) by force
  moreover have "\<forall>k. stat (q_stats d') k = tally k (c @ ?new)" using r(1) i(9) by simp
  moreover have "0 \<le> m" using i(1) r(2) by simp
  ultimately show ?thesis unfolding stats_inv_def o r(4,5) using i(5,6,7) m by blast
qed

lemma SetMany_log:
  assumes "StatsWatermarkKey \<notin> fst ` set vals"
  shows "watermark (snd (SetMany vals d)) = watermark d" "q_log (snd (SetMany vals d)) = q_log d"
    "q_seq (snd (SetMany vals d)) = q_seq d" "q_stats (snd (SetMany vals d)) = q_stats d"
proof -
  have "map_of (fold (\<lambda>(k, v). settingUpsert k v) vals kvs) StatsWatermarkKey = map_of kvs StatsWatermarkKey" for kvs
    using assms
  proof (induction vals arbitrary: kvs)
    case (Cons kv vals)
    have "map_of (filter (\<lambda>kv. fst kv \<noteq> k) kvs) k' = map_of kvs k'" if "k' \<noteq> k" for k k'
      using that by (induction kvs) auto
    with Cons show ?case by (cases kv) (simp add: settingUpsert_def)
  qed simp
  then show "watermark (snd (SetMany vals d)) = watermark d"
    by (simp add: SetMany_def configWrite_def watermark_def Get_def bumpVersionTx_def publish_def Let_def)
qed (simp_all add: SetMany_def configWrite_def bumpVersionTx_def publish_def Let_def)

lemma set_subseq: "subseq xs ys \<Longrightarrow> set xs \<subseteq> set ys"
  by (induction rule: list_emb.induct) auto

lemma subseq_distinct: "subseq xs ys \<Longrightarrow> distinct ys \<Longrightarrow> distinct xs"
proof (induction rule: list_emb.induct)
  case (list_emb_Cons2 x y xs ys)
  then show ?case using set_subseq by auto
qed simp_all

lemma stats_inv_shrink:
  assumes "stats_inv c d" "subseq (q_log d') (q_log d)" "q_seq d' = q_seq d" "q_stats d' = q_stats d" "watermark d' = watermark d"
  shows "stats_inv c d'"
proof -
  have "subseq (map e_id (q_log d')) (map e_id (q_log d))" using assms(2) by (rule subseq_map)
  then have "distinct (map e_id (q_log d'))" using assms(1) subseq_distinct unfolding stats_inv_def by blast
  moreover have "set (q_log d') \<subseteq> set (q_log d)" using assms(2) by (rule set_subseq)
  ultimately show ?thesis using assms(1) unfolding stats_inv_def assms(3-5) by blast
qed

lemma stats_inv_insert:
  assumes "stats_inv c d" "q_seq d + int (length b) < 2 ^ 63"
  shows "stats_inv c (InsertBatch b d)"
proof -
  let ?new = "map (\<lambda>(i, e). e\<lparr>e_id := q_seq d + int i\<rparr>) (enumerate 1 b)"
  have w: "watermark (InsertBatch b d) = watermark d" "q_stats (InsertBatch b d) = q_stats d"
    by (simp_all add: InsertBatch_def watermark_def Get_def)
  have ids: "map e_id ?new = map (\<lambda>i. q_seq d + 1 + int i) [0..<length b]" using batch_ids [of "q_seq d" 0 b] by simp
  have new: "q_seq d < e_id e \<and> e_id e \<le> q_seq d + int (length b)" if "e \<in> set ?new" for e
  proof -
    have "e_id e \<in> set (map e_id ?new)" using that unfolding list.set_map [of e_id] by (rule imageI)
    then obtain i where "i < length b" "e_id e = q_seq d + 1 + int i" unfolding ids by auto
    then show ?thesis by simp
  qed
  have "distinct (map e_id ?new)" unfolding ids by (simp add: distinct_map inj_on_def)
  moreover from assms(1) obtain a where i: "watermark d = Some a" "0 \<le> a" "a \<le> q_seq d" "\<forall>e \<in> set c. e_id e \<le> a"
    "\<forall>e \<in> set (q_log d). e_id e \<le> a \<longrightarrow> e \<in> set c" "distinct (map e_id (q_log d))" "\<forall>e \<in> set (q_log d). e_id e \<le> q_seq d"
    "distinct (map e_id c)" "\<forall>k. stat (q_stats d) k = tally k c" unfolding stats_inv_def by blast
  moreover have "e_id ` set (q_log d) \<inter> e_id ` set ?new = {}" using new i(7) by (force simp del: set_map)
  ultimately have "distinct (map e_id (q_log d @ ?new))" unfolding map_append distinct_append list.set_map by blast
  moreover have "\<forall>e \<in> set (q_log d @ ?new). e_id e \<le> a \<longrightarrow> e \<in> set c" using new i(3,5) by (fastforce simp del: set_map)
  moreover have "\<forall>e \<in> set (q_log d @ ?new). e_id e \<le> q_seq d + int (length b)" using new i(7) by (fastforce simp del: set_map)
  moreover have "a \<le> q_seq d + int (length b)" using i(3) by simp
  ultimately show ?thesis unfolding stats_inv_def w InsertBatch_rows using i(1,2,4,8,9) assms(2) by blast
qed

lemma stats_steps_inv:
  assumes "q_log d0 = []" "q_stats d0 = []" "0 \<le> q_seq d0" "q_seq d0 < 2 ^ 63" "Get StatsWatermarkKey d0 = None" "stats_steps d0 c d"
  shows "stats_inv c d"
  using assms(6)
proof induction
  case st_start
  show ?case using assms(1-5) by (simp add: stats_inv_def watermark_def stat_def)
next
  case (st_insert c d b)
  then show ?case using stats_inv_insert by blast
next
  case (st_once c d a)
  then show ?case using stats_invI_once by blast
next
  case (st_delete c d stop cutoff)
  then show ?case using stats_inv_shrink DeleteBefore_frame by blast
next
  case (st_settings c d vals)
  then show ?case using stats_inv_shrink [of c d "snd (SetMany vals d)"] SetMany_log by simp
qed



section \<open>Searching\<close>

lemma like_percent: "like same (CHR ''%'' # ps) s \<longleftrightarrow> (\<exists>p q. s = p @ q \<and> like same ps q)"
proof (induction s)
  case (Cons c s)
  have "(\<exists>p q. c # s = p @ q \<and> like same ps q) \<longleftrightarrow> like same ps (c # s) \<or> (\<exists>p q. s = p @ q \<and> like same ps q)"
    by (metis (no_types, lifting) append_Cons append_Nil list.exhaust list.inject)
  with Cons show ?case by simp
qed auto

lemma like_escaped: "like same (escapeLike n @ ps) s \<longleftrightarrow> (\<exists>m q. s = m @ q \<and> list_all2 same n m \<and> like same ps q)"
proof (induction n arbitrary: s)
  case (Cons c n)
  have "like same (escapeLike (c # n) @ ps) s \<longleftrightarrow> (\<exists>d t. s = d # t \<and> same c d \<and> like same (escapeLike n @ ps) t)"
    by (cases s) auto
  with Cons show ?case by (simp add: list_all2_Cons1) (metis append_Cons)
qed auto

text \<open>A search by name finds the entries whose name contains the needle, wildcards of the pattern language
  included.\<close>

lemma search_contains:
  "like same (''%'' @ escapeLike n @ ''%'') s \<longleftrightarrow> (\<exists>p m q. s = p @ m @ q \<and> list_all2 same n m)"
proof -
  have "like same ''%'' q" for q by (induction q) simp_all
  then show ?thesis unfolding append_Cons append_Nil like_percent [of same "escapeLike n @ ''%''"] like_escaped by metis
qed

end
