(* ===== verification/Dhcp_Names.thy ===== *)
theory Dhcp_Names
  imports Pipeline Netip_Text
begin

unbundle bit_operations_syntax

text \<open>
  The lease table of \<open>internal/dhcp/leases.go\<close> and the pipeline stage that answers from it,
  \<open>internal/dhcp/names.go\<close>.  Times are seconds or nanoseconds since the epoch as the code has them; the
  zero \<open>time.Time\<close> is \<open>None\<close>.  Host names are ASCII; a byte outside it is a character no label may hold.
\<close>

section \<open>leases.go\<close>

record Scope =
  sc_id :: int
  sc_cidr :: string
  sc_domain :: string
  sc_pool_start :: string
  sc_pool_end :: string

record Reservation =
  rv_scope :: int
  rv_mac :: string
  rv_ip :: string
  rv_hostname :: string

text \<open>A lease as the engine reports it.\<close>

record Lease =
  kl_ip :: string
  kl_mac :: string
  kl_hostname :: string
  kl_subnet :: int
  kl_cltt :: int
  kl_valid :: int
  kl_state :: int

record LeaseEntry =
  le_scope :: int
  le_ip :: addr
  le_mac :: string
  le_hostname :: string
  le_expires :: "int option"
  le_reserved :: bool

record Table =
  t_at :: int
  t_entries :: "LeaseEntry list"
  t_byIP :: "addr \<rightharpoonup> nat"
  t_byMAC :: "string \<rightharpoonup> nat"
  t_byName :: "string \<rightharpoonup> nat"
  t_suffixes :: "int \<rightharpoonup> string"

definition leaseActive :: int where
  "leaseActive = 0"

definition maxLabel :: nat where
  "maxLabel = 63"

definition label_char :: "char \<Rightarrow> bool" where
  "label_char c \<longleftrightarrow>
     (97 \<le> (of_char c :: nat) \<and> (of_char c :: nat) \<le> 122) \<or> is_digit c \<or> c = CHR ''-''"

text \<open>The loop of \<open>SanitizeLabel\<close>: the bytes written so far, and whether the last of them is a hyphen.\<close>

fun sanitize_loop :: "string \<Rightarrow> string \<Rightarrow> bool \<Rightarrow> string" where
  "sanitize_loop b [] dashed = b"
| "sanitize_loop b (r # rs) dashed =
     (if label_char r then sanitize_loop (b @ [r]) rs (r = CHR ''-'')
      else if \<not> dashed \<and> b \<noteq> [] then sanitize_loop (b @ ''-'') rs True
      else sanitize_loop b rs dashed)"

definition trim_left :: "char \<Rightarrow> string \<Rightarrow> string" where
  "trim_left c s = dropWhile (\<lambda>x. x = c) s"

definition trim_right :: "char \<Rightarrow> string \<Rightarrow> string" where
  "trim_right c s = rev (dropWhile (\<lambda>x. x = c) (rev s))"

definition SanitizeLabel :: "string \<Rightarrow> string" where
  "SanitizeLabel s =
     (let label = trim_right CHR ''-'' (trim_left CHR ''-'' (sanitize_loop [] (ToLower s) False))
      in if length label > maxLabel then trim_right CHR ''-'' (take maxLabel label) else label)"

definition nameKey :: "string \<Rightarrow> string \<Rightarrow> string" where
  "nameKey label sfx =
     (let sfx = ToLower (trim_right CHR ''.'' (trim_left CHR ''.'' (TrimSpace sfx)))
      in if label = [] \<or> sfx = [] then [] else label @ ''.'' @ sfx)"

fun expires_after :: "int option \<Rightarrow> int option \<Rightarrow> bool" where
  "expires_after None _ = False"
| "expires_after (Some a) None = True"
| "expires_after (Some a) (Some b) = (b < a)"

definition outranks :: "LeaseEntry \<Rightarrow> LeaseEntry \<Rightarrow> bool" where
  "outranks a b =
     (if le_reserved a \<noteq> le_reserved b then le_reserved a else expires_after (le_expires a) (le_expires b))"

definition claimed :: "(string \<rightharpoonup> nat) \<Rightarrow> string \<Rightarrow> LeaseEntry \<Rightarrow> LeaseEntry list \<Rightarrow> bool" where
  "claimed index key e entries =
     (case index key of Some held \<Rightarrow> \<not> outranks e (entries ! held) | None \<Rightarrow> False)"

definition suffix_at :: "(int \<rightharpoonup> string) \<Rightarrow> int \<Rightarrow> string" where
  "suffix_at sfxs i = (case sfxs i of Some s \<Rightarrow> s | None \<Rightarrow> [])"

text \<open>One pass of the loop of \<open>newTable\<close>.\<close>

definition index_entry :: "(int \<rightharpoonup> string) \<Rightarrow> LeaseEntry list \<Rightarrow> nat \<Rightarrow> Table \<Rightarrow> Table" where
  "index_entry sfxs entries i t =
     (let e = entries ! i;
          t = t\<lparr>t_byIP := (t_byIP t)(le_ip e \<mapsto> i)\<rparr>;
          t = (if le_mac e \<noteq> [] \<and> \<not> claimed (t_byMAC t) (le_mac e) e entries
               then t\<lparr>t_byMAC := (t_byMAC t)(le_mac e \<mapsto> i)\<rparr> else t);
          key = nameKey (SanitizeLabel (le_hostname e)) (suffix_at sfxs (le_scope e))
      in if key = [] then t
         else if \<not> claimed (t_byName t) key e entries then t\<lparr>t_byName := (t_byName t)(key \<mapsto> i)\<rparr> else t)"

definition newTable :: "int \<Rightarrow> LeaseEntry list \<Rightarrow> (int \<rightharpoonup> string) \<Rightarrow> Table" where
  "newTable now entries sfxs =
     fold (index_entry sfxs entries) [0..<length entries]
       \<lparr>t_at = now, t_entries = entries, t_byIP = Map.empty, t_byMAC = Map.empty, t_byName = Map.empty, t_suffixes = sfxs\<rparr>"

definition ByIP :: "Table \<Rightarrow> addr \<Rightarrow> LeaseEntry option" where
  "ByIP t ip = map_option (\<lambda>i. t_entries t ! i) (t_byIP t ip)"

definition ByMAC :: "Table \<Rightarrow> string \<Rightarrow> LeaseEntry option" where
  "ByMAC t mac =
     (case CanonicalMAC mac of None \<Rightarrow> None | Some m \<Rightarrow> map_option (\<lambda>i. t_entries t ! i) (t_byMAC t m))"

definition ByName_lease :: "Table \<Rightarrow> string \<Rightarrow> string \<Rightarrow> LeaseEntry option" where
  "ByName_lease t label0 sfx =
     (let label = ToLower label0; key = nameKey label sfx
      in if label \<noteq> SanitizeLabel label then None
         else if key = [] then None
         else map_option (\<lambda>i. t_entries t ! i) (t_byName t key))"

text \<open>\<open>tableFrom\<close>: the reservation that backs a lease, by hardware address and then by address; a later
  reservation of the same key replaces an earlier one, as in a Go map.\<close>

definition last_index :: "('a \<Rightarrow> bool) \<Rightarrow> 'a list \<Rightarrow> nat option" where
  "last_index P xs = (case filter (\<lambda>i. P (xs ! i)) [0..<length xs] of [] \<Rightarrow> None | ks \<Rightarrow> Some (last ks))"

definition backing :: "ip6_text \<Rightarrow> Reservation list \<Rightarrow> int \<Rightarrow> string \<Rightarrow> addr \<Rightarrow> nat option" where
  "backing T rs scope mac ip =
     (case last_index (\<lambda>r. rv_scope r = scope \<and> rv_mac r = mac) rs of
        Some i \<Rightarrow> Some i
      | None \<Rightarrow> last_index (\<lambda>r. rv_scope r = scope \<and> rv_ip r = AddrString T ip) rs)"

definition lease_entry :: "ip6_text \<Rightarrow> Reservation list \<Rightarrow> Lease \<Rightarrow> (LeaseEntry \<times> nat option) option" where
  "lease_entry T rs l =
     (if kl_state l \<noteq> leaseActive then None
      else case ParseAddr T (kl_ip l) of
             None \<Rightarrow> None
           | Some ip \<Rightarrow>
               let mac = (case CanonicalMAC (kl_mac l) of Some m \<Rightarrow> m | None \<Rightarrow> kl_mac l);
                   res = backing T rs (kl_subnet l) mac ip
               in Some (\<lparr>le_scope = kl_subnet l, le_ip = ip, le_mac = mac,
                         le_hostname = (case res of
                             Some i \<Rightarrow> if kl_hostname l = [] then rv_hostname (rs ! i) else kl_hostname l
                           | None \<Rightarrow> kl_hostname l),
                         le_expires = Some (kl_cltt l + kl_valid l), le_reserved = (res \<noteq> None)\<rparr>, res))"

definition reserved_entry :: "ip6_text \<Rightarrow> Reservation \<Rightarrow> LeaseEntry option" where
  "reserved_entry T r =
     (case ParseAddr T (rv_ip r) of
        None \<Rightarrow> None
      | Some ip \<Rightarrow> Some \<lparr>le_scope = rv_scope r, le_ip = ip, le_mac = rv_mac r, le_hostname = rv_hostname r,
                         le_expires = None, le_reserved = True\<rparr>)"

definition tableFrom :: "ip6_text \<Rightarrow> int \<Rightarrow> Lease list \<Rightarrow> Scope list \<Rightarrow> Reservation list \<Rightarrow> string \<Rightarrow> Table" where
  "tableFrom T now leases scopes rs domain =
     (let sfxs = foldl (\<lambda>m s. m(sc_id s \<mapsto> (if sc_domain s \<noteq> [] then sc_domain s else domain))) Map.empty scopes;
          active = List.map_filter (lease_entry T rs) leases;
          leased = List.map_filter snd active;
          pinned = List.map_filter (\<lambda>i. if i \<in> set leased then None else reserved_entry T (rs ! i)) [0..<length rs]
      in newTable now (map fst active @ pinned) sfxs)"

definition without_entry :: "addr \<Rightarrow> LeaseEntry \<Rightarrow> LeaseEntry option" where
  "without_entry ip e =
     (if le_ip e \<noteq> ip then Some e else if le_reserved e then Some (e\<lparr>le_expires := None\<rparr>) else None)"

definition without :: "int \<Rightarrow> addr \<Rightarrow> Table \<Rightarrow> Table" where
  "without now ip t =
     (if t_byIP t ip = None then t
      else (newTable now (List.map_filter (without_entry ip) (t_entries t)) (t_suffixes t))\<lparr>t_at := t_at t\<rparr>)"

section \<open>names.go\<close>

definition maxNameTTL :: int where
  "maxNameTTL = 300 * Second"

definition arpaSuffix :: string where
  "arpaSuffix = ''.in-addr.arpa''"

record scopeView =
  v_scopes :: "Scope list"
  v_domain :: string

text \<open>\<open>ttlFor\<close> at time \<open>now\<close> in nanoseconds; \<open>None\<close> for a lease that has run out.\<close>

definition ttlFor :: "int \<Rightarrow> LeaseEntry \<Rightarrow> u32 option" where
  "ttlFor now e =
     (case le_expires e of
        None \<Rightarrow> Some (word_of_int (maxNameTTL div Second))
      | Some s \<Rightarrow>
          let remaining = s * Second - now
          in if remaining \<le> 0 then None else Some (word_of_int (min remaining maxNameTTL div Second)))"

definition leaseFor :: "int \<Rightarrow> Table \<Rightarrow> string \<Rightarrow> LeaseEntry option" where
  "leaseFor now t name =
     (case IndexByte name CHR ''.'' of
        None \<Rightarrow> None
      | Some i \<Rightarrow>
          (case ByName_lease t (take i name) (drop (i + 1) name) of
             None \<Rightarrow> None
           | Some e \<Rightarrow> if ttlFor now e = None then None else Some e))"

definition As4 :: "u32 \<Rightarrow> u8 list" where
  "As4 w = map of_nat (octets w)"

definition forward :: "int \<Rightarrow> Table \<Rightarrow> string \<Rightarrow> string \<Rightarrow> rr option" where
  "forward now t qname name =
     (case leaseFor now t name of
        None \<Rightarrow> None
      | Some e \<Rightarrow>
          (case le_ip e of
             V4 w \<Rightarrow> Some (RR \<lparr>h_name = qname, h_rrtype = TypeA, h_class = ClassINET,
                               h_ttl = (case ttlFor now e of Some ttl \<Rightarrow> ttl | None \<Rightarrow> 0)\<rparr> (RD_A (As4 w)))
           | _ \<Rightarrow> None))"

definition addrFromArpa :: "ip6_text \<Rightarrow> string \<Rightarrow> addr option" where
  "addrFromArpa T name =
     (case CutSuffix name arpaSuffix of
        None \<Rightarrow> None
      | Some rest \<Rightarrow>
          let labels = Split rest CHR ''.''
          in if length labels \<noteq> 4 then None
             else case ParseAddr T (Join (rev labels) ''.'') of
                    Some a \<Rightarrow> if Is4 a then Some a else None
                  | None \<Rightarrow> None)"

definition inAnyScope :: "ip6_text \<Rightarrow> addr \<Rightarrow> Scope list \<Rightarrow> bool" where
  "inAnyScope T a scopes =
     list_ex (\<lambda>s. case ParsePrefix T (sc_cidr s) of Some p \<Rightarrow> Contains p a | None \<Rightarrow> False) scopes"

definition suffixOf :: "Scope list \<Rightarrow> string \<Rightarrow> int \<Rightarrow> string" where
  "suffixOf scopes domain i =
     (case List.find (\<lambda>s. sc_id s = i) scopes of
        Some s \<Rightarrow> if sc_domain s \<noteq> [] then sc_domain s else domain
      | None \<Rightarrow> [])"

definition reverse :: "dns_lib \<Rightarrow> ip6_text \<Rightarrow> int \<Rightarrow> Table \<Rightarrow> string \<Rightarrow> string \<Rightarrow> Scope list \<Rightarrow> string \<Rightarrow> rr option" where
  "reverse L T now t qname name scopes domain =
     (case addrFromArpa T name of
        None \<Rightarrow> None
      | Some a \<Rightarrow>
          if \<not> inAnyScope T a scopes then None
          else case ByIP t a of
                 None \<Rightarrow> None
               | Some e \<Rightarrow>
                   let target = nameKey (SanitizeLabel (le_hostname e)) (suffixOf scopes domain (le_scope e))
                   in if target = [] then None
                      else case ttlFor now e of
                             None \<Rightarrow> None
                           | Some ttl \<Rightarrow> Some (RR \<lparr>h_name = qname, h_rrtype = TypePTR, h_class = ClassINET, h_ttl = ttl\<rparr>
                                                  (RD_PTR (Fqdn L target))))"

text \<open>The stage.  \<open>zc\<close> is the check against the zones, \<open>None\<close> for a server without.\<close>

definition Names :: "dns_lib \<Rightarrow> ip6_text \<Rightarrow> int \<Rightarrow> Table \<Rightarrow> scopeView \<Rightarrow> (string \<Rightarrow> bool) option \<Rightarrow> 'w middleware" where
  "Names L T now table view zc next r w =
     (case m_question (rq_msg r) of
        [] \<Rightarrow> next r w
      | q # _ \<Rightarrow>
          if q_class q \<noteq> ClassINET then next r w
          else
            let name = QName r;
                rr = (if QType r = TypeA then forward now table (q_name q) name
                      else if QType r = TypePTR then reverse L T now table (q_name q) name (v_scopes view) (v_domain view)
                      else None);
                held = (QType r \<noteq> TypeA \<and> QType r \<noteq> TypePTR \<and> leaseFor now table name \<noteq> None)
            in if (rr = None \<and> \<not> held) \<or> (case zc of Some f \<Rightarrow> f name | None \<Rightarrow> False) then next r w
               else let m = (SetReply L (rq_msg r))\<lparr>m_aa := True\<rparr>;
                        m = (case rr of Some x \<Rightarrow> m\<lparr>m_answer := [x]\<rparr> | None \<Rightarrow> m)
                    in (Returned (Some ((reply m DecisionAuthoritative)\<lparr>rs_matched := ''dhcp''\<rparr>)) None, w))"

text \<open>\<open>logCollisions\<close>: the pairs of entries whose collision is reported, winner first.\<close>

definition collisions :: "Table \<Rightarrow> Scope list \<Rightarrow> string \<Rightarrow> (LeaseEntry \<times> LeaseEntry) list" where
  "collisions t scopes domain =
     (let key = (\<lambda>e. nameKey (SanitizeLabel (le_hostname e)) (suffixOf scopes domain (le_scope e)));
          wanted = (\<lambda>k. filter (\<lambda>e. key e = k) (t_entries t))
      in concat (map (\<lambda>k. if k = [] \<or> length (wanted k) < 2 then []
                          else case IndexByte k CHR ''.'' of
                                 None \<Rightarrow> []
                               | Some i \<Rightarrow>
                                   (case ByName_lease t (take i k) (drop (i + 1) k) of
                                      None \<Rightarrow> []
                                    | Some kept \<Rightarrow> map (\<lambda>e. (kept, e)) (filter (\<lambda>e. le_mac e \<noteq> le_mac kept) (wanted k))))
              (remdups (map key (t_entries t)))))"

end
