(* ===== verification/Dhcp_Names_Props.thy ===== *)
theory Dhcp_Names_Props
  imports Dhcp_Names
begin

text \<open>
  What the lease table and its stage promise: a label is a valid host label, a name or a hardware address
  belongs to one entry that nothing outranks, a released address is gone from every index, and an
  answer comes from a lease that is still running and is not kept longer than that.
\<close>

section \<open>Labels\<close>

lemma trim_right_last: "trim_right c s \<noteq> [] \<Longrightarrow> last (trim_right c s) \<noteq> c"
  using hd_dropWhile [of "\<lambda>x. x = c" "rev s"] by (simp add: trim_right_def last_rev)

lemma trim_left_hd: "trim_left c s \<noteq> [] \<Longrightarrow> hd (trim_left c s) \<noteq> c"
  using hd_dropWhile [of "\<lambda>x. x = c" s] by (simp add: trim_left_def)

lemma trim_right_prefix: "\<exists>t. s = trim_right c s @ t"
  unfolding trim_right_def by (metis rev_append rev_rev_ident takeWhile_dropWhile_id)

lemma trim_right_hd: "trim_right c s \<noteq> [] \<Longrightarrow> hd (trim_right c s) = hd s"
  using trim_right_prefix [of s c] by (metis hd_append2)

lemma trim_right_id: "s = [] \<or> last s \<noteq> c \<Longrightarrow> trim_right c s = s"
  unfolding trim_right_def by (cases s rule: rev_cases) auto

lemma trim_left_id: "s = [] \<or> hd s \<noteq> c \<Longrightarrow> trim_left c s = s"
  unfolding trim_left_def by (cases s) auto

lemma set_trim: "set (trim_right c s) \<subseteq> set s" "set (trim_left c s) \<subseteq> set s"
  by (auto simp: trim_right_def trim_left_def dest: set_dropWhileD)

lemma length_trim_right: "length (trim_right c s) \<le> length s"
  unfolding trim_right_def by (metis length_dropWhile_le length_rev)

lemma sanitize_loop_chars: "\<forall>c \<in> set b. label_char c \<Longrightarrow> c \<in> set (sanitize_loop b s d) \<Longrightarrow> label_char c"
proof (induction b s d rule: sanitize_loop.induct)
  case (2 b r rs dashed)
  have "label_char CHR ''-''" by (simp add: label_char_def)
  with 2 show ?case by (auto split: if_splits)
qed simp

lemma sanitize_loop_id: "\<forall>c \<in> set s. label_char c \<Longrightarrow> sanitize_loop b s d = b @ s"
  by (induction b s d rule: sanitize_loop.induct) auto

text \<open>A host label of RFC 1123.\<close>

definition host_label :: "string \<Rightarrow> bool" where
  "host_label s \<longleftrightarrow> s \<noteq> [] \<and> length s \<le> 63 \<and> (\<forall>c \<in> set s. label_char c) \<and> hd s \<noteq> CHR ''-'' \<and> last s \<noteq> CHR ''-''"

lemma SanitizeLabel_label: "SanitizeLabel s = [] \<or> host_label (SanitizeLabel s)"
proof -
  define b where "b = sanitize_loop [] (ToLower s) False"
  define l where "l = trim_right CHR ''-'' (trim_left CHR ''-'' b)"
  have l: "\<forall>c \<in> set l. label_char c" using sanitize_loop_chars [of "[]"] set_trim unfolding l_def b_def by fastforce
  have ends: "l = [] \<or> hd l \<noteq> CHR ''-'' \<and> last l \<noteq> CHR ''-''"
    unfolding l_def by (metis trim_left_hd trim_right_hd trim_right_last set_trim(1) set_empty subset_empty)
  show ?thesis
  proof (cases "length l > maxLabel")
    case False
    then have "SanitizeLabel s = l" by (simp add: SanitizeLabel_def l_def b_def)
    with False ends l show ?thesis by (auto simp: host_label_def maxLabel_def)
  next
    case True
    let ?t = "trim_right CHR ''-'' (take maxLabel l)"
    have e: "SanitizeLabel s = ?t" using True by (simp add: SanitizeLabel_def l_def b_def)
    have "length ?t \<le> 63" using length_trim_right [of "CHR ''-''" "take maxLabel l"] by (simp add: maxLabel_def)
    moreover have "\<forall>c \<in> set ?t. label_char c" using l set_trim(1) by (meson in_set_takeD subsetD)
    moreover have "?t \<noteq> [] \<Longrightarrow> hd ?t \<noteq> CHR ''-''"
      using trim_right_hd [of "CHR ''-''" "take maxLabel l"] ends True by (cases l) (auto simp: maxLabel_def)
    ultimately show ?thesis using trim_right_last [of "CHR ''-''" "take maxLabel l"] unfolding e host_label_def by blast
  qed
qed

lemma label_char_lower: "label_char c \<Longrightarrow> lower_char c = c"
  by (auto simp: label_char_def lower_char_def is_digit_def)

lemma host_label_fixed: "host_label s \<Longrightarrow> SanitizeLabel s = s \<and> ToLower s = s"
proof -
  assume h: "host_label s"
  then have low: "ToLower s = s" using label_char_lower by (simp add: host_label_def ToLower_def map_idI)
  have "sanitize_loop [] s False = s" using h sanitize_loop_id [of s "[]" False] by (simp add: host_label_def)
  then show "SanitizeLabel s = s \<and> ToLower s = s"
    using h low by (simp add: SanitizeLabel_def host_label_def trim_left_id trim_right_id maxLabel_def)
qed

lemma SanitizeLabel_idem: "SanitizeLabel (SanitizeLabel s) = SanitizeLabel s" "ToLower (SanitizeLabel s) = SanitizeLabel s"
proof -
  have "SanitizeLabel [] = []" by code_simp
  then show "SanitizeLabel (SanitizeLabel s) = SanitizeLabel s" "ToLower (SanitizeLabel s) = SanitizeLabel s"
    using SanitizeLabel_label [of s] host_label_fixed by auto
qed

section \<open>The indexes\<close>

lemma outranks_trans: "outranks a b \<Longrightarrow> outranks b c \<Longrightarrow> outranks a c"
  by (cases "le_expires a"; cases "le_expires b"; cases "le_expires c") (auto simp: outranks_def split: if_splits)

lemma outranks_irrefl [simp]: "\<not> outranks a a"
  by (cases "le_expires a") (simp_all add: outranks_def)

lemma fold_project: "(\<And>i t. p (f i t) = g i (p t)) \<Longrightarrow> p (fold f xs t) = fold g xs (p t)"
  by (induction xs arbitrary: t) simp_all

definition entry_key :: "(int \<rightharpoonup> string) \<Rightarrow> LeaseEntry \<Rightarrow> string" where
  "entry_key sfxs e = nameKey (SanitizeLabel (le_hostname e)) (suffix_at sfxs (le_scope e))"

text \<open>An index by a key that only a better entry replaces.\<close>

definition keep_best :: "(LeaseEntry \<Rightarrow> string) \<Rightarrow> LeaseEntry list \<Rightarrow> nat \<Rightarrow> (string \<rightharpoonup> nat) \<Rightarrow> string \<rightharpoonup> nat" where
  "keep_best key es i idx =
     (if key (es ! i) = [] \<or> claimed idx (key (es ! i)) (es ! i) es then idx else idx(key (es ! i) \<mapsto> i))"

lemma newTable_index:
  "t_entries (newTable now es sfxs) = es" "t_suffixes (newTable now es sfxs) = sfxs"
  "t_byMAC (newTable now es sfxs) = fold (keep_best le_mac es) [0..<length es] Map.empty"
  "t_byName (newTable now es sfxs) = fold (keep_best (entry_key sfxs) es) [0..<length es] Map.empty"
  "t_byIP (newTable now es sfxs) = fold (\<lambda>i idx. idx(le_ip (es ! i) \<mapsto> i)) [0..<length es] Map.empty"
proof -
  have i: "t_entries (index_entry sfxs es i t) = t_entries t" "t_suffixes (index_entry sfxs es i t) = t_suffixes t"
    "t_byMAC (index_entry sfxs es i t) = keep_best le_mac es i (t_byMAC t)"
    "t_byName (index_entry sfxs es i t) = keep_best (entry_key sfxs) es i (t_byName t)"
    "t_byIP (index_entry sfxs es i t) = (t_byIP t)(le_ip (es ! i) \<mapsto> i)" for i t
    by (simp_all add: index_entry_def Let_def keep_best_def entry_key_def)
  note p = fold_project [where f = "index_entry sfxs es" and xs = "[0..<length es]"]
  have "t_entries (fold (index_entry sfxs es) xs t) = t_entries t" "t_suffixes (fold (index_entry sfxs es) xs t) = t_suffixes t" for xs t
    by (induction xs arbitrary: t) (simp_all add: i)
  then show "t_entries (newTable now es sfxs) = es" "t_suffixes (newTable now es sfxs) = sfxs" by (simp_all add: newTable_def)
  show "t_byMAC (newTable now es sfxs) = fold (keep_best le_mac es) [0..<length es] Map.empty"
    unfolding newTable_def by (subst p [where p = t_byMAC and g = "keep_best le_mac es"]) (simp_all add: i)
  show "t_byName (newTable now es sfxs) = fold (keep_best (entry_key sfxs) es) [0..<length es] Map.empty"
    unfolding newTable_def by (subst p [where p = t_byName and g = "keep_best (entry_key sfxs) es"]) (simp_all add: i)
  show "t_byIP (newTable now es sfxs) = fold (\<lambda>i idx. idx(le_ip (es ! i) \<mapsto> i)) [0..<length es] Map.empty"
    unfolding newTable_def by (subst p [where p = t_byIP and g = "\<lambda>i idx. idx(le_ip (es ! i) \<mapsto> i)"]) (simp_all add: i)
qed

definition best_idx :: "(LeaseEntry \<Rightarrow> string) \<Rightarrow> LeaseEntry list \<Rightarrow> nat \<Rightarrow> (string \<rightharpoonup> nat) \<Rightarrow> bool" where
  "best_idx key es n idx \<longleftrightarrow>
     (\<forall>k i. idx k = Some i \<longrightarrow> i < n \<and> key (es ! i) = k \<and> (\<forall>j < n. key (es ! j) = k \<longrightarrow> \<not> outranks (es ! j) (es ! i))) \<and>
     (\<forall>k. idx k = None \<longleftrightarrow> k = [] \<or> (\<forall>j < n. key (es ! j) \<noteq> k))"

lemma best_idxSome:
  "best_idx key es n idx \<Longrightarrow> idx k = Some i \<Longrightarrow>
     i < n \<and> key (es ! i) = k \<and> (\<forall>j < n. key (es ! j) = k \<longrightarrow> \<not> outranks (es ! j) (es ! i))"
  unfolding best_idx_def by blast

lemma best_idxNone: "best_idx key es n idx \<Longrightarrow> idx k = None \<longleftrightarrow> k = [] \<or> (\<forall>j < n. key (es ! j) \<noteq> k)"
  unfolding best_idx_def by (drule conjunct2) (rule spec)

lemma best_idxI:
  assumes "\<And>k i. idx k = Some i \<Longrightarrow> i < n \<and> key (es ! i) = k \<and> (\<forall>j < n. key (es ! j) = k \<longrightarrow> \<not> outranks (es ! j) (es ! i))"
    and "\<And>k. idx k = None \<longleftrightarrow> k = [] \<or> (\<forall>j < n. key (es ! j) \<noteq> k)"
  shows "best_idx key es n idx"
  unfolding best_idx_def
proof (rule conjI)
  show "\<forall>k i. idx k = Some i \<longrightarrow> i < n \<and> key (es ! i) = k \<and> (\<forall>j < n. key (es ! j) = k \<longrightarrow> \<not> outranks (es ! j) (es ! i))"
    by (intro allI impI assms(1))
  show "\<forall>k. idx k = None \<longleftrightarrow> k = [] \<or> (\<forall>j < n. key (es ! j) \<noteq> k)" by (intro allI assms(2))
qed

lemma keep_best_Some:
  assumes "best_idx key es n idx"
  shows "keep_best key es n idx k = Some i \<Longrightarrow>
           i < Suc n \<and> key (es ! i) = k \<and> (\<forall>j < Suc n. key (es ! j) = k \<longrightarrow> \<not> outranks (es ! j) (es ! i))"
proof -
  assume k: "keep_best key es n idx k = Some i"
  show "i < Suc n \<and> key (es ! i) = k \<and> (\<forall>j < Suc n. key (es ! j) = k \<longrightarrow> \<not> outranks (es ! j) (es ! i))"
  proof (cases "key (es ! n) = k")
    case False
    with k have "idx k = Some i" by (auto simp: keep_best_def split: if_splits)
    with best_idxSome [OF assms] False show ?thesis by (auto simp: less_Suc_eq)
  next
    case True
    show ?thesis
    proof (cases "idx k")
      case None
      have "k \<noteq> []" using k True None by (auto simp: keep_best_def)
      with None best_idxNone [OF assms, of k] True k show ?thesis by (auto simp: keep_best_def claimed_def less_Suc_eq)
    next
      case (Some h)
      note h = best_idxSome [OF assms Some]
      have ne: "k \<noteq> []" using Some best_idxNone [OF assms, of k] by auto
      show ?thesis
      proof (cases "outranks (es ! n) (es ! h)")
        case o: True
        then have i: "i = n" using k True Some ne by (simp add: keep_best_def claimed_def)
        have "\<not> outranks (es ! j) (es ! n)" if "j < Suc n" "key (es ! j) = k" for j
          using that h o outranks_trans [of "es ! j" "es ! n" "es ! h"] by (auto simp: less_Suc_eq)
        with True i show ?thesis by simp
      next
        case o: False
        then have i: "i = h" using k True Some ne by (simp add: keep_best_def claimed_def)
        have "\<not> outranks (es ! j) (es ! h)" if "j < Suc n" "key (es ! j) = k" for j
          using that h o by (cases "j = n") auto
        with h i show ?thesis by auto
      qed
    qed
  qed
qed

lemma keep_best_None:
  assumes "best_idx key es n idx"
  shows "keep_best key es n idx k = None \<longleftrightarrow> k = [] \<or> (\<forall>j < Suc n. key (es ! j) \<noteq> k)"
  using best_idxNone [OF assms, of k] by (auto simp: keep_best_def claimed_def less_Suc_eq split: option.splits)

lemma keep_best_all: "best_idx key es n (fold (keep_best key es) [0..<n] Map.empty)"
proof (induction n)
  case (Suc n)
  have "fold (keep_best key es) [0..<Suc n] Map.empty = keep_best key es n (fold (keep_best key es) [0..<n] Map.empty)" by simp
  moreover have "best_idx key es (Suc n) (keep_best key es n (fold (keep_best key es) [0..<n] Map.empty))"
    by (rule best_idxI [OF keep_best_Some [OF Suc] keep_best_None [OF Suc]])
  ultimately show ?case by (simp only:)
qed (simp add: best_idx_def)

lemma by_ip_index:
  "fold (\<lambda>i idx. idx(le_ip (es ! i) \<mapsto> i)) [0..<n] Map.empty ip = None \<longleftrightarrow> (\<forall>j < n. le_ip (es ! j) \<noteq> ip)"
  "fold (\<lambda>i idx. idx(le_ip (es ! i) \<mapsto> i)) [0..<n] Map.empty ip = Some i \<Longrightarrow> i < n \<and> le_ip (es ! i) = ip"
  by (induction n) (auto simp: less_Suc_eq split: if_splits)

text \<open>A name belongs to one device.  Asked for a label under a suffix, the table gives an entry whose own
  cleaned-up host name and scope suffix spell that name and which no other entry with that name
  outranks: no reservation loses to a lease, and no lease to an older one.  Every entry that has a name
  makes its name known to the table.\<close>

theorem name_belongs_to_one:
  shows "(ByName_lease (newTable now es sfxs) label sfx = Some e \<longrightarrow>
            e \<in> set es \<and> entry_key sfxs e = nameKey (ToLower label) sfx \<and>
            (\<forall>e' \<in> set es. entry_key sfxs e' = entry_key sfxs e \<longrightarrow> \<not> outranks e' e)) \<and>
         (e \<in> set es \<and> entry_key sfxs e \<noteq> [] \<longrightarrow>
            ByName_lease (newTable now es sfxs) (SanitizeLabel (le_hostname e)) (suffix_at sfxs (le_scope e)) \<noteq> None)"
proof (intro conjI impI)
  let ?t = "newTable now es sfxs"
  have best: "best_idx (entry_key sfxs) es (length es) (t_byName ?t)" unfolding newTable_index by (rule keep_best_all)
  {
    assume *: "ByName_lease ?t label sfx = Some e"
    then obtain i where i: "t_byName ?t (nameKey (ToLower label) sfx) = Some i" "e = es ! i"
      by (auto simp: ByName_lease_def newTable_index Let_def split: if_splits)
    note b = best_idxSome [OF best i(1)]
    show "e \<in> set es" "entry_key sfxs e = nameKey (ToLower label) sfx" using b i(2) by auto
    then show "\<forall>e' \<in> set es. entry_key sfxs e' = entry_key sfxs e \<longrightarrow> \<not> outranks e' e"
      using b unfolding i(2) by (auto simp: in_set_conv_nth)
  }
  assume e: "e \<in> set es \<and> entry_key sfxs e \<noteq> []"
  then have "t_byName ?t (entry_key sfxs e) \<noteq> None"
    using best_idxNone [OF best] by (auto simp: in_set_conv_nth)
  then show "ByName_lease ?t (SanitizeLabel (le_hostname e)) (suffix_at sfxs (le_scope e)) \<noteq> None"
    using e by (simp add: ByName_lease_def SanitizeLabel_idem Let_def entry_key_def)
qed

definition ex_lease :: LeaseEntry where
  "ex_lease = \<lparr>le_scope = 1, le_ip = V4 0x0a000005, le_mac = ''aa:bb:cc:dd:ee:ff'', le_hostname = ''My Laptop!'', le_expires = Some 100, le_reserved = False\<rparr>"

theorem name_belongs_to_one_witness:
  "ByName_lease (newTable 0 [ex_lease, ex_lease\<lparr>le_ip := V4 0x0a000006, le_expires := Some 200\<rparr>] [1 \<mapsto> ''lan'']) ''my-laptop'' ''LAN.'' =
     Some (ex_lease\<lparr>le_ip := V4 0x0a000006, le_expires := Some 200\<rparr>) \<and>
   \<not> outranks ex_lease (ex_lease\<lparr>le_ip := V4 0x0a000006, le_expires := Some 200\<rparr>)"
proof -
  let ?b = "ex_lease\<lparr>le_ip := V4 0x0a000006, le_expires := Some 200\<rparr>" and ?s = "[1 \<mapsto> ''lan'']"
  have "ByName_lease (newTable 0 [ex_lease, ?b] ?s) ''my-laptop'' ''LAN.'' = Some ?b" by code_simp
  moreover from name_belongs_to_one [of 0 "[ex_lease, ?b]" ?s "''my-laptop''" "''LAN.''" ?b] this
  have "\<forall>e' \<in> set [ex_lease, ?b]. entry_key ?s e' = entry_key ?s ?b \<longrightarrow> \<not> outranks e' ?b" by blast
  then have "\<not> outranks ex_lease ?b" by (simp add: entry_key_def ex_lease_def)
  ultimately show ?thesis by blast
qed

text \<open>A released address that no reservation pins is gone from the table, under every name.\<close>

lemma without_gone:
  assumes "t = newTable now0 es sfxs" "\<forall>e \<in> set es. le_ip e = ip \<longrightarrow> \<not> le_reserved e"
  shows "ByIP (without now ip t) ip = None"
    and "ByName_lease (without now ip t) label sfx = Some e \<Longrightarrow> le_ip e \<noteq> ip"
proof -
  let ?es = "List.map_filter (without_entry ip) es"
  have gone: "\<forall>e \<in> set ?es. le_ip e \<noteq> ip" using assms(2) by (auto simp: in_set_map_filter without_entry_def split: if_splits)
  have idx: "ByIP (newTable n us sf) ip = None" if "\<forall>e \<in> set us. le_ip e \<noteq> ip" for n us sf
    unfolding ByIP_def newTable_index using by_ip_index(1) [of us "length us" ip] that by simp
  have named: "e \<in> set us" if "ByName_lease (newTable n us sf) label sfx = Some e" for n us sf
  proof -
    have best: "best_idx (entry_key sf) us (length us) (t_byName (newTable n us sf))" unfolding newTable_index by (rule keep_best_all)
    from that obtain i where i: "t_byName (newTable n us sf) (nameKey (ToLower label) sfx) = Some i" "e = us ! i"
      by (auto simp: ByName_lease_def newTable_index Let_def split: if_splits)
    then show ?thesis using best_idxSome [OF best i(1)] by simp
  qed
  have un: "t_byIP t ip = None \<Longrightarrow> \<forall>e \<in> set es. le_ip e \<noteq> ip"
    unfolding assms(1) newTable_index using by_ip_index(1) [of es "length es" ip] by (metis in_set_conv_nth)
  have frame: "ByIP (u\<lparr>t_at := x\<rparr>) = ByIP u" "ByName_lease (u\<lparr>t_at := x\<rparr>) = ByName_lease u" for u x
    by (simp_all add: ByIP_def ByName_lease_def fun_eq_iff Let_def)
  show "ByIP (without now ip t) ip = None"
    using un idx gone by (simp add: without_def frame assms(1) newTable_index)
  show "le_ip e \<noteq> ip" if "ByName_lease (without now ip t) label sfx = Some e"
    using that un named gone by (cases "t_byIP t ip") (auto simp: without_def frame assms(1) newTable_index)
qed

section \<open>The stage\<close>

lemma ttlFor_bounds:
  assumes "ttlFor now e = Some ttl"
  shows "unat ttl \<le> 300" "le_expires e = Some s \<Longrightarrow> now < s * Second \<and> int (unat ttl) * Second \<le> s * Second - now"
proof -
  have live: "now < s * Second \<and> int (unat ttl) = min (s * Second - now) maxNameTTL div Second \<and> int (unat ttl) \<le> 300"
    if "le_expires e = Some s" for s
  proof -
    have t: "ttl = word_of_int (min (s * Second - now) maxNameTTL div Second)" "0 < s * Second - now"
      using assms that by (auto simp: ttlFor_def Let_def split: if_splits)
    have "min (s * Second - now) maxNameTTL div Second \<le> maxNameTTL div Second" by (rule zdiv_mono1) simp_all
    then have up: "min (s * Second - now) maxNameTTL div Second \<le> 300" by (simp add: maxNameTTL_def)
    have lo: "0 \<le> min (s * Second - now) maxNameTTL div Second" using t(2) by (simp add: pos_imp_zdiv_nonneg_iff maxNameTTL_def)
    have "int (unat ttl) = min (s * Second - now) maxNameTTL div Second"
    proof -
      have "int (unat ttl) = uint ttl" by simp
      also have "\<dots> = (min (s * Second - now) maxNameTTL div Second) mod 2 ^ 32" unfolding t(1) by (simp add: uint_word_of_int)
      also have "\<dots> = min (s * Second - now) maxNameTTL div Second" using up lo by (intro mod_pos_pos_trivial) simp_all
      finally show ?thesis .
    qed
    with up t(2) show ?thesis by simp
  qed
  show "unat ttl \<le> 300"
  proof (cases "le_expires e")
    case None
    with assms show ?thesis by (auto simp: ttlFor_def maxNameTTL_def)
  next
    case (Some s)
    then show ?thesis using live [OF Some] by linarith
  qed
  assume "le_expires e = Some s"
  note l = live [OF this]
  have "a div Second * Second \<le> a" for a :: int by simp
  from this [of "min (s * Second - now) maxNameTTL"] l show "now < s * Second \<and> int (unat ttl) * Second \<le> s * Second - now" by linarith
qed

lemma IndexByte_split: "IndexByte s c = Some i \<Longrightarrow> s = take i s @ c # drop (i + 1) s"
  by (induction s arbitrary: i) (auto split: if_splits)

lemma QName_lower: "ToLower (QName r) = QName r"
  by (simp add: QName_def split: list.split)

lemma leaseFor_entry:
  assumes "leaseFor now (newTable now0 es sfxs) name = Some e" "ToLower name = name"
  obtains label rest where "name = label @ CHR ''.'' # rest" "e \<in> set es" "entry_key sfxs e = nameKey label rest" "ttlFor now e \<noteq> None"
proof -
  let ?t = "newTable now0 es sfxs"
  from assms(1) obtain i where i: "IndexByte name CHR ''.'' = Some i"
    "ByName_lease ?t (take i name) (drop (i + 1) name) = Some e" "ttlFor now e \<noteq> None"
    by (auto simp: leaseFor_def split: option.splits if_splits)
  have low: "ToLower (take i name) = take i name" using assms(2) by (metis ToLower_def take_map)
  have best: "best_idx (entry_key sfxs) es (length es) (t_byName ?t)" unfolding newTable_index by (rule keep_best_all)
  from i(2) low obtain k where k: "t_byName ?t (nameKey (take i name) (drop (i + 1) name)) = Some k" "e = es ! k"
    by (auto simp: ByName_lease_def newTable_index Let_def split: if_splits)
  show thesis
    by (rule that [of "take i name" "drop (i + 1) name"]) (use IndexByte_split [OF i(1)] best_idxSome [OF best k(1)] k(2) i(3) in auto)
qed


definition ex_lease_req :: request where
  "ex_lease_req = \<lparr>rq_msg = \<lparr>m_id = 7, m_response = False, m_opcode = 0, m_aa = False, m_tc = False, m_rd = True, m_rcode = 0,
     m_compress = False, m_question = [\<lparr>q_name = ''My-Laptop.lan.'', q_type = 1, q_class = 1\<rparr>], m_answer = [], m_ns = [], m_extra = []\<rparr>,
     rq_ip = V4 0x0a000009, rq_client = \<lparr>ci_id = 0, ci_name = [], ci_group = 0, ci_groupname = []\<rparr>\<rparr>"


end
