(* ===== verification/Serve.thy ===== *)
theory Serve
  imports Answer_Props Engine Cache Clients Forwarder_Props Query_Log_Props Dhcp_Names_Props Zone_Refs
begin

text \<open>
  The pipeline as \<open>App.Start\<close> composes it (\<open>internal/app/app.go\<close>, \<open>dhcp.go\<close>, \<open>zonelookup.go\<close>): the
  query log, the panic barrier, the client registry, the blocking engine, the lease names when a DHCP
  engine is configured, the zones, the cache and, behind a swappable pointer, the forwarder.

  The state a query moves is the log, the cache, the forwarder behind the pointer and the network;
  the registry, the engine, the lease table and the zone snapshot are read, each through one atomic
  load, and are the record \<open>App\<close>.
\<close>

section \<open>The swappable forwarder\<close>

record swappable =
  sw_f :: "Forwarder option"
  sw_has :: bool

definition sw_set :: "Forwarder \<Rightarrow> swappable \<Rightarrow> Forwarder option \<times> swappable" where
  "sw_set f s = (sw_f s, s\<lparr>sw_f := Some f, sw_has := True\<rparr>)"

text \<open>Before the first \<open>set\<close> the handler is a nil interface, and calling it panics.\<close>

definition sw_ServeDNS :: "dns_lib \<Rightarrow> ('w, 'x) net_scheme \<Rightarrow> (swappable \<times> 'w) handler" where
  "sw_ServeDNS L N r s =
     (case s of (sw, w) \<Rightarrow>
        (case sw_f sw of
           None \<Rightarrow> (Panicked, sw, w)
         | Some f \<Rightarrow>
             (case Handler L N r (f, w) of (out, f, w) \<Rightarrow> (out, sw\<lparr>sw_f := Some f\<rparr>, w))))"

section \<open>The links between the stages\<close>

text \<open>\<open>zoneHas\<close>: a record typed by an operator beats a name inferred from a lease.\<close>

definition zoneHas :: "dns_lib \<Rightarrow> index \<Rightarrow> string \<Rightarrow> bool" where
  "zoneHas L snap name =
     (case Find L snap name of
        None \<Rightarrow> False
      | Some z \<Rightarrow> lookup_list (records z) (RelName L name (z_name (row z))) \<noteq> [])"

definition leaseHostname :: "Table \<Rightarrow> addr \<Rightarrow> string option" where
  "leaseHostname t ip =
     (case ByIP t ip of
        None \<Rightarrow> None
      | Some e \<Rightarrow> if le_hostname e = [] then None else Some (le_hostname e))"

definition leaseAddrOf :: "Table \<Rightarrow> LeaseLookup" where
  "leaseAddrOf t mac = map_option le_ip (ByMAC t mac)"

section \<open>The composition\<close>

record App =
  a_registry :: Registry
  a_engine :: Engine
  a_dhcp :: "(Table \<times> scopeView) option"
  a_snapshot :: index

text \<open>The readings of the clock by the stages, and what the model takes from outside.\<close>

record times =
  t_log :: "nat \<Rightarrow> int"
  t_engine :: int
  t_lease :: int
  t_zone :: int
  t_cache :: "nat \<Rightarrow> int"

record 'w env =
  v_lib :: dns_lib
  v_text :: ip6_text
  v_regex :: "string \<Rightarrow> string \<Rightarrow> bool"
  v_names :: name_tables
  v_net :: "'w net"

type_synonym 'w tail_state = "Cache \<times> swappable \<times> 'w"

text \<open>The forwarder as the cache's next handler, and the tail of the pipeline: cache and forwarder.\<close>

definition terminal :: "'w env \<Rightarrow> 'w tail_state handler" where
  "terminal V r s =
     (case s of (c, sw) \<Rightarrow> (case sw_ServeDNS (v_lib V) (v_net V) r sw of (out, sw) \<Rightarrow> (out, c, sw)))"

definition pipeline_tail :: "'w env \<Rightarrow> (nat \<Rightarrow> int) \<Rightarrow> 'w tail_state handler" where
  "pipeline_tail V clock = cache_middleware clock (terminal V)"

definition stages :: "'w env \<Rightarrow> App \<Rightarrow> times \<Rightarrow> 'w tail_state middleware list" where
  "stages V A t =
     [Recover (v_lib V),
      registry_middleware (a_registry A),
      engine_middleware (v_lib V) (v_regex V) (a_engine A) (t_engine t)] @
     (case a_dhcp A of
        None \<Rightarrow> []
      | Some (table, view) \<Rightarrow>
          [Names (v_lib V) (v_text V) (t_lease t) table view (Some (zoneHas (v_lib V) (a_snapshot A)))]) @
     [zone_middleware (v_lib V) (a_snapshot A) (t_zone t),
      cache_middleware (t_cache t)]"

text \<open>The outermost stage is the query log.  It reads the client the registry stage below it has
  written into the shared request; \<open>None\<close> is its queue loop not coming to an end.\<close>

definition inner :: "'w env \<Rightarrow> App \<Rightarrow> times \<Rightarrow> (Logger \<times> 'w tail_state) handler" where
  "inner V A t r s =
     (case s of (l, w) \<Rightarrow> (case Chain (terminal V) (stages V A t) r w of (out, w) \<Rightarrow> (out, l, w)))"

definition app_handler ::
  "'w env \<Rightarrow> App \<Rightarrow> times \<Rightarrow> request \<Rightarrow> Logger \<times> 'w tail_state \<Rightarrow> (outcome \<times> Logger \<times> 'w tail_state) option" where
  "app_handler V A t =
     qlog_middleware (v_names V) (v_text V) (\<lambda>r. Lookup (a_registry A) (rq_ip r)) (t_log t) (inner V A t)"

end
