(* ===== verification/Serve_Props.thy ===== *)
theory Serve_Props
  imports Serve
begin

text \<open>
  What every stage of the pipeline keeps of a handler below it: that a reply belongs to its request,
  that nothing panics past the barrier, and which queries never reach the tail.
\<close>

section \<open>Replies belong to their requests\<close>

text \<open>The contract of a handler: a message it returns has the id of the request; \<open>own_reply\<close> adds that to
  a single question of class IN it answers with that question or with none.\<close>

definition with_msg :: "(msg \<Rightarrow> bool) \<Rightarrow> outcome \<Rightarrow> bool" where
  "with_msg P out = (case out of Returned (Some rs) _ \<Rightarrow> (case rs_msg rs of Some m \<Rightarrow> P m | None \<Rightarrow> True) | _ \<Rightarrow> True)"

definition own_id :: "request \<Rightarrow> outcome \<Rightarrow> bool" where
  "own_id r = with_msg (\<lambda>m. m_id m = m_id (rq_msg r))"

definition own_reply :: "request \<Rightarrow> outcome \<Rightarrow> bool" where
  "own_reply r = with_msg (\<lambda>m. m_id m = m_id (rq_msg r) \<and> (cacheable r \<longrightarrow> echoes r m))"

lemma with_msg_simps [simp]:
  "with_msg P Panicked" "with_msg P (Returned None e)"
  "with_msg P (Returned (Some rs) e) \<longleftrightarrow> (\<forall>m. rs_msg rs = Some m \<longrightarrow> P m)"
  by (auto simp: with_msg_def split: option.splits)

lemma with_msgD: "with_msg P out \<Longrightarrow> out = Returned (Some rs) e \<Longrightarrow> rs_msg rs = Some m \<Longrightarrow> P m"
  by simp

lemma own_frame [simp]:
  "own_id (r\<lparr>rq_client := i\<rparr>) = own_id r" "own_reply (r\<lparr>rq_client := i\<rparr>) = own_reply r"
  by (simp_all add: own_id_def own_reply_def cacheable_def echoes_def)

text \<open>A message made by \<open>SetReply\<close> and edited only outside its head is a reply to the request.\<close>

definition head_of :: "msg \<Rightarrow> msg \<Rightarrow> bool" where
  "head_of m m' \<longleftrightarrow> m_id m' = m_id m \<and> m_question m' = m_question m"

lemma own_reply_made:
  assumes "reply_laws L" "head_of (SetReply L (rq_msg r)) m" "rs_msg rs = Some m"
  shows "own_reply r (Returned (Some rs) e)"
proof -
  have "echoes r m" if "cacheable r"
    using that assms(2) by (auto simp: head_of_def echoes_def cacheable_def reply_laws_simps [OF assms(1)])
  then show ?thesis using assms by (auto simp: own_reply_def head_of_def reply_laws_simps)
qed

locale reply_stage =
  fixes mw :: "'w middleware"
  assumes keeps: "(\<And>r w. own_reply r (fst (next r w))) \<Longrightarrow> own_reply r (fst (mw next r w))"

definition reply_stages :: "'w middleware list \<Rightarrow> bool" where
  "reply_stages mws \<longleftrightarrow> (\<forall>mw \<in> set mws. reply_stage mw)"

lemma Chain_own_reply:
  "reply_stages mws \<Longrightarrow> (\<And>r w. own_reply r (fst (h r w))) \<Longrightarrow> own_reply r (fst (Chain h mws r w))"
proof (induction mws arbitrary: r w)
  case (Cons mw mws)
  then have "reply_stage mw" by (simp add: reply_stages_def)
  with Cons show ?case by (simp add: reply_stages_def reply_stage.keeps)
qed simp

interpretation heads: answer_relation L z head_of for L z
  by unfold_locales (auto simp: head_of_def msg_writes split: option.splits rr.splits)

lemma Answer_head: "head_of m (fst (Answer L z m qname qtype now))"
  using heads.resolve_rel [of "m\<lparr>m_aa := True, m_rcode := RcodeSuccess\<rparr>" L z]
  by (auto simp: Answer_def head_of_def)

lemma Recover_stage:
  assumes L: "reply_laws L"
  shows "reply_stage (Recover L)"
proof unfold_locales
  fix "next" :: "'w handler" and r w
  assume N: "\<And>r w. own_reply r (fst (next r w))"
  have "own_reply r (Returned (Some (Servfail L r)) None)"
    by (rule own_reply_made [OF L]) (auto simp: Servfail_def reply_def head_of_def reply_laws_simps(10) [OF L])
  with N [of r w] show "own_reply r (fst (Recover L next r w))"
    by (cases "next r w") (auto simp: Recover_def split: outcome.splits)
qed

interpretation registry: reply_stage "registry_middleware reg" for reg
  by unfold_locales (metis registry_middleware_def own_frame(2))

lemma blocked_head:
  assumes "reply_laws L" "blocked_msg L cfg r = Some m"
  shows "head_of (SetReply L (rq_msg r)) m"
  using assms(2) by (auto simp: blocked_msg_def head_of_def Let_def reply_laws_simps(10) [OF assms(1)]
      split: if_splits list.splits)

lemma engine_stage: "reply_laws L \<Longrightarrow> reply_stage (engine_middleware L mt e now)"
  by unfold_locales
    (auto simp: engine_middleware_def Let_def intro: own_reply_made blocked_head split: option.splits;
     simp add: own_reply_def)

lemma Names_stage:
  assumes L: "reply_laws L"
  shows "reply_stage (Names L T now table view zc)"
proof unfold_locales
  fix "next" :: "'w handler" and r w
  assume N: "\<And>r w. own_reply r (fst (next r w))"
  have made: "own_reply r (Returned (Some ((reply m d)\<lparr>rs_matched := x\<rparr>)) e)"
    if "head_of (SetReply L (rq_msg r)) m" for m d x e
    by (rule own_reply_made [OF L that]) (simp add: reply_def)
  show "own_reply r (fst (Names L T now table view zc next r w))"
    using N by (auto simp: Names_def Let_def head_of_def intro!: made split: list.splits option.splits)
qed

lemma zone_stage:
  assumes L: "reply_laws L"
  shows "reply_stage (zone_middleware L snap now)"
proof unfold_locales
  fix "next" :: "'w handler" and r w
  assume N: "\<And>r w. own_reply r (fst (next r w))"
  have made: "own_reply r (Returned (Some (reply m d)) e)"
    if "Answer L z (SetReply L (rq_msg r)) (QName r) (QType r) now = (m, True)" for z m d e
    using Answer_head [of "SetReply L (rq_msg r)" L z "QName r" "QType r" now] that
    by (intro own_reply_made [OF L]) (auto simp: reply_def)
  show "own_reply r (fst (zone_middleware L snap now next r w))"
    using N by (auto simp: zone_middleware_def intro: made split: option.splits prod.splits bool.splits)
qed

text \<open>The cache raises the contract: its next handler need only answer with the right id.\<close>

lemma cache_stage:
  assumes N: "\<And>r w. own_id r (fst (next r w))"
  shows "own_reply r (fst (cache_middleware clock next r w))"
proof (cases "cacheable r")
  case False
  then show ?thesis using N [of r w]
    by (cases w) (auto simp: cache_middleware_def cacheable_def own_id_def own_reply_def)
next
  case True
  then have q: "m_question (rq_msg r) \<noteq> []" by (auto simp: cacheable_def)
  have fin: "own_reply r (fst (finish now k r resp err c))" for now k resp err c
    using finish_echoes [OF _ _ q] finish_returns [of now k r resp err c]
    by (auto simp: own_reply_def with_msg_def echoes_def split: outcome.splits option.splits)
      (metis fst_conv surj_pair)+
  have fresh: "own_reply r (Returned (Some (fresh_reply now e r)) None)" for now e
    using echoes_rewrite [OF q] by (auto simp: own_reply_def fresh_reply_def reply_def Let_def echoes_def)
  have fin': "own_reply r out" if "finish now k r resp err c = (out, c')" for now k resp err c out c'
    using fin [of now k resp err c] that by simp
  have lone: "length (m_question (rq_msg r)) = Suc 0" "q_class (hd (m_question (rq_msg r))) = ClassINET"
    using True by (auto simp: cacheable_def)
  show ?thesis
    by (cases w) (auto simp: cache_middleware_def Let_def lone own_reply_def [THEN fun_cong, of _ Panicked]
        intro: fresh fin' split: prod.splits option.splits outcome.splits)
qed

lemma terminal_own_id:
  assumes "reply_laws (v_lib V)"
  shows "own_id r (fst (terminal V r s))"
proof -
  have "own_id r (fst (Handler (v_lib V) N r w))" for N :: "'w net" and w
    by (auto simp: Handler_def Let_def own_id_def Servfail_def formerr_def reply_def reply_laws_simps [OF assms]
        split: list.splits prod.splits attempt.splits)
  note H = this
  obtain c sw w where s: "s = (c, sw, w)" by (metis surj_pair)
  show ?thesis
  proof (cases "sw_f sw")
    case (Some f)
    with H [of "v_net V" "(f, w)"] show ?thesis
      by (cases "Handler (v_lib V) (v_net V) r (f, w)") (simp add: terminal_def sw_ServeDNS_def s)
  qed (simp add: terminal_def sw_ServeDNS_def own_id_def s)
qed

lemma front_stages:
  assumes "reply_laws (v_lib V)"
  shows "\<exists>front. stages V A t = front @ [cache_middleware (t_cache t)] \<and> reply_stages front"
  by (rule exI [of _ "butlast (stages V A t)"])
    (auto simp: stages_def reply_stages_def butlast_append registry.reply_stage_axioms
      intro: Recover_stage engine_stage Names_stage zone_stage assms split: option.splits)

lemma chain_own_reply:
  assumes "reply_laws (v_lib V)"
  shows "own_reply r (fst (Chain (terminal V) (stages V A t) r w))"
proof -
  obtain front where f: "stages V A t = front @ [cache_middleware (t_cache t)]" "reply_stages front"
    using front_stages [OF assms] by blast
  show ?thesis unfolding f(1) Chain_append
    by (rule Chain_own_reply [OF f(2)]) (simp add: cache_stage terminal_own_id assms)
qed

section \<open>The barrier and the log\<close>

lemma stages_Recover: "\<exists>mws. stages V A t = Recover (v_lib V) # mws"
  by (simp add: stages_def)

lemma chain_no_panic: "fst (Chain (terminal V) (stages V A t) r w) \<noteq> Panicked"
  using stages_Recover [of V A t] by (auto simp: Recover_no_panic)

text \<open>The log neither blocks nor changes what is below it.\<close>

lemma app_handler_result:
  assumes "0 < o_Buffer (lg_o l)"
  shows "\<exists>l'. app_handler V A t r (l, w) =
    (case Chain (terminal V) (stages V A t) r w of (out, w') \<Rightarrow> Some (out, l', w'))"
proof -
  obtain out w' where Pair: "Chain (terminal V) (stages V A t) r w = (out, w')" by (metis surj_pair)
  then have i: "inner V A t r (l, w) = (out, l, w')" by (simp add: inner_def)
  show ?thesis
    by (cases out) (auto simp: app_handler_def qlog_middleware_def i Pair Let_def emit_result [OF assms])
qed

section \<open>Queries that are answered here\<close>

text \<open>The query as the stages below the registry see it.\<close>

abbreviation identified :: "App \<Rightarrow> request \<Rightarrow> request" where
  "identified A r \<equiv> r\<lparr>rq_client := Lookup (a_registry A) (rq_ip r)\<rparr>"

definition blocked_here :: "'w env \<Rightarrow> App \<Rightarrow> times \<Rightarrow> request \<Rightarrow> bool" where
  "blocked_here V A t r \<longleftrightarrow>
     (let c = Lookup (a_registry A) (rq_ip r)
      in case eGroups (a_engine A) (ci_group c) of
           None \<Rightarrow> False
         | Some rs \<Rightarrow> \<not> isPaused (t_engine t) (ci_group c) (ci_id c) (a_engine A) \<and>
             v_action (Evaluate (v_regex V) rs (QName r)) = ''block'')"

definition IN_question :: "request \<Rightarrow> bool" where
  "IN_question r \<longleftrightarrow> m_question (rq_msg r) \<noteq> [] \<and> q_class (hd (m_question (rq_msg r))) = ClassINET"

text \<open>A name some live lease answers to, asked for a type the lease stage looks up: an address of an
  IPv4 lease, or anything but an address or a pointer.\<close>

definition leased_here :: "App \<Rightarrow> times \<Rightarrow> request \<Rightarrow> bool" where
  "leased_here A t r \<longleftrightarrow>
     (case a_dhcp A of
        None \<Rightarrow> False
      | Some (table, _) \<Rightarrow> QType r \<noteq> TypePTR \<and>
          (case leaseFor (t_lease t) table (QName r) of
             None \<Rightarrow> False | Some e \<Rightarrow> QType r = TypeA \<longrightarrow> Is4 (le_ip e)))"

definition zoned_here :: "'w env \<Rightarrow> App \<Rightarrow> request \<Rightarrow> bool" where
  "zoned_here V A r \<longleftrightarrow>
     (case Find (v_lib V) (a_snapshot A) (QName r) of
        None \<Rightarrow> False | Some z \<Rightarrow> ToLower (z_type (row z)) \<notin> {''forwarder'', ''stub''})"

lemma QName_client [simp]: "QName (r\<lparr>rq_client := i\<rparr>) = QName r" "QType (r\<lparr>rq_client := i\<rparr>) = QType r"
  by (simp_all add: QName_def QType_def)

lemma Recover_state: "snd (Recover L next r w) = snd (next r w)"
  by (auto simp: Recover_def split: prod.splits outcome.splits)

lemma engine_blocked_state:
  "blocked_here V A t r \<Longrightarrow> snd (engine_middleware (v_lib V) (v_regex V) (a_engine A) (t_engine t) next (identified A r) w) = w"
  by (auto simp: blocked_here_def engine_middleware_def Let_def split: option.splits)

lemma engine_state:
  "snd (engine_middleware L mt e now next r w) = w \<or> engine_middleware L mt e now next r w = next r w"
  by (auto simp: engine_middleware_def Let_def split: option.splits)

lemma Names_state: "snd (Names L T now table view zc next r w) = w \<or> Names L T now table view zc next r w = next r w"
  by (auto simp: Names_def Let_def split: list.splits option.splits)

lemma zoned_state:
  assumes "zoned_here V A r" "IN_question r"
  shows "snd (zone_middleware (v_lib V) (a_snapshot A) now next (r\<lparr>rq_client := i\<rparr>) w) = w"
  using assms by (auto simp: zoned_here_def IN_question_def zone_middleware_def Answer_def
      split: option.splits prod.splits bool.splits)

lemma leased_state:
  assumes "leased_here A t r" "IN_question r" "a_dhcp A = Some (table, view)" "\<not> f (QName r)"
  shows "snd (Names L T (t_lease t) table view (Some f) next (r\<lparr>rq_client := i\<rparr>) w) = w"
proof -
  obtain q qs where q: "m_question (rq_msg r) = q # qs" "q_class q = ClassINET"
    using assms(2) by (cases "m_question (rq_msg r)") (auto simp: IN_question_def)
  obtain e where e: "leaseFor (t_lease t) table (QName r) = Some e" "QType r \<noteq> TypePTR" "QType r = TypeA \<Longrightarrow> Is4 (le_ip e)"
    using assms(1,3) by (auto simp: leased_here_def split: option.splits)
  show ?thesis
  proof (cases "QType r = TypeA")
    case True
    with e obtain w4 where "le_ip e = V4 w4" by (cases "le_ip e") (auto simp: Is4_def)
    with True e q assms(4) show ?thesis by (simp add: Names_def Let_def forward_def)
  next
    case False
    with e q assms(4) show ?thesis by (simp add: Names_def Let_def)
  qed
qed

text \<open>A query that one of the three stages answers leaves everything below them as it was.\<close>

definition answered_here :: "'w env \<Rightarrow> App \<Rightarrow> times \<Rightarrow> request \<Rightarrow> bool" where
  "answered_here V A t r \<longleftrightarrow>
     blocked_here V A t r \<or>
     (IN_question r \<and>
       (zoned_here V A r \<or> (leased_here A t r \<and> \<not> zoneHas (v_lib V) (a_snapshot A) (QName r))))"

lemma chain_stages:
  "Chain h (stages V A t) r w =
     Recover (v_lib V)
       (\<lambda>r w. engine_middleware (v_lib V) (v_regex V) (a_engine A) (t_engine t)
          (Chain (Chain h [zone_middleware (v_lib V) (a_snapshot A) (t_zone t), cache_middleware (t_cache t)])
             (case a_dhcp A of None \<Rightarrow> []
              | Some (table, view) \<Rightarrow>
                  [Names (v_lib V) (v_text V) (t_lease t) table view (Some (zoneHas (v_lib V) (a_snapshot A)))]))
          (identified A r) w) r w"
  by (auto simp: stages_def Chain_append registry_middleware_def [abs_def] Recover_def split: option.splits)

lemma chain_stays:
  assumes "answered_here V A t r"
  shows "snd (Chain h (stages V A t) r w) = w"
proof -
  let ?z = "\<lambda>r w. zone_middleware (v_lib V) (a_snapshot A) (t_zone t) (cache_middleware (t_cache t) h) r w"
  let ?n = "Chain ?z (case a_dhcp A of None \<Rightarrow> []
    | Some (table, view) \<Rightarrow> [Names (v_lib V) (v_text V) (t_lease t) table view (Some (zoneHas (v_lib V) (a_snapshot A)))])"
  let ?e = "\<lambda>w. engine_middleware (v_lib V) (v_regex V) (a_engine A) (t_engine t) ?n (identified A r) w"
  have c: "snd (Chain h (stages V A t) r w) = snd (?e w)"
    by (simp add: chain_stages Recover_state)
  consider "blocked_here V A t r" | "IN_question r" "zoned_here V A r"
    | "IN_question r" "leased_here A t r" "\<not> zoneHas (v_lib V) (a_snapshot A) (QName r)"
    using assms by (auto simp: answered_here_def)
  then have "snd (?e w) = w"
  proof cases
    case 1
    then show ?thesis by (rule engine_blocked_state)
  next
    case 2
    from zoned_state [OF 2(2,1)] have z: "snd (?z (identified A r) w) = w" .
    then have "snd (?n (identified A r) w) = w"
    proof (cases "a_dhcp A")
      case (Some tv)
      obtain table view where tv: "tv = (table, view)" by (cases tv)
      show ?thesis unfolding Some tv option.case prod.case Chain_Cons Chain_Nil by (metis Names_state z)
    qed simp
    with engine_state show ?thesis by metis
  next
    case 3
    then obtain table view where d: "a_dhcp A = Some (table, view)"
      by (cases "a_dhcp A") (auto simp: leased_here_def)
    have "snd (?n (identified A r) w) = w" using leased_state [where f = "zoneHas (v_lib V) (a_snapshot A)", OF 3(2,1) d 3(3)] by (simp add: d)
    with engine_state show ?thesis by metis
  qed
  with c show ?thesis by simp
qed

section \<open>An example\<close>

text \<open>A server with one blocking rule, the example zone, one lease and the example upstreams.\<close>

definition ex_env :: "int env" where
  "ex_env = \<lparr>v_lib = plain_lib, v_text = ex_text, v_regex = (\<lambda>_ _. False), v_names = ex_tables, v_net = ex_net\<rparr>"

definition ex_app :: App where
  "ex_app = \<lparr>a_registry = NewRegistry, a_engine = ex_engine,
     a_dhcp = Some (newTable 0 [ex_lease] (\<lambda>_. Some ''lan''), \<lparr>v_scopes = [], v_domain = ''lan''\<rparr>),
     a_snapshot = NewIndex [ex_zone]\<rparr>"

definition ex_times :: times where
  "ex_times = \<lparr>t_log = (\<lambda>_. 0), t_engine = 0, t_lease = 0, t_zone = 0, t_cache = (\<lambda>_. 0)\<rparr>"

definition ex_tail :: "int tail_state" where
  "ex_tail = (New \<lparr>MinTTL = 0, MaxTTL = 0, NegTTL = 0, ServeStaleFor = 0, MaxEntries = 0\<rparr>,
     \<lparr>sw_f = Some ex_fwd, sw_has = True\<rparr>, 5)"

lemma ex_env_laws: "reply_laws (v_lib ex_env)" "0 < o_Buffer (lg_o ex_logger)"
  using plain_reply_laws ex_logger_new by (simp_all add: ex_env_def)

end
