(* ===== verification/Upstream_Addr.thy ===== *)
theory Upstream_Addr
  imports Forwarder Zone_Lists
begin

text \<open>
  The grammar of the \<open>upstreams\<close> setting, \<open>internal/upstream/addr.go\<close>: plain entries, the encrypted
  transports with their literal address and certificate name, and the rule that a list uses one
  transport.  Go's URL parser is the parameter \<open>parse_url\<close>.  An error is its code; the sentences
  shown to the operator are left out.
\<close>

section \<open>URLs\<close>

record URL =
  url_Scheme :: string
  url_User :: bool
  url_RawQuery :: string
  url_Fragment :: string
  url_Path :: string
  url_Host :: string
  url_Hostname :: string
  url_Port :: string
  url_EscapedPath :: string

type_synonym url_parser = "string \<Rightarrow> URL option"

datatype ParseError =
    Empty | Mixed_schemes | Bad_url string | Name_on_plain string | Bad_scheme string
  | Bad_addr string | Host_not_ip string | Missing_name string

fun scheme_text :: "Scheme \<Rightarrow> string" where
  "scheme_text SchemePlain = ''udp''"
| "scheme_text SchemeDoT = ''tls''"
| "scheme_text SchemeDoH = ''https''"

definition defaultPlainPort :: string where "defaultPlainPort = ''53''"
definition defaultDoTPort :: string where "defaultDoTPort = ''853''"
definition defaultDoHPort :: string where "defaultDoHPort = ''443''"
definition defaultDoHPath :: string where "defaultDoHPath = ''/dns-query''"

section \<open>Entries\<close>

definition parsePlainEntry :: "string \<Rightarrow> string \<Rightarrow> ParseError + Upstream" where
  "parsePlainEntry raw hostPort =
     (if CHR ''#'' \<in> set hostPort then Inl (Name_on_plain raw)
      else
        let addr = (if SplitHostPort hostPort = None
                    then (if CHR '':'' \<in> set hostPort \<and> \<not> HasPrefix hostPort ''[''
                          then ''['' @ hostPort @ '']:'' @ defaultPlainPort
                          else hostPort @ '':'' @ defaultPlainPort)
                    else hostPort)
        in Inr \<lparr>us_Scheme = SchemePlain, us_Addr = addr, us_VerifyName = [], us_Path = [], us_Canonical = addr\<rparr>)"

definition splitHostPort :: "string \<Rightarrow> string \<times> string" where
  "splitHostPort hp =
     (if HasPrefix hp ''['' then
        (case IndexByte hp CHR '']'' of
           None \<Rightarrow> (hp, [])
         | Some e \<Rightarrow>
             let rest = drop (e + 1) hp
             in (take (e - 1) (drop 1 hp), if HasPrefix rest '':'' then drop 1 rest else []))
      else case cut_last CHR '':'' hp of
             Some (host, port) \<Rightarrow> (host, port)
           | None \<Rightarrow> (hp, []))"

text \<open>A port: \<open>strconv.Atoi\<close> and the range.\<close>

definition port_ok :: "string \<Rightarrow> bool" where
  "port_ok p = (case undec_int64 p of None \<Rightarrow> False | Some n \<Rightarrow> 1 \<le> n \<and> n \<le> 65535)"

definition checkEncryptedAuthority :: "string \<Rightarrow> bool" where
  "checkEncryptedAuthority raw =
     (let authority = (case IndexStr raw ''://'' of Some i \<Rightarrow> drop (i + 3) raw | None \<Rightarrow> drop 2 raw);
          authority = takeWhile (\<lambda>c. c \<notin> set ''/?#'') authority;
          authority = (case cut_last CHR ''@'' authority of Some (_, a) \<Rightarrow> a | None \<Rightarrow> authority)
      in if length (filter (\<lambda>c. c = CHR '':'') authority) \<ge> 2 \<and> \<not> HasPrefix authority ''['' then False
         else let port = snd (splitHostPort authority) in port = [] \<or> port_ok port)"

definition parseEncryptedEntry ::
  "ip6_text \<Rightarrow> string \<Rightarrow> URL \<Rightarrow> Scheme \<Rightarrow> string \<Rightarrow> string \<Rightarrow> ParseError + Upstream" where
  "parseEncryptedEntry T raw u scheme defaultPort defaultPath =
     (let host = url_Hostname u; port = url_Port u
      in if host = [] then Inl (Bad_addr raw)
         else if ParseAddr T host = None then Inl (Host_not_ip raw)
         else if port \<noteq> [] \<and> \<not> port_ok port then Inl (Bad_addr raw)
         else if url_Fragment u = [] then Inl (Missing_name raw)
         else
           let port = (if port = [] then defaultPort else port);
               addr = JoinHostPort host port;
               path = (if defaultPath = [] then []
                       else if url_EscapedPath u = [] \<or> url_EscapedPath u = ''/'' then defaultPath
                       else url_EscapedPath u)
           in Inr \<lparr>us_Scheme = scheme, us_Addr = addr, us_VerifyName = url_Fragment u, us_Path = path,
                   us_Canonical = scheme_text scheme @ ''://'' @ addr @ path @ ''#'' @ url_Fragment u\<rparr>)"

definition parseEntry :: "url_parser \<Rightarrow> ip6_text \<Rightarrow> string \<Rightarrow> ParseError + Upstream" where
  "parseEntry parse_url T raw =
     (case IndexStr raw ''://'' of
        None \<Rightarrow> parsePlainEntry raw raw
      | Some i \<Rightarrow>
          if ToLower (take i raw) \<in> {scheme_text SchemeDoT, scheme_text SchemeDoH} \<and> \<not> checkEncryptedAuthority raw
          then Inl (Bad_addr raw)
          else case parse_url raw of
                 None \<Rightarrow> Inl (Bad_url raw)
               | Some u \<Rightarrow>
                   if url_User u then Inl (Bad_url raw)
                   else if url_RawQuery u \<noteq> [] then Inl (Bad_url raw)
                   else if url_Scheme u = scheme_text SchemePlain then
                     (if url_Fragment u \<noteq> [] then Inl (Name_on_plain raw)
                      else if list_ex (\<lambda>c. c \<noteq> CHR ''/'') (url_Path u) then Inl (Bad_url raw)
                      else parsePlainEntry raw (url_Host u))
                   else if url_Scheme u = scheme_text SchemeDoT then
                     parseEncryptedEntry T raw u SchemeDoT defaultDoTPort []
                   else if url_Scheme u = scheme_text SchemeDoH then
                     parseEncryptedEntry T raw u SchemeDoH defaultDoHPort defaultDoHPath
                   else Inl (Bad_scheme raw))"

text \<open>The loop over the entries: empty ones are dropped, the first bad one is the error.\<close>

fun parse_all :: "url_parser \<Rightarrow> ip6_text \<Rightarrow> string list \<Rightarrow> ParseError + Upstream list" where
  "parse_all parse_url T [] = Inr []"
| "parse_all parse_url T (e # es) =
     (if TrimSpace e = [] then parse_all parse_url T es
      else case parseEntry parse_url T (TrimSpace e) of
             Inl err \<Rightarrow> Inl err
           | Inr u \<Rightarrow> map_sum id ((#) u) (parse_all parse_url T es))"

definition parseEntries :: "url_parser \<Rightarrow> ip6_text \<Rightarrow> string list \<Rightarrow> ParseError + Upstream list" where
  "parseEntries parse_url T es =
     (case parse_all parse_url T es of
        Inl e \<Rightarrow> Inl e
      | Inr [] \<Rightarrow> Inl Empty
      | Inr (u # us) \<Rightarrow>
          if list_all (\<lambda>v. us_Scheme v = us_Scheme u) us then Inr (u # us) else Inl Mixed_schemes)"

definition ParseUpstreams :: "url_parser \<Rightarrow> ip6_text \<Rightarrow> string \<Rightarrow> ParseError + Upstream list" where
  "ParseUpstreams parse_url T s = parseEntries parse_url T (Split s CHR '','')"

section \<open>What an accepted list promises\<close>

lemma parse_all_Inr:
  assumes "parse_all P T es = Inr us" "u \<in> set us"
  shows "\<exists>e \<in> set es. parseEntry P T (TrimSpace e) = Inr u"
  using assms
proof (induction es arbitrary: us)
  case (Cons e es)
  then consider "TrimSpace e = []" "parse_all P T es = Inr us"
    | v vs where "parseEntry P T (TrimSpace e) = Inr v" "parse_all P T es = Inr vs" "us = v # vs"
    by (cases "parse_all P T es") (auto split: if_splits sum.splits)
  then show ?case
  proof cases
    case 1
    with Cons show ?thesis by auto
  next
    case 2
    with Cons.IH [of vs] Cons.prems show ?thesis by auto
  qed
qed simp

text \<open>An encrypted upstream is reached by a literal address and checked against a name.\<close>

definition pinned :: "ip6_text \<Rightarrow> Upstream \<Rightarrow> bool" where
  "pinned T u \<longleftrightarrow> us_VerifyName u \<noteq> [] \<and>
     (\<exists>host port. us_Addr u = JoinHostPort host port \<and> ParseAddr T host \<noteq> None \<and> port_ok port)"

lemma default_ports: "port_ok defaultDoTPort" "port_ok defaultDoHPort"
  by (simp_all add: port_ok_def undec_int64_def defaultDoTPort_def defaultDoHPort_def Let_def)

lemma parseEntry_pinned:
  "parseEntry P T raw = Inr u \<Longrightarrow> us_Scheme u \<noteq> SchemePlain \<Longrightarrow> pinned T u"
  using default_ports
  by (fastforce simp: parseEntry_def parsePlainEntry_def parseEncryptedEntry_def pinned_def Let_def
      split: option.splits if_splits)

text \<open>The transport is what the operator wrote, for every query.  An accepted \<open>upstreams\<close> value is not
  empty and names one transport throughout, so that no query of an encrypted configuration goes out in the
  clear; every encrypted upstream has a literal address with a valid port, so that reaching it needs no
  lookup, and a name its certificate is checked against.\<close>

theorem upstreams_one_transport:
  assumes "ParseUpstreams P T s = Inr us"
  shows "us \<noteq> [] \<and> (\<forall>u \<in> set us. us_Scheme u = us_Scheme (hd us)) \<and>
    (\<forall>u \<in> set us. us_Scheme u \<noteq> SchemePlain \<longrightarrow> pinned T u)"
proof -
  have all: "parse_all P T (Split s CHR '','') = Inr us"
    and one: "us \<noteq> [] \<and> (\<forall>u \<in> set us. us_Scheme u = us_Scheme (hd us))"
    using assms by (auto simp: ParseUpstreams_def parseEntries_def list_all_iff split: sum.splits list.splits if_splits)
  moreover have "pinned T u" if "u \<in> set us" "us_Scheme u \<noteq> SchemePlain" for u
    using parse_all_Inr [OF all that(1)] parseEntry_pinned that(2) by blast
  ultimately show ?thesis by blast
qed

text \<open>The URL parser on one URL.\<close>

definition ex_url :: url_parser where
  "ex_url s = (if s = ''tls://192.0.2.7#dns.example'' then
     Some \<lparr>url_Scheme = ''tls'', url_User = False, url_RawQuery = [], url_Fragment = ''dns.example'', url_Path = [],
       url_Host = ''192.0.2.7'', url_Hostname = ''192.0.2.7'', url_Port = [], url_EscapedPath = []\<rparr> else None)"

theorem upstreams_one_transport_witness:
  "\<exists>us. ParseUpstreams ex_url ex_text ''tls://192.0.2.7#dns.example, '' = Inr us \<and> map us_Scheme us = [SchemeDoT] \<and>
     pinned ex_text (hd us)"
proof -
  let ?p = "ParseUpstreams ex_url ex_text ''tls://192.0.2.7#dns.example, ''"
  have c: "(case ?p of Inr us \<Rightarrow> map us_Scheme us = [SchemeDoT] | Inl _ \<Rightarrow> False)" by code_simp
  then obtain us where us: "?p = Inr us" by (cases ?p) auto
  with c have m: "map us_Scheme us = [SchemeDoT]" by simp
  then have "hd us \<in> set us" "us_Scheme (hd us) \<noteq> SchemePlain" by (cases us; simp)+
  then have "pinned ex_text (hd us)" using upstreams_one_transport [OF us] by blast
  with us m show ?thesis by (intro exI [of _ us] conjI)
qed

text \<open>A plain entry's canonical form is read back as itself.\<close>

lemma parsePlainEntry_idem:
  assumes "parsePlainEntry raw hp = Inr u" "SplitHostPort (us_Addr u) \<noteq> None"
  shows "parsePlainEntry (us_Canonical u) (us_Canonical u) = Inr u"
  using assms by (auto simp: parsePlainEntry_def Let_def defaultPlainPort_def split: if_splits)

end
