(* ===== verification/Serving.thy ===== *)
theory Serving
  imports Prelude
begin

text \<open>
  The encrypted listeners, \<open>internal/app/serve.go\<close> with the certificates of \<open>internal/dnssrv/certs.go\<close>:
  a certificate provider that follows its two files, and the reconciler that starts, moves and stops
  the DNS-over-TLS and DNS-over-HTTPS listeners until they match the stored settings.

  The file system is the parameter \<open>files\<close>.  The sockets are a list of bound listeners with their
  addresses; whether two addresses exclude each other, and whether something outside the server
  refuses an address, are parameters of binding.
\<close>

section \<open>Certificates\<close>

record certificate =
  crt_chain :: string
  crt_notAfter :: int

record files =
  fs_mtime :: "string \<Rightarrow> int option"
  fs_load :: "string \<Rightarrow> string \<Rightarrow> certificate option"

record CertProvider =
  cp_certPath :: string
  cp_keyPath :: string
  cp_cert :: "certificate option"
  cp_certModAt :: int
  cp_keyModAt :: int

definition NewCertProvider :: "string \<Rightarrow> string \<Rightarrow> CertProvider" where
  "NewCertProvider certPath keyPath =
     \<lparr>cp_certPath = certPath, cp_keyPath = keyPath, cp_cert = None, cp_certModAt = 0, cp_keyModAt = 0\<rparr>"

text \<open>\<open>cached\<close> answers with the certificate already held, if there is one; \<open>None\<close> is the error.\<close>

definition cached_cert :: "CertProvider \<Rightarrow> certificate option" where
  "cached_cert p = cp_cert p"

definition GetCertificate :: "files \<Rightarrow> CertProvider \<Rightarrow> certificate option \<times> CertProvider" where
  "GetCertificate F p =
     (case fs_mtime F (cp_certPath p) of
        None \<Rightarrow> (cached_cert p, p)
      | Some certAt \<Rightarrow>
          (case fs_mtime F (cp_keyPath p) of
             None \<Rightarrow> (cached_cert p, p)
           | Some keyAt \<Rightarrow>
               if cp_cert p \<noteq> None \<and> certAt = cp_certModAt p \<and> keyAt = cp_keyModAt p then (cp_cert p, p)
               else case fs_load F (cp_certPath p) (cp_keyPath p) of
                      None \<Rightarrow> (cached_cert p, p)
                    | Some c \<Rightarrow> (Some c, p\<lparr>cp_cert := Some c, cp_certModAt := certAt, cp_keyModAt := keyAt\<rparr>)))"

definition Leaf :: "CertProvider \<Rightarrow> certificate option" where
  "Leaf p = cp_cert p"

section \<open>Sockets\<close>

record sockets =
  sk_bound :: "(nat \<times> string) list"
  sk_next :: nat

text \<open>\<open>clash a b\<close>: an address excludes another; \<open>refuse a\<close>: somebody else has it, or it is no address.\<close>

definition bind :: "(string \<Rightarrow> string \<Rightarrow> bool) \<Rightarrow> (string \<Rightarrow> bool) \<Rightarrow> string \<Rightarrow> sockets \<Rightarrow> nat option \<times> sockets" where
  "bind clash refuse addr s =
     (if refuse addr \<or> list_ex (\<lambda>b. clash addr (snd b)) (sk_bound s) then (None, s)
      else (Some (sk_next s), s\<lparr>sk_bound := (sk_next s, addr) # sk_bound s, sk_next := sk_next s + 1\<rparr>))"

definition shutdownListener :: "nat \<Rightarrow> sockets \<Rightarrow> sockets" where
  "shutdownListener l s = s\<lparr>sk_bound := filter (\<lambda>b. fst b \<noteq> l) (sk_bound s)\<rparr>"

section \<open>The reconciler\<close>

record protocolState =
  ps_Enabled :: bool
  ps_Listening :: bool
  ps_Addr :: string
  ps_Failed :: bool

record running =
  rn_l :: nat
  rn_addr :: string
  rn_certPath :: string
  rn_keyPath :: string

record servingReconciler =
  sv_closed :: bool
  sv_dot :: "running option"
  sv_doh :: "running option"
  sv_state :: "protocolState \<times> protocolState"
  sv_cert :: "CertProvider option"

record protoWant =
  pw_enabled :: bool
  pw_addr :: string
  pw_certPath :: string
  pw_keyPath :: string

text \<open>What the operating system is: the files, the addresses and the local address of a listener.\<close>

record host =
  ho_files :: files
  ho_clash :: "string \<Rightarrow> string \<Rightarrow> bool"
  ho_refuse :: "string \<Rightarrow> bool"
  ho_local :: "string \<Rightarrow> string"

definition certProviderFor :: "string \<Rightarrow> string \<Rightarrow> CertProvider option \<Rightarrow> CertProvider" where
  "certProviderFor certPath keyPath cur =
     (case cur of
        Some p \<Rightarrow> if cp_certPath p = certPath \<and> cp_keyPath p = keyPath then p else NewCertProvider certPath keyPath
      | None \<Rightarrow> NewCertProvider certPath keyPath)"

text \<open>\<open>startDoT\<close> and \<open>startDoH\<close>: the certificate must load before the address is bound.\<close>

definition start_listener ::
  "host \<Rightarrow> string \<Rightarrow> string \<Rightarrow> string \<Rightarrow> CertProvider option \<times> sockets \<Rightarrow> nat option \<times> CertProvider option \<times> sockets" where
  "start_listener H addr certPath keyPath s =
     (case GetCertificate (ho_files H) (certProviderFor certPath keyPath (fst s)) of
        (None, p) \<Rightarrow> (None, Some p, snd s)
      | (Some _, p) \<Rightarrow> (case bind (ho_clash H) (ho_refuse H) addr (snd s) of (l, sk) \<Rightarrow> (l, Some p, sk)))"

text \<open>The end of \<open>reconcileOne\<close>: start, and report what came of it.\<close>

definition start_one ::
  "host \<Rightarrow> protoWant \<Rightarrow> CertProvider option \<times> sockets \<Rightarrow> (running option \<times> protocolState) \<times> CertProvider option \<times> sockets" where
  "start_one H want s =
     (case start_listener H (pw_addr want) (pw_certPath want) (pw_keyPath want) s of
        (None, s) \<Rightarrow>
          ((None, \<lparr>ps_Enabled = True, ps_Listening = False, ps_Addr = pw_addr want, ps_Failed = True\<rparr>), s)
      | (Some l, s) \<Rightarrow>
          ((Some \<lparr>rn_l = l, rn_addr = pw_addr want, rn_certPath = pw_certPath want, rn_keyPath = pw_keyPath want\<rparr>,
            \<lparr>ps_Enabled = True, ps_Listening = True, ps_Addr = ho_local H (pw_addr want), ps_Failed = False\<rparr>), s))"

definition stop_current :: "running option \<Rightarrow> CertProvider option \<times> sockets \<Rightarrow> CertProvider option \<times> sockets" where
  "stop_current cur s = (case cur of None \<Rightarrow> s | Some r \<Rightarrow> (fst s, shutdownListener (rn_l r) (snd s)))"

definition reconcileOne ::
  "host \<Rightarrow> running option \<Rightarrow> protoWant \<Rightarrow> CertProvider option \<times> sockets
   \<Rightarrow> (running option \<times> protocolState) \<times> CertProvider option \<times> sockets" where
  "reconcileOne H cur want s =
     (if \<not> pw_enabled want then
        ((None, \<lparr>ps_Enabled = False, ps_Listening = False, ps_Addr = [], ps_Failed = False\<rparr>), stop_current cur s)
      else case cur of
             Some r \<Rightarrow>
               if rn_addr r = pw_addr want \<and> rn_certPath r = pw_certPath want \<and> rn_keyPath r = pw_keyPath want
               then ((cur, \<lparr>ps_Enabled = True, ps_Listening = True, ps_Addr = ho_local H (rn_addr r), ps_Failed = False\<rparr>), s)
               else start_one H want (stop_current cur s)
           | None \<Rightarrow> start_one H want s)"

text \<open>The settings of one pass; a reading of the store that fails is \<open>None\<close>, a missing key reads as empty.\<close>

type_synonym reading = "string \<Rightarrow> string option option"

record settingsSnapshot =
  ss_certPath :: string
  ss_keyPath :: string
  ss_dot :: protoWant
  ss_doh :: protoWant

definition read_key :: "reading \<Rightarrow> string \<Rightarrow> string option" where
  "read_key rd key = map_option (\<lambda>v. case v of None \<Rightarrow> [] | Some v \<Rightarrow> v) (rd key)"

definition readServingSettings :: "reading \<Rightarrow> settingsSnapshot option" where
  "readServingSettings rd =
     Option.bind (read_key rd ''serve.tls.cert'') (\<lambda>certPath.
     Option.bind (read_key rd ''serve.tls.key'') (\<lambda>keyPath.
     Option.bind (read_key rd ''serve.dot.enabled'') (\<lambda>dotEnabled.
     Option.bind (read_key rd ''serve.dot.listen'') (\<lambda>dotAddr.
     Option.bind (read_key rd ''serve.doh.enabled'') (\<lambda>dohEnabled.
     Option.bind (read_key rd ''serve.doh.listen'') (\<lambda>dohAddr.
       Some \<lparr>ss_certPath = certPath, ss_keyPath = keyPath,
             ss_dot = \<lparr>pw_enabled = (dotEnabled = ''true''), pw_addr = dotAddr, pw_certPath = certPath, pw_keyPath = keyPath\<rparr>,
             ss_doh = \<lparr>pw_enabled = (dohEnabled = ''true''), pw_addr = dohAddr, pw_certPath = certPath, pw_keyPath = keyPath\<rparr>\<rparr>))))))"

definition reconcileServing :: "host \<Rightarrow> reading \<Rightarrow> servingReconciler \<times> sockets \<Rightarrow> servingReconciler \<times> sockets" where
  "reconcileServing H rd st =
     (case st of (v, sk) \<Rightarrow>
        if sv_closed v then st
        else case readServingSettings rd of
               None \<Rightarrow> st
             | Some snap \<Rightarrow>
                 let ((dot, dotState), cert, sk) = reconcileOne H (sv_dot v) (ss_dot snap) (sv_cert v, sk);
                     ((doh, dohState), cert, sk) = reconcileOne H (sv_doh v) (ss_doh snap) (cert, sk);
                     cert = (if (\<not> pw_enabled (ss_dot snap) \<and> \<not> pw_enabled (ss_doh snap)) \<or>
                                ss_certPath snap = [] \<or> ss_keyPath snap = []
                             then None else cert)
                 in (v\<lparr>sv_dot := dot, sv_doh := doh, sv_state := (dotState, dohState), sv_cert := cert\<rparr>, sk))"

definition needsRetry :: "protocolState \<Rightarrow> bool" where
  "needsRetry p \<longleftrightarrow> ps_Enabled p \<and> \<not> ps_Listening p"

text \<open>One tick of \<open>runServingRetry\<close>.\<close>

definition serving_tick :: "host \<Rightarrow> reading \<Rightarrow> servingReconciler \<times> sockets \<Rightarrow> servingReconciler \<times> sockets" where
  "serving_tick H rd st =
     (if needsRetry (fst (sv_state (fst st))) \<or> needsRetry (snd (sv_state (fst st))) then reconcileServing H rd st else st)"

definition shutdownAll :: "servingReconciler \<times> sockets \<Rightarrow> servingReconciler \<times> sockets" where
  "shutdownAll st =
     (case st of (v, sk) \<Rightarrow>
        (v\<lparr>sv_closed := True, sv_dot := None, sv_doh := None\<rparr>,
         fold shutdownListener (map rn_l (List.map_filter id [sv_dot v, sv_doh v])) sk))"

definition DNSListening :: "nat \<Rightarrow> servingReconciler \<Rightarrow> bool" where
  "DNSListening servers v \<longleftrightarrow> servers > 0 \<or> ps_Listening (fst (sv_state v)) \<or> ps_Listening (snd (sv_state v))"

definition certExpiryWarningWindow :: int where
  "certExpiryWarningWindow = 14 * 24 * 3600 * Second"

definition certLeaf :: "files \<Rightarrow> servingReconciler \<Rightarrow> certificate option \<times> servingReconciler" where
  "certLeaf F v =
     (case sv_cert v of
        None \<Rightarrow> (None, v)
      | Some p \<Rightarrow>
          (case GetCertificate F p of
             (Some c, p) \<Rightarrow> (Some c, v\<lparr>sv_cert := Some p\<rparr>)
           | (None, p) \<Rightarrow> (Leaf p, v\<lparr>sv_cert := Some p\<rparr>)))"

definition CertExpiry :: "files \<Rightarrow> int \<Rightarrow> servingReconciler \<Rightarrow> (int \<times> bool) option \<times> servingReconciler" where
  "CertExpiry F now v =
     (case certLeaf F v of
        (None, v) \<Rightarrow> (None, v)
      | (Some c, v) \<Rightarrow> (Some (crt_notAfter c, crt_notAfter c - now < certExpiryWarningWindow), v))"

definition new_serving :: servingReconciler where
  "new_serving =
     (let off = \<lparr>ps_Enabled = False, ps_Listening = False, ps_Addr = [], ps_Failed = False\<rparr>
      in \<lparr>sv_closed = False, sv_dot = None, sv_doh = None, sv_state = (off, off), sv_cert = None\<rparr>)"

section \<open>Certificates survive\<close>

lemma GetCertificate_keeps: "cp_cert p \<noteq> None \<Longrightarrow> \<exists>c. GetCertificate F p = (Some c, snd (GetCertificate F p)) \<and> cp_cert (snd (GetCertificate F p)) = Some c"
  by (auto simp: GetCertificate_def cached_cert_def split: option.splits)

section \<open>Listeners are accounted for\<close>

text \<open>The listeners the reconciler holds, with their addresses.\<close>

definition held :: "servingReconciler \<Rightarrow> (nat \<times> string) set" where
  "held v = (\<lambda>r. (rn_l r, rn_addr r)) ` (set_option (sv_dot v) \<union> set_option (sv_doh v))"

definition sockets_ok :: "sockets \<Rightarrow> bool" where
  "sockets_ok sk \<longleftrightarrow> distinct (map fst (sk_bound sk)) \<and> (\<forall>b \<in> set (sk_bound sk). fst b < sk_next sk)"

text \<open>One protocol and the rest: \<open>others\<close> are the listeners of the other protocol.\<close>

definition one_ok :: "running option \<Rightarrow> (nat \<times> string) set \<Rightarrow> sockets \<Rightarrow> bool" where
  "one_ok cur rest sk \<longleftrightarrow> sockets_ok sk \<and>
     set (sk_bound sk) = (\<lambda>r. (rn_l r, rn_addr r)) ` set_option cur \<union> rest \<and> (\<forall>r \<in> set_option cur. rn_l r \<notin> fst ` rest)"

lemma stop_current_ok:
  assumes "one_ok cur rest sk"
  shows "one_ok None rest (snd (stop_current cur (c, sk)))"
  using assms by (auto simp: one_ok_def stop_current_def shutdownListener_def sockets_ok_def distinct_map_filter split: option.splits)
    (metis fst_conv image_eqI)

lemma bind_ok:
  assumes "one_ok None rest sk" "bind clash refuse a sk = (Some l, sk')"
  shows "one_ok (Some \<lparr>rn_l = l, rn_addr = a, rn_certPath = c, rn_keyPath = k\<rparr>) rest sk'"
  using assms by (fastforce simp: one_ok_def sockets_ok_def bind_def less_Suc_eq split: if_splits)

lemma start_one_ok:
  assumes "one_ok None rest sk" "start_one H want (c, sk) = ((cur, ps), c', sk')"
  shows "one_ok cur rest sk' \<and> (ps_Listening ps \<longleftrightarrow> cur \<noteq> None) \<and> ps_Enabled ps"
proof (cases "fst (start_listener H (pw_addr want) (pw_certPath want) (pw_keyPath want) (c, sk))")
  case None
  then have "sk' = sk \<and> cur = None \<and> \<not> ps_Listening ps \<and> ps_Enabled ps" using assms(2)
    by (auto simp: start_one_def start_listener_def bind_def split: prod.splits option.splits if_splits)
  with assms(1) show ?thesis by simp
next
  case (Some l)
  then have "bind (ho_clash H) (ho_refuse H) (pw_addr want) sk = (Some l, sk') \<and> ps_Listening ps \<and> ps_Enabled ps \<and>
      cur = Some \<lparr>rn_l = l, rn_addr = pw_addr want, rn_certPath = pw_certPath want, rn_keyPath = pw_keyPath want\<rparr>"
    using assms(2) by (auto simp: start_one_def start_listener_def split: prod.splits option.splits)
  with bind_ok [OF assms(1)] show ?thesis by blast
qed

lemma reconcileOne_cases:
  obtains (off) "\<not> pw_enabled want" "reconcileOne H cur want s =
      ((None, \<lparr>ps_Enabled = False, ps_Listening = False, ps_Addr = [], ps_Failed = False\<rparr>), stop_current cur s)"
  | (kept) r where "pw_enabled want" "cur = Some r" "rn_addr r = pw_addr want" "reconcileOne H cur want s =
      ((cur, \<lparr>ps_Enabled = True, ps_Listening = True, ps_Addr = ho_local H (rn_addr r), ps_Failed = False\<rparr>), s)"
  | (started) "pw_enabled want" "reconcileOne H cur want s = start_one H want (stop_current cur s)"
proof (cases cur)
  case None
  with off started show thesis by (cases "pw_enabled want") (simp_all add: reconcileOne_def stop_current_def)
next
  case (Some r)
  then show thesis
    using off kept [of r] started
    by (cases "pw_enabled want"; cases "rn_addr r = pw_addr want \<and> rn_certPath r = pw_certPath want \<and> rn_keyPath r = pw_keyPath want")
      (simp_all add: reconcileOne_def)
qed

lemma reconcileOne_ok:
  assumes "one_ok cur rest sk" "reconcileOne H cur want (c, sk) = ((cur', ps), c', sk')"
  shows "one_ok cur' rest sk' \<and> (ps_Listening ps \<longleftrightarrow> cur' \<noteq> None) \<and> ps_Enabled ps = pw_enabled want"
proof -
  obtain c1 sk1 where s1: "stop_current cur (c, sk) = (c1, sk1)" by (metis surj_pair)
  with stop_current_ok [OF assms(1), of c] have ok1: "one_ok None rest sk1" by simp
  show ?thesis
  proof (cases rule: reconcileOne_cases [of want H cur "(c, sk)"])
    case started
    with assms(2) s1 have "start_one H want (c1, sk1) = ((cur', ps), c', sk')" by simp
    with start_one_ok [OF ok1] started(1) show ?thesis by blast
  qed (use assms s1 ok1 in auto)
qed

text \<open>The invariant of the reconciler and the sockets: what is bound is what is held, and the reported
  state says which protocol listens.\<close>

definition serving_ok :: "servingReconciler \<times> sockets \<Rightarrow> bool" where
  "serving_ok st \<longleftrightarrow> (case st of (v, sk) \<Rightarrow>
     sockets_ok sk \<and> set (sk_bound sk) = held v \<and>
     (\<forall>r \<in> set_option (sv_dot v). \<forall>r' \<in> set_option (sv_doh v). rn_l r \<noteq> rn_l r') \<and>
     (if sv_closed v then sv_dot v = None \<and> sv_doh v = None
      else (ps_Listening (fst (sv_state v)) \<longleftrightarrow> sv_dot v \<noteq> None) \<and> (ps_Listening (snd (sv_state v)) \<longleftrightarrow> sv_doh v \<noteq> None)))"

lemma serving_ok_one:
  assumes "serving_ok (v, sk)"
  shows "one_ok (sv_dot v) ((\<lambda>r. (rn_l r, rn_addr r)) ` set_option (sv_doh v)) sk"
  using assms by (auto simp: serving_ok_def one_ok_def held_def image_Un)

lemma one_ok_swap:
  assumes "one_ok a ((\<lambda>r. (rn_l r, rn_addr r)) ` set_option b) sk"
  shows "one_ok b ((\<lambda>r. (rn_l r, rn_addr r)) ` set_option a) sk"
  using assms by (fastforce simp: one_ok_def)

lemma one_serving_ok:
  assumes "one_ok (sv_dot v) ((\<lambda>r. (rn_l r, rn_addr r)) ` set_option (sv_doh v)) sk" "\<not> sv_closed v"
    and "ps_Listening (fst (sv_state v)) \<longleftrightarrow> sv_dot v \<noteq> None" "ps_Listening (snd (sv_state v)) \<longleftrightarrow> sv_doh v \<noteq> None"
  shows "serving_ok (v, sk)"
  using assms by (fastforce simp: serving_ok_def one_ok_def held_def image_Un)

text \<open>A pass, taken apart: first one protocol, then the other.\<close>

lemma pass_parts:
  assumes ok: "serving_ok (v, sk)" and live: "\<not> sv_closed v" and snap: "readServingSettings rd = Some snap"
  obtains dot ds c1 sk1 doh hs c2 sk2 cert where
    "reconcileOne H (sv_dot v) (ss_dot snap) (sv_cert v, sk) = ((dot, ds), c1, sk1)"
    "reconcileOne H (sv_doh v) (ss_doh snap) (c1, sk1) = ((doh, hs), c2, sk2)"
    "one_ok (sv_dot v) ((\<lambda>r. (rn_l r, rn_addr r)) ` set_option (sv_doh v)) sk"
    "one_ok (sv_doh v) ((\<lambda>r. (rn_l r, rn_addr r)) ` set_option dot) sk1"
    "one_ok dot ((\<lambda>r. (rn_l r, rn_addr r)) ` set_option doh) sk2"
    "ps_Listening ds \<longleftrightarrow> dot \<noteq> None" "ps_Listening hs \<longleftrightarrow> doh \<noteq> None"
    "ps_Enabled ds = pw_enabled (ss_dot snap)" "ps_Enabled hs = pw_enabled (ss_doh snap)"
    "reconcileServing H rd (v, sk) = (v\<lparr>sv_dot := dot, sv_doh := doh, sv_state := (ds, hs), sv_cert := cert\<rparr>, sk2)"
proof -
  obtain dot ds c1 sk1 where d: "reconcileOne H (sv_dot v) (ss_dot snap) (sv_cert v, sk) = ((dot, ds), c1, sk1)"
    by (metis surj_pair)
  obtain doh hs c2 sk2 where h: "reconcileOne H (sv_doh v) (ss_doh snap) (c1, sk1) = ((doh, hs), c2, sk2)"
    by (metis surj_pair)
  note o = serving_ok_one [OF ok]
  note D = reconcileOne_ok [OF o d]
  then have o1: "one_ok (sv_doh v) ((\<lambda>r. (rn_l r, rn_addr r)) ` set_option dot) sk1" by (rule one_ok_swap [OF conjunct1])
  note H = reconcileOne_ok [OF o1 h]
  then have o2: "one_ok dot ((\<lambda>r. (rn_l r, rn_addr r)) ` set_option doh) sk2" by (rule one_ok_swap [OF conjunct1])
  have "\<exists>cert. reconcileServing H rd (v, sk) = (v\<lparr>sv_dot := dot, sv_doh := doh, sv_state := (ds, hs), sv_cert := cert\<rparr>, sk2)"
    unfolding reconcileServing_def snap prod.case option.case d h Let_def if_not_P [OF live] by (rule exI) (rule refl)
  then show thesis using that d h o o1 o2 D H by blast
qed

lemma reconcileServing_ok:
  assumes "serving_ok st"
  shows "serving_ok (reconcileServing H rd st)"
proof (cases "sv_closed (fst st) \<or> readServingSettings rd = None")
  case True
  with assms show ?thesis by (auto simp: reconcileServing_def split: prod.splits)
next
  case False
  obtain v sk where st: "st = (v, sk)" by (cases st)
  from False obtain snap where snap: "readServingSettings rd = Some snap" and live: "\<not> sv_closed v" by (auto simp: st)
  show ?thesis unfolding st
  proof (rule pass_parts [OF assms [unfolded st] live snap, of H])
    fix dot ds c1 sk1 doh hs c2 sk2 cert
    assume "one_ok dot ((\<lambda>r. (rn_l r, rn_addr r)) ` set_option doh) sk2" "ps_Listening ds \<longleftrightarrow> dot \<noteq> None" "ps_Listening hs \<longleftrightarrow> doh \<noteq> None"
      and r: "reconcileServing H rd (v, sk) = (v\<lparr>sv_dot := dot, sv_doh := doh, sv_state := (ds, hs), sv_cert := cert\<rparr>, sk2)"
    then show "serving_ok (reconcileServing H rd (v, sk))"
      unfolding r using live by (intro one_serving_ok) simp_all
  qed
qed

lemma shutdownAll_ok:
  assumes "serving_ok st"
  shows "serving_ok (shutdownAll st) \<and> sk_bound (snd (shutdownAll st)) = []"
proof -
  obtain v sk where st: "st = (v, sk)" by (cases st)
  have "one_ok None {} (snd (stop_current (sv_doh v) (stop_current (sv_dot v) (sv_cert v, sk))))"
    using stop_current_ok [OF one_ok_swap [OF stop_current_ok [OF serving_ok_one [OF assms [unfolded st]], of "sv_cert v"],
      unfolded option.set image_empty], of "fst (stop_current (sv_dot v) (sv_cert v, sk))"] by simp
  moreover have "snd (stop_current (sv_doh v) (stop_current (sv_dot v) (sv_cert v, sk))) = snd (shutdownAll st)"
    by (auto simp: shutdownAll_def st stop_current_def map_filter_simps split: option.split)
  ultimately show ?thesis by (auto simp: serving_ok_def one_ok_def held_def shutdownAll_def st)
qed

text \<open>Everything that happens to the listeners: passes after a settings change, retries, and the end.
  The state of the machine and the stored settings may differ at every step.\<close>

inductive serving_run :: "servingReconciler \<times> sockets \<Rightarrow> bool" where
  run_new: "serving_run (new_serving, \<lparr>sk_bound = [], sk_next = 0\<rparr>)"
| run_pass: "serving_run st \<Longrightarrow> serving_run (reconcileServing H rd st)"
| run_tick: "serving_run st \<Longrightarrow> serving_run (serving_tick H rd st)"
| run_leaf: "serving_run (v, sk) \<Longrightarrow> serving_run (snd (certLeaf F v), sk)"
| run_stop: "serving_run st \<Longrightarrow> serving_run (shutdownAll st)"

lemma serving_run_ok: "serving_run st \<Longrightarrow> serving_ok st"
proof (induction rule: serving_run.induct)
  case run_new
  then show ?case by (simp add: serving_ok_def new_serving_def sockets_ok_def held_def Let_def)
next
  case (run_pass st H rd)
  then show ?case by (intro reconcileServing_ok)
next
  case (run_tick st H rd)
  then show ?case using reconcileServing_ok by (simp add: serving_tick_def)
next
  case (run_leaf v sk F)
  then show ?case by (auto simp: serving_ok_def held_def certLeaf_def split: option.splits prod.splits)
next
  case (run_stop st)
  then show ?case using shutdownAll_ok by blast
qed

text \<open>No listener is lost and none is left behind.  Whatever the settings, the certificates and the
  addresses do, in any order of passes, retries and the shutdown, the sockets that are bound are exactly
  those the reconciler holds, one at most for each protocol, a protocol is reported as listening exactly
  when it is, and after the shutdown no socket is bound and no later pass binds one.\<close>

theorem listeners_accounted:
  assumes "serving_run (v, sk)"
  shows "set (sk_bound sk) = held v \<and> distinct (map fst (sk_bound sk)) \<and> length (sk_bound sk) \<le> 2 \<and>
    (if sv_closed v then sk_bound sk = [] \<and> reconcileServing H rd (v, sk) = (v, sk) \<and> serving_tick H rd (v, sk) = (v, sk)
     else (ps_Listening (fst (sv_state v)) \<longleftrightarrow> sv_dot v \<noteq> None) \<and> (ps_Listening (snd (sv_state v)) \<longleftrightarrow> sv_doh v \<noteq> None))"
proof -
  from serving_run_ok [OF assms] have ok: "serving_ok (v, sk)" .
  then have b: "set (sk_bound sk) = held v" "distinct (map fst (sk_bound sk))"
    by (simp_all add: serving_ok_def sockets_ok_def)
  have "card (held v) \<le> 2" by (cases "sv_dot v"; cases "sv_doh v") (auto simp: held_def card_insert_if)
  with b have "length (sk_bound sk) \<le> 2" by (metis distinct_card distinct_map)
  with ok b show ?thesis
    by (auto simp: serving_ok_def reconcileServing_def serving_tick_def held_def split: if_splits)
qed

section \<open>Retries converge\<close>

text \<open>What it takes for the wanted listeners to be able to run together.\<close>

definition can_serve :: "host \<Rightarrow> settingsSnapshot \<Rightarrow> bool" where
  "can_serve H snap \<longleftrightarrow> pw_enabled (ss_dot snap) \<and> pw_enabled (ss_doh snap) \<and>
     \<not> ho_refuse H (pw_addr (ss_dot snap)) \<and> \<not> ho_refuse H (pw_addr (ss_doh snap)) \<and>
     \<not> ho_clash H (pw_addr (ss_dot snap)) (pw_addr (ss_doh snap)) \<and> \<not> ho_clash H (pw_addr (ss_doh snap)) (pw_addr (ss_dot snap)) \<and>
     (\<forall>want \<in> {ss_dot snap, ss_doh snap}. fs_mtime (ho_files H) (pw_certPath want) \<noteq> None \<and>
        fs_mtime (ho_files H) (pw_keyPath want) \<noteq> None \<and> fs_load (ho_files H) (pw_certPath want) (pw_keyPath want) \<noteq> None)"

lemma GetCertificate_loads:
  assumes "fs_mtime F (cp_certPath p) \<noteq> None" "fs_mtime F (cp_keyPath p) \<noteq> None"
    and "fs_load F (cp_certPath p) (cp_keyPath p) \<noteq> None"
  shows "fst (GetCertificate F p) \<noteq> None"
  using assms by (auto simp: GetCertificate_def split: option.splits)

lemma certProviderFor_paths [simp]:
  "cp_certPath (certProviderFor c k cur) = c" "cp_keyPath (certProviderFor c k cur) = k"
  by (simp_all add: certProviderFor_def NewCertProvider_def split: option.split)

text \<open>With a certificate, an address nobody has is bound.\<close>

lemma start_one_binds:
  assumes "fs_mtime (ho_files H) (pw_certPath want) \<noteq> None" "fs_mtime (ho_files H) (pw_keyPath want) \<noteq> None"
    and "fs_load (ho_files H) (pw_certPath want) (pw_keyPath want) \<noteq> None"
    and "\<not> ho_refuse H (pw_addr want)" "\<forall>b \<in> set (sk_bound sk). \<not> ho_clash H (pw_addr want) (snd b)"
    and "start_one H want (c, sk) = ((cur, ps), c', sk')"
  shows "\<exists>r. cur = Some r \<and> rn_addr r = pw_addr want \<and> ps_Listening ps"
proof -
  have "fst (GetCertificate (ho_files H) (certProviderFor (pw_certPath want) (pw_keyPath want) c)) \<noteq> None"
    by (rule GetCertificate_loads) (use assms in simp_all)
  moreover have "fst (bind (ho_clash H) (ho_refuse H) (pw_addr want) sk) \<noteq> None"
    using assms(4,5) by (auto simp: bind_def list_ex_iff)
  ultimately show ?thesis
    using assms(6) by (auto simp: start_one_def start_listener_def split: prod.splits option.splits)
qed

lemma reconcileOne_runs:
  assumes "one_ok cur rest sk" "pw_enabled want" "fs_mtime (ho_files H) (pw_certPath want) \<noteq> None"
    and "fs_mtime (ho_files H) (pw_keyPath want) \<noteq> None" "fs_load (ho_files H) (pw_certPath want) (pw_keyPath want) \<noteq> None"
    and "\<not> ho_refuse H (pw_addr want)" "\<forall>b \<in> rest. \<not> ho_clash H (pw_addr want) (snd b)"
    and "reconcileOne H cur want (c, sk) = ((cur', ps), c', sk')"
  shows "\<exists>r. cur' = Some r \<and> rn_addr r = pw_addr want \<and> ps_Listening ps"
proof (cases rule: reconcileOne_cases [of want H cur "(c, sk)"])
  case started
  obtain c1 sk1 where s1: "stop_current cur (c, sk) = (c1, sk1)" by (metis surj_pair)
  with stop_current_ok [OF assms(1), of c] have "set (sk_bound sk1) = rest" by (simp add: one_ok_def)
  with started assms s1 show ?thesis by (intro start_one_binds [of H want sk1 c1 cur' ps c' sk']) auto
qed (use assms in auto)

lemma reconcileOne_addr: "reconcileOne H cur want s = ((Some r, ps), s') \<Longrightarrow> rn_addr r = pw_addr want"
  by (cases rule: reconcileOne_cases [of want H cur s]) (auto simp: start_one_def split: prod.splits option.splits)

text \<open>The second protocol of a pass always comes up; the first one does too when the second has its address.\<close>

lemma pass_runs:
  assumes ok: "serving_ok (v, sk)" and live: "\<not> sv_closed v" and snap: "readServingSettings rd = Some snap"
    and can: "can_serve H snap" and r: "reconcileServing H rd (v, sk) = (v', sk')"
  shows "serving_ok (v', sk')" "\<not> sv_closed v'"
    "\<exists>h. sv_doh v' = Some h \<and> rn_addr h = pw_addr (ss_doh snap) \<and> ps_Listening (snd (sv_state v'))"
    "ps_Enabled (fst (sv_state v'))"
    "\<forall>d. sv_dot v' = Some d \<longrightarrow> rn_addr d = pw_addr (ss_dot snap) \<and> ps_Listening (fst (sv_state v'))"
    "(\<forall>h. sv_doh v = Some h \<longrightarrow> rn_addr h = pw_addr (ss_doh snap)) \<Longrightarrow> sv_dot v' \<noteq> None"
proof -
  show "serving_ok (v', sk')" using reconcileServing_ok [OF ok] r by metis
  obtain dot ds c1 sk1 doh hs c2 sk2 cert where
    d: "reconcileOne H (sv_dot v) (ss_dot snap) (sv_cert v, sk) = ((dot, ds), c1, sk1)" and
    h: "reconcileOne H (sv_doh v) (ss_doh snap) (c1, sk1) = ((doh, hs), c2, sk2)" and
    o: "one_ok (sv_dot v) ((\<lambda>r. (rn_l r, rn_addr r)) ` set_option (sv_doh v)) sk"
      "one_ok (sv_doh v) ((\<lambda>r. (rn_l r, rn_addr r)) ` set_option dot) sk1"
      "one_ok dot ((\<lambda>r. (rn_l r, rn_addr r)) ` set_option doh) sk2" and
    l: "ps_Listening ds \<longleftrightarrow> dot \<noteq> None" "ps_Listening hs \<longleftrightarrow> doh \<noteq> None"
      "ps_Enabled ds = pw_enabled (ss_dot snap)" "ps_Enabled hs = pw_enabled (ss_doh snap)" and
    e: "reconcileServing H rd (v, sk) = (v\<lparr>sv_dot := dot, sv_doh := doh, sv_state := (ds, hs), sv_cert := cert\<rparr>, sk2)"
    by (rule pass_parts [OF ok live snap, of H]) (rule that)
  have v': "v' = v\<lparr>sv_dot := dot, sv_doh := doh, sv_state := (ds, hs), sv_cert := cert\<rparr>" using e r by simp
  have da: "\<forall>d. dot = Some d \<longrightarrow> rn_addr d = pw_addr (ss_dot snap)" using reconcileOne_addr d by blast
  have c: "pw_enabled (ss_dot snap)" "pw_enabled (ss_doh snap)" "\<not> ho_refuse H (pw_addr (ss_dot snap))" "\<not> ho_refuse H (pw_addr (ss_doh snap))"
    "\<not> ho_clash H (pw_addr (ss_dot snap)) (pw_addr (ss_doh snap))" "\<not> ho_clash H (pw_addr (ss_doh snap)) (pw_addr (ss_dot snap))"
    and f: "\<And>w. w \<in> {ss_dot snap, ss_doh snap} \<Longrightarrow> fs_mtime (ho_files H) (pw_certPath w) \<noteq> None \<and>
      fs_mtime (ho_files H) (pw_keyPath w) \<noteq> None \<and> fs_load (ho_files H) (pw_certPath w) (pw_keyPath w) \<noteq> None"
    using can unfolding can_serve_def by blast+
  have "\<exists>r. doh = Some r \<and> rn_addr r = pw_addr (ss_doh snap) \<and> ps_Listening hs"
    by (rule reconcileOne_runs [OF o(2) c(2) _ _ _ c(4) _ h]) (use f [of "ss_doh snap"] da c(6) in auto)
  then show "\<exists>h. sv_doh v' = Some h \<and> rn_addr h = pw_addr (ss_doh snap) \<and> ps_Listening (snd (sv_state v'))" by (simp add: v')
  show "\<not> sv_closed v'" "ps_Enabled (fst (sv_state v'))" using live l c by (simp_all add: v')
  show "\<forall>d. sv_dot v' = Some d \<longrightarrow> rn_addr d = pw_addr (ss_dot snap) \<and> ps_Listening (fst (sv_state v'))" using da l by (simp add: v')
  assume "\<forall>h. sv_doh v = Some h \<longrightarrow> rn_addr h = pw_addr (ss_doh snap)"
  then have "\<exists>r. dot = Some r \<and> rn_addr r = pw_addr (ss_dot snap) \<and> ps_Listening ds"
    by (intro reconcileOne_runs [OF o(1) c(1) _ _ _ c(3) _ d]) (use f [of "ss_dot snap"] c(5) in auto)
  then show "sv_dot v' \<noteq> None" by (auto simp: v')
qed

text \<open>C28: the listeners come up, also when they trade addresses.  Whatever runs now, one pass over new
  settings and the next tick of the retry bring both protocols up on the addresses wanted, provided the
  certificate loads, no one else has the addresses and they do not exclude each other.  That one protocol
  still holds the address the other moves to costs it one tick.\<close>

theorem listeners_converge:
  assumes "serving_run (v, sk)" "\<not> sv_closed v" "readServingSettings rd = Some snap" "can_serve H snap"
    and "serving_tick H rd (reconcileServing H rd (v, sk)) = (v', sk')"
  shows "\<exists>d h. sv_dot v' = Some d \<and> sv_doh v' = Some h \<and>
    rn_addr d = pw_addr (ss_dot snap) \<and> rn_addr h = pw_addr (ss_doh snap) \<and>
    set (sk_bound sk') = {(rn_l d, rn_addr d), (rn_l h, rn_addr h)} \<and>
    ps_Listening (fst (sv_state v')) \<and> ps_Listening (snd (sv_state v'))"
proof -
  obtain v1 sk1 where r1: "reconcileServing H rd (v, sk) = (v1, sk1)" by (metis surj_pair)
  note one = pass_runs [OF serving_run_ok [OF assms(1)] assms(2-4) r1]
  have "serving_ok (v', sk') \<and> \<not> sv_closed v' \<and> sv_dot v' \<noteq> None \<and>
      (\<exists>h. sv_doh v' = Some h \<and> rn_addr h = pw_addr (ss_doh snap) \<and> ps_Listening (snd (sv_state v'))) \<and>
      (\<forall>d. sv_dot v' = Some d \<longrightarrow> rn_addr d = pw_addr (ss_dot snap) \<and> ps_Listening (fst (sv_state v')))"
  proof (cases "needsRetry (fst (sv_state v1)) \<or> needsRetry (snd (sv_state v1))")
    case True
    then have r2: "reconcileServing H rd (v1, sk1) = (v', sk')" using assms(5) r1 by (simp add: serving_tick_def)
    note two = pass_runs [OF one(1,2) assms(3,4) r2]
    show ?thesis using two(1-3,5) two(6) one(3) by auto
  next
    case False
    then have "v' = v1" "sk' = sk1" using assms(5) r1 by (simp_all add: serving_tick_def)
    moreover have "sv_dot v1 \<noteq> None" using one(1,2,4) False by (auto simp: needsRetry_def serving_ok_def)
    ultimately show ?thesis using one(1-3,5) by blast
  qed
  then show ?thesis by (auto simp: serving_ok_def held_def)
qed

section \<open>An example\<close>

text \<open>Both protocols run and trade addresses.\<close>

definition ex_host :: host where
  "ex_host = \<lparr>ho_files = \<lparr>fs_mtime = \<lambda>_. Some 1, fs_load = \<lambda>_ _. Some \<lparr>crt_chain = ''leaf'', crt_notAfter = 5\<rparr>\<rparr>,
     ho_clash = (=), ho_refuse = \<lambda>_. False, ho_local = id\<rparr>"

definition ex_serving :: "string \<Rightarrow> string \<Rightarrow> reading" where
  "ex_serving dot doh key =
     Some (map_of [(''serve.tls.cert'', ''c''), (''serve.tls.key'', ''k''), (''serve.dot.enabled'', ''true''),
       (''serve.dot.listen'', dot), (''serve.doh.enabled'', ''true''), (''serve.doh.listen'', doh)] key)"

lemma ex_can_serve:
  "\<exists>snap. readServingSettings (ex_serving '':443'' '':853'') = Some snap \<and> can_serve ex_host snap \<and>
     pw_addr (ss_dot snap) = '':443'' \<and> pw_addr (ss_doh snap) = '':853''"
  by (simp add: readServingSettings_def read_key_def ex_serving_def can_serve_def ex_host_def)

theorem listeners_accounted_witness:
  "length (sk_bound (snd (reconcileServing ex_host (ex_serving '':853'' '':443'') (new_serving, \<lparr>sk_bound = [], sk_next = 0\<rparr>)))) \<le> 2"
proof -
  let ?st = "reconcileServing ex_host (ex_serving '':853'' '':443'') (new_serving, \<lparr>sk_bound = [], sk_next = 0\<rparr>)"
  have "serving_run (fst ?st, snd ?st)" by (simp add: run_pass run_new)
  from listeners_accounted [OF this] show ?thesis by blast
qed

theorem listeners_converge_witness:
  "\<exists>d h v' sk'. serving_tick ex_host (ex_serving '':443'' '':853'') (reconcileServing ex_host (ex_serving '':443'' '':853'')
       (reconcileServing ex_host (ex_serving '':853'' '':443'') (new_serving, \<lparr>sk_bound = [], sk_next = 0\<rparr>))) = (v', sk') \<and>
     sv_dot v' = Some d \<and> sv_doh v' = Some h \<and> rn_addr d = '':443'' \<and> rn_addr h = '':853''"
proof -
  let ?st = "reconcileServing ex_host (ex_serving '':853'' '':443'') (new_serving, \<lparr>sk_bound = [], sk_next = 0\<rparr>)"
  have run: "serving_run (fst ?st, snd ?st)" by (simp add: run_pass run_new)
  have live: "\<not> sv_closed (fst ?st)" by code_simp
  obtain snap where snap: "readServingSettings (ex_serving '':443'' '':853'') = Some snap" "can_serve ex_host snap"
    "pw_addr (ss_dot snap) = '':443''" "pw_addr (ss_doh snap) = '':853''" using ex_can_serve by blast
  obtain v' sk' where t: "serving_tick ex_host (ex_serving '':443'' '':853'') (reconcileServing ex_host (ex_serving '':443'' '':853'')
      (fst ?st, snd ?st)) = (v', sk')" by (metis surj_pair)
  from listeners_converge [OF run live snap(1,2) t] t snap(3,4) show ?thesis by (metis prod.collapse)
qed

end
