(* ===== verification/App_Settings.thy ===== *)
theory App_Settings
  imports Serve_Props Upstream_Addr Stub Serving "HOL-Library.List_Lexorder" "HOL-Library.Char_ord"
begin

text \<open>
  What \<open>internal/app/app.go\<close> does when zones or settings change: the conditional routing table of the
  served zones, its installation together with the purge of the answers it invalidates, the forwarder
  built from the stored upstreams with its fallbacks, and the pass over all live components.  Also the
  lookups of \<open>internal/app/zonelookup.go\<close>, which enter the pipeline at the cache.

  A reading of the settings is that of \<open>Serving\<close>: the store may fail, and a key may be unset.
\<close>

section \<open>Routes\<close>

type_synonym routes = "(string \<times> string list) list"

text \<open>One zone of the snapshot; the map is an association list with one entry for a key.\<close>

definition zone_route :: "dns_lib \<Rightarrow> ip6_text \<Rightarrow> zone \<Rightarrow> string list option" where
  "zone_route L T z =
     (if \<not> z_enabled (row z) then None
      else if ToLower (z_type (row z)) = ''forwarder'' then
        (case ParseForwardTo L T (z_forward_to (row z)) of Inl _ \<Rightarrow> Some [] | Inr ts \<Rightarrow> Some (map ft_Addr ts))
      else if ToLower (z_type (row z)) = ''stub'' then Some (StubUpstreams L T z)
      else None)"

definition conditionalRoutes :: "dns_lib \<Rightarrow> ip6_text \<Rightarrow> index \<Rightarrow> routes" where
  "conditionalRoutes L T snap =
     fold (\<lambda>z rs. case zone_route L T z of None \<Rightarrow> rs | Some addrs \<Rightarrow> AList.update (z_name (row z)) addrs rs)
       (ix_zones snap) []"

definition sameUpstreams :: "string list \<Rightarrow> string list \<Rightarrow> bool" where
  "sameUpstreams a b \<longleftrightarrow> length a = length b \<and> sort a = sort b"

definition changedSuffixes :: "routes \<Rightarrow> routes \<Rightarrow> string list" where
  "changedSuffixes prev next =
     map fst (filter (\<lambda>(s, ups). case map_of prev s of None \<Rightarrow> True | Some was \<Rightarrow> \<not> sameUpstreams was ups) next) @
     map fst (filter (\<lambda>(s, _). map_of next s = None) prev)"

text \<open>\<open>installConditional\<close> in the two steps that other goroutines can see: the table goes onto the
  forwarder, then the cache is purged.  \<open>SetConditional\<close> does not fail.\<close>

definition purge_changed :: "routes \<Rightarrow> routes \<Rightarrow> Cache \<Rightarrow> Cache" where
  "purge_changed prev next c = (case changedSuffixes prev next of [] \<Rightarrow> c | ch \<Rightarrow> snd (Purge ch c))"

definition installConditional ::
  "dns_lib \<Rightarrow> ip6_text \<Rightarrow> index \<Rightarrow> Forwarder option \<Rightarrow> routes \<times> Cache option \<Rightarrow> Forwarder option \<times> routes \<times> Cache option" where
  "installConditional L T snap f s =
     (case f of
        None \<Rightarrow> (None, s)
      | Some f \<Rightarrow>
          let (prev, c) = s; next = conditionalRoutes L T snap
          in (Some (SetConditional next f), next, map_option (purge_changed prev next) c))"

section \<open>Settings\<close>

definition getSetting :: "reading \<Rightarrow> string \<Rightarrow> string" where
  "getSetting rd key = (case rd key of Some (Some v) \<Rightarrow> v | _ \<Rightarrow> [])"

definition settingValue :: "reading \<Rightarrow> string \<Rightarrow> string option" where
  "settingValue rd key = map_option (\<lambda>v. case v of None \<Rightarrow> [] | Some v \<Rightarrow> v) (rd key)"

text \<open>\<open>GetInt\<close> of the store and the fallback of \<open>getInt\<close>.\<close>

definition GetInt :: "reading \<Rightarrow> string \<Rightarrow> int option" where
  "GetInt rd key = (case rd key of Some (Some v) \<Rightarrow> undec_int64 v | _ \<Rightarrow> None)"

definition getInt :: "reading \<Rightarrow> string \<Rightarrow> int \<Rightarrow> int" where
  "getInt rd key fallback = (case GetInt rd key of None \<Rightarrow> fallback | Some v \<Rightarrow> v)"

section \<open>The forwarder of the stored upstreams\<close>

datatype build_err = Unknown_strategy string | Bad_upstreams ParseError

definition buildForwarder :: "url_parser \<Rightarrow> ip6_text \<Rightarrow> string list \<Rightarrow> string \<Rightarrow> build_err + Forwarder" where
  "buildForwarder P T upstreams strategy =
     (if strategy \<notin> {[], ''failover'', ''fastest'', ''race''} then Inl (Unknown_strategy strategy)
      else case parseEntries P T upstreams of
             Inl e \<Rightarrow> Inl (Bad_upstreams e)
           | Inr us \<Rightarrow>
               map_sum Unknown_strategy id
                 (NewForwarder \<lparr>cf_Upstreams = us, cf_Strategy = strategy, cf_Timeout = 0, cf_Conditional = []\<rparr>))"

definition namesEncryptedScheme :: "string \<Rightarrow> bool" where
  "namesEncryptedScheme raw =
     list_ex (\<lambda>entry. let e = ToLower (TrimSpace entry)
                      in HasPrefix e (scheme_text SchemeDoT @ ''://'') \<or> HasPrefix e (scheme_text SchemeDoH @ ''://''))
       (Split raw CHR '','')"

definition default_upstreams :: string where
  "default_upstreams = ''1.1.1.1:53,1.0.0.1:53,9.9.9.9:53''"

text \<open>The fallbacks, from the stored value down: keep what runs, retry with the default strategy, use
  the default resolvers and say so when that gives up an encrypted transport.\<close>

datatype rung = Keep | Build Forwarder "build_err option" | Unset

definition forwarder_ladder :: "url_parser \<Rightarrow> ip6_text \<Rightarrow> bool \<Rightarrow> string \<Rightarrow> string \<Rightarrow> rung" where
  "forwarder_ladder P T isSet raw strategy =
     (case buildForwarder P T (Split raw CHR '','') strategy of
        Inr f \<Rightarrow> Build f None
      | Inl _ \<Rightarrow>
          if isSet then Keep
          else case buildForwarder P T (Split raw CHR '','') ''race'' of
                 Inr f \<Rightarrow> Build f None
               | Inl e \<Rightarrow>
                   (case buildForwarder P T (Split default_upstreams CHR '','') ''race'' of
                      Inr f \<Rightarrow> Build f (if namesEncryptedScheme raw then Some e else None)
                    | Inl _ \<Rightarrow> Unset))"

section \<open>The pass over the live components\<close>

record live =
  lv_engine :: Engine
  lv_registry :: Registry
  lv_snapshot :: index
  lv_logger :: "Logger option"
  lv_fwd :: swappable
  lv_cache :: "Cache option"
  lv_routes :: routes
  lv_downgrade :: "build_err option"

text \<open>What a pass reads of the store: settings, the client tables, the zones and their records.\<close>

record 'z readings =
  rd_settings :: reading
  rd_clients :: "'z db_scheme option"
  rd_zones :: "string + zone_row list"
  rd_records :: "string + (int \<Rightarrow> zone_record list)"

definition UpstreamDowngrade :: "live \<Rightarrow> build_err option" where
  "UpstreamDowngrade a = lv_downgrade a"

definition reload_zones :: "('z, 'x) readings_scheme \<Rightarrow> live \<Rightarrow> string option \<times> live" where
  "reload_zones R a =
     (case Reload (rd_zones R) (rd_records R) (lv_snapshot a) of (e, snap) \<Rightarrow> (e, a\<lparr>lv_snapshot := snap\<rparr>))"

text \<open>The components that are reloaded before the forwarder.\<close>

definition apply_reloads :: "ip6_text \<Rightarrow> 'z readings \<Rightarrow> live \<Rightarrow> live" where
  "apply_reloads T R a =
     (let a = (case settingValue (rd_settings R) ''blocking.mode'' of
                 None \<Rightarrow> a
               | Some mode \<Rightarrow>
                   a\<lparr>lv_engine := SetBlocking mode (word_of_int (getInt (rd_settings R) ''blocking.ttl'' 30)) (lv_engine a)\<rparr>);
          a = (case rd_clients R of None \<Rightarrow> a | Some d \<Rightarrow> a\<lparr>lv_registry := ReloadClients T d (lv_registry a)\<rparr>);
          a = snd (reload_zones R a)
      in case lv_logger a of
           None \<Rightarrow> a
         | Some l \<Rightarrow>
             (case settingValue (rd_settings R) ''qlog.privacy'' of
                None \<Rightarrow> a
              | Some p \<Rightarrow> a\<lparr>lv_logger := Some (SetPrivacy p l)\<rparr>))"

text \<open>The installation of the table on a forwarder, within the application's state.\<close>

definition install_on :: "dns_lib \<Rightarrow> ip6_text \<Rightarrow> Forwarder option \<Rightarrow> live \<Rightarrow> Forwarder option \<times> live" where
  "install_on L T f a =
     (case installConditional L T (lv_snapshot a) f (lv_routes a, lv_cache a) of
        (f, rs, c) \<Rightarrow> (f, a\<lparr>lv_routes := rs, lv_cache := c\<rparr>))"

definition install_live :: "dns_lib \<Rightarrow> ip6_text \<Rightarrow> live \<Rightarrow> live" where
  "install_live L T a =
     (case install_on L T (sw_f (lv_fwd a)) a of (f, a) \<Rightarrow> a\<lparr>lv_fwd := (lv_fwd a)\<lparr>sw_f := f\<rparr>\<rparr>)"

text \<open>\<open>applySettings\<close> up to the point where the new forwarder carries its routes and the cache is purged,
  and the rest of it: the swap, the record of a downgrade and the closing of the old forwarder, which is
  returned.  In between the old forwarder still answers queries.\<close>

datatype pending = Done | Swap Forwarder "build_err option"

definition apply_prepare :: "dns_lib \<Rightarrow> url_parser \<Rightarrow> ip6_text \<Rightarrow> 'z readings \<Rightarrow> live \<Rightarrow> pending \<times> live" where
  "apply_prepare L P T R a =
     (let a = apply_reloads T R a
      in case forwarder_ladder P T (sw_has (lv_fwd a)) (getSetting (rd_settings R) ''upstreams'')
                (getSetting (rd_settings R) ''upstream.strategy'') of
           Keep \<Rightarrow> (Done, install_live L T a)
         | Unset \<Rightarrow> (Done, a)
         | Build f d \<Rightarrow> (case install_on L T (Some f) a of (f', a) \<Rightarrow> (Swap (the f') d, a)))"

definition apply_swap ::
  "('w, 'x) net_scheme \<Rightarrow> pending \<times> live \<Rightarrow> Forwarder option \<times> live" where
  "apply_swap N s =
     (case s of
        (Done, a) \<Rightarrow> (None, a)
      | (Swap f d, a) \<Rightarrow>
          (case sw_set f (lv_fwd a) of
             (old, sw) \<Rightarrow>
               (map_option (\<lambda>o'. snd (CloseForwarder N o')) old, a\<lparr>lv_fwd := sw, lv_downgrade := d\<rparr>)))"

text \<open>The listeners are reconciled on every way out.\<close>

definition applySettings ::
  "dns_lib \<Rightarrow> ('w, 'x) net_scheme \<Rightarrow> url_parser \<Rightarrow> ip6_text \<Rightarrow> host \<Rightarrow> 'z readings \<Rightarrow> live \<times> servingReconciler \<times> sockets
   \<Rightarrow> Forwarder option \<times> live \<times> servingReconciler \<times> sockets" where
  "applySettings L N P T H R s =
     (case s of (a, st) \<Rightarrow>
        (case apply_swap N (apply_prepare L P T R a) of
           (old, a) \<Rightarrow> (old, a, reconcileServing H (rd_settings R) st)))"

definition ReloadZones :: "dns_lib \<Rightarrow> ip6_text \<Rightarrow> 'z readings \<Rightarrow> live \<Rightarrow> string option \<times> live" where
  "ReloadZones L T R a =
     (case reload_zones R a of
        (Some e, _) \<Rightarrow> (Some e, a)
      | (None, a) \<Rightarrow> (None, install_live L T a))"

section \<open>Lookups of the zones' own host names\<close>

definition own_query :: "dns_lib \<Rightarrow> u16 \<Rightarrow> string \<Rightarrow> u16 \<Rightarrow> msg" where
  "own_query L mid host qtype =
     SetEdns0 L \<lparr>m_id = mid, m_response = False, m_opcode = 0, m_aa = False, m_tc = False, m_rd = True,
       m_rcode = 0, m_compress = False, m_question = [\<lparr>q_name = Fqdn L host, q_type = qtype, q_class = ClassINET\<rparr>],
       m_answer = [], m_ns = [], m_extra = []\<rparr> 1232 False"

definition answer_addrs :: "rr list \<Rightarrow> addr list" where
  "answer_addrs answer =
     List.map_filter
       (\<lambda>r. case rr_data r of
              RD_A ip \<Rightarrow> AddrFromSlice (To4 ip)
            | RD_AAAA ip \<Rightarrow> AddrFromSlice ip
            | _ \<Rightarrow> None) answer"

text \<open>\<open>ask\<close>: no addresses stand for its error.  A panic of the handler is not caught on this way and is
  \<open>None\<close>.\<close>

definition lookup_ask :: "dns_lib \<Rightarrow> 's handler \<Rightarrow> u16 \<Rightarrow> string \<Rightarrow> u16 \<Rightarrow> 's \<Rightarrow> addr list option \<times> 's" where
  "lookup_ask L h mid host qtype s =
     (case h \<lparr>rq_msg = own_query L mid host qtype, rq_ip = NoAddr,
              rq_client = \<lparr>ci_id = 0, ci_name = [], ci_group = 0, ci_groupname = []\<rparr>\<rparr> s of
        (Panicked, s) \<Rightarrow> (None, s)
      | (Returned resp err, s) \<Rightarrow>
          (Some (case (resp, err) of
             (Some rs, None) \<Rightarrow>
               (case rs_msg rs of
                  None \<Rightarrow> []
                | Some m \<Rightarrow> if m_rcode m \<noteq> RcodeSuccess then [] else answer_addrs (m_answer m))
           | _ \<Rightarrow> []), s))"

text \<open>The two questions run at the same time in the code; here one after the other.\<close>

fun lookup_all :: "dns_lib \<Rightarrow> 's handler \<Rightarrow> string \<Rightarrow> (u16 \<times> u16) list \<Rightarrow> 's \<Rightarrow> addr list option \<times> 's" where
  "lookup_all L h host [] s = (Some [], s)"
| "lookup_all L h host ((mid, qt) # qs) s =
     (case lookup_ask L h mid host qt s of
        (None, s) \<Rightarrow> (None, s)
      | (Some as, s) \<Rightarrow> (case lookup_all L h host qs s of (bs, s) \<Rightarrow> (map_option ((@) as) bs, s)))"

definition qtypes_of :: "string \<Rightarrow> u16 list option" where
  "qtypes_of network =
     (if network = ''ip'' then Some [TypeA, TypeAAAA]
      else if network = ''ip4'' then Some [TypeA]
      else if network = ''ip6'' then Some [TypeAAAA]
      else None)"

text \<open>The inner option is the error, the outer one a panic.\<close>

definition LookupNetIP :: "dns_lib \<Rightarrow> 's handler \<Rightarrow> u16 list \<Rightarrow> string \<Rightarrow> string \<Rightarrow> 's \<Rightarrow> addr list option option \<times> 's" where
  "LookupNetIP L h ids network host s =
     (case qtypes_of network of
        None \<Rightarrow> (Some None, s)
      | Some qts \<Rightarrow>
          (case lookup_all L h host (zip ids qts) s of
             (None, s) \<Rightarrow> (None, s)
           | (Some as, s) \<Rightarrow> (Some (if as = [] then None else Some as), s)))"

end
