(* ===== verification/Route_Cache.thy ===== *)
theory Route_Cache
  imports App_Settings
begin

text \<open>
  Reloading zones while queries run: the routing table changes under the cache.  A cached answer does
  not record which route produced it, so the reload must drop the answers of the suffixes it reroutes,
  and must not let lookups in flight put them back.  The steps of queries and reloads interleave freely
  here; the purge comes after the table, and the cache's epoch refuses what was asked before it.
\<close>

section \<open>What a change of the table leaves alone\<close>

lemma sameUpstreams_mset: "sameUpstreams a b \<longleftrightarrow> mset a = mset b"
proof
  assume "sameUpstreams a b"
  then have "mset (sort a) = mset (sort b)" by (simp only: sameUpstreams_def)
  then show "mset a = mset b" by simp
next
  assume m: "mset a = mset b"
  then have "sort a = sort b" by (intro properties_for_sort) simp_all
  with mset_eq_length [OF m] show "sameUpstreams a b" by (simp add: sameUpstreams_def)
qed

definition good_routes :: "routes \<Rightarrow> bool" where
  "good_routes R \<longleftrightarrow> distinct (map (normalize_d \<circ> fst) R) \<and> (\<forall>r \<in> set R. normalize_d (fst r) \<noteq> [])"

lemma good_routes_keys: "good_routes R \<Longrightarrow> distinct (map fst R)"
  by (metis good_routes_def distinct_map map_map)

text \<open>The forwarder sends names where the table says, and to its defaults otherwise.\<close>

definition default_addrs :: "Forwarder \<Rightarrow> string list" where
  "default_addrs f = map (\<lambda>u. u_addr (f_ups f ! u)) (f_def f)"

definition routed :: "routes \<Rightarrow> Forwarder \<Rightarrow> bool" where
  "routed R f \<longleftrightarrow> (\<forall>q suf as. best_route R q (suf, as) \<longrightarrow> route_addrs f q = as) \<and>
     (\<forall>q. (\<forall>r \<in> set R. \<not> covers (normalize_d (fst r)) (normalize_d q)) \<longrightarrow> route_addrs f q = default_addrs f)"

lemma SetConditional_routed: "wf_fwd f \<Longrightarrow> good_routes R \<Longrightarrow> routed R (SetConditional R f)"
  using SetConditional_best [of f R] SetConditional_default [of f R]
  by (auto simp: routed_def good_routes_def route_addrs_def default_addrs_def)

lemma SetConditional_default_addrs:
  assumes "wf_fwd f"
  shows "default_addrs (SetConditional R f) = default_addrs f"
proof (cases "R = []")
  case True
  then show ?thesis
    using wf_fwdD(1) [OF assms] by (auto simp: default_addrs_def SetConditional_def closeOrphans_nth)
next
  case False
  from SetConditional_swapped [OF assms False] obtain b where "swapped f R (SetConditional R f) b" by blast
  from swappedD(5) [OF this] wf_fwdD(1) [OF assms] show ?thesis by (auto simp: default_addrs_def)
qed

lemma best_or_none:
  obtains r where "best_route R q r" | "\<forall>r \<in> set R. \<not> covers (normalize_d (fst r)) (normalize_d q)"
proof (cases "Match (map (normalize_d \<circ> fst) R) q")
  case None
  then show thesis using that(2) by (auto simp: dset.match_None)
next
  case (Some m)
  from dset.match_sound [OF Some] obtain r where r: "r \<in> set R" "m = normalize_d (fst r)" "covers m (normalize_d q)" by auto
  have "covers (normalize_d (fst r')) m" if "r' \<in> set R" "covers (normalize_d (fst r')) (normalize_d q)" for r'
    using dset.match_longest [OF Some _ that(2)] that(1) by auto
  with r that(1) [of r] show thesis by (auto simp: best_route_def)
qed

text \<open>A suffix that did not change is in both tables, with the same addresses up to their order.\<close>

lemma unchanged_suffix:
  shows "s \<notin> set (changedSuffixes R R') \<Longrightarrow> (s, as) \<in> set R' \<Longrightarrow> \<exists>was. (s, was) \<in> set R \<and> mset was = mset as"
    and "s \<notin> set (changedSuffixes R R') \<Longrightarrow> (s, as) \<in> set R \<Longrightarrow> \<exists>new. (s, new) \<in> set R'"
proof -
  assume "s \<notin> set (changedSuffixes R R')"
  then have c: "\<And>ups. (s, ups) \<in> set R' \<Longrightarrow> \<exists>was. map_of R s = Some was \<and> mset was = mset ups"
    "\<And>ups. (s, ups) \<in> set R \<Longrightarrow> map_of R' s \<noteq> None"
    by (force simp: changedSuffixes_def sameUpstreams_mset split: option.splits)+
  show "\<exists>was. (s, was) \<in> set R \<and> mset was = mset as" if "(s, as) \<in> set R'" using c(1) [OF that] map_of_SomeD by metis
  show "\<exists>new. (s, new) \<in> set R'" if "(s, as) \<in> set R" using c(2) [OF that] map_of_SomeD by (metis not_None_eq)
qed

lemma route_unchanged:
  assumes "routed R f" "routed R' f'" "default_addrs f' = default_addrs f"
    and out: "\<forall>s \<in> set (changedSuffixes R R'). \<not> covers (normalize_d s) (normalize_d q)"
  shows "mset (route_addrs f' q) = mset (route_addrs f q)"
proof (rule best_or_none [of R' q])
  fix r
  assume best: "best_route R' q r"
  obtain s as where r: "r = (s, as)" by (cases r)
  with best have s: "(s, as) \<in> set R'" "covers (normalize_d s) (normalize_d q)" by (auto simp: best_route_def)
  with unchanged_suffix(1) out obtain was where was: "(s, was) \<in> set R" "mset was = mset as" by blast
  have "best_route R q (s, was)"
    unfolding best_route_def fst_conv
  proof (intro conjI ballI impI)
    fix r'
    assume r': "r' \<in> set R" "covers (normalize_d (fst r')) (normalize_d q)"
    then obtain new where "(fst r', new) \<in> set R'"
      using unchanged_suffix(2) [of "fst r'" R R' "snd r'"] out by auto
    with best r r'(2) show "covers (normalize_d (fst r')) (normalize_d s)" by (force simp: best_route_def)
  qed (use was s in simp_all)
  then show ?thesis using assms(1,2) best r was(2) by (auto simp: routed_def)
next
  assume none: "\<forall>r \<in> set R'. \<not> covers (normalize_d (fst r)) (normalize_d q)"
  have "\<not> covers (normalize_d (fst r)) (normalize_d q)" if "r \<in> set R" for r
    using unchanged_suffix(2) [of "fst r" R R' "snd r"] out none that by fastforce
  with none assms(1-3) show ?thesis by (auto simp: routed_def)
qed

section \<open>Queries and reloads\<close>

text \<open>A lookup in flight has missed, or has asked and waits to store.  It carries the epoch it read, and,
  for the statements only, the number of purges before it and the addresses its name was sent to.\<close>

datatype flight =
    Missed request u64 nat
  | Asked request u64 nat "response option" "string option" "string list"

text \<open>\<open>sy_next\<close> is the table a reload has put on the forwarder before its purge; the mutex \<open>routeMu\<close> admits
  one at a time.  \<open>sy_src\<close> remembers the addresses a cached answer was asked of, \<open>sy_purges\<close> counts.\<close>

record 'w sys =
  sy_cache :: Cache
  sy_fwd :: Forwarder
  sy_net :: 'w
  sy_routes :: routes
  sy_next :: "routes option"
  sy_flight :: "flight list"
  sy_src :: "ckey \<Rightarrow> string list"
  sy_purges :: nat

text \<open>Names of real queries: no empty label in front, no second final dot.\<close>

definition plain_name :: "string \<Rightarrow> bool" where
  "plain_name n \<longleftrightarrow> normalize_d n = n \<and> \<not> HasPrefix n ''.''"

text \<open>An answer that \<open>store_answer\<close> really puts into the cache.\<close>

definition stores :: "Cache \<Rightarrow> u64 \<Rightarrow> response option \<Rightarrow> string option \<Rightarrow> bool" where
  "stores c ep resp err \<longleftrightarrow> c_epoch c = ep \<and> err = None \<and>
     (case resp of None \<Rightarrow> False
      | Some rs \<Rightarrow> rs_decision rs = DecisionForwarded \<and>
          (case rs_msg rs of None \<Rightarrow> False | Some m \<Rightarrow> respTTL (c_o c) m \<noteq> None))"

inductive sys_step :: "dns_lib \<Rightarrow> 'w net \<Rightarrow> 'w sys \<Rightarrow> 'w sys \<Rightarrow> bool" for L N where
  step_hit: "get now k (sy_cache s) = (fs, c) \<Longrightarrow> sys_step L N s (s\<lparr>sy_cache := c\<rparr>)"
| step_miss: "cacheable r \<Longrightarrow> plain_name (QName r) \<Longrightarrow> get now (QName r, QType r) (sy_cache s) = ((None, st), c) \<Longrightarrow>
    sys_step L N s (s\<lparr>sy_cache := c, sy_flight := Missed r (c_epoch (sy_cache s)) (sy_purges s) # sy_flight s\<rparr>)"
| step_ask: "Missed r ep n \<in> set (sy_flight s) \<Longrightarrow> Handler L N r (sy_fwd s, sy_net s) = (Returned resp err, f, w) \<Longrightarrow>
    sys_step L N s (s\<lparr>sy_fwd := f, sy_net := w,
      sy_flight := Asked r ep n resp err (route_addrs (sy_fwd s) (QName r)) # remove1 (Missed r ep n) (sy_flight s)\<rparr>)"
| step_store: "Asked r ep n resp err as \<in> set (sy_flight s) \<Longrightarrow>
    store_answer now (QName r, QType r) ep resp err (sy_cache s) = Some c \<Longrightarrow>
    sys_step L N s (s\<lparr>sy_cache := c, sy_flight := remove1 (Asked r ep n resp err as) (sy_flight s),
      sy_src := (if stores (sy_cache s) ep resp err then (sy_src s)((QName r, QType r) := as) else sy_src s)\<rparr>)"
| step_late: "late_result N m u (sy_fwd s, sy_net s) = (f, w) \<Longrightarrow> sys_step L N s (s\<lparr>sy_fwd := f, sy_net := w\<rparr>)"
| step_install: "sy_next s = None \<Longrightarrow> good_routes R \<Longrightarrow>
    sys_step L N s (s\<lparr>sy_fwd := SetConditional R (sy_fwd s), sy_next := Some R\<rparr>)"
| step_purge: "sy_next s = Some R \<Longrightarrow>
    sys_step L N s (s\<lparr>sy_cache := purge_changed (sy_routes s) R (sy_cache s), sy_routes := R, sy_next := None,
      sy_purges := sy_purges s + (if changedSuffixes (sy_routes s) R = [] then 0 else 1)\<rparr>)"

text \<open>The table on the forwarder, and whether an answer asked of \<open>as\<close> is one the present routes could give,
  or one that the purge under way will drop.\<close>

definition table :: "'w sys \<Rightarrow> routes" where
  "table s = (case sy_next s of None \<Rightarrow> sy_routes s | Some R \<Rightarrow> R)"

definition current :: "'w sys \<Rightarrow> string \<Rightarrow> string list \<Rightarrow> bool" where
  "current s q as \<longleftrightarrow> mset as = mset (route_addrs (sy_fwd s) q) \<or>
     (\<exists>R. sy_next s = Some R \<and> (\<exists>x \<in> set (changedSuffixes (sy_routes s) R). covers (normalize_d x) q))"

definition flight_ok :: "'w sys \<Rightarrow> flight \<Rightarrow> bool" where
  "flight_ok s x = (case x of
      Missed r ep n \<Rightarrow> plain_name (QName r) \<and> n \<le> sy_purges s \<and> ep = of_nat n
    | Asked r ep n resp err as \<Rightarrow> plain_name (QName r) \<and> n \<le> sy_purges s \<and> ep = of_nat n \<and>
        (n = sy_purges s \<longrightarrow> current s (QName r) as))"

definition sys_ok :: "'w sys \<Rightarrow> bool" where
  "sys_ok s \<longleftrightarrow> cache_ok (sy_cache s) \<and> c_epoch (sy_cache s) = of_nat (sy_purges s) \<and> wf_fwd (sy_fwd s) \<and>
     good_routes (sy_routes s) \<and> good_routes (table s) \<and> routed (table s) (sy_fwd s) \<and>
     (\<forall>x \<in> set (sy_flight s). flight_ok s x) \<and>
     (\<forall>k e. map_of (c_entries (sy_cache s)) k = Some e \<longrightarrow> plain_name (fst k) \<and> current s (fst k) (sy_src s k))"

lemma sys_okD:
  assumes "sys_ok s"
  shows "cache_ok (sy_cache s)" "c_epoch (sy_cache s) = of_nat (sy_purges s)" "wf_fwd (sy_fwd s)"
    "good_routes (sy_routes s)" "good_routes (table s)" "routed (table s) (sy_fwd s)"
    "x \<in> set (sy_flight s) \<Longrightarrow> flight_ok s x"
    "map_of (c_entries (sy_cache s)) k = Some e \<Longrightarrow> plain_name (fst k)"
    "map_of (c_entries (sy_cache s)) k = Some e \<Longrightarrow> current s (fst k) (sy_src s k)"
  using assms unfolding sys_ok_def by blast+

lemma plain_nameD: "plain_name n \<Longrightarrow> normalize_d n = n" "plain_name n \<Longrightarrow> n \<noteq> ''.'' @ s"
  by (auto simp: plain_name_def HasPrefix_def)

text \<open>What store_answer does.\<close>

lemma store_answer_cases:
  assumes ok: "cache_ok c" and st: "store_answer now k ep resp err c = Some c'"
  shows "cache_ok c' \<and> c_o c' = c_o c \<and> c_epoch c' = c_epoch c \<and>
    (if stores c ep resp err
     then \<forall>j e. j \<noteq> k \<longrightarrow> map_of (c_entries c') j = Some e \<longrightarrow> map_of (c_entries c) j = Some e
     else c' = c)"
proof (cases "\<exists>rs m ttl. err = None \<and> resp = Some rs \<and> rs_msg rs = Some m \<and> rs_decision rs = DecisionForwarded \<and>
    respTTL (c_o c) m = Some ttl")
  case True
  then obtain rs m ttl where t: "err = None" "resp = Some rs" "rs_msg rs = Some m" "rs_decision rs = DecisionForwarded"
    "respTTL (c_o c) m = Some ttl" by blast
  then have "put now k m ttl ep c = Some c'" "stores c ep resp err \<longleftrightarrow> ep = c_epoch c"
    using st by (auto simp: store_answer_def stores_def)
  with put_total [OF ok, of now k m ttl ep] show ?thesis by auto
next
  case False
  then have "c' = c" "\<not> stores c ep resp err"
    using st by (auto simp: store_answer_def stores_def split: option.splits if_splits)
  with ok show ?thesis by simp
qed

text \<open>Queries do not move the routes.\<close>

definition same_routes :: "Forwarder \<Rightarrow> Forwarder \<Rightarrow> bool" where
  "same_routes f g \<longleftrightarrow> wf_fwd g \<and> route_addrs g = route_addrs f \<and> default_addrs g = default_addrs f"

lemma shape_same_routes:
  assumes "same_shape f g" "wf_fwd f" "wf_fwd g"
  shows "same_routes f g"
proof -
  have "f_def g = f_def f" using assms(1) by (simp add: same_shape_def)
  then have "default_addrs g = default_addrs f"
    using same_shape_nth(1) [OF assms(1)] wf_fwdD(1) [OF assms(2)] by (simp add: default_addrs_def)
  with shape_route_addrs [OF assms(1,2)] assms(3) show ?thesis by (auto simp: same_routes_def)
qed

lemma Handler_same_routes:
  assumes "Handler L N r (f, w) = (out, g, w')" "wf_fwd f"
  shows "same_routes f g"
proof -
  obtain c c' h where h: "same_shape (f\<lparr>f_failCache := c\<rparr>) h" "g = h\<lparr>f_failCache := c'\<rparr>" "wf_fwd f \<longrightarrow> wf_fwd h"
    using Handler_shape [OF assms(1)] by blast
  have "same_routes (f\<lparr>f_failCache := c\<rparr>) h" using h assms(2) by (intro shape_same_routes) (simp_all add: failCache_inv)
  moreover have "route_addrs (x\<lparr>f_failCache := y\<rparr>) = route_addrs x" "default_addrs (x\<lparr>f_failCache := y\<rparr>) = default_addrs x" for x y
    by (simp_all add: fun_eq_iff route_addrs_def default_addrs_def)
  ultimately show ?thesis by (simp add: same_routes_def h(2) failCache_inv)
qed

lemma late_result_same_routes:
  assumes "late_result N m u (f, w) = (g, w')" "wf_fwd f"
  shows "same_routes f g"
proof -
  obtain x where x: "exchange N m u (f, w) = (x, g, w')" using assms(1) by (metis late_result_def surj_pair snd_conv)
  show ?thesis
    using shape.exchange_rel [OF x] kept.exchange_rel [OF x] assms(2) by (auto intro: shape_same_routes)
qed

text \<open>A step that keeps the tables and the routes keeps what is current.\<close>

lemma current_frame:
  assumes "sy_routes s' = sy_routes s" "sy_next s' = sy_next s" "same_routes (sy_fwd s) (sy_fwd s')"
  shows "current s' = current s" "table s' = table s" "routed R (sy_fwd s') = routed R (sy_fwd s)"
  using assms by (simp_all add: fun_eq_iff current_def table_def routed_def same_routes_def split: option.split)

lemma sys_ok_frame:
  assumes ok: "sys_ok s" and s': "sy_routes s' = sy_routes s" "sy_next s' = sy_next s" "same_routes (sy_fwd s) (sy_fwd s')"
      "sy_purges s' = sy_purges s" "cache_ok (sy_cache s')" "c_epoch (sy_cache s') = c_epoch (sy_cache s)"
    and fl: "\<And>x. x \<in> set (sy_flight s') \<Longrightarrow> flight_ok s x"
    and en: "\<And>k e. map_of (c_entries (sy_cache s')) k = Some e \<Longrightarrow> plain_name (fst k) \<and> current s (fst k) (sy_src s' k)"
  shows "sys_ok s'"
proof -
  note c = current_frame [OF s'(1-3)]
  have "flight_ok s' = flight_ok s" by (simp add: fun_eq_iff flight_ok_def c(1) s'(4) split: flight.split)
  then show ?thesis
    using sys_okD(2,4-6) [OF ok] s' fl en unfolding sys_ok_def c by (simp add: same_routes_def)
qed

lemma same_routes_self [simp]: "wf_fwd f \<Longrightarrow> same_routes f f"
  by (simp add: same_routes_def)

lemma step_install_ok:
  assumes ok: "sys_ok s" and n: "sy_next s = None" and R: "good_routes R"
  shows "sys_ok (s\<lparr>sy_fwd := SetConditional R (sy_fwd s), sy_next := Some R\<rparr>)"
proof -
  let ?s = "s\<lparr>sy_fwd := SetConditional R (sy_fwd s), sy_next := Some R\<rparr>"
  note D = sys_okD [OF ok]
  have r: "routed (sy_routes s) (sy_fwd s)" using D(6) n by (simp add: table_def)
  have keep: "current ?s q as" if "current s q as" "plain_name q" for q as
  proof (cases "\<exists>x \<in> set (changedSuffixes (sy_routes s) R). covers (normalize_d x) q")
    case True
    then show ?thesis by (simp add: current_def)
  next
    case False
    have "mset (route_addrs (SetConditional R (sy_fwd s)) q) = mset (route_addrs (sy_fwd s) q)"
      by (rule route_unchanged [OF r SetConditional_routed [OF D(3) R] SetConditional_default_addrs [OF D(3)]])
        (use False that(2) in \<open>simp add: plain_nameD\<close>)
    with that(1) n show ?thesis by (simp add: current_def)
  qed
  have "flight_ok ?s x" if "x \<in> set (sy_flight s)" for x
    using D(7) [OF that] keep by (auto simp: flight_ok_def split: flight.splits)
  moreover have "plain_name (fst k) \<and> current ?s (fst k) (sy_src s k)" if "map_of (c_entries (sy_cache s)) k = Some e" for k e
    using D(8,9) [OF that] keep by blast
  ultimately show ?thesis
    using D(1-4) R SetConditional_wf [OF D(3)] SetConditional_routed [OF D(3) R] by (simp add: sys_ok_def table_def)
qed

lemma purge_names_nil:
  assumes "good_routes R" "good_routes R'"
  shows "purge_names (changedSuffixes R R') = [] \<longleftrightarrow> changedSuffixes R R' = []"
proof -
  have "normalize_d x \<noteq> []" if "x \<in> set (changedSuffixes R R')" for x
    using that assms by (auto simp: changedSuffixes_def good_routes_def)
  then show ?thesis by (auto simp: purge_names_def normalize_d_def filter_empty_conv)
qed

lemma purge_changed_spec:
  assumes ok: "cache_ok c" and R: "good_routes R" "good_routes R'"
  shows "cache_ok (purge_changed R R' c) \<and>
    c_epoch (purge_changed R R' c) = c_epoch c + (if changedSuffixes R R' = [] then 0 else 1) \<and>
    (\<forall>k e. map_of (c_entries (purge_changed R R' c)) k = Some e \<longrightarrow> map_of (c_entries c) k = Some e \<and>
       (plain_name (fst k) \<longrightarrow> (\<forall>x \<in> set (changedSuffixes R R'). \<not> covers (normalize_d x) (fst k))))"
proof (cases "changedSuffixes R R'")
  case Nil
  with ok show ?thesis by (simp add: purge_changed_def)
next
  case (Cons y ys)
  let ?ch = "changedSuffixes R R'"
  obtain n c' where p: "Purge ?ch c = (n, c')" by (metis surj_pair)
  note P = Purge_spec [OF ok p]
  have c': "purge_changed R R' c = c'" using p Cons by (simp add: purge_changed_def)
  have "map_of (c_entries c) k = Some e \<and> (plain_name (fst k) \<longrightarrow> (\<forall>x \<in> set ?ch. \<not> covers (normalize_d x) (fst k)))"
    if "map_of (c_entries c') k = Some e" for k e
  proof -
    have d: "distinct (map fst (c_entries c))" using ok by (simp add: cache_ok_def linked_def)
    from map_of_SomeD [OF that] P have m: "(k, e) \<in> set (c_entries c)" "\<not> nameUnder (fst k) (purge_names ?ch)" by auto
    have "\<not> covers (normalize_d x) (fst k)" if "plain_name (fst k)" "x \<in> set ?ch" for x
    proof -
      have "normalize_d x \<noteq> []" using that(2) R by (auto simp: changedSuffixes_def good_routes_def)
      then have "normalize_d x \<in> set (purge_names ?ch)" using that(2) by (auto simp: purge_names_def normalize_d_def)
      with m(2) plain_nameD(2) [OF that(1)] show ?thesis by (auto simp: nameUnder_covers)
    qed
    with m(1) d show ?thesis by simp
  qed
  with P purge_names_nil [OF R] Cons show ?thesis unfolding c' by simp
qed

lemma step_purge_ok:
  assumes ok: "sys_ok s" and n: "sy_next s = Some R"
  shows "sys_ok (s\<lparr>sy_cache := purge_changed (sy_routes s) R (sy_cache s), sy_routes := R, sy_next := None,
      sy_purges := sy_purges s + (if changedSuffixes (sy_routes s) R = [] then 0 else 1)\<rparr>)" (is "sys_ok ?s")
proof -
  note D = sys_okD [OF ok]
  have R: "good_routes R" "routed R (sy_fwd s)" using D(5,6) n by (simp_all add: table_def)
  note P = purge_changed_spec [OF D(1,4) R(1)]
  have keep: "current ?s q as"
    if "current s q as" "\<forall>x \<in> set (changedSuffixes (sy_routes s) R). \<not> covers (normalize_d x) q" for q as
    using that n by (auto simp: current_def)
  have "flight_ok ?s x" if "x \<in> set (sy_flight s)" for x
    using D(7) [OF that] keep by (auto simp: flight_ok_def split: flight.splits)
  moreover have "plain_name (fst k) \<and> current ?s (fst k) (sy_src s k)" if "map_of (c_entries (sy_cache ?s)) k = Some e" for k e
  proof -
    have m: "map_of (c_entries (purge_changed (sy_routes s) R (sy_cache s))) k = Some e" using that by simp
    with P have e: "map_of (c_entries (sy_cache s)) k = Some e" by blast
    with D(8) have "plain_name (fst k)" by blast
    moreover have "\<forall>x \<in> set (changedSuffixes (sy_routes s) R). \<not> covers (normalize_d x) (fst k)" using P m calculation by blast
    ultimately show ?thesis using keep [OF D(9) [OF e]] by blast
  qed
  ultimately show ?thesis
    using P D(2,3) R by (simp add: sys_ok_def table_def)
qed

lemma step_store_ok:
  assumes ok: "sys_ok s" and fl: "Asked r ep n resp err as \<in> set (sy_flight s)" and small: "sy_purges s < 2 ^ 64"
    and st: "store_answer now (QName r, QType r) ep resp err (sy_cache s) = Some c"
  shows "sys_ok (s\<lparr>sy_cache := c, sy_flight := remove1 (Asked r ep n resp err as) (sy_flight s),
      sy_src := (if stores (sy_cache s) ep resp err then (sy_src s)((QName r, QType r) := as) else sy_src s)\<rparr>)" (is "sys_ok ?s")
proof -
  note D = sys_okD [OF ok]
  note C = store_answer_cases [OF D(1) st]
  have f: "plain_name (QName r)" "n \<le> sy_purges s" "ep = of_nat n" "n = sy_purges s \<longrightarrow> current s (QName r) as"
    using D(7) [OF fl] by (simp_all add: flight_ok_def)
  have "current s (QName r) as" if "stores (sy_cache s) ep resp err"
  proof -
    have "(of_nat n :: u64) = of_nat (sy_purges s)" using that D(2) f(3) by (simp add: stores_def)
    then have "unat (of_nat n :: u64) = unat (of_nat (sy_purges s) :: u64)" by simp
    then have "n = sy_purges s" using f(2) small by (simp add: unat_of_nat)
    with f(4) show ?thesis by blast
  qed
  then have "plain_name (fst k) \<and> current s (fst k) (sy_src ?s k)" if "map_of (c_entries c) k = Some e" for k e
  proof (cases "stores (sy_cache s) ep resp err \<and> k = (QName r, QType r)")
    case True
    with f(1) \<open>stores (sy_cache s) ep resp err \<Longrightarrow> current s (QName r) as\<close> show ?thesis by simp
  next
    case False
    with C that have e: "map_of (c_entries (sy_cache s)) k = Some e" by (metis (full_types))
    from False have "sy_src ?s k = sy_src s k" by auto
    with D(8,9) [OF e] show ?thesis by simp
  qed
  then show ?thesis
    using ok D C by (intro sys_ok_frame [OF ok]) (auto dest: in_set_remove1 [THEN iffD1, rotated] set_remove1_subset [THEN subsetD])
qed

lemma sys_ok_shrunk:
  assumes "sys_ok s" "map_of (c_entries c) k = Some e"
    and "\<forall>j e. map_of (c_entries c) j = Some e \<longrightarrow> map_of (c_entries (sy_cache s)) j = Some e"
  shows "plain_name (fst k) \<and> current s (fst k) (sy_src s k)"
  using sys_okD(8,9) [OF assms(1)] assms(2,3) by blast

lemma sys_ok_shrink:
  assumes ok: "sys_ok s" and s': "sy_routes s' = sy_routes s" "sy_next s' = sy_next s" "same_routes (sy_fwd s) (sy_fwd s')"
      "sy_purges s' = sy_purges s" "cache_ok (sy_cache s')" "c_epoch (sy_cache s') = c_epoch (sy_cache s)"
    and src: "sy_src s' = sy_src s"
    and sub: "\<forall>j e. map_of (c_entries (sy_cache s')) j = Some e \<longrightarrow> map_of (c_entries (sy_cache s)) j = Some e"
    and fl: "\<And>x. x \<in> set (sy_flight s') \<Longrightarrow> flight_ok s x"
  shows "sys_ok s'"
  by (rule sys_ok_frame [OF ok s' fl]) (simp_all only: src sys_ok_shrunk [OF ok _ sub])

lemma sys_step_ok:
  assumes "sys_step L N s s'" "sys_ok s" "sy_purges s < 2 ^ 64"
  shows "sys_ok s'"
proof -
  note D = sys_okD [OF assms(2)]
  from assms(1) show ?thesis
proof cases
  case (step_hit now k fs c)
  note G = get_ok [OF D(1) step_hit(2)]
  show ?thesis unfolding step_hit(1) by (rule sys_ok_shrink [OF assms(2)]) (use G D(3,7) in simp_all)
next
  case (step_miss r now st c)
  note G = get_ok [OF D(1) step_miss(4)]
  have "flight_ok s (Missed r (c_epoch (sy_cache s)) (sy_purges s))" using step_miss(3) D(2) by (simp add: flight_ok_def)
  then show ?thesis unfolding step_miss(1) by (intro sys_ok_shrink [OF assms(2)]) (use G D(3,7) in auto)
next
  case (step_ask r ep n resp err f w)
  have "flight_ok s (Asked r ep n resp err (route_addrs (sy_fwd s) (QName r)))"
    using D(7) [OF step_ask(2)] by (simp add: flight_ok_def current_def)
  moreover have "flight_ok s x" if "x \<in> set (remove1 (Missed r ep n) (sy_flight s))" for x
    using D(7) notin_set_remove1 that by metis
  ultimately show ?thesis
    unfolding step_ask(1) using Handler_same_routes [OF step_ask(3) D(3)] D(1)
    by (intro sys_ok_shrink [OF assms(2)]) auto
next
  case (step_store r ep n resp err as now c)
  with step_store_ok [OF assms(2) _ assms(3)] show ?thesis by blast
next
  case (step_late m u f w)
  show ?thesis unfolding step_late(1)
    by (rule sys_ok_shrink [OF assms(2)]) (use late_result_same_routes [OF step_late(2) D(3)] D(1,7) in simp_all)
next
  case (step_install R)
  with step_install_ok [OF assms(2)] show ?thesis by blast
next
  case (step_purge R)
  with step_purge_ok [OF assms(2)] show ?thesis by blast
qed
qed

lemma sys_step_purges: "sys_step L N s s' \<Longrightarrow> sy_purges s \<le> sy_purges s'"
  by (erule sys_step.cases) auto

lemma sys_steps_ok: "(sys_step L N)\<^sup>*\<^sup>* s s' \<Longrightarrow> sys_ok s \<Longrightarrow> sy_purges s' < 2 ^ 64 \<Longrightarrow> sys_ok s'"
proof (induction rule: rtranclp_induct)
  case (step s' s'')
  with sys_step_purges [OF step(2)] show ?case by (auto intro: sys_step_ok)
qed

text \<open>The tables the code installs are good ones when the zones have distinct names other than the root.\<close>

lemma conditionalRoutes_fold:
  "fst ` set (fold (\<lambda>z rs. case g z of None \<Rightarrow> rs | Some as \<Rightarrow> AList.update (h z) as rs) zs R) \<subseteq> h ` set zs \<union> fst ` set R"
  "distinct (map fst R) \<Longrightarrow> distinct (map fst (fold (\<lambda>z rs. case g z of None \<Rightarrow> rs | Some as \<Rightarrow> AList.update (h z) as rs) zs R))"
proof (induction zs arbitrary: R)
  case (Cons z zs)
  {
    case 1
    show ?case using Cons.IH(1) [of "case g z of None \<Rightarrow> R | Some as \<Rightarrow> AList.update (h z) as R"]
      by (auto simp: dom_update split: option.splits)
  next
    case 2
    then show ?case using Cons.IH(2) [of "case g z of None \<Rightarrow> R | Some as \<Rightarrow> AList.update (h z) as R"]
      by (auto simp: distinct_update split: option.splits)
  }
qed simp_all

lemma conditionalRoutes_good:
  assumes "distinct (map (\<lambda>z. normalize_d (z_name (row z))) (ix_zones snap))"
    and "\<forall>z \<in> set (ix_zones snap). normalize_d (z_name (row z)) \<noteq> []"
  shows "good_routes (conditionalRoutes L T snap)"
proof -
  let ?R = "conditionalRoutes L T snap"
  have k: "fst ` set ?R \<subseteq> (\<lambda>z. z_name (row z)) ` set (ix_zones snap)" "distinct (map fst ?R)"
    using conditionalRoutes_fold [where g = "zone_route L T" and h = "\<lambda>z. z_name (row z)" and zs = "ix_zones snap" and R = "[]"]
    by (simp_all add: conditionalRoutes_def)
  have "inj_on normalize_d ((\<lambda>z. z_name (row z)) ` set (ix_zones snap))"
    using assms(1) by (auto simp: distinct_map inj_on_def)
  with k have "distinct (map (normalize_d \<circ> fst) ?R)"
    by (metis (no_types, lifting) distinct_map inj_on_subset list.set_map map_map)
  moreover have "\<forall>r \<in> set ?R. normalize_d (fst r) \<noteq> []" using k(1) assms(2) by fastforce
  ultimately show ?thesis by (simp add: good_routes_def)
qed

text \<open>A server that has just started: nothing cached, nothing in flight, its table in place.\<close>

definition sys_start :: "'w sys \<Rightarrow> bool" where
  "sys_start s \<longleftrightarrow> cache_ok (sy_cache s) \<and> c_entries (sy_cache s) = [] \<and> c_epoch (sy_cache s) = of_nat (sy_purges s) \<and>
     wf_fwd (sy_fwd s) \<and> good_routes (sy_routes s) \<and> routed (sy_routes s) (sy_fwd s) \<and> sy_next s = None \<and> sy_flight s = []"

text \<open>C25: after a reload of the zones no answer of an old route is left.  However lookups, their answers and
  reloads interleave, whenever no reload is between its table and its purge, every cached answer was asked
  of the upstreams its name is routed to now: answers obtained from the public resolvers before a zone
  claimed the name, or from a zone that has released it, are gone, and none that was under way comes back.\<close>

theorem reload_drops_old_routes:
  assumes "sys_start s0" "(sys_step L N)\<^sup>*\<^sup>* s0 s" "sy_purges s < 2 ^ 64" "sy_next s = None"
    and "map_of (c_entries (sy_cache s)) k = Some e"
  shows "mset (sy_src s k) = mset (route_addrs (sy_fwd s) (fst k))"
proof -
  have "sys_ok s0" using assms(1) by (simp add: sys_start_def sys_ok_def table_def)
  from sys_okD(9) [OF sys_steps_ok [OF assms(2) this assms(3)] assms(5)] assms(4) show ?thesis by (simp add: current_def)
qed

section \<open>Examples\<close>

text \<open>A forwarder zone is added; a name below it is cached from the default resolvers before.\<close>

definition ex_zones :: "zone_row list" where
  "ex_zones = [ex_secondary_row\<lparr>z_type := ''forwarder'', z_name := ''corp.example'', z_forward_to := ''203.0.113.5'', z_enabled := True\<rparr>]"

definition ex_readings :: "unit readings" where
  "ex_readings = \<lparr>rd_settings = \<lambda>k. Some (map_of [(''upstreams'', ''192.0.2.1:53''), (''upstream.strategy'', ''failover'')] k),
     rd_clients = None, rd_zones = Inr ex_zones, rd_records = Inr (\<lambda>_. [])\<rparr>"

definition ex_plain :: Forwarder where
  "ex_plain = projr (buildForwarder (\<lambda>_. None) ex_text [''192.0.2.1:53''] ''failover'')"

definition ex_live :: live where
  "ex_live = \<lparr>lv_engine = ex_engine, lv_registry = NewRegistry, lv_snapshot = NewIndex [], lv_logger = None,
     lv_fwd = \<lparr>sw_f = Some ex_plain, sw_has = True\<rparr>, lv_cache = Some (New ex_opts), lv_routes = [], lv_downgrade = None\<rparr>"

text \<open>The window of \<open>applySettings\<close>: after its purge, and before its swap, a query misses and is answered
  by the old forwarder.\<close>

definition ex_window :: "outcome \<times> Cache \<times> Forwarder" where
  "ex_window =
     (let (p, a) = apply_prepare plain_lib (\<lambda>_. None) ex_text ex_readings ex_live;
          (out, c, sw, _) = pipeline_tail ex_env (\<lambda>_. 0) (ex_req ''www.corp.example.'') (the (lv_cache a), lv_fwd a, 5);
          (_, a) = apply_swap ex_net (p, a\<lparr>lv_cache := Some c, lv_fwd := sw\<rparr>)
      in (out, the (lv_cache a), the (sw_f (lv_fwd a))))"


text \<open>A run: a name is looked up, asked for and cached.\<close>

definition ex_sys :: "int sys" where
  "ex_sys = \<lparr>sy_cache = New ex_opts, sy_fwd = ex_plain, sy_net = 5, sy_routes = [], sy_next = None, sy_flight = [],
     sy_src = \<lambda>_. [], sy_purges = 0\<rparr>"

definition ex_asked :: "outcome \<times> Forwarder \<times> int" where
  "ex_asked = Handler plain_lib ex_net (ex_req ''www.corp.example.'') (ex_plain, 5)"

lemma ex_plain_wf: "wf_fwd ex_plain"
proof -
  have "\<exists>cfg. NewForwarder cfg = Inr ex_plain \<and> cf_Conditional cfg = []"
    by (intro exI [of _ "\<lparr>cf_Upstreams = [ex_upstream ''192.0.2.1:53''], cf_Strategy = ''failover'', cf_Timeout = 0, cf_Conditional = []\<rparr>"])
      code_simp
  then show ?thesis using NewForwarder_inv by (metis distinct.simps(1) list.simps(8))
qed

lemma ex_sys_start: "sys_start ex_sys"
proof -
  have "f_cond ex_plain = None" by code_simp
  then have "routed [] ex_plain" by (simp add: routed_def best_route_def route_addrs_def default_addrs_def pick_def)
  with ex_plain_wf show ?thesis
    by (simp add: sys_start_def ex_sys_def cache_ok_def linked_def New_def ex_opts_def good_routes_def)
qed

theorem reload_drops_old_routes_witness:
  "\<exists>s e. (sys_step plain_lib ex_net)\<^sup>*\<^sup>* ex_sys s \<and> map_of (c_entries (sy_cache s)) (''www.corp.example'', TypeA) = Some e \<and>
     mset (sy_src s (''www.corp.example'', TypeA)) = mset (route_addrs (sy_fwd s) ''www.corp.example'')"
proof -
  let ?r = "ex_req ''www.corp.example.''" and ?k = "(''www.corp.example'', TypeA)"
  have q: "QName ?r = ''www.corp.example'' \<and> QType ?r = TypeA \<and> cacheable ?r \<and> plain_name ''www.corp.example''" by code_simp
  have g: "get 0 ?k (New ex_opts) = ((None, None), New ex_opts)" by (simp add: get_def New_def ex_opts_def)
  have "case ex_asked of (Returned resp err, _) \<Rightarrow>
      (case store_answer 0 ?k 0 resp err (New ex_opts) of Some c \<Rightarrow> map_of (c_entries c) ?k \<noteq> None | None \<Rightarrow> False) | _ \<Rightarrow> False"
    by code_simp
  then obtain resp err f w c e where h: "Handler plain_lib ex_net ?r (ex_plain, 5) = (Returned resp err, f, w)"
      "store_answer 0 ?k 0 resp err (New ex_opts) = Some c" "map_of (c_entries c) ?k = Some e"
    unfolding ex_asked_def by (auto split: prod.splits outcome.splits option.splits)
  let ?a = "Asked ?r 0 0 resp err (route_addrs ex_plain ''www.corp.example'')"
  let ?s1 = "ex_sys\<lparr>sy_cache := New ex_opts, sy_flight := Missed ?r (c_epoch (sy_cache ex_sys)) (sy_purges ex_sys) # sy_flight ex_sys\<rparr>"
  have s1: "sys_step plain_lib ex_net ex_sys ?s1"
    by (rule step_miss [of ?r 0 ex_sys None]) (use q g in \<open>simp_all add: ex_sys_def\<close>)
  have ep: "c_epoch (New ex_opts) = 0" by (simp add: New_def Let_def)
  have "Missed ?r 0 0 \<in> set (sy_flight ?s1)" by (simp add: ex_sys_def ep)
  from step_ask [OF this, of plain_lib ex_net resp err f w] h(1) obtain s2 where s2: "sys_step plain_lib ex_net ?s1 s2"
    and s2': "?a \<in> set (sy_flight s2)" "sy_cache s2 = New ex_opts" "sy_fwd s2 = f" "sy_next s2 = None" "sy_purges s2 = 0"
    using q by (auto simp: ex_sys_def)
  from step_store [OF s2'(1), of 0 c plain_lib ex_net] h(2) s2' q obtain s3 where s3: "sys_step plain_lib ex_net s2 s3"
    and s3': "sy_cache s3 = c" "sy_next s3 = None" "sy_purges s3 = 0" by auto
  have run: "(sys_step plain_lib ex_net)\<^sup>*\<^sup>* ex_sys s3" using s1 s2 s3 by (meson converse_rtranclp_into_rtranclp rtranclp.rtrancl_refl)
  have "sy_purges s3 < 2 ^ 64" by (simp add: s3'(3))
  from reload_drops_old_routes [OF ex_sys_start run this s3'(2), of ?k e] h(3) s3'(1) run show ?thesis by auto
qed

end
