(* ===== verification/Settings_Props.thy ===== *)
theory Settings_Props
  imports Route_Cache
begin

text \<open>
  What a settings change may do to the upstreams: the server keeps a forwarder whatever is stored, and
  it never leaves an encrypted configuration for a plain one without saying so.
\<close>

section \<open>Schemes of the default upstreams\<close>

definition default_schemes :: "Forwarder \<Rightarrow> Scheme list" where
  "default_schemes f = map (\<lambda>u. us_Scheme (tr_up (u_ex (f_ups f ! u)))) (f_def f)"

lemma SetConditional_default_schemes:
  assumes "wf_fwd f"
  shows "default_schemes (SetConditional R f) = default_schemes f"
proof (cases "R = []")
  case True
  then show ?thesis
    using wf_fwdD(1) [OF assms] by (auto simp: default_schemes_def SetConditional_def closeOrphans_nth)
next
  case False
  from SetConditional_swapped [OF assms False] obtain b where "swapped f R (SetConditional R f) b" by blast
  from swappedD(5) [OF this] wf_fwdD(1) [OF assms] show ?thesis by (auto simp: default_schemes_def)
qed

lemma NewForwarder_schemes:
  assumes "NewForwarder cfg = Inr f" "cf_Conditional cfg = []"
  shows "default_schemes f = map us_Scheme (cf_Upstreams cfg)"
  using assms
  by (auto simp: NewForwarder_def Let_def SetConditional_def closeOrphans_def default_schemes_def newUp_def comp_def
      split: if_splits intro!: nth_equalityI)

lemma buildForwarder_Inr:
  assumes "buildForwarder P T ups st = Inr f"
  shows "\<exists>us. parseEntries P T ups = Inr us \<and> default_schemes f = map us_Scheme us \<and> wf_fwd f"
proof -
  obtain us where us: "parseEntries P T ups = Inr us" using assms by (auto simp: buildForwarder_def split: if_splits sum.splits)
  let ?cfg = "\<lparr>cf_Upstreams = us, cf_Strategy = st, cf_Timeout = 0, cf_Conditional = []\<rparr>"
  have n: "NewForwarder ?cfg = Inr f"
    using assms us by (cases "NewForwarder ?cfg") (auto simp: buildForwarder_def split: if_splits)
  with NewForwarder_schemes [OF n] NewForwarder_inv [OF n] us show ?thesis by simp
qed

section \<open>A stored encrypted scheme\<close>

text \<open>What is used of \<open>url.Parse\<close>: the scheme of a URL is the text before the colon, in lower case.\<close>

definition url_law :: "url_parser \<Rightarrow> bool" where
  "url_law P \<longleftrightarrow> (\<forall>s u sch. sch \<noteq> SchemePlain \<longrightarrow> HasPrefix (ToLower s) (scheme_text sch @ ''://'') \<longrightarrow> P s = Some u \<longrightarrow>
     url_Scheme u = scheme_text sch)"

lemma parse_all_mem:
  assumes "parse_all P T es = Inr us" "e \<in> set es" "TrimSpace e \<noteq> []"
  shows "\<exists>u \<in> set us. parseEntry P T (TrimSpace e) = Inr u"
  using assms
proof (induction es arbitrary: us)
  case (Cons x es)
  have "\<exists>vs. parse_all P T es = Inr vs \<and> set vs \<subseteq> set us \<and>
      (TrimSpace x \<noteq> [] \<longrightarrow> (\<exists>u \<in> set us. parseEntry P T (TrimSpace x) = Inr u))"
    using Cons.prems(1) by (cases "parse_all P T es") (auto split: if_splits sum.splits)
  with Cons show ?case by (cases "e = x") auto
qed simp

lemma IndexStr_finds: "IndexStr (xs @ t @ ys) t \<noteq> None"
proof (induction xs)
  case Nil
  have "HasPrefix (t @ ys) t" by (simp add: HasPrefix_prefix)
  then show ?case by (cases "t @ ys") (auto simp: HasPrefix_prefix)
qed auto

lemma ToLower_takes:
  assumes "HasPrefix (ToLower s) (p @ ''://'')"
  shows "\<exists>xs ys. s = xs @ ''://'' @ ys"
proof -
  obtain ys where "map lower_char s = p @ ''://'' @ ys" using assms by (auto simp: HasPrefix_prefix prefix_def ToLower_def)
  then obtain a b where s: "s = a @ b" "map lower_char b = ''://'' @ ys" by (auto simp: map_eq_append_conv)
  then obtain c1 c2 c3 b' where "b = c1 # c2 # c3 # b'" "lower_char c1 = CHR '':''" "lower_char c2 = CHR ''/''" "lower_char c3 = CHR ''/''"
    by (auto simp: map_eq_Cons_conv)
  with s show ?thesis by (auto simp: lower_char_fix)
qed

lemma encrypted_entry:
  assumes "url_law P" "sch \<noteq> SchemePlain" "HasPrefix (ToLower s) (scheme_text sch @ ''://'')" "parseEntry P T s = Inr u"
  shows "us_Scheme u \<noteq> SchemePlain"
proof -
  obtain xs ys where "s = xs @ ''://'' @ ys" using ToLower_takes [OF assms(3)] by blast
  then obtain i where i: "IndexStr s ''://'' = Some i" using IndexStr_finds by (metis not_None_eq)
  from assms(4) i obtain v where v: "P s = Some v" by (auto simp: parseEntry_def split: if_splits option.splits)
  with assms(1-3) have "url_Scheme v = scheme_text sch" unfolding url_law_def by blast
  with assms(2,4) i v show ?thesis
    by (cases sch) (auto simp: parseEntry_def parseEncryptedEntry_def Let_def split: option.splits if_splits)
qed

lemma names_encrypted:
  assumes "url_law P" "namesEncryptedScheme raw" "parseEntries P T (Split raw CHR '','') = Inr us"
  shows "\<forall>u \<in> set us. us_Scheme u \<noteq> SchemePlain"
proof -
  obtain e sch where e: "e \<in> set (Split raw CHR '','')" "sch \<noteq> SchemePlain" "HasPrefix (ToLower (TrimSpace e)) (scheme_text sch @ ''://'')"
    using assms(2) by (auto simp: namesEncryptedScheme_def list_ex_iff Let_def) (metis Scheme.distinct scheme_text.simps append_Cons append_Nil)+
  have all: "parse_all P T (Split raw CHR '','') = Inr us" and one: "\<forall>u \<in> set us. us_Scheme u = us_Scheme (hd us)"
    using assms(3) by (auto simp: parseEntries_def list_all_iff split: sum.splits list.splits if_splits)
  have "TrimSpace e \<noteq> []" using e(3) by (auto simp: HasPrefix_prefix ToLower_def)
  from parse_all_mem [OF all e(1) this] obtain u where "u \<in> set us" "parseEntry P T (TrimSpace e) = Inr u" by blast
  with encrypted_entry [OF assms(1) e(2,3)] one show ?thesis by metis
qed

text \<open>The default resolvers always build.\<close>

lemma parse_all_plain:
  assumes "list_all (\<lambda>e. TrimSpace e \<noteq> [] \<and> IndexStr (TrimSpace e) ''://'' = None \<and> CHR ''#'' \<notin> set (TrimSpace e)) es"
  shows "\<exists>us. parse_all P T es = Inr us \<and> length us = length es \<and> (\<forall>u \<in> set us. us_Scheme u = SchemePlain)"
  using assms
proof (induction es)
  case (Cons e es)
  then have "\<exists>u. parseEntry P T (TrimSpace e) = Inr u \<and> us_Scheme u = SchemePlain"
    by (simp add: parseEntry_def parsePlainEntry_def Let_def)
  with Cons show ?case by auto
qed simp

lemma default_builds: "\<exists>f. buildForwarder P T (Split default_upstreams CHR '','') ''race'' = Inr f"
proof -
  let ?es = "Split default_upstreams CHR '',''"
  have "list_all (\<lambda>e. TrimSpace e \<noteq> [] \<and> IndexStr (TrimSpace e) ''://'' = None \<and> CHR ''#'' \<notin> set (TrimSpace e)) ?es"
    "length ?es = 3" by code_simp+
  with parse_all_plain [of ?es P T] obtain us where "parse_all P T ?es = Inr us" "length us = 3" "\<forall>u \<in> set us. us_Scheme u = SchemePlain"
    by auto
  then show ?thesis by (cases us) (auto simp: buildForwarder_def parseEntries_def NewForwarder_def Let_def list_all_iff)
qed

section \<open>The pass\<close>

lemma apply_reloads_frame [simp]:
  "lv_fwd (apply_reloads T R a) = lv_fwd a" "lv_downgrade (apply_reloads T R a) = lv_downgrade a"
  by (simp_all add: apply_reloads_def reload_zones_def Let_def split: option.split prod.split)

lemma install_on_result:
  "install_on L T (Some f) a = (Some (SetConditional (conditionalRoutes L T (lv_snapshot a)) f),
     a\<lparr>lv_routes := conditionalRoutes L T (lv_snapshot a),
       lv_cache := map_option (purge_changed (lv_routes a) (conditionalRoutes L T (lv_snapshot a))) (lv_cache a)\<rparr>)"
  by (simp add: install_on_def installConditional_def Let_def)



end
