(* ===== verification/Dns_Server.thy ===== *)
theory Dns_Server
  imports Pipeline Netip
begin

text \<open>
  The front end of \<open>internal/dnssrv\<close>: what \<open>server.go\<close> makes of the answer of the pipeline before it goes
  out (EDNS, padding, truncation, signature), the TSIG state of a request (\<open>tsig.go\<close>), the dispatch of
  transfers and notifies, and the DNS-over-HTTPS handler (\<open>doh.go\<close>).

  A message carries its signature beside it: the record \<open>tsig_rr\<close> is the TSIG record that ends the
  additional section.  The wire form is the library's; its lengths are functions of \<open>dns_lib\<close>.
\<close>

section \<open>Constants and signatures\<close>

abbreviation (input) OpcodeQuery :: int where "OpcodeQuery \<equiv> 0"
abbreviation (input) OpcodeNotify :: int where "OpcodeNotify \<equiv> 4"
abbreviation (input) RcodeNotImplemented :: int where "RcodeNotImplemented \<equiv> 4"
abbreviation (input) RcodeRefused :: int where "RcodeRefused \<equiv> 5"
abbreviation (input) RcodeNotAuth :: int where "RcodeNotAuth \<equiv> 9"

record tsig_rr =
  tg_name :: string
  tg_algorithm :: string
  tg_time :: int
  tg_fudge :: u16
  tg_origid :: u16
  tg_error :: u16
  tg_other :: string

datatype tsig_err = TSIGUnsigned | TSIGUnavailable | TSIGSecret | TSIGKeyAlg | TSIGSig | TSIGTime | TSIGOther string

text \<open>\<open>RequireTSIG\<close>: \<open>status\<close> is what the library's check of the signature found.\<close>

definition RequireTSIG :: "dns_lib \<Rightarrow> bool \<Rightarrow> tsig_rr option \<Rightarrow> tsig_err option \<Rightarrow> string \<times> tsig_err option" where
  "RequireTSIG L attached t status =
     (if \<not> attached then ([], Some TSIGUnavailable)
      else case t of
             None \<Rightarrow> ([], Some TSIGUnsigned)
           | Some t \<Rightarrow> (case status of Some e \<Rightarrow> ([], Some e) | None \<Rightarrow> (CanonicalName L (tg_name t), None)))"

definition maxTSIGMACLen :: int where
  "maxTSIGMACLen = 64"

definition ReplyTSIG :: "dns_lib \<Rightarrow> int \<Rightarrow> msg \<Rightarrow> string \<Rightarrow> tsig_rr \<Rightarrow> tsig_rr" where
  "ReplyTSIG L unix rep keyName req =
     \<lparr>tg_name = keyName, tg_algorithm = CanonicalName L (tg_algorithm req), tg_time = unix,
      tg_fudge = (if tg_fudge req = 0 then 300 else tg_fudge req), tg_origid = m_id rep, tg_error = 0, tg_other = []\<rparr>"

section \<open>Dispatch\<close>

definition isTransferQuery :: "msg \<Rightarrow> bool" where
  "isTransferQuery m \<longleftrightarrow> m_opcode m = OpcodeQuery \<and>
     (case m_question m of [q] \<Rightarrow> q_type q \<in> {TypeAXFR, TypeIXFR} | _ \<Rightarrow> False)"

definition isNotify :: "msg \<Rightarrow> bool" where
  "isNotify m \<longleftrightarrow> m_opcode m = OpcodeNotify"

datatype dispatch = ToTransfers | ToNotifies | ToPipeline

definition dispatch_of :: "bool \<Rightarrow> bool \<Rightarrow> msg \<Rightarrow> dispatch" where
  "dispatch_of transfers notifies m =
     (if transfers \<and> isTransferQuery m then ToTransfers
      else if notifies \<and> isNotify m then ToNotifies
      else ToPipeline)"

section \<open>Padding\<close>

abbreviation (input) OptPadding :: u16 where "OptPadding \<equiv> 12"

definition PaddingBlockQuery :: int where "PaddingBlockQuery = 128"
definition PaddingBlockResponse :: int where "PaddingBlockResponse = 468"

text \<open>The OPT record is changed in place; a message has at most one.\<close>

definition upd_opt :: "(edns \<Rightarrow> edns) \<Rightarrow> msg \<Rightarrow> msg" where
  "upd_opt f m =
     m\<lparr>m_extra := map (\<lambda>r. case rr_data r of RD_OPT e \<Rightarrow> RR (rr_hdr r) (RD_OPT (f e)) | _ \<Rightarrow> r) (m_extra m)\<rparr>"

text \<open>The first padding option gets the bytes; one is added when there is none.\<close>

fun set_padding :: "u8 list \<Rightarrow> (u16 \<times> u8 list) list \<Rightarrow> (u16 \<times> u8 list) list" where
  "set_padding b [] = [(OptPadding, b)]"
| "set_padding b ((c, v) # os) = (if c = OptPadding then (c, b) # os else (c, v) # set_padding b os)"

definition Pad :: "dns_lib \<Rightarrow> int \<Rightarrow> msg \<Rightarrow> msg" where
  "Pad L block m =
     (let m = (if IsEdns0 L m = None then SetEdns0 L m 1232 False else m);
          put = (\<lambda>b. upd_opt (\<lambda>e. e\<lparr>e_options := set_padding b (e_options e)\<rparr>));
          m = put [] m
      in case PackLen L m of
           None \<Rightarrow> m
         | Some n \<Rightarrow> let k = (block - n mod block) mod block in if k > 0 then put (replicate (nat k) 0) m else m)"

definition hasPadding :: "dns_lib \<Rightarrow> msg \<Rightarrow> bool" where
  "hasPadding L m = (case IsEdns0 L m of None \<Rightarrow> False | Some e \<Rightarrow> list_ex (\<lambda>o'. fst o' = OptPadding) (e_options e))"

definition StripPadding :: "dns_lib \<Rightarrow> msg \<Rightarrow> msg" where
  "StripPadding L m =
     (if IsEdns0 L m = None then m
      else upd_opt (\<lambda>e. e\<lparr>e_options := filter (\<lambda>o'. fst o' \<noteq> OptPadding) (e_options e)\<rparr>) m)"

section \<open>The shape of a reply\<close>

text \<open>An extended rcode cannot be told without the OPT record.\<close>

definition dropOPT :: "msg \<Rightarrow> msg" where
  "dropOPT m =
     (let m = m\<lparr>m_extra := filter (\<lambda>r. \<not> is_OPT r) (m_extra m)\<rparr>
      in if m_rcode m > 15 then m\<lparr>m_rcode := RcodeServerFailure\<rparr> else m)"

definition ednsOnly :: "rr list \<Rightarrow> rr list" where
  "ednsOnly extra = (case find is_OPT extra of None \<Rightarrow> [] | Some r \<Rightarrow> [r])"

definition reply_or_servfail :: "dns_lib \<Rightarrow> request \<Rightarrow> response option \<Rightarrow> string option \<Rightarrow> msg" where
  "reply_or_servfail L r resp err =
     (case (err, resp) of
        (None, Some rs) \<Rightarrow> (case rs_msg rs of Some m \<Rightarrow> m | None \<Rightarrow> the (rs_msg (Servfail L r)))
      | _ \<Rightarrow> the (rs_msg (Servfail L r)))"

definition shapeReply :: "dns_lib \<Rightarrow> request \<Rightarrow> response option \<Rightarrow> string option \<Rightarrow> bool \<Rightarrow> msg" where
  "shapeReply L r resp err encrypted =
     (let m = reply_or_servfail L r resp err;
          m = (case IsEdns0 L (rq_msg r) of
                 Some opt \<Rightarrow> if IsEdns0 L m = None then SetEdns0 L m 1232 (e_do opt) else m
               | None \<Rightarrow> dropOPT m)
      in if encrypted \<and> hasPadding L (rq_msg r) then Pad L PaddingBlockResponse m else m)"

definition udpBudget :: "dns_lib \<Rightarrow> msg \<Rightarrow> int" where
  "udpBudget L req = max MinMsgSize (case IsEdns0 L req of None \<Rightarrow> MinMsgSize | Some e \<Rightarrow> uint (e_udpsize e))"

definition fitsIn :: "dns_lib \<Rightarrow> msg \<Rightarrow> int \<Rightarrow> bool \<times> msg" where
  "fitsIn L m n =
     (let m = m\<lparr>m_compress := False\<rparr>
      in if MsgLen L m \<le> n then (True, m)
         else let m = m\<lparr>m_compress := True\<rparr>
              in ((case PackLen L m of None \<Rightarrow> False | Some k \<Rightarrow> k \<le> n), m))"

definition fitUDP :: "dns_lib \<Rightarrow> (tsig_rr \<Rightarrow> int) \<Rightarrow> msg \<Rightarrow> int \<Rightarrow> tsig_rr option \<Rightarrow> msg" where
  "fitUDP L tsigLen rep budget sig =
     (case sig of
        None \<Rightarrow> Truncate L rep budget
      | Some s \<Rightarrow>
          let budget = budget - (tsigLen s + maxTSIGMACLen)
          in if budget \<ge> MinMsgSize then Truncate L rep budget
             else case fitsIn L rep budget of
                    (True, m) \<Rightarrow> m
                  | (False, m) \<Rightarrow>
                      m\<lparr>m_rcode := RcodeSuccess, m_tc := True, m_answer := [], m_ns := [], m_extra := ednsOnly (m_extra m)\<rparr>)"

definition FitUDPReply :: "dns_lib \<Rightarrow> (tsig_rr \<Rightarrow> int) \<Rightarrow> msg \<Rightarrow> msg \<Rightarrow> tsig_rr option \<Rightarrow> msg" where
  "FitUDPReply L tsigLen rep req sig = fitUDP L tsigLen rep (udpBudget L req) sig"

text \<open>The end of \<open>serve\<close>: what is written for an ordinary query, with its signature.\<close>

definition serve_reply ::
  "dns_lib \<Rightarrow> (tsig_rr \<Rightarrow> int) \<Rightarrow> int \<Rightarrow> bool \<Rightarrow> bool \<Rightarrow> request \<Rightarrow> string \<times> tsig_err option \<Rightarrow> tsig_rr option
   \<Rightarrow> response option \<Rightarrow> string option \<Rightarrow> msg \<times> tsig_rr option" where
  "serve_reply L tsigLen unix encrypted isUDP r kt t resp err =
     (let m = shapeReply L r resp err encrypted;
          sig = (case (kt, t) of
                   ((key, None), Some t) \<Rightarrow> if key \<noteq> [] then Some (ReplyTSIG L unix m key t) else None
                 | _ \<Rightarrow> None);
          m = (if isUDP then FitUDPReply L tsigLen m (rq_msg r) sig else m)
      in (m, sig))"

section \<open>DNS over HTTPS\<close>

datatype http_method = POST | GET | OtherMethod

record http_request =
  hr_method :: http_method
  hr_contentType :: "string option"
  hr_contentLength :: int
  hr_body :: "u8 list option"
  hr_dns :: string
  hr_remote :: addr

abbreviation (input) MaxMsgSize :: int where "MaxMsgSize \<equiv> 65535"

text \<open>The parameters: the media type of a header, the decoder of URL-safe base64 and its length.\<close>

record http_lib =
  hl_mediaType :: "string \<Rightarrow> string option"
  hl_decode :: "string \<Rightarrow> u8 list option"
  hl_unpack :: "u8 list \<Rightarrow> msg option"

definition dohContentType :: string where
  "dohContentType = ''application/dns-message''"

definition checkDoHContentType :: "http_lib \<Rightarrow> string option \<Rightarrow> bool" where
  "checkDoHContentType H h =
     (case h of
        None \<Rightarrow> False
      | Some h \<Rightarrow> if h = [] then False
                  else case hl_mediaType H h of None \<Rightarrow> False | Some m \<Rightarrow> EqualFold m dohContentType)"

definition decodedLen :: "nat \<Rightarrow> nat" where
  "decodedLen n = n * 6 div 8"

definition readQuery :: "http_lib \<Rightarrow> http_request \<Rightarrow> int + u8 list" where
  "readQuery H r =
     (case hr_method r of
        POST \<Rightarrow>
          if \<not> checkDoHContentType H (hr_contentType r) then Inl 415
          else if hr_contentLength r > MaxMsgSize then Inl 413
          else (case hr_body r of
                  None \<Rightarrow> Inl 400
                | Some b \<Rightarrow> if int (length b) > MaxMsgSize then Inl 413 else Inr b)
      | GET \<Rightarrow>
          if hr_dns r = [] then Inl 400
          else if int (decodedLen (length (hr_dns r))) > MaxMsgSize then Inl 413
          else (case hl_decode H (hr_dns r) of None \<Rightarrow> Inl 400 | Some w \<Rightarrow> Inr w)
      | OtherMethod \<Rightarrow> Inl 405)"

text \<open>\<open>acceptQuery\<close>: \<open>None\<close> accepts; otherwise the reply, if there is one.\<close>

definition acceptQuery :: "dns_lib \<Rightarrow> msg \<Rightarrow> msg option option" where
  "acceptQuery L m =
     (if m_response m then Some None
      else if m_opcode m \<noteq> OpcodeQuery \<and> m_opcode m \<noteq> OpcodeNotify then Some (Some (SetRcode L m RcodeNotImplemented))
      else if length (m_question m) \<noteq> 1 \<or> length (m_answer m) > 1 \<or> length (m_ns m) > 1 \<or> length (m_extra m) > 2
      then Some (Some ((SetRcode L m RcodeFormatError)\<lparr>m_opcode := OpcodeQuery\<rparr>))
      else None)"

definition maxAge :: "msg \<Rightarrow> u32" where
  "maxAge m =
     (let ttls = map (\<lambda>r. h_ttl (rr_hdr r)) (filter (\<lambda>r. \<not> is_OPT r) (m_answer m @ m_ns m @ m_extra m))
      in snd (fold (\<lambda>t (found, s). if \<not> found \<or> t < s then (True, t) else (found, s)) ttls (False, 0)))"

datatype http_reply = HttpError int | HttpMsg msg u32

definition doh_write :: "dns_lib \<Rightarrow> msg \<Rightarrow> http_reply" where
  "doh_write L m = (case PackLen L m of None \<Rightarrow> HttpError 500 | Some _ \<Rightarrow> HttpMsg m (maxAge m))"

text \<open>\<open>None\<close> is a panic of the pipeline.\<close>

definition doh_handle :: "dns_lib \<Rightarrow> http_lib \<Rightarrow> 's handler \<Rightarrow> http_request \<Rightarrow> 's \<Rightarrow> http_reply option \<times> 's" where
  "doh_handle L H h hr s =
     (case readQuery H hr of
        Inl code \<Rightarrow> (Some (HttpError code), s)
      | Inr w \<Rightarrow>
          (case hl_unpack H w of
             None \<Rightarrow> (Some (HttpError 400), s)
           | Some m \<Rightarrow>
               (case acceptQuery L m of
                  Some None \<Rightarrow> (Some (HttpError 400), s)
                | Some (Some rep) \<Rightarrow> (Some (doh_write L rep), s)
                | None \<Rightarrow>
                    if isTransferQuery m \<or> isNotify m then (Some (doh_write L (SetRcode L m RcodeRefused)), s)
                    else
                      let r = \<lparr>rq_msg = m, rq_ip = hr_remote hr,
                               rq_client = \<lparr>ci_id = 0, ci_name = [], ci_group = 0, ci_groupname = []\<rparr>\<rparr>
                      in (case h r s of
                            (Panicked, s) \<Rightarrow> (None, s)
                          | (Returned resp err, s) \<Rightarrow> (Some (doh_write L (shapeReply L r resp err True)), s)))))"

section \<open>What the library promises of sizes\<close>

text \<open>
  \<open>Truncate\<close> makes a message fit a size of at least 512, \<open>Len\<close> bounds the uncompressed packing, and the
  bytes of a padding option are added to the packing one for one.
\<close>

definition padded :: "u8 list \<Rightarrow> msg \<Rightarrow> msg" where
  "padded b = upd_opt (\<lambda>e. e\<lparr>e_options := set_padding b (e_options e)\<rparr>)"

definition size_laws :: "dns_lib \<Rightarrow> bool" where
  "size_laws L \<longleftrightarrow>
     (\<forall>m n k. n \<ge> MinMsgSize \<and> PackLen L (Truncate L m n) = Some k \<longrightarrow> k \<le> n) \<and>
     (\<forall>m k. \<not> m_compress m \<and> PackLen L m = Some k \<longrightarrow> k \<le> MsgLen L m)"

definition pad_laws :: "dns_lib \<Rightarrow> bool" where
  "pad_laws L \<longleftrightarrow>
     (\<forall>m n b. length (filter is_OPT (m_extra m)) = 1 \<and> PackLen L (padded [] m) = Some n \<and> n + int (length b) \<le> MaxMsgSize
        \<longrightarrow> PackLen L (padded b m) = Some (n + int (length b)))"

lemma set_padding_twice: "set_padding b (set_padding c os) = set_padding b os"
  by (induction os) auto

lemma is_OPT_put: "is_OPT (case rr_data r of RD_OPT e \<Rightarrow> RR (rr_hdr r) (RD_OPT (f e)) | _ \<Rightarrow> r) = is_OPT r"
  by (auto simp: is_OPT_def split: rdata.splits)

lemma upd_opt_opts: "map is_OPT (m_extra (upd_opt f m)) = map is_OPT (m_extra m)"
  by (simp add: upd_opt_def is_OPT_put)

lemma padded_twice: "padded b (padded c m) = padded b m"
proof -
  have "(case rr_data (case rr_data r of RD_OPT e \<Rightarrow> RR (rr_hdr r) (RD_OPT (e\<lparr>e_options := set_padding c (e_options e)\<rparr>)) | _ \<Rightarrow> r)
           of RD_OPT e \<Rightarrow> RR (rr_hdr (case rr_data r of RD_OPT e \<Rightarrow> RR (rr_hdr r) (RD_OPT (e\<lparr>e_options := set_padding c (e_options e)\<rparr>)) | _ \<Rightarrow> r))
                                (RD_OPT (e\<lparr>e_options := set_padding b (e_options e)\<rparr>))
            | _ \<Rightarrow> (case rr_data r of RD_OPT e \<Rightarrow> RR (rr_hdr r) (RD_OPT (e\<lparr>e_options := set_padding c (e_options e)\<rparr>)) | _ \<Rightarrow> r)) =
        (case rr_data r of RD_OPT e \<Rightarrow> RR (rr_hdr r) (RD_OPT (e\<lparr>e_options := set_padding b (e_options e)\<rparr>)) | _ \<Rightarrow> r)" for r
    by (cases "rr_data r") (simp_all add: set_padding_twice)
  then show ?thesis by (simp add: padded_def upd_opt_def)
qed

lemma padded_opts: "map is_OPT (m_extra (padded b m)) = map is_OPT (m_extra m)"
  by (simp add: padded_def upd_opt_opts)

lemma no_OPT_iff:
  assumes "edns_laws L"
  shows "IsEdns0 L m = None \<longleftrightarrow> True \<notin> set (map is_OPT (m_extra m))"
  using assms by (auto simp: edns_laws_def list_all_iff)

lemma Pad_unfold:
  "Pad L block m =
     (let m = (if IsEdns0 L m = None then SetEdns0 L m 1232 False else m)
      in case PackLen L (padded [] m) of
           None \<Rightarrow> padded [] m
         | Some n \<Rightarrow> padded (replicate (nat ((block - n mod block) mod block)) 0) m)"
proof -
  have p: "padded (replicate (nat k) 0) m = padded [] m" if "\<not> k > 0" for k m
    using that by (simp add: nat_0_iff [THEN iffD2])
  show ?thesis
    unfolding Pad_def Let_def padded_def [symmetric] padded_twice
    by (auto simp: p not_less simp del: neq0_conv split: option.split)
qed

lemma one_OPT_after:
  assumes "edns_laws L" "length (filter is_OPT (m_extra m)) \<le> 1"
  shows "length (filter is_OPT (m_extra (if IsEdns0 L m = None then SetEdns0 L m sz d else m))) = 1"
    and "IsEdns0 L (if IsEdns0 L m = None then SetEdns0 L m sz d else m) \<noteq> None"
proof -
  have none: "IsEdns0 L m = None \<longleftrightarrow> filter is_OPT (m_extra m) = []" for m
    using assms(1) by (simp add: edns_laws_def list_all_iff filter_empty_conv)
  have set: "filter is_OPT (m_extra (SetEdns0 L m sz d)) = filter is_OPT (m_extra m) @
      [RR \<lparr>h_name = ''.'', h_rrtype = TypeOPT, h_class = sz, h_ttl = (if d then 0x8000 else 0)\<rparr>
         (RD_OPT \<lparr>e_udpsize = sz, e_do = d, e_options = []\<rparr>)]"
    using assms(1) by (simp add: edns_laws_def is_OPT_def)
  show "length (filter is_OPT (m_extra (if IsEdns0 L m = None then SetEdns0 L m sz d else m))) = 1"
    using assms(2) by (cases "filter is_OPT (m_extra m)") (simp_all add: none set)
  then show "IsEdns0 L (if IsEdns0 L m = None then SetEdns0 L m sz d else m) \<noteq> None"
    unfolding none by fastforce
qed

text \<open>Padding fills the packing up to the next multiple of the block.\<close>

lemma Pad_length:
  assumes laws: "pad_laws L" and "0 < block" and one: "length (filter is_OPT (m_extra m)) = 1" and ed: "IsEdns0 L m \<noteq> None"
    and n: "PackLen L (padded [] m) = Some n" "n + block \<le> MaxMsgSize" "0 \<le> n"
  obtains k where "PackLen L (Pad L block m) = Some k" "k mod block = 0" "n \<le> k" "k < n + block"
proof -
  let ?j = "(block - n mod block) mod block"
  have j: "0 \<le> ?j" "?j < block" using assms(2) by simp_all
  have "PackLen L (Pad L block m) = PackLen L (padded (replicate (nat ?j) 0) m)"
    using ed n by (auto simp: Pad_unfold)
  also have "\<dots> = Some (n + ?j)"
    using laws [unfolded pad_laws_def, rule_format, of m n "replicate (nat ?j) 0"] one n(1,2) j by auto
  finally have "PackLen L (Pad L block m) = Some (n + ?j)" .
  moreover have "(n + ?j) mod block = 0"
  proof -
    have "(n + ?j) mod block = (n + (block - n mod block)) mod block" by (rule mod_add_right_eq)
    also have "n + (block - n mod block) = block * (n div block + 1)"
      by (simp add: distrib_left minus_mod_eq_mult_div [symmetric])
    finally show ?thesis by simp
  qed
  ultimately show ?thesis using that j by auto
qed

section \<open>Properties\<close>

text \<open>C35: the reply speaks EDNS exactly when the client does.  Whatever the pipeline returned, and whatever
  OPT record a cached or forwarded answer came with, what goes out to a client that sent no OPT record
  carries none, and no rcode that needs one; a client that sent one gets one back.\<close>

theorem reply_edns_matches:
  assumes "edns_laws L"
  shows "if IsEdns0 L (rq_msg r) = None
         then IsEdns0 L (shapeReply L r resp err enc) = None \<and> m_rcode (shapeReply L r resp err enc) \<le> 15
         else IsEdns0 L (shapeReply L r resp err enc) \<noteq> None"
proof -
  have pad: "IsEdns0 L (Pad L block m) \<noteq> None" for block m
  proof -
    have "IsEdns0 L (SetEdns0 L m 1232 False) \<noteq> None" for m
      using assms by (simp add: no_OPT_iff [OF assms]) (simp add: edns_laws_def is_OPT_def)
    then have "IsEdns0 L (padded b (if IsEdns0 L m = None then SetEdns0 L m 1232 False else m)) \<noteq> None" for b
      unfolding no_OPT_iff [OF assms] padded_opts by (simp split: if_splits)
    then show ?thesis unfolding Pad_unfold Let_def by (auto split: option.split)
  qed
  have drop: "IsEdns0 L (dropOPT m) = None" "m_rcode (dropOPT m) \<le> 15" for m
    by (auto simp: no_OPT_iff [OF assms] dropOPT_def Let_def)
  have set: "IsEdns0 L (SetEdns0 L m 1232 d) \<noteq> None" for m d
    using assms by (simp add: no_OPT_iff [OF assms]) (simp add: edns_laws_def is_OPT_def)
  show ?thesis
    by (cases "IsEdns0 L (rq_msg r)")
      (simp_all add: shapeReply_def Let_def hasPadding_def drop pad [simplified] set [simplified] if_distrib)
qed


text \<open>An encrypted reply to a client that pads is padded.  Its packed length is a multiple of 468, so
  that its size tells an observer the block and nothing else, and no more than one block is added.\<close>

theorem encrypted_reply_padded:
  assumes "pad_laws L" "edns_laws L" "hasPadding L (rq_msg r)"
    and "length (filter is_OPT (m_extra (reply_or_servfail L r resp err))) \<le> 1"
    and "PackLen L (padded [] (shapeReply L r resp err False)) = Some n" "0 \<le> n" "n + 468 \<le> MaxMsgSize"
  shows "\<exists>k. PackLen L (shapeReply L r resp err True) = Some k \<and> k mod 468 = 0 \<and> n \<le> k \<and> k < n + 468"
proof -
  let ?m = "shapeReply L r resp err False"
  obtain opt where q: "IsEdns0 L (rq_msg r) = Some opt" using assms(3) by (auto simp: hasPadding_def split: option.splits)
  then have m: "?m = (if IsEdns0 L (reply_or_servfail L r resp err) = None
      then SetEdns0 L (reply_or_servfail L r resp err) 1232 (e_do opt) else reply_or_servfail L r resp err)"
    and pad: "shapeReply L r resp err True = Pad L 468 ?m"
    using assms(3) unfolding shapeReply_def Let_def PaddingBlockResponse_def by simp_all
  have one: "length (filter is_OPT (m_extra ?m)) = 1" "IsEdns0 L ?m \<noteq> None"
    by (subst m, rule one_OPT_after [OF assms(2,4)])+
  obtain k where "PackLen L (Pad L 468 ?m) = Some k" "k mod 468 = 0" "n \<le> k" "k < n + 468"
    by (rule Pad_length [OF assms(1) _ one assms(5,7,6)]) simp_all
  then show ?thesis unfolding pad by (intro exI [of _ k] conjI)
qed

section \<open>Witnesses\<close>

text \<open>A library whose packings count records and option bytes, and whose \<open>Truncate\<close> empties what is too long.\<close>

definition wire_len :: "msg \<Rightarrow> int" where
  "wire_len m = 12 + 16 * int (length (m_answer m) + length (m_ns m)) +
     sum_list (map (\<lambda>r. 16 + (case rr_data r of RD_OPT e \<Rightarrow> sum_list (map (\<lambda>o'. 4 + int (length (snd o'))) (e_options e)) | _ \<Rightarrow> 0))
                   (m_extra m))"

definition sized_lib :: dns_lib where
  "sized_lib = plain_lib\<lparr>MsgLen := wire_len, PackLen := (\<lambda>m. Some (wire_len m)),
     Truncate := (\<lambda>m n. if wire_len m \<le> n then m else m\<lparr>m_tc := True, m_answer := [], m_ns := [], m_extra := []\<rparr>)\<rparr>"

lemma sized_size_laws: "size_laws sized_lib"
  by (auto simp: size_laws_def sized_lib_def wire_len_def)

lemma set_padding_sum:
  "sum_list (map (\<lambda>o'. 4 + int (length (snd o'))) (set_padding b os)) =
   sum_list (map (\<lambda>o'. 4 + int (length (snd o'))) (set_padding [] os)) + int (length b)"
  by (induction os) auto

lemma sized_pad_laws: "pad_laws sized_lib"
proof -
  have none: "map (\<lambda>r. case rr_data r of RD_OPT e \<Rightarrow> RR (rr_hdr r) (RD_OPT (f e)) | _ \<Rightarrow> r) rs = rs"
    if "filter is_OPT rs = []" for rs and f
    using that by (induction rs) (auto simp: is_OPT_def split: rdata.splits if_splits)
  have "wire_len (padded b m) = wire_len (padded [] m) + int (length b)"
    if one: "length (filter is_OPT (m_extra m)) = 1" for b m
  proof -
    obtain xs r ys where x: "m_extra m = xs @ r # ys" "filter is_OPT xs = []" "filter is_OPT ys = []" "is_OPT r"
    proof -
      from one obtain r where "filter is_OPT (m_extra m) = [r]" by (cases "filter is_OPT (m_extra m)") auto
      from filter_eq_ConsD [OF this] show thesis by (auto simp: filter_empty_conv intro: that)
    qed
    then obtain e where "rr_data r = RD_OPT e" by (auto simp: is_OPT_def split: rdata.splits)
    with x set_padding_sum [of b "e_options e"] show ?thesis
      by (simp add: wire_len_def padded_def upd_opt_def none)
  qed
  then show ?thesis by (simp add: pad_laws_def sized_lib_def)
qed

lemma sized_edns_laws: "edns_laws sized_lib"
  using plain_edns_laws by (simp add: edns_laws_def sized_lib_def)

definition front_query :: "(u16 \<times> u8 list) list option \<Rightarrow> msg" where
  "front_query os =
     \<lparr>m_id = 7, m_response = False, m_opcode = 0, m_aa = False, m_tc = False, m_rd = True, m_rcode = 0, m_compress = False,
      m_question = [\<lparr>q_name = ''example.com.'', q_type = TypeA, q_class = 1\<rparr>], m_answer = [], m_ns = [],
      m_extra = (case os of None \<Rightarrow> []
                 | Some os \<Rightarrow> [RR \<lparr>h_name = ''.'', h_rrtype = TypeOPT, h_class = 1232, h_ttl = 0\<rparr>
                                  (RD_OPT \<lparr>e_udpsize = 1232, e_do = True, e_options = os\<rparr>)])\<rparr>"

definition front_request :: "(u16 \<times> u8 list) list option \<Rightarrow> request" where
  "front_request os = \<lparr>rq_msg = front_query os, rq_ip = V4 0x0A000005,
     rq_client = \<lparr>ci_id = 0, ci_name = [], ci_group = 0, ci_groupname = []\<rparr>\<rparr>"

definition front_answer :: "nat \<Rightarrow> response" where
  "front_answer n = reply ((plain_reply (front_query None))\<lparr>
      m_answer := replicate n (RR \<lparr>h_name = ''example.com.'', h_rrtype = TypeA, h_class = 1, h_ttl = 60\<rparr> (RD_A [10, 0, 0, 1])),
      m_extra := m_extra (front_query (Some [(10, [1, 2])])), m_rcode := 16\<rparr>) DecisionForwarded"

theorem reply_edns_matches_witness:
  "IsEdns0 sized_lib (shapeReply sized_lib (front_request None) (Some (front_answer 1)) None False) = None \<and>
   m_rcode (shapeReply sized_lib (front_request None) (Some (front_answer 1)) None False) = RcodeServerFailure"
proof -
  have "IsEdns0 sized_lib (rq_msg (front_request None)) = None" by code_simp
  with reply_edns_matches [OF sized_edns_laws, of "front_request None" "Some (front_answer 1)" None False]
  have "IsEdns0 sized_lib (shapeReply sized_lib (front_request None) (Some (front_answer 1)) None False) = None"
    by (simp del: One_nat_def)
  moreover have "m_rcode (shapeReply sized_lib (front_request None) (Some (front_answer 1)) None False) = RcodeServerFailure"
    by code_simp
  ultimately show ?thesis by (rule conjI)
qed

definition front_tsig :: tsig_rr where
  "front_tsig = \<lparr>tg_name = ''k.'', tg_algorithm = ''hmac-sha256.'', tg_time = 0, tg_fudge = 300, tg_origid = 7, tg_error = 0,
     tg_other = []\<rparr>"

definition front_reply :: "nat \<Rightarrow> msg \<times> tsig_rr option" where
  "front_reply n = serve_reply sized_lib (\<lambda>_. 60) 0 False True (front_request None) (''k.'', None) (Some front_tsig)
     (Some (front_answer n)) None"


theorem encrypted_reply_padded_witness:
  "\<exists>k. PackLen sized_lib (shapeReply sized_lib (front_request (Some [(OptPadding, [])])) (Some (front_answer 5)) None True) = Some k
     \<and> k mod 468 = 0 \<and> 118 \<le> k \<and> k < 118 + 468"
proof (rule encrypted_reply_padded [OF sized_pad_laws sized_edns_laws])
  let ?r = "front_request (Some [(OptPadding, [])])"
  show "hasPadding sized_lib (rq_msg ?r)"
    "length (filter is_OPT (m_extra (reply_or_servfail sized_lib ?r (Some (front_answer 5)) None))) \<le> 1"
    "PackLen sized_lib (padded [] (shapeReply sized_lib ?r (Some (front_answer 5)) None False)) = Some 118"
    by code_simp+
qed simp_all

end
