(* ===== verification/Transfer_Server.thy ===== *)
theory Transfer_Server
  imports Dns_Server Answer Zone_Transfer
begin

text \<open>
  Serving a zone to another nameserver, \<open>internal/zones/transferserver.go\<close>: the gate that decides who may have
  a zone, the messages of the transfer, the refusals, the cap on concurrent transfers and the throttled
  record of who asked.

  A message goes out with its signature beside it.  What the connection does is an argument: whether
  the i-th write succeeds and whether the request's context has ended before the i-th message.  The slots
  taken by other transfers are part of the state.
\<close>

section \<open>Refusals\<close>

datatype reason =
    NotOneQuestion nat | WrongClass u16 | WrongQtype u16 | NoZoneThere | ZoneDisabled | HoldsNoZone string
  | NeverTransferred | ZoneExpired | UnknownKey | BadSignature | BadTimeWindow | TsigUnchecked tsig_err
  | AclUnparsable list_err | PeerNotAllowed | AxfrOverUdp | AtLimit | WillNotRender string string string string

text \<open>The texts that come from other packages are arguments: of a class, a type and an error.\<close>

record texts =
  tx_class :: "u16 \<Rightarrow> string"
  tx_type :: "u16 \<Rightarrow> string"
  tx_tsig :: "tsig_err \<Rightarrow> string"
  tx_acl :: "list_err \<Rightarrow> string"

fun reason_text :: "texts \<Rightarrow> reason \<Rightarrow> string" where
  "reason_text X (NotOneQuestion n) = ''a transfer query carries one question, this one carries '' @ dec n"
| "reason_text X (WrongClass c) = ''question class '' @ tx_class X c @ '' is not IN''"
| "reason_text X (WrongQtype t) = ''qtype '' @ tx_type X t @ '' is neither AXFR nor IXFR''"
| "reason_text X NoZoneThere = ''no zone at that apex''"
| "reason_text X ZoneDisabled = ''zone is disabled''"
| "reason_text X (HoldsNoZone t) = ''zone type '' @ t @ '' holds no zone to transfer''"
| "reason_text X NeverTransferred = ''secondary has never transferred: it holds nothing to serve''"
| "reason_text X ZoneExpired = ''secondary has expired: it can no longer confirm its data is current''"
| "reason_text X UnknownKey = ''TSIG key is unknown or names the wrong algorithm''"
| "reason_text X BadSignature = ''TSIG signature did not verify''"
| "reason_text X BadTimeWindow = ''TSIG time is outside the fudge window''"
| "reason_text X (TsigUnchecked e) = ''TSIG could not be checked: '' @ tx_tsig X e"
| "reason_text X (AclUnparsable e) = ''allow_transfer does not parse, refusing every transfer: '' @ tx_acl X e"
| "reason_text X PeerNotAllowed = ''peer matches no allow_transfer entry''"
| "reason_text X AxfrOverUdp = ''AXFR over UDP is not defined''"
| "reason_text X AtLimit = ''at the concurrent transfer limit''"
| "reason_text X (WillNotRender z n t e) =
     ''zone '' @ z @ '': record '' @ n @ '' '' @ t @ '' will not render: '' @ e"

record refusal =
  rf_rcode :: int
  rf_tsigCode :: u16
  rf_reason :: reason

abbreviation (input) RcodeBadSig :: u16 where "RcodeBadSig \<equiv> 16"
abbreviation (input) RcodeBadKey :: u16 where "RcodeBadKey \<equiv> 17"
abbreviation (input) RcodeBadTime :: u16 where "RcodeBadTime \<equiv> 18"

section \<open>The gate\<close>

type_synonym replica_allow = "string \<Rightarrow> addr \<Rightarrow> bool"

definition replicaMayPull :: "replica_allow option \<Rightarrow> zone \<Rightarrow> addr \<Rightarrow> string \<Rightarrow> tsig_err option \<Rightarrow> bool" where
  "replicaMayPull ra z peer key tsigErr \<longleftrightarrow>
     (case ra of None \<Rightarrow> False
      | Some f \<Rightarrow> key \<noteq> [] \<and> tsigErr = None \<and> EqualFold (z_type (row z)) ''primary'' \<and> f key peer)"

text \<open>What the signature allows: the key a peer may rely on, or a refusal.\<close>

definition tsig_gate :: "string \<Rightarrow> tsig_err option \<Rightarrow> refusal + string" where
  "tsig_gate key tsigErr =
     (case tsigErr of
        None \<Rightarrow> Inr key
      | Some TSIGUnsigned \<Rightarrow> Inr []
      | Some TSIGSecret \<Rightarrow> Inl \<lparr>rf_rcode = RcodeNotAuth, rf_tsigCode = RcodeBadKey, rf_reason = UnknownKey\<rparr>
      | Some TSIGKeyAlg \<Rightarrow> Inl \<lparr>rf_rcode = RcodeNotAuth, rf_tsigCode = RcodeBadKey, rf_reason = UnknownKey\<rparr>
      | Some TSIGSig \<Rightarrow> Inl \<lparr>rf_rcode = RcodeNotAuth, rf_tsigCode = RcodeBadSig, rf_reason = BadSignature\<rparr>
      | Some TSIGTime \<Rightarrow> Inl \<lparr>rf_rcode = RcodeNotAuth, rf_tsigCode = RcodeBadTime, rf_reason = BadTimeWindow\<rparr>
      | Some e \<Rightarrow> Inl \<lparr>rf_rcode = RcodeServerFailure, rf_tsigCode = 0, rf_reason = TsigUnchecked e\<rparr>)"

definition acl_gate ::
  "dns_lib \<Rightarrow> ip6_text \<Rightarrow> replica_allow option \<Rightarrow> zone \<Rightarrow> addr \<Rightarrow> string \<Rightarrow> tsig_err option \<Rightarrow> refusal option" where
  "acl_gate L T ra z peer key tsigErr =
     (case ParseACL L T (z_allow_transfer (row z)) of
        Inl e \<Rightarrow> Some \<lparr>rf_rcode = RcodeRefused, rf_tsigCode = 0, rf_reason = AclUnparsable e\<rparr>
      | Inr entries \<Rightarrow>
          if \<not> ACLAllows L entries peer key \<and> \<not> replicaMayPull ra z peer key tsigErr
          then Some \<lparr>rf_rcode = RcodeRefused, rf_tsigCode = 0, rf_reason = PeerNotAllowed\<rparr> else None)"

text \<open>The zone itself: enabled, of a type that holds data, and current.\<close>

definition zone_gate :: "zone \<Rightarrow> int \<Rightarrow> refusal option" where
  "zone_gate z nowMs =
     (if \<not> z_enabled (row z) then Some \<lparr>rf_rcode = RcodeNotAuth, rf_tsigCode = 0, rf_reason = ZoneDisabled\<rparr>
      else if ToLower (z_type (row z)) \<notin> {''primary'', ''secondary''}
      then Some \<lparr>rf_rcode = RcodeNotAuth, rf_tsigCode = 0, rf_reason = HoldsNoZone (z_type (row z))\<rparr>
      else if EqualFold (z_type (row z)) ''secondary'' \<and> \<not> Serving z nowMs
      then Some \<lparr>rf_rcode = RcodeServerFailure, rf_tsigCode = 0,
                 rf_reason = (if z_refreshed_at (row z) = 0 then NeverTransferred else ZoneExpired)\<rparr>
      else None)"

definition decide ::
  "dns_lib \<Rightarrow> ip6_text \<Rightarrow> index \<Rightarrow> replica_allow option \<Rightarrow> int \<Rightarrow> msg \<Rightarrow> addr \<Rightarrow> string \<Rightarrow> tsig_err option
   \<Rightarrow> zone option \<times> refusal option" where
  "decide L T snap ra nowMs q peer key tsigErr =
     (case m_question q of
        [question] \<Rightarrow>
          if q_class question \<noteq> ClassINET
          then (None, Some \<lparr>rf_rcode = RcodeFormatError, rf_tsigCode = 0, rf_reason = WrongClass (q_class question)\<rparr>)
          else if q_type question \<notin> {TypeAXFR, TypeIXFR}
          then (None, Some \<lparr>rf_rcode = RcodeFormatError, rf_tsigCode = 0, rf_reason = WrongQtype (q_type question)\<rparr>)
          else (case Apex snap (q_name question) of
                  None \<Rightarrow> (None, Some \<lparr>rf_rcode = RcodeNotAuth, rf_tsigCode = 0, rf_reason = NoZoneThere\<rparr>)
                | Some z \<Rightarrow>
                    (case zone_gate z nowMs of
                       Some ref \<Rightarrow> (Some z, Some ref)
                     | None \<Rightarrow>
                         (case tsig_gate key tsigErr of
                            Inl ref \<Rightarrow> (Some z, Some ref)
                          | Inr key \<Rightarrow> (Some z, acl_gate L T ra z peer key tsigErr))))
      | qs \<Rightarrow> (None, Some \<lparr>rf_rcode = RcodeFormatError, rf_tsigCode = 0, rf_reason = NotOneQuestion (length qs)\<rparr>))"

section \<open>The answer\<close>

fun render_rows :: "dns_lib \<Rightarrow> string \<Rightarrow> string \<Rightarrow> zone_record list \<Rightarrow> reason + rr list" where
  "render_rows L zname name [] = Inr []"
| "render_rows L zname name (rec # recs) =
     (if EqualFold (zr_type rec) ''SOA'' then render_rows L zname name recs
      else case ToRR L (RecordFQDN zname name) rec of
             Inl e \<Rightarrow> Inl (WillNotRender zname name (zr_type rec) e)
           | Inr r \<Rightarrow> map_sum id ((#) r) (render_rows L zname name recs))"

fun render_names :: "dns_lib \<Rightarrow> zone \<Rightarrow> string list \<Rightarrow> reason + rr list" where
  "render_names L z [] = Inr []"
| "render_names L z (name # names) =
     (case render_rows L (z_name (row z)) name (rrs z name) of
        Inl e \<Rightarrow> Inl e
      | Inr rs \<Rightarrow> map_sum id ((@) rs) (render_names L z names))"

definition zoneAnswer :: "dns_lib \<Rightarrow> zone \<Rightarrow> reason + rr list" where
  "zoneAnswer L z =
     map_sum id (\<lambda>body. SOA L z # body @ [SOA L z]) (render_names L z (sort (map fst (records z))))"

definition envelopeTargetBytes :: int where
  "envelopeTargetBytes = 16384"

abbreviation (input) DefaultMsgSize :: u16 where "DefaultMsgSize \<equiv> 4096"

definition requestTSIG :: "tsig_rr option \<Rightarrow> string \<Rightarrow> tsig_err option \<Rightarrow> tsig_rr option" where
  "requestTSIG t key tsigErr = (if tsigErr \<noteq> None \<or> key = [] then None else t)"

record lens =
  ln_rr :: "rr \<Rightarrow> int"
  ln_tsig :: "tsig_rr \<Rightarrow> int"

definition envelopeBudget :: "dns_lib \<Rightarrow> lens \<Rightarrow> int \<Rightarrow> msg \<Rightarrow> string \<Rightarrow> tsig_rr option \<Rightarrow> int" where
  "envelopeBudget L N unix q key req =
     (let probe = SetReply L q;
          probe = (if IsEdns0 L q \<noteq> None then SetEdns0 L probe DefaultMsgSize False else probe);
          budget = envelopeTargetBytes - MsgLen L probe
      in case req of None \<Rightarrow> budget | Some t \<Rightarrow> budget - (ln_tsig N (ReplyTSIG L unix probe key t) + maxTSIGMACLen))"

fun batch_loop :: "(rr \<Rightarrow> int) \<Rightarrow> int \<Rightarrow> rr list \<Rightarrow> int \<Rightarrow> rr list \<Rightarrow> rr list list" where
  "batch_loop len budget current sz [] = (if current \<noteq> [] then [current] else [])"
| "batch_loop len budget current sz (r # rs) =
     (if current \<noteq> [] \<and> sz + len r > budget then current # batch_loop len budget [r] (len r) rs
      else batch_loop len budget (current @ [r]) (sz + len r) rs)"

definition batch :: "(rr \<Rightarrow> int) \<Rightarrow> rr list \<Rightarrow> int \<Rightarrow> rr list list" where
  "batch len rs budget = batch_loop len budget [] 0 rs"

section \<open>Writing\<close>

type_synonym signed_msg = "msg \<times> tsig_rr option"

record conn =
  cn_ok :: "nat \<Rightarrow> bool"
  cn_done :: "nat \<Rightarrow> bool"

definition envelope :: "dns_lib \<Rightarrow> int \<Rightarrow> msg \<Rightarrow> string \<Rightarrow> tsig_rr option \<Rightarrow> nat \<Rightarrow> rr list \<Rightarrow> signed_msg" where
  "envelope L unix q key req i recs =
     (let m = (SetReply L q)\<lparr>m_aa := True, m_compress := True, m_answer := recs\<rparr>;
          m = (if i = 0 \<and> IsEdns0 L q \<noteq> None then SetEdns0 L m DefaultMsgSize False else m)
      in (m, map_option (ReplyTSIG L unix m key) req))"

text \<open>The messages written, and whether the stream came to its end.\<close>

fun stream_loop :: "(nat \<Rightarrow> rr list \<Rightarrow> signed_msg) \<Rightarrow> conn \<Rightarrow> nat \<Rightarrow> rr list list \<Rightarrow> signed_msg list \<times> bool" where
  "stream_loop mk C i [] = ([], True)"
| "stream_loop mk C i (e # es) =
     (if cn_done C i then ([], False)
      else if \<not> cn_ok C i then ([], False)
      else let (out, fine) = stream_loop mk C (Suc i) es in (mk i e # out, fine))"

definition stream ::
  "dns_lib \<Rightarrow> lens \<Rightarrow> conn \<Rightarrow> int \<Rightarrow> msg \<Rightarrow> tsig_rr option \<Rightarrow> rr list \<Rightarrow> string \<Rightarrow> tsig_err option \<Rightarrow> signed_msg list \<times> bool" where
  "stream L N C unix q t answer key tsigErr =
     (let req = requestTSIG t key tsigErr
      in stream_loop (envelope L unix q key req) C 0 (batch (ln_rr N) answer (envelopeBudget L N unix q key req)))"

definition write_one :: "conn \<Rightarrow> signed_msg \<Rightarrow> signed_msg list \<times> bool" where
  "write_one C m = (if cn_ok C 0 then ([m], True) else ([], False))"

definition answerSOAOnly ::
  "dns_lib \<Rightarrow> lens \<Rightarrow> conn \<Rightarrow> int \<Rightarrow> msg \<Rightarrow> tsig_rr option \<Rightarrow> zone \<Rightarrow> string \<Rightarrow> tsig_err option \<Rightarrow> signed_msg list \<times> bool" where
  "answerSOAOnly L N C unix q t z key tsigErr =
     (let m = (SetReply L q)\<lparr>m_aa := True, m_compress := True, m_answer := [SOA L z]\<rparr>;
          m = (if IsEdns0 L q \<noteq> None then SetEdns0 L m 1232 False else m);
          sig = map_option (ReplyTSIG L unix m key) (requestTSIG t key tsigErr)
      in write_one C (FitUDPReply L (ln_tsig N) m q sig, sig))"

text \<open>The six bytes of the server's time, in hexadecimal.\<close>

definition hex_digit :: "nat \<Rightarrow> char" where
  "hex_digit n = ''0123456789abcdef'' ! (n mod 16)"

definition be48_hex :: "int \<Rightarrow> string" where
  "be48_hex secs = map (\<lambda>i. hex_digit (nat (drop_bit (4 * i) secs mod 16))) (rev [0..<12])"

definition errorTSIG :: "msg \<Rightarrow> tsig_rr option \<Rightarrow> u16 \<Rightarrow> int \<Rightarrow> tsig_rr option" where
  "errorTSIG q t code unix =
     map_option (\<lambda>req.
       \<lparr>tg_name = tg_name req, tg_algorithm = tg_algorithm req,
        tg_time = (if code = RcodeBadTime then tg_time req else unix),
        tg_fudge = tg_fudge req, tg_origid = m_id q, tg_error = code,
        tg_other = (if code = RcodeBadTime then be48_hex unix else [])\<rparr>) t"

definition signIfVerified :: "dns_lib \<Rightarrow> int \<Rightarrow> tsig_rr option \<Rightarrow> string \<Rightarrow> tsig_err option \<Rightarrow> msg \<Rightarrow> signed_msg" where
  "signIfVerified L unix t key tsigErr m = (m, map_option (ReplyTSIG L unix m key) (requestTSIG t key tsigErr))"

definition refusal_msg ::
  "dns_lib \<Rightarrow> int \<Rightarrow> int \<Rightarrow> msg \<Rightarrow> tsig_rr option \<Rightarrow> int \<Rightarrow> u16 \<Rightarrow> string \<Rightarrow> tsig_err option \<Rightarrow> signed_msg" where
  "refusal_msg L unix now q t rcode tsigCode key tsigErr =
     (let m = SetRcode L q rcode
      in if tsigCode \<noteq> 0 \<and> errorTSIG q t tsigCode now \<noteq> None then (m, errorTSIG q t tsigCode now)
         else signIfVerified L unix t key tsigErr m)"

definition writeRefusal ::
  "dns_lib \<Rightarrow> conn \<Rightarrow> int \<Rightarrow> int \<Rightarrow> msg \<Rightarrow> tsig_rr option \<Rightarrow> int \<Rightarrow> u16 \<Rightarrow> string \<Rightarrow> tsig_err option \<Rightarrow> signed_msg list \<times> bool" where
  "writeRefusal L C unix now q t rcode tsigCode key tsigErr =
     write_one C (refusal_msg L unix now q t rcode tsigCode key tsigErr)"

text \<open>The serial an IXFR query says its sender holds.\<close>

fun client_soa :: "dns_lib \<Rightarrow> string \<Rightarrow> rr list \<Rightarrow> u32 option" where
  "client_soa L want [] = None"
| "client_soa L want (r # rs) =
     (case rr_data r of
        RD_SOA s \<Rightarrow> if EqualFold (CanonicalName L (h_name (rr_hdr r))) want then Some (soa_serial s) else client_soa L want rs
      | _ \<Rightarrow> client_soa L want rs)"

definition clientSerial :: "dns_lib \<Rightarrow> msg \<Rightarrow> u32 option" where
  "clientSerial L q = client_soa L (CanonicalName L (q_name (hd (m_question q)))) (m_ns q)"

section \<open>Who asked\<close>

text \<open>Times are nanoseconds.  \<open>noteTransfer\<close>, the \<open>note\<close> of the code, answers whether it wrote to the store.\<close>

record xfer_state =
  xs_db :: zdb
  xs_lastNote :: "int \<Rightarrow> (int \<times> string) option"
  xs_used :: nat

definition transferStateThrottle :: int where
  "transferStateThrottle = 10 * 1000000000"

definition noteTransfer :: "ip6_text \<Rightarrow> int \<Rightarrow> int \<Rightarrow> addr \<Rightarrow> string \<Rightarrow> xfer_state \<Rightarrow> bool \<times> xfer_state" where
  "noteTransfer T now zid peer reason s =
     (let changed = (case xs_lastNote s zid of None \<Rightarrow> True | Some (_, prev) \<Rightarrow> (prev = []) \<noteq> (reason = []))
      in if \<not> changed \<and> now - fst (the (xs_lastNote s zid)) < transferStateThrottle then (False, s)
         else (True, s\<lparr>xs_lastNote := (xs_lastNote s)(zid \<mapsto> (now, reason)),
                       xs_db := snd (NoteTransferRequest zid (now div 1000000) (AddrString T peer) reason (xs_db s))\<rparr>))"

section \<open>The handler\<close>

record xfer_env =
  xe_lib :: dns_lib
  xe_text :: ip6_text
  xe_texts :: texts
  xe_lens :: lens
  xe_snap :: index
  xe_replica :: "replica_allow option"
  xe_cap :: nat
  xe_conn :: conn
  xe_now :: "int \<times> int \<times> int \<times> int"
  xe_unix :: int

text \<open>\<open>xe_now\<close> holds the readings of the clock: of the gate, of the note, of the refusal and of the note after
  the stream.\<close>

record xfer_req =
  xr_msg :: msg
  xr_tsig :: "tsig_rr option"
  xr_peer :: addr
  xr_udp :: bool
  xr_key :: string
  xr_err :: "tsig_err option"

definition refuse :: "xfer_env \<Rightarrow> xfer_req \<Rightarrow> zone option \<Rightarrow> refusal \<Rightarrow> xfer_state \<Rightarrow> (signed_msg list \<times> bool) \<times> xfer_state" where
  "refuse E R z ref s =
     (let (_, tn, tr, _) = xe_now E;
          s = (case z of
                 None \<Rightarrow> s
               | Some z \<Rightarrow> if xr_udp R then s
                           else snd (noteTransfer (xe_text E) tn (z_id (row z)) (xr_peer R) (reason_text (xe_texts E) (rf_reason ref)) s))
      in (writeRefusal (xe_lib E) (xe_conn E) (xe_unix E) (tr div 1000000000) (xr_msg R) (xr_tsig R) (rf_rcode ref)
            (rf_tsigCode ref) (xr_key R) (xr_err R), s))"

definition gate_and_transport :: "xfer_env \<Rightarrow> xfer_req \<Rightarrow> zone option \<times> refusal option" where
  "gate_and_transport E R =
     (let (z, ref) = decide (xe_lib E) (xe_text E) (xe_snap E) (xe_replica E) (fst (xe_now E) div 1000000) (xr_msg R) (xr_peer R)
                       (xr_key R) (xr_err R)
      in (z, if ref = None \<and> xr_udp R \<and> q_type (hd (m_question (xr_msg R))) = TypeAXFR
             then Some \<lparr>rf_rcode = RcodeNotImplemented, rf_tsigCode = 0, rf_reason = AxfrOverUdp\<rparr> else ref))"

text \<open>The client is current: it asks incrementally, and this server's serial is not newer.\<close>

definition client_current :: "dns_lib \<Rightarrow> zone \<Rightarrow> msg \<Rightarrow> bool" where
  "client_current L z q \<longleftrightarrow>
     q_type (hd (m_question q)) = TypeIXFR \<and>
     (case clientSerial L q of None \<Rightarrow> False | Some serial \<Rightarrow> \<not> SerialNewer (z_soa_serial (row z)) serial)"

definition soa_only :: "xfer_env \<Rightarrow> xfer_req \<Rightarrow> zone \<Rightarrow> signed_msg list \<times> bool" where
  "soa_only E R z =
     answerSOAOnly (xe_lib E) (xe_lens E) (xe_conn E) (xe_unix E) (xr_msg R) (xr_tsig R) z (xr_key R) (xr_err R)"

text \<open>The slot is held while the zone is rendered and streamed, and free before anything is recorded.\<close>

definition serve_whole :: "xfer_env \<Rightarrow> xfer_req \<Rightarrow> zone \<Rightarrow> xfer_state \<Rightarrow> (signed_msg list \<times> bool) \<times> xfer_state" where
  "serve_whole E R z s =
     (let (_, tn, _, te) = xe_now E
      in if xs_used s \<ge> xe_cap E
         then refuse E R (Some z) \<lparr>rf_rcode = RcodeServerFailure, rf_tsigCode = 0, rf_reason = AtLimit\<rparr> s
         else
           let s = s\<lparr>xs_used := xs_used s + 1\<rparr>
           in case zoneAnswer (xe_lib E) z of
                Inl e \<Rightarrow> refuse E R (Some z) \<lparr>rf_rcode = RcodeServerFailure, rf_tsigCode = 0, rf_reason = e\<rparr>
                           (s\<lparr>xs_used := xs_used s - 1\<rparr>)
              | Inr answer \<Rightarrow>
                  let (out, fine) = stream (xe_lib E) (xe_lens E) (xe_conn E) (xe_unix E) (xr_msg R) (xr_tsig R) answer
                                      (xr_key R) (xr_err R);
                      s = s\<lparr>xs_used := xs_used s - 1\<rparr>
                  in ((out, fine), if fine then snd (noteTransfer (xe_text E) te (z_id (row z)) (xr_peer R) [] s) else s))"

definition serve :: "xfer_env \<Rightarrow> xfer_req \<Rightarrow> xfer_state \<Rightarrow> (signed_msg list \<times> bool) \<times> xfer_state" where
  "serve E R s =
     (case gate_and_transport E R of
        (z, Some ref) \<Rightarrow> refuse E R z ref s
      | (None, None) \<Rightarrow> (([], False), s)
      | (Some z, None) \<Rightarrow>
          if xr_udp R then (soa_only E R z, s)
          else if client_current (xe_lib E) z (xr_msg R)
          then (soa_only E R z, snd (noteTransfer (xe_text E) (fst (snd (xe_now E))) (z_id (row z)) (xr_peer R) [] s))
          else serve_whole E R z s)"

end
