(* ===== verification/Notify_Server.thy ===== *)
theory Notify_Server
  imports Transfer_Server Zone_Refresh
begin

text \<open>
  Receiving NOTIFY, \<open>internal/zones/notifyserver.go\<close>: who may announce a change, the throttle that collapses a
  burst of announcements into one pass at once and one at the end of the window, and the pass itself, which
  probes the primary's serial and transfers when it is ahead.

  The goroutines are the list \<open>nf_work\<close>; a deferred one waits out its window, then asks for the pass it waited for, and
  the lock is released between the two.  Times are nanoseconds.
\<close>

section \<open>State\<close>

record notifyState =
  nt_opened :: "int option"
  nt_deferred :: bool
  nt_primaries :: "addr_port list"
  nt_primariesAt :: "int option"

datatype work = Pass int | Waiting int | Waited int

record notify_server =
  nf_states :: "int \<rightharpoonup> notifyState"
  nf_stopped :: bool
  nf_work :: "work list"

definition notifyThrottle :: int where
  "notifyThrottle = 5 * 1000000000"

definition nt_stateFor :: "int \<Rightarrow> notify_server \<Rightarrow> notifyState" where
  "nt_stateFor i n =
     (case nf_states n i of
        Some st \<Rightarrow> st
      | None \<Rightarrow> \<lparr>nt_opened = None, nt_deferred = False, nt_primaries = [], nt_primariesAt = None\<rparr>)"

definition nt_put :: "int \<Rightarrow> notifyState \<Rightarrow> notify_server \<Rightarrow> notify_server" where
  "nt_put i st n = n\<lparr>nf_states := (nf_states n)(i \<mapsto> st)\<rparr>"

section \<open>The gate\<close>

record notifyRefusal =
  nr_rcode :: int
  nr_tsigCode :: u16

definition decideZone :: "index \<Rightarrow> msg \<Rightarrow> notifyRefusal + zone" where
  "decideZone snap m =
     (if length (m_question m) \<noteq> 1 \<or> q_type (hd (m_question m)) \<noteq> TypeSOA
      then Inl \<lparr>nr_rcode = RcodeFormatError, nr_tsigCode = 0\<rparr>
      else case Apex snap (q_name (hd (m_question m))) of
             None \<Rightarrow> Inl \<lparr>nr_rcode = RcodeNotAuth, nr_tsigCode = 0\<rparr>
           | Some z \<Rightarrow>
               if \<not> pullsFromAMaster (z_type (row z)) then Inl \<lparr>nr_rcode = RcodeNotAuth, nr_tsigCode = 0\<rparr>
               else if \<not> z_enabled (row z) then Inl \<lparr>nr_rcode = RcodeNotAuth, nr_tsigCode = 0\<rparr>
               else Inr z)"

definition notifyPeerAllowed :: "addr_port list \<Rightarrow> addr \<Rightarrow> bool" where
  "notifyPeerAllowed primaries peer = list_ex (\<lambda>ap. Unmap (fst ap) = Unmap peer) primaries"

text \<open>The key store is an argument: \<open>None\<close> when the server was built without one, and a lookup that fails is
  \<open>None\<close> as well.\<close>

type_synonym key_store = "(int \<Rightarrow> tsig_key option option) option"

definition signedByZoneKey :: "dns_lib \<Rightarrow> key_store \<Rightarrow> zone \<Rightarrow> string \<Rightarrow> tsig_err option \<Rightarrow> bool" where
  "signedByZoneKey L keys z key tsigErr =
     (if tsigErr \<noteq> None \<or> key = [] \<or> z_tsig_key (row z) = 0 then False
      else case keys of
             None \<Rightarrow> False
           | Some get \<Rightarrow>
               (case get (z_tsig_key (row z)) of
                  Some (Some k) \<Rightarrow> CanonicalName L (k_name k) = CanonicalName L key
                | _ \<Rightarrow> False))"

definition decidePeer ::
  "dns_lib \<Rightarrow> key_store \<Rightarrow> zone \<Rightarrow> addr \<Rightarrow> addr_port list \<Rightarrow> string \<Rightarrow> tsig_err option \<Rightarrow> notifyRefusal option" where
  "decidePeer L keys z peer primaries key tsigErr =
     (if \<not> notifyPeerAllowed primaries peer \<and> \<not> signedByZoneKey L keys z key tsigErr
      then Some \<lparr>nr_rcode = RcodeRefused, nr_tsigCode = 0\<rparr>
      else case tsigErr of
             None \<Rightarrow> None
           | Some TSIGSecret \<Rightarrow> Some \<lparr>nr_rcode = RcodeRefused, nr_tsigCode = RcodeBadKey\<rparr>
           | Some TSIGKeyAlg \<Rightarrow> Some \<lparr>nr_rcode = RcodeRefused, nr_tsigCode = RcodeBadKey\<rparr>
           | Some TSIGSig \<Rightarrow> Some \<lparr>nr_rcode = RcodeRefused, nr_tsigCode = RcodeBadSig\<rparr>
           | Some TSIGTime \<Rightarrow> Some \<lparr>nr_rcode = RcodeRefused, nr_tsigCode = RcodeBadTime\<rparr>
           | Some TSIGUnsigned \<Rightarrow>
               if z_tsig_key (row z) \<noteq> 0 then Some \<lparr>nr_rcode = RcodeRefused, nr_tsigCode = 0\<rparr> else None
           | Some e \<Rightarrow> Some \<lparr>nr_rcode = RcodeServerFailure, nr_tsigCode = 0\<rparr>)"

text \<open>The addresses a zone's announcements may come from.  Names are resolved at most once a window, and only for
  a peer that is not among the literal addresses.\<close>

definition primariesFor ::
  "dns_lib \<Rightarrow> ip6_text \<Rightarrow> host_lookup \<Rightarrow> int \<Rightarrow> zone \<Rightarrow> addr \<Rightarrow> notify_server \<Rightarrow> addr_port list \<times> notify_server" where
  "primariesFor L T look now z peer n =
     (case PrimaryLiterals L T (z_primaries (row z)) of
        Inl _ \<Rightarrow> ([], n)
      | Inr (literals, names) \<Rightarrow>
          if \<not> names \<or> notifyPeerAllowed literals peer then (literals, n)
          else
            let st = nt_stateFor (z_id (row z)) n;
                fresh = (case ParsePrimaries L T look (z_primaries (row z)) of Inl _ \<Rightarrow> literals | Inr aps \<Rightarrow> aps)
            in (case nt_primariesAt st of
                  Some t \<Rightarrow>
                    if now - t < notifyThrottle then (nt_primaries st, n)
                    else (fresh, nt_put (z_id (row z)) (st\<lparr>nt_primaries := fresh, nt_primariesAt := Some now\<rparr>) n)
                | None \<Rightarrow> (fresh, nt_put (z_id (row z)) (st\<lparr>nt_primaries := fresh, nt_primariesAt := Some now\<rparr>) n)))"

section \<open>The throttle\<close>

datatype admission = RunNow | Deferred | Owed

definition admit :: "int \<Rightarrow> int \<Rightarrow> notify_server \<Rightarrow> admission \<times> notify_server" where
  "admit now i n =
     (let st = nt_stateFor i n
      in if (case nt_opened st of None \<Rightarrow> False | Some t \<Rightarrow> now - t < notifyThrottle)
         then (if nt_deferred st then (Owed, n) else (Deferred, nt_put i (st\<lparr>nt_deferred := True\<rparr>) n))
         else (RunNow, nt_put i (st\<lparr>nt_opened := Some now, nt_deferred := False\<rparr>) n))"

definition abandonWindow :: "int \<Rightarrow> notify_server \<Rightarrow> notify_server" where
  "abandonWindow i n = nt_put i ((nt_stateFor i n)\<lparr>nt_opened := None, nt_deferred := False\<rparr>) n"

definition dropDeferred :: "int \<Rightarrow> notify_server \<Rightarrow> notify_server" where
  "dropDeferred i n = nt_put i ((nt_stateFor i n)\<lparr>nt_deferred := False\<rparr>) n"

definition startWork :: "work \<Rightarrow> notify_server \<Rightarrow> bool \<times> notify_server" where
  "startWork x n = (if nf_stopped n then (False, n) else (True, n\<lparr>nf_work := nf_work n @ [x]\<rparr>))"

text \<open>What an accepted announcement sets going.\<close>

definition accepted :: "int \<Rightarrow> int \<Rightarrow> notify_server \<Rightarrow> notify_server" where
  "accepted now i n =
     (case admit now i n of
        (RunNow, n) \<Rightarrow> (case startWork (Pass i) n of (True, n) \<Rightarrow> n | (False, n) \<Rightarrow> abandonWindow i n)
      | (Deferred, n) \<Rightarrow> (case startWork (Waiting i) n of (True, n) \<Rightarrow> n | (False, n) \<Rightarrow> dropDeferred i n)
      | (Owed, n) \<Rightarrow> n)"

text \<open>\<open>waitOutWindow\<close> has seen the end of the window at \<open>now\<close>; \<open>claimDeferred\<close> then takes the lock.\<close>

definition window_over :: "int \<Rightarrow> int \<Rightarrow> notify_server \<Rightarrow> bool" where
  "window_over now i n = (case nt_opened (nt_stateFor i n) of None \<Rightarrow> True | Some t \<Rightarrow> notifyThrottle \<le> now - t)"

definition claimDeferred :: "int \<Rightarrow> int \<Rightarrow> notify_server \<Rightarrow> bool \<times> notify_server" where
  "claimDeferred now i n =
     (let st = nt_stateFor i n
      in if \<not> nt_deferred st then (False, n)
         else (True, nt_put i (st\<lparr>nt_opened := Some now, nt_deferred := False\<rparr>) n))"

section \<open>The handler\<close>

record notify_env =
  ne_lib :: dns_lib
  ne_text :: ip6_text
  ne_look :: host_lookup
  ne_keys :: key_store
  ne_snap :: index
  ne_conn :: conn
  ne_unix :: int

text \<open>The clock is read for the primaries, for the refusal and for the throttle.\<close>

definition ServeNotify ::
  "notify_env \<Rightarrow> int \<times> int \<times> int \<Rightarrow> xfer_req \<Rightarrow> notify_server \<Rightarrow> (signed_msg list \<times> bool) \<times> notify_server" where
  "ServeNotify E t R n =
     (let m = xr_msg R;
          refuse = (\<lambda>ref. writeRefusal (ne_lib E) (ne_conn E) (ne_unix E) (fst (snd t) div 1000000000) m (xr_tsig R) (nr_rcode ref)
                            (nr_tsigCode ref) (xr_key R) (xr_err R))
      in case decideZone (ne_snap E) m of
           Inl ref \<Rightarrow> (refuse ref, n)
         | Inr z \<Rightarrow>
             (case primariesFor (ne_lib E) (ne_text E) (ne_look E) (fst t) z (xr_peer R) n of
                (aps, n) \<Rightarrow>
                  (case decidePeer (ne_lib E) (ne_keys E) z (xr_peer R) aps (xr_key R) (xr_err R) of
                     Some ref \<Rightarrow> (refuse ref, n)
                   | None \<Rightarrow>
                       (write_one (ne_conn E) (signIfVerified (ne_lib E) (ne_unix E) (xr_tsig R) (xr_key R) (xr_err R)
                          ((SetReply (ne_lib E) m)\<lparr>m_aa := True\<rparr>)),
                        accepted (snd (snd t)) (z_id (row z)) n))))"

section \<open>A pass\<close>

definition act ::
  "dns_lib \<Rightarrow> ip6_text \<Rightarrow> ('w, 'x) pull_net_scheme \<Rightarrow> bool \<Rightarrow> nat \<Rightarrow> (zdb \<Rightarrow> zdb) \<Rightarrow> (xfer_err \<Rightarrow> string) \<Rightarrow> bool
   \<Rightarrow> (int \<Rightarrow> int) \<Rightarrow> bool \<Rightarrow> zone_row \<Rightarrow> refresher \<times> 'w \<times> zdb \<Rightarrow> refresher \<times> 'w \<times> zdb" where
  "act L T N attached maxR meanwhile etext shutdown jitter probes z s =
     (case s of (r, w, d) \<Rightarrow>
        let (go, w) =
              (if z_refreshed_at z \<noteq> 0 \<and> probes
               then (case ProbeSerial L T N attached z d w of
                       (Inl _, w) \<Rightarrow> (False, w)
                     | (Inr (remote, _), w) \<Rightarrow> (SerialNewer remote (z_soa_serial z), w))
               else (True, w))
        in if go then snd (Refresh L T N attached maxR meanwhile etext shutdown jitter (z_id z) (r, w, d)) else (r, w, d))"

definition notify_pass ::
  "dns_lib \<Rightarrow> ip6_text \<Rightarrow> ('w, 'x) pull_net_scheme \<Rightarrow> bool \<Rightarrow> nat \<Rightarrow> (zdb \<Rightarrow> zdb) \<Rightarrow> (xfer_err \<Rightarrow> string) \<Rightarrow> bool
   \<Rightarrow> (int \<Rightarrow> int) \<Rightarrow> bool \<Rightarrow> int \<Rightarrow> refresher \<times> 'w \<times> zdb \<Rightarrow> refresher \<times> 'w \<times> zdb" where
  "notify_pass L T N attached maxR meanwhile etext shutdown jitter probes i s =
     (case s of (r, w, d) \<Rightarrow>
        (case Zone i d of
           Inl _ \<Rightarrow> (r, w, d)
         | Inr z \<Rightarrow> act L T N attached maxR meanwhile etext shutdown jitter probes z (r, w, d)))"

section \<open>The server at work\<close>

text \<open>
  Handlers and goroutines in any order.  A goroutine ends before its time only once the server is stopped.
\<close>

inductive notify_step :: "notify_server \<Rightarrow> notify_server \<Rightarrow> bool" where
  handle: "notify_step n (snd (ServeNotify E t R n))"
| wake: "nf_work n = xs @ Waiting i # ys \<Longrightarrow> window_over now i n \<Longrightarrow> notify_step n (n\<lparr>nf_work := xs @ Waited i # ys\<rparr>)"
| claim: "nf_work n = xs @ Waited i # ys \<Longrightarrow> claimDeferred now i n = (True, n') \<Longrightarrow>
     notify_step n (n'\<lparr>nf_work := xs @ Pass i # ys\<rparr>)"
| give_up: "nf_work n = xs @ Waited i # ys \<Longrightarrow> claimDeferred now i n = (False, n') \<Longrightarrow>
     notify_step n (n'\<lparr>nf_work := xs @ ys\<rparr>)"
| finish: "nf_work n = xs @ Pass i # ys \<Longrightarrow> notify_step n (n\<lparr>nf_work := xs @ ys\<rparr>)"
| stop: "notify_step n (n\<lparr>nf_stopped := True\<rparr>)"
| cancelled: "nf_stopped n \<Longrightarrow> nf_work n = xs @ x # ys \<Longrightarrow> notify_step n (n\<lparr>nf_work := xs @ ys\<rparr>)"

definition notify_start :: notify_server where
  "notify_start = \<lparr>nf_states = (\<lambda>_. None), nf_stopped = False, nf_work = []\<rparr>"

inductive notify_reachable :: "notify_server \<Rightarrow> bool" where
  start: "notify_reachable notify_start"
| step: "notify_reachable n \<Longrightarrow> notify_step n n' \<Longrightarrow> notify_reachable n'"

end
