(* ===== verification/Transfer_Server_Props.thy ===== *)
theory Transfer_Server_Props
  imports Transfer_Server Answer_Props
begin

text \<open>
  What serving a zone promises: zone data goes only to peers the gate approved, a whole transfer is the zone
  framed the way the pulling side of this program reads it, and a peer cannot make the server write to
  its store at will.
\<close>

section \<open>The gate\<close>

text \<open>What approval means, read off the zone and the request: the zone is enabled, holds data and is current,
  and the peer is on the list, by its address or by the key its signature verified under, or else it is a
  registered replica signing its pull of a primary zone.\<close>

definition may_have :: "xfer_env \<Rightarrow> xfer_req \<Rightarrow> zone \<Rightarrow> bool" where
  "may_have E R z \<longleftrightarrow>
     z_enabled (row z) \<and> ToLower (z_type (row z)) \<in> {''primary'', ''secondary''} \<and>
     Serving z (fst (xe_now E) div 1000000) \<and>
     xr_err R \<in> {None, Some TSIGUnsigned} \<and>
     (let key = (if xr_err R = None then xr_key R else [])
      in (\<exists>es. ParseACL (xe_lib E) (xe_text E) (z_allow_transfer (row z)) = Inr es \<and>
               (ACLAllows (xe_lib E) es (xr_peer R) key \<or> replicaMayPull (xe_replica E) z (xr_peer R) key (xr_err R))))"

lemma zone_gate_None:
  assumes "zone_gate z nowMs = None"
  shows "z_enabled (row z)" "ToLower (z_type (row z)) \<in> {''primary'', ''secondary''}" "Serving z nowMs"
  using assms by (auto simp: zone_gate_def Serving_def split: if_splits)

lemma tsig_gate_Inr:
  assumes "tsig_gate key err = Inr k"
  shows "err \<in> {None, Some TSIGUnsigned}" "k = (if err = None then key else [])"
  using assms by (auto simp: tsig_gate_def split: option.splits tsig_err.splits)

lemma acl_gate_None:
  assumes "acl_gate L T ra z peer key err = None"
  shows "\<exists>es. ParseACL L T (z_allow_transfer (row z)) = Inr es \<and>
              (ACLAllows L es peer key \<or> replicaMayPull ra z peer key err)"
  using assms by (auto simp: acl_gate_def split: sum.splits if_splits)

lemma gate_approves:
  assumes "gate_and_transport E R = (z', None)"
  obtains q z where "z' = Some z" "m_question (xr_msg R) = [q]" "Apex (xe_snap E) (q_name q) = Some z" "may_have E R z"
    "xr_udp R \<Longrightarrow> q_type q \<noteq> TypeAXFR"
proof -
  have d: "decide (xe_lib E) (xe_text E) (xe_snap E) (xe_replica E) (fst (xe_now E) div 1000000) (xr_msg R) (xr_peer R)
      (xr_key R) (xr_err R) = (z', None)"
    and u: "xr_udp R \<Longrightarrow> q_type (hd (m_question (xr_msg R))) \<noteq> TypeAXFR"
    using assms by (auto simp: gate_and_transport_def Let_def split: prod.splits if_splits)
  obtain q where q: "m_question (xr_msg R) = [q]"
    using d by (auto simp: decide_def split: list.splits)
  obtain z where z: "Apex (xe_snap E) (q_name q) = Some z" "z' = Some z" "zone_gate z (fst (xe_now E) div 1000000) = None"
    using d by (auto simp: decide_def q split: if_splits option.splits sum.splits)
  obtain k where k: "tsig_gate (xr_key R) (xr_err R) = Inr k"
    "acl_gate (xe_lib E) (xe_text E) (xe_replica E) z (xr_peer R) k (xr_err R) = None"
    using d z by (auto simp: decide_def q split: if_splits option.splits sum.splits)
  have "may_have E R z"
    using zone_gate_None [OF z(3)] tsig_gate_Inr [OF k(1)] acl_gate_None [OF k(2)] by (simp add: may_have_def Let_def)
  then show ?thesis using that z q u by simp
qed

lemma refuse_no_data:
  assumes "reply_laws (xe_lib E)" "refuse E R z ref s = ((out, fine), s')" "(m, sig) \<in> set out"
  shows "m_answer m = []"
  using assms
  by (auto simp: refuse_def writeRefusal_def write_one_def refusal_msg_def signIfVerified_def Let_def reply_laws_simps
      split: prod.splits if_splits)

lemma serve_refused: "gate_and_transport E R = (z, Some ref) \<Longrightarrow> serve E R s = refuse E R z ref s"
  by (cases z) (simp_all add: serve_def)


section \<open>The stream\<close>

lemma batch_loop_concat: "concat (batch_loop len budget current sz rs) = current @ rs"
  by (induction len budget current sz rs rule: batch_loop.induct) auto

lemma batch_loop_sizes:
  assumes "e \<in> set (batch_loop len budget current sz rs)" "sz = sum_list (map len current)"
    and "sz \<le> budget \<or> length current \<le> 1"
  shows "e \<noteq> [] \<and> (sum_list (map len e) \<le> budget \<or> length e = 1)"
  using assms
proof (induction len budget current sz rs rule: batch_loop.induct)
  case (1 len budget current sz)
  then show ?case by (cases current) (auto split: if_splits)
next
  case (2 len budget current sz r rs)
  show ?case
  proof (cases "current \<noteq> [] \<and> sz + len r > budget")
    case True
    with 2(3) have "e = current \<or> e \<in> set (batch_loop len budget [r] (len r) rs)" by simp
    then show ?thesis
    proof
      assume "e = current"
      then show ?thesis using True 2(4,5) by (cases current) auto
    next
      assume "e \<in> set (batch_loop len budget [r] (len r) rs)"
      then show ?thesis by (rule 2(1) [OF True]) simp_all
    qed
  next
    case False
    with 2(3) have "e \<in> set (batch_loop len budget (current @ [r]) (sz + len r) rs)" by simp
    moreover have "sz + len r \<le> budget \<or> length (current @ [r]) \<le> 1" using False by (cases current) auto
    ultimately show ?thesis using 2(2) [OF False] 2(4) by simp
  qed
qed

lemma stream_loop_all:
  assumes "\<And>i. cn_ok C i" "\<And>i. \<not> cn_done C i"
  shows "stream_loop mk C i es = (map (\<lambda>(i, e). mk i e) (zip [i..<i + length es] es), True)"
proof (induction es arbitrary: i)
  case (Cons e es)
  then show ?case using assms by (simp add: upt_conv_Cons del: upt_Suc)
qed simp

lemma envelope_answer:
  assumes "edns_laws L"
  shows "m_answer (fst (envelope L unix q key req i recs)) = recs"
  using assms by (simp add: envelope_def Let_def edns_laws_def)

lemma fetch_loop_all:
  "length acc + length (concat es) \<le> maxR \<Longrightarrow> fetch_loop maxR acc (map Inr es) = Some (acc @ concat es)"
  by (induction es arbitrary: acc) auto

lemma xfr_body_framed:
  "soa_of (SOA L z) = Some soa \<Longrightarrow> xfr_body soa (SOA L z # body @ [SOA L z]) = Some body"
  by (auto simp: xfr_body_def)

text \<open>What the stream of an approved transfer looks like when the connection holds.\<close>

lemma serve_streams:
  assumes "gate_and_transport E R = (Some z, None)" "\<not> xr_udp R" "\<not> client_current (xe_lib E) z (xr_msg R)"
    and "xs_used s < xe_cap E" "zoneAnswer (xe_lib E) z = Inr answer"
    and "\<And>i. cn_ok (xe_conn E) i" "\<And>i. \<not> cn_done (xe_conn E) i"
    and "serve E R s = ((out, fine), s')"
  defines "req \<equiv> requestTSIG (xr_tsig R) (xr_key R) (xr_err R)"
  defines "es \<equiv> batch (ln_rr (xe_lens E)) answer (envelopeBudget (xe_lib E) (xe_lens E) (xe_unix E) (xr_msg R) (xr_key R) req)"
  shows "fine" "out = map (\<lambda>(i, e). envelope (xe_lib E) (xe_unix E) (xr_msg R) (xr_key R) req i e) (zip [0..<length es] es)"
    "xs_used s' = xs_used s"
proof -
  let ?out = "map (\<lambda>(i, e). envelope (xe_lib E) (xe_unix E) (xr_msg R) (xr_key R) req i e) (zip [0..<length es] es)"
  have st: "stream (xe_lib E) (xe_lens E) (xe_conn E) (xe_unix E) (xr_msg R) (xr_tsig R) answer (xr_key R) (xr_err R) = (?out, True)"
    using stream_loop_all [OF assms(6,7), where i = 0] by (simp add: stream_def Let_def req_def es_def)
  obtain a tn b te where now: "xe_now E = (a, tn, b, te)" by (cases "xe_now E")
  have "serve E R s = ((?out, True), snd (noteTransfer (xe_text E) te (z_id (row z)) (xr_peer R) [] (s\<lparr>xs_used := xs_used s\<rparr>)))"
    using assms(1-5) by (simp add: serve_def serve_whole_def now st Let_def)
  with assms(8) show "fine" "out = ?out" "xs_used s' = xs_used s"
    by (auto simp: noteTransfer_def Let_def split: if_splits)
qed


section \<open>The record of who asked\<close>

text \<open>A run of refusals for one zone: at each its time and its reason.\<close>

fun note_run :: "ip6_text \<Rightarrow> int \<Rightarrow> addr \<Rightarrow> (int \<times> string) list \<Rightarrow> xfer_state \<Rightarrow> nat \<times> xfer_state" where
  "note_run T zid peer [] s = (0, s)"
| "note_run T zid peer ((t, why) # xs) s =
     (let (wrote, s) = noteTransfer T t zid peer why s; (n, s) = note_run T zid peer xs s
      in ((if wrote then Suc n else n), s))"

lemma note_quiet:
  assumes "xs_lastNote s zid = Some (a, why)" "why \<noteq> []" "lo \<le> a"
    and "list_all (\<lambda>(t, w). t < lo + transferStateThrottle \<and> w \<noteq> []) xs"
  shows "note_run T zid peer xs s = (0, s)"
  using assms(4)
proof (induction xs)
  case (Cons x xs)
  then show ?case using assms(1-3) by (cases x) (simp add: noteTransfer_def Let_def)
qed simp

text \<open>Refusals do not drive the store.  However many transfer requests for a zone are refused within ten
  seconds, and whatever their reasons, at most one of them is written to the zone's row.\<close>

theorem refusals_throttled:
  assumes "list_all (\<lambda>(t, why). lo \<le> t \<and> t < lo + transferStateThrottle \<and> why \<noteq> []) xs"
  shows "fst (note_run T zid peer xs s) \<le> 1"
  using assms
proof (induction xs arbitrary: s)
  case (Cons x xs)
  obtain t why where x: "x = (t, why)" by fastforce
  obtain wrote s1 where n: "noteTransfer T t zid peer why s = (wrote, s1)" by fastforce
  show ?case
  proof (cases wrote)
    case True
    then have "xs_lastNote s1 zid = Some (t, why)" using n by (auto simp: noteTransfer_def Let_def split: if_splits)
    then have "note_run T zid peer xs s1 = (0, s1)"
      using Cons.prems x by (intro note_quiet [where lo = lo]) (auto simp: list_all_iff)
    then show ?thesis by (simp add: x n)
  next
    case False
    then have "s1 = s" using n by (auto simp: noteTransfer_def Let_def split: if_splits)
    then show ?thesis using Cons False by (simp add: x n case_prod_beta)
  qed
qed simp

section \<open>Witnesses\<close>

definition xt_env :: "nat \<Rightarrow> xfer_env" where
  "xt_env cap =
     \<lparr>xe_lib = plain_lib, xe_text = ex_text,
      xe_texts = \<lparr>tx_class = (\<lambda>_. ''class''), tx_type = (\<lambda>_. ''type''), tx_tsig = (\<lambda>_. ''tsig''), tx_acl = (\<lambda>_. ''acl'')\<rparr>,
      xe_lens = \<lparr>ln_rr = (\<lambda>_. 6000), ln_tsig = (\<lambda>_. 60)\<rparr>,
      xe_snap = NewIndex [NewZone (ex_row\<lparr>z_allow_transfer := ''10.0.0.0/8, key:ns2.''\<rparr>)
                            [ex_rec 1 ''www'' ''A'' ''10.0.0.1'', ex_rec 2 ''alias'' ''CNAME'' ''www.e412.in.'']],
      xe_replica = None, xe_cap = cap, xe_conn = \<lparr>cn_ok = (\<lambda>_. True), cn_done = (\<lambda>_. False)\<rparr>,
      xe_now = (0, 1, 2, 3), xe_unix = 0\<rparr>"

definition xt_zone :: zone where
  "xt_zone = hd (ix_zones (xe_snap (xt_env 0)))"

definition xt_req :: "addr \<Rightarrow> xfer_req" where
  "xt_req peer = \<lparr>xr_msg = rq_msg (ex_query ''e412.in.'' TypeAXFR), xr_tsig = None, xr_peer = peer, xr_udp = False, xr_key = [],
     xr_err = Some TSIGUnsigned\<rparr>"

definition xt_state :: xfer_state where
  "xt_state = \<lparr>xs_db = \<lparr>db_version = 1, db_subs = [], db_settings = [], db_groups = [], db_clients = [], db_lists = [],
     db_group_lists = [], db_rules = [], seq_groups = 0, seq_clients = 0, seq_lists = 0, seq_rules = 0,
     zd_zones = [row xt_zone], zd_records = [], zd_keys = [], seq_zones = 1, seq_records = 4, seq_keys = 0\<rparr>,
     xs_lastNote = (\<lambda>_. None), xs_used = 3\<rparr>"

lemma xt_apex:
  assumes "m_question (xr_msg (xt_req p)) = [q]" "Apex (xe_snap (xt_env 4)) (q_name q) = Some z"
  shows "z = xt_zone"
proof -
  have "Apex (xe_snap (xt_env 4)) ''e412.in.'' = Some xt_zone" by (simp add: xt_env_def xt_zone_def) code_simp
  moreover have "q_name q = ''e412.in.''" using assms(1) by (auto simp: xt_req_def ex_query_def)
  ultimately show ?thesis using assms(2) by simp
qed



theorem refusals_throttled_witness:
  "fst (note_run ex_text 1 (V4 1) [(5, ''a''), (7, ''b''), (9000000000, ''a'')] xt_state) \<le> 1"
  by (rule refusals_throttled [where lo = 5]) (simp add: transferStateThrottle_def)

end
