(* ===== verification/Notify_Server_Props.thy ===== *)
theory Notify_Server_Props
  imports Notify_Server Transfer_Server_Props
begin

text \<open>
  What receiving NOTIFY promises: only a zone's own primaries set anything going, and an announcement that was
  accepted is followed by a pass that begins after it, now or at the end of the window.
\<close>

section \<open>Who may announce\<close>

lemma nt_stateFor_put [simp]: "nt_stateFor j (nt_put i st n) = (if j = i then st else nt_stateFor j n)"
  by (simp add: nt_stateFor_def nt_put_def)

lemma nt_stateFor_work [simp]: "nt_stateFor i (n\<lparr>nf_work := x\<rparr>) = nt_stateFor i n" "nt_stateFor i (n\<lparr>nf_stopped := b\<rparr>) = nt_stateFor i n"
  by (simp_all add: nt_stateFor_def)

lemma nt_put_sel [simp]: "nf_work (nt_put i st n) = nf_work n" "nf_stopped (nt_put i st n) = nf_stopped n"
  by (simp_all add: nt_put_def)

lemma primariesFor_work [simp]:
  "nf_work (snd (primariesFor L T look now z peer n)) = nf_work n"
  "nf_stopped (snd (primariesFor L T look now z peer n)) = nf_stopped n"
  by (simp_all add: primariesFor_def Let_def split: sum.split prod.split option.split)

lemma primariesFor_throttle [simp]:
  "nt_opened (nt_stateFor i (snd (primariesFor L T look now z peer n))) = nt_opened (nt_stateFor i n)"
  "nt_deferred (nt_stateFor i (snd (primariesFor L T look now z peer n))) = nt_deferred (nt_stateFor i n)"
  by (simp_all add: primariesFor_def Let_def split: sum.split prod.split option.split)

text \<open>The two outcomes of the handler.\<close>

lemma ServeNotify_cases:
  obtains (refused) n1 where "snd (ServeNotify E t R n) = n1" "nf_work n1 = nf_work n" "nf_stopped n1 = nf_stopped n"
      "\<And>i. nt_opened (nt_stateFor i n1) = nt_opened (nt_stateFor i n)" "\<And>i. nt_deferred (nt_stateFor i n1) = nt_deferred (nt_stateFor i n)"
  | (accepts) z n1 aps where "decideZone (ne_snap E) (xr_msg R) = Inr z"
      "primariesFor (ne_lib E) (ne_text E) (ne_look E) (fst t) z (xr_peer R) n = (aps, n1)"
      "decidePeer (ne_lib E) (ne_keys E) z (xr_peer R) aps (xr_key R) (xr_err R) = None"
      "snd (ServeNotify E t R n) = accepted (snd (snd t)) (z_id (row z)) n1"
      "nf_work n1 = nf_work n" "nf_stopped n1 = nf_stopped n"
      "\<And>i. nt_opened (nt_stateFor i n1) = nt_opened (nt_stateFor i n)" "\<And>i. nt_deferred (nt_stateFor i n1) = nt_deferred (nt_stateFor i n)"
proof (cases "decideZone (ne_snap E) (xr_msg R)")
  case (Inl ref)
  then show ?thesis by (intro refused [of n]) (simp_all add: ServeNotify_def Let_def)
next
  case (Inr z)
  obtain aps n1 where p: "primariesFor (ne_lib E) (ne_text E) (ne_look E) (fst t) z (xr_peer R) n = (aps, n1)" by fastforce
  have n1: "nf_work n1 = nf_work n" "nf_stopped n1 = nf_stopped n" "nt_opened (nt_stateFor i n1) = nt_opened (nt_stateFor i n)"
    "nt_deferred (nt_stateFor i n1) = nt_deferred (nt_stateFor i n)" for i
    using primariesFor_work [where n = n] primariesFor_throttle [where n = n] p by (metis snd_conv)+
  show ?thesis
  proof (cases "decidePeer (ne_lib E) (ne_keys E) z (xr_peer R) aps (xr_key R) (xr_err R)")
    case None
    show ?thesis by (rule accepts [OF Inr p None _ n1]) (simp add: ServeNotify_def Let_def Inr p None)
  next
    case (Some ref)
    show ?thesis by (rule refused [OF _ n1]) (simp add: ServeNotify_def Let_def Inr p Some)
  qed
qed


section \<open>No announcement is lost\<close>

text \<open>While the server runs, a zone that owes a pass has a goroutine that will claim it.\<close>

definition owed_ok :: "notify_server \<Rightarrow> bool" where
  "owed_ok n \<longleftrightarrow> (\<forall>i. \<not> nf_stopped n \<and> nt_deferred (nt_stateFor i n) \<longrightarrow> Waiting i \<in> set (nf_work n) \<or> Waited i \<in> set (nf_work n))"

lemma accepted_running:
  assumes "\<not> nf_stopped n"
  shows "accepted now i n =
    (if (case nt_opened (nt_stateFor i n) of None \<Rightarrow> False | Some t \<Rightarrow> now - t < notifyThrottle)
     then (if nt_deferred (nt_stateFor i n) then n
           else (nt_put i ((nt_stateFor i n)\<lparr>nt_deferred := True\<rparr>) n)\<lparr>nf_work := nf_work n @ [Waiting i]\<rparr>)
     else (nt_put i ((nt_stateFor i n)\<lparr>nt_opened := Some now, nt_deferred := False\<rparr>) n)\<lparr>nf_work := nf_work n @ [Pass i]\<rparr>)"
  using assms by (simp add: accepted_def admit_def startWork_def Let_def)

lemma accepted_stopped: "nf_stopped n \<Longrightarrow> nf_stopped (accepted now i n)"
  by (simp add: accepted_def admit_def startWork_def abandonWindow_def dropDeferred_def Let_def split: option.split)

lemma accepted_ok: "owed_ok n \<Longrightarrow> owed_ok (accepted now i n)"
  using accepted_stopped [of n now i] by (cases "nf_stopped n") (auto simp: owed_ok_def accepted_running)

lemma notify_step_ok:
  assumes "notify_step n n'" "owed_ok n"
  shows "owed_ok n'"
  using assms
proof (induction rule: notify_step.induct)
  case (handle n E t R)
  show ?case
  proof (cases rule: ServeNotify_cases [of E t R n])
    case (refused n1)
    then show ?thesis using handle by (simp add: owed_ok_def)
  next
    case (accepts z n1 aps)
    then have "owed_ok n1" using handle by (simp add: owed_ok_def)
    then show ?thesis using accepts(4) accepted_ok by simp
  qed
next
  case (wake n xs i ys now)
  then show ?case by (auto simp: owed_ok_def)
next
  case (claim n xs i ys now n')
  then show ?case by (auto simp: owed_ok_def claimDeferred_def Let_def split: if_splits)
next
  case (give_up n xs i ys now n')
  then show ?case by (auto simp: owed_ok_def claimDeferred_def Let_def split: if_splits)
next
  case (finish n xs i ys)
  then show ?case by (auto simp: owed_ok_def)
qed (auto simp: owed_ok_def)

lemma reachable_ok: "notify_reachable n \<Longrightarrow> owed_ok n"
proof (induction rule: notify_reachable.induct)
  case start
  then show ?case by (simp add: owed_ok_def notify_start_def nt_stateFor_def)
next
  case (step n n')
  then show ?case using notify_step_ok by blast
qed

text \<open>An accepted announcement is followed.  When a running server accepts a NOTIFY, a pass for its zone is
  begun at once, or the zone owes one and a goroutine is there to claim it.\<close>

theorem notify_followed:
  assumes "notify_reachable n" "\<not> nf_stopped n"
    and "decideZone (ne_snap E) (xr_msg R) = Inr z"
    and "primariesFor (ne_lib E) (ne_text E) (ne_look E) (fst t) z (xr_peer R) n = (aps, n1)"
    and "decidePeer (ne_lib E) (ne_keys E) z (xr_peer R) aps (xr_key R) (xr_err R) = None"
    and "ServeNotify E t R n = (out, n')"
  shows "nf_work n' = nf_work n @ [Pass (z_id (row z))] \<or>
         nt_deferred (nt_stateFor (z_id (row z)) n') \<and>
         (Waiting (z_id (row z)) \<in> set (nf_work n') \<or> Waited (z_id (row z)) \<in> set (nf_work n'))"
proof -
  have n1: "nf_work n1 = nf_work n" "\<not> nf_stopped n1"
    using primariesFor_work [of "ne_lib E" "ne_text E" "ne_look E" "fst t" z "xr_peer R" n] assms(2,4) by simp_all
  have n': "n' = accepted (snd (snd t)) (z_id (row z)) n1"
    using assms(3-6) by (simp add: ServeNotify_def Let_def)
  have "notify_step n n'" using handle [of n E t R] assms(6) by simp
  then have "owed_ok n'" using notify_step_ok reachable_ok [OF assms(1)] by blast
  moreover have "\<not> nf_stopped n'" using n1 by (simp add: n' accepted_running)
  ultimately show ?thesis
    using n1 by (auto simp: owed_ok_def n' accepted_running)
qed

lemma count_list_mid: "count_list (xs @ y # ys) x = count_list (xs @ ys) x + (if x = y then 1 else 0)"
  by simp

text \<open>C32: a pass that is owed is made.  While a zone owes a pass, nothing that happens to a running server, short
  of stopping it, takes the debt away: it stands, with a goroutine to claim it, or it is turned into a pass.\<close>

theorem owed_pass_kept:
  assumes "notify_reachable n" "\<not> nf_stopped n" "nt_deferred (nt_stateFor i n)" "notify_step n n'"
  shows "nf_stopped n' \<or>
         nt_deferred (nt_stateFor i n') \<and> (Waiting i \<in> set (nf_work n') \<or> Waited i \<in> set (nf_work n')) \<or>
         count_list (nf_work n') (Pass i) = Suc (count_list (nf_work n) (Pass i))"
proof -
  have ok: "owed_ok n'" using notify_step_ok [OF assms(4) reachable_ok [OF assms(1)]] .
  have "nf_stopped n' \<or> nt_deferred (nt_stateFor i n') \<or> count_list (nf_work n') (Pass i) = Suc (count_list (nf_work n) (Pass i))"
    using assms(4,2,3)
  proof (induction rule: notify_step.induct)
    case (handle n E t R)
    show ?case
    proof (cases rule: ServeNotify_cases [of E t R n])
      case (refused n1)
      then show ?thesis using handle by simp
    next
      case (accepts z n1 aps)
      then show ?thesis using handle by (cases "z_id (row z) = i") (auto simp: accepted_running)
    qed
  next
    case (claim n xs j ys now n')
    then show ?case by (cases "j = i") (auto simp: claimDeferred_def Let_def split: if_splits)
  next
    case (give_up n xs j ys now n')
    then show ?case by (cases "j = i") (auto simp: claimDeferred_def Let_def split: if_splits)
  qed auto
  with ok show ?thesis unfolding owed_ok_def by blast
qed

section \<open>The window can be cut short\<close>

text \<open>Four announcements and a goroutine that wakes between the lock of its wait and the lock of its claim.\<close>

definition nx_env :: notify_env where
  "nx_env = \<lparr>ne_lib = plain_lib, ne_text = ex_text, ne_look = (\<lambda>_. None), ne_keys = None,
     ne_snap = NewIndex [NewZone (ex_row\<lparr>z_type := ''secondary'', z_primaries := ''10.0.0.2''\<rparr>) []],
     ne_conn = \<lparr>cn_ok = (\<lambda>_. True), cn_done = (\<lambda>_. False)\<rparr>, ne_unix = 0\<rparr>"

definition nx_req :: xfer_req where
  "nx_req = \<lparr>xr_msg = (rq_msg (ex_query ''e412.in.'' TypeSOA))\<lparr>m_opcode := 4\<rparr>, xr_tsig = None, xr_peer = V4 0x0A000002,
     xr_udp = True, xr_key = [], xr_err = Some TSIGUnsigned\<rparr>"

definition nx_notify :: "int \<Rightarrow> notify_server \<Rightarrow> notify_server" where
  "nx_notify s n = snd (ServeNotify nx_env (0, 0, s * 1000000000) nx_req n)"

definition nx_wake :: "notify_server \<Rightarrow> notify_server" where
  "nx_wake n = n\<lparr>nf_work := [Pass 1, Waited 1]\<rparr>"

definition nx_race :: notify_server where
  "nx_race = nx_notify 7 (nx_notify 6 (nx_wake (nx_notify 2 (nx_notify 1 notify_start))))"

lemma nx_evaluated:
  "nf_work (nx_notify 2 (nx_notify 1 notify_start)) = [Pass 1] @ Waiting 1 # [] \<and>
   window_over 6000000000 1 (nx_notify 2 (nx_notify 1 notify_start)) \<and>
   nf_work nx_race = [Pass 1] @ Waited 1 # [Pass 1, Waiting 1] \<and> nt_opened (nt_stateFor 1 nx_race) = Some 6000000000 \<and>
   nt_deferred (nt_stateFor 1 nx_race) \<and> \<not> nf_stopped nx_race"
  by code_simp

lemma nx_notify_reachable: "notify_reachable n \<Longrightarrow> notify_reachable (nx_notify s n)"
  unfolding nx_notify_def by (rule notify_reachable.step [OF _ handle])

lemma nx_race_reachable: "notify_reachable nx_race"
proof -
  have "notify_reachable (nx_notify 2 (nx_notify 1 notify_start))"
    by (intro nx_notify_reachable notify_reachable.start)
  moreover have "notify_step (nx_notify 2 (nx_notify 1 notify_start)) (nx_wake (nx_notify 2 (nx_notify 1 notify_start)))"
    using wake [of "nx_notify 2 (nx_notify 1 notify_start)" "[Pass 1]" 1 "[]" 6000000000] nx_evaluated by (simp add: nx_wake_def)
  ultimately show ?thesis unfolding nx_race_def by (intro nx_notify_reachable) (rule notify_reachable.step)
qed

text \<open>C33: two passes can be closer than the window.  The constant is documented as the shortest interval between two
  probes of a zone; but a goroutine that has waited out its window takes the lock again to claim its pass and
  looks only at the debt.  Here a pass is begun at six seconds by an announcement that got in between, a second
  announcement leaves a debt at seven, and the claim made a moment later begins another pass at once.\<close>

theorem claim_cuts_window_short:
  "\<exists>n n' t now. notify_reachable n \<and> Waited 1 \<in> set (nf_work n) \<and> nt_opened (nt_stateFor 1 n) = Some t \<and>
     claimDeferred now 1 n = (True, n') \<and> t \<le> now \<and> now - t < notifyThrottle"
proof -
  obtain n' where "claimDeferred 7000000001 1 nx_race = (True, n')"
    using nx_evaluated by (simp add: claimDeferred_def Let_def)
  moreover have "(6000000000 :: int) \<le> 7000000001 \<and> 7000000001 - 6000000000 < notifyThrottle" by (simp add: notifyThrottle_def)
  ultimately show ?thesis using nx_race_reachable nx_evaluated
    by (intro exI [of _ nx_race] exI [of _ n'] exI [of _ 6000000000] exI [of _ 7000000001]) simp
qed

section \<open>Witnesses\<close>


theorem owed_pass_kept_witness:
  "\<exists>n'. nf_stopped n' \<or>
     nt_deferred (nt_stateFor 1 n') \<and> (Waiting 1 \<in> set (nf_work n') \<or> Waited 1 \<in> set (nf_work n')) \<or>
     count_list (nf_work n') (Pass 1) = Suc (count_list (nf_work nx_race) (Pass 1))"
proof -
  have "notify_step nx_race (nx_notify 8 nx_race)" unfolding nx_notify_def by (rule handle)
  from owed_pass_kept [OF nx_race_reachable _ _ this, of 1] nx_evaluated show ?thesis by blast
qed

theorem notify_followed_witness:
  "nf_work (nx_notify 8 nx_race) = nf_work nx_race @ [Pass 1] \<or>
   nt_deferred (nt_stateFor 1 (nx_notify 8 nx_race)) \<and>
   (Waiting 1 \<in> set (nf_work (nx_notify 8 nx_race)) \<or> Waited 1 \<in> set (nf_work (nx_notify 8 nx_race)))"
proof -
  let ?z = "NewZone (ex_row\<lparr>z_type := ''secondary'', z_primaries := ''10.0.0.2''\<rparr>) []"
  let ?p = "primariesFor (ne_lib nx_env) (ne_text nx_env) (ne_look nx_env) 0 ?z (xr_peer nx_req) nx_race"
  have "case decideZone (ne_snap nx_env) (xr_msg nx_req) of Inl _ \<Rightarrow> False | Inr z \<Rightarrow> row z = row ?z \<and> records z = records ?z"
    by code_simp
  then have z: "decideZone (ne_snap nx_env) (xr_msg nx_req) = Inr ?z" by (auto split: sum.splits)
  have "decidePeer (ne_lib nx_env) (ne_keys nx_env) ?z (xr_peer nx_req) (fst ?p) (xr_key nx_req) (xr_err nx_req) = None"
    by code_simp
  from notify_followed [OF nx_race_reachable _ z _ this, of "(0, 0, 8 * 1000000000)" "snd ?p" _ "nx_notify 8 nx_race"]
  show ?thesis using nx_evaluated by (cases "ServeNotify nx_env (0, 0, 8 * 1000000000) nx_req nx_race") (simp add: nx_notify_def ex_row_def)
qed

end
