(* ===== verification/Notify_Sender.thy ===== *)
theory Notify_Sender
  imports Zone_Transfer Answer_Props
begin

text \<open>
  Announcing a change, \<open>internal/zones/notifier.go\<close> and \<open>notifysend.go\<close> over the queue of
  \<open>internal/store/notifies.go\<close>: a row for each target of a zone, the decision whether to send to it, the
  sender over a datagram socket, and a pass over all zones.

  The socket is a parameter: whether the address can be dialled, what writing gives, and what is read until the
  deadline.  The sends of a pass run concurrently in the code; each works on a row of its own, and here they
  run in order.
\<close>

section \<open>The queue\<close>

record ZoneNotify =
  zn_id :: int
  zn_zone :: int
  zn_target :: string
  zn_pending :: u32
  zn_notified :: u32
  zn_notifiedAt :: int
  zn_attempts :: nat
  zn_nextAt :: int
  zn_lastError :: string
  zn_created :: int

record ndb =
  nd_zdb :: zdb
  nd_rows :: "ZoneNotify list"
  nd_seq :: int

definition notify_all :: "ndb \<Rightarrow> ZoneNotify list" where
  "notify_all d = sort_key (\<lambda>r. (zn_zone r, zn_target r)) (nd_rows d)"

definition add_target :: "int \<Rightarrow> int \<Rightarrow> string \<Rightarrow> ndb \<Rightarrow> ndb" where
  "add_target i now t d =
     (if list_ex (\<lambda>r. zn_zone r = i \<and> zn_target r = t) (nd_rows d) then d
      else d\<lparr>nd_rows := nd_rows d @ [\<lparr>zn_id = nd_seq d + 1, zn_zone = i, zn_target = t, zn_pending = 0, zn_notified = 0, zn_notifiedAt = 0,
                                     zn_attempts = 0, zn_nextAt = 0, zn_lastError = [], zn_created = now\<rparr>],
             nd_seq := nd_seq d + 1\<rparr>)"

definition Reconcile :: "int \<Rightarrow> string list \<Rightarrow> int \<Rightarrow> ndb \<Rightarrow> ndb" where
  "Reconcile i targets now d =
     fold (add_target i now) targets
       (d\<lparr>nd_rows := filter (\<lambda>r. zn_zone r = i \<longrightarrow> zn_target r \<in> set targets) (nd_rows d)\<rparr>)"

definition upd_notify :: "int \<Rightarrow> (ZoneNotify \<Rightarrow> ZoneNotify) \<Rightarrow> ndb \<Rightarrow> ndb" where
  "upd_notify i f d = d\<lparr>nd_rows := map (\<lambda>r. if zn_id r = i then f r else r) (nd_rows d)\<rparr>"

definition NoteDelivered :: "int \<Rightarrow> u32 \<Rightarrow> int \<Rightarrow> ndb \<Rightarrow> ndb" where
  "NoteDelivered i serial at =
     upd_notify i (\<lambda>r. r\<lparr>zn_pending := serial, zn_notified := serial, zn_notifiedAt := at, zn_attempts := 0, zn_nextAt := 0, zn_lastError := []\<rparr>)"

definition NoteAttempt :: "int \<Rightarrow> u32 \<Rightarrow> nat \<Rightarrow> int \<Rightarrow> string \<Rightarrow> ndb \<Rightarrow> ndb" where
  "NoteAttempt i pending attempts nextAt err =
     upd_notify i (\<lambda>r. r\<lparr>zn_pending := pending, zn_attempts := attempts, zn_nextAt := nextAt, zn_lastError := err\<rparr>)"

section \<open>The sender\<close>

datatype notify_err = ErrNotifyDelivered string | ErrNotifyUnreachable string | NotifyFailed string

datatype read_event = ReadFailed bool string | ReadBad | ReadReply msg bool

record 'w sock_net =
  sk_dial :: "string \<Rightarrow> 'w \<Rightarrow> string option"
  sk_write :: "string \<Rightarrow> msg \<Rightarrow> tsig_key option \<Rightarrow> 'w \<Rightarrow> (bool \<times> string) option \<times> 'w"
  sk_reads :: "string \<Rightarrow> 'w \<Rightarrow> read_event list \<times> 'w"
  sk_done :: "'w \<Rightarrow> bool"
  sk_lookup :: host_lookup
  sk_id :: "'w \<Rightarrow> u16"

abbreviation (input) NotifyOpcode :: int where "NotifyOpcode \<equiv> 4"

definition SetNotify :: "u16 \<Rightarrow> string \<Rightarrow> msg" where
  "SetNotify i zone =
     \<lparr>m_id = i, m_response = False, m_opcode = NotifyOpcode, m_aa = True, m_tc = False, m_rd = False, m_rcode = RcodeSuccess,
      m_compress = False, m_question = [\<lparr>q_name = zone, q_type = TypeSOA, q_class = ClassINET\<rparr>], m_answer = [], m_ns = [], m_extra = []\<rparr>"

text \<open>\<open>ECONNREFUSED\<close> is the flag of an error.\<close>

definition classifyNotifyErr :: "bool \<Rightarrow> string \<Rightarrow> notify_err" where
  "classifyNotifyErr refused e = (if refused then ErrNotifyUnreachable e else NotifyFailed e)"

text \<open>Replies that are not for this message, or that lack the signature that was asked for, are read past; the end of
  the list is the deadline.\<close>

fun await_reply :: "msg \<Rightarrow> bool \<Rightarrow> (int \<Rightarrow> string) \<Rightarrow> read_event list \<Rightarrow> notify_err option" where
  "await_reply m keyed rcodes [] = Some (NotifyFailed ''i/o timeout'')"
| "await_reply m keyed rcodes (ReadFailed refused e # es) = Some (classifyNotifyErr refused e)"
| "await_reply m keyed rcodes (ReadBad # es) = await_reply m keyed rcodes es"
| "await_reply m keyed rcodes (ReadReply r signed' # es) =
     (if m_id r \<noteq> m_id m then await_reply m keyed rcodes es
      else if length (m_question r) \<noteq> 1 \<or> \<not> EqualFold (q_name (hd (m_question r))) (q_name (hd (m_question m)))
      then await_reply m keyed rcodes es
      else if keyed \<and> \<not> signed' then await_reply m keyed rcodes es
      else if m_rcode r \<noteq> RcodeSuccess then Some (ErrNotifyDelivered (rcodes (m_rcode r)))
      else None)"

definition sendTo ::
  "dns_lib \<Rightarrow> (int \<Rightarrow> string) \<Rightarrow> 'w sock_net \<Rightarrow> string \<Rightarrow> string \<Rightarrow> tsig_key option \<Rightarrow> 'w \<Rightarrow> notify_err option \<times> 'w" where
  "sendTo L rcodes S addr zone key w =
     (case sk_dial S addr w of
        Some e \<Rightarrow> (Some (NotifyFailed e), w)
      | None \<Rightarrow>
          let m = SetNotify (sk_id S w) (Fqdn L zone)
          in (case sk_write S addr m key w of
                (Some (refused, e), w) \<Rightarrow> (Some (classifyNotifyErr refused e), w)
              | (None, w) \<Rightarrow> (case sk_reads S addr w of (es, w) \<Rightarrow> (await_reply m (key \<noteq> None) rcodes es, w))))"

definition notify_resolve :: "ip6_text \<Rightarrow> 'w sock_net \<Rightarrow> NotifyTarget \<Rightarrow> string list option" where
  "notify_resolve T S t =
     (case ParseAddr T (nt_Host t) of
        Some a \<Rightarrow> Some [AddrPortString T (Unmap a, nt_Port t)]
      | None \<Rightarrow>
          (case sk_lookup S (nt_Host t) of
             None \<Rightarrow> None
           | Some ips \<Rightarrow> if ips = [] then None else Some (map (\<lambda>ip. AddrPortString T (Unmap ip, nt_Port t)) ips)))"

text \<open>The addresses in turn: the first answer settles it; what failed is counted.\<close>

fun send_loop ::
  "dns_lib \<Rightarrow> (int \<Rightarrow> string) \<Rightarrow> 'w sock_net \<Rightarrow> string \<Rightarrow> tsig_key option \<Rightarrow> nat \<Rightarrow> nat \<Rightarrow> string list \<Rightarrow> 'w \<Rightarrow> notify_err option \<times> 'w" where
  "send_loop L rcodes S zone key failures unreachable [] w =
     (Some (if unreachable = failures then ErrNotifyUnreachable ''every address'' else NotifyFailed ''every address''), w)"
| "send_loop L rcodes S zone key failures unreachable (a # as) w =
     (if sk_done S w then (Some (NotifyFailed ''context canceled''), w)
      else case sendTo L rcodes S a zone key w of
             (None, w) \<Rightarrow> (None, w)
           | (Some (ErrNotifyDelivered e), w) \<Rightarrow> (Some (ErrNotifyDelivered e), w)
           | (Some (ErrNotifyUnreachable e), w) \<Rightarrow> send_loop L rcodes S zone key (failures + 1) (unreachable + 1) as w
           | (Some (NotifyFailed e), w) \<Rightarrow> send_loop L rcodes S zone key (failures + 1) unreachable as w)"

definition Send ::
  "dns_lib \<Rightarrow> ip6_text \<Rightarrow> (int \<Rightarrow> string) \<Rightarrow> 'w sock_net \<Rightarrow> NotifyTarget \<Rightarrow> string \<Rightarrow> tsig_key option \<Rightarrow> 'w \<Rightarrow> notify_err option \<times> 'w" where
  "Send L T rcodes S target zone key w =
     (case notify_resolve T S target of
        None \<Rightarrow> (Some (NotifyFailed ''resolving''), w)
      | Some addrs \<Rightarrow> send_loop L rcodes S zone key 0 0 addrs w)"

section \<open>The decision\<close>

definition MaxNotifyAttempts :: nat where "MaxNotifyAttempts = 5"
definition notifyBaseBackoffMs :: int where "notifyBaseBackoffMs = 5000"

definition backoffFor :: "nat \<Rightarrow> int" where
  "backoffFor attempts = notifyBaseBackoffMs * 2 ^ attempts"

definition lookupKey :: "bool \<Rightarrow> string \<Rightarrow> zdb \<Rightarrow> notify_err + tsig_key option" where
  "lookupKey attached name d =
     (if name = [] then Inr None
      else if \<not> attached then Inl (NotifyFailed ''no key store'')
      else case ByName name d of None \<Rightarrow> Inl (NotifyFailed ''key not found'') | Some k \<Rightarrow> Inr (Some k))"

text \<open>The rounds a row goes through: \<open>Some attempts\<close> when it is to be sent to now.\<close>

definition send_now :: "u32 \<Rightarrow> ZoneNotify \<Rightarrow> int \<Rightarrow> nat option" where
  "send_now want r nowMs =
     (if zn_notifiedAt r \<noteq> 0 \<and> \<not> SerialNewer want (zn_notified r) then None
      else let attempts = (if zn_pending r \<noteq> want then 0 else zn_attempts r)
           in if attempts \<ge> MaxNotifyAttempts then None
              else if nowMs < zn_nextAt r then None
              else Some attempts)"

definition notify_text :: "notify_err \<Rightarrow> string" where
  "notify_text e = (case e of ErrNotifyDelivered s \<Rightarrow> s | ErrNotifyUnreachable s \<Rightarrow> s | NotifyFailed s \<Rightarrow> s)"

definition note_outcome :: "int \<Rightarrow> u32 \<Rightarrow> nat \<Rightarrow> int \<Rightarrow> notify_err option \<Rightarrow> ndb \<Rightarrow> ndb" where
  "note_outcome i want attempts nowMs res =
     (case res of
        None \<Rightarrow> NoteDelivered i want nowMs
      | Some (NotifyFailed e) \<Rightarrow> NoteAttempt i want (attempts + 1) (nowMs + backoffFor attempts) (notify_text (NotifyFailed e))
      | Some e \<Rightarrow> NoteAttempt i want MaxNotifyAttempts 0 (notify_text e))"

type_synonym 'w sender = "NotifyTarget \<Rightarrow> string \<Rightarrow> tsig_key option \<Rightarrow> 'w \<Rightarrow> notify_err option \<times> 'w"

definition maybeSend ::
  "bool \<Rightarrow> 'w sender \<Rightarrow> zone_row \<Rightarrow> NotifyTarget \<Rightarrow> ZoneNotify \<Rightarrow> int \<Rightarrow> ndb \<times> 'w \<Rightarrow> bool \<times> ndb \<times> 'w" where
  "maybeSend attached snd' z t r nowMs s =
     (case s of (d, w) \<Rightarrow>
        (case send_now (z_soa_serial z) r nowMs of
           None \<Rightarrow> (False, d, w)
         | Some attempts \<Rightarrow>
             (case lookupKey attached (nt_Key t) (nd_zdb d) of
                Inl e \<Rightarrow> (True, note_outcome (zn_id r) (z_soa_serial z) attempts nowMs (Some e) d, w)
              | Inr key \<Rightarrow>
                  (case snd' t (z_name z) key w of
                     (res, w) \<Rightarrow> (True, note_outcome (zn_id r) (z_soa_serial z) attempts nowMs res d, w)))))"

section \<open>A pass\<close>

definition withReplicaTargets :: "NotifyTarget list \<Rightarrow> zone_row \<Rightarrow> NotifyTarget list \<Rightarrow> NotifyTarget list" where
  "withReplicaTargets targets z replicas = (if \<not> EqualFold (z_type z) ''primary'' then targets else targets @ replicas)"

definition row_at :: "int \<Rightarrow> string \<Rightarrow> ndb \<Rightarrow> ZoneNotify option" where
  "row_at i addr d = find (\<lambda>r. zn_zone r = i \<and> zn_target r = addr) (nd_rows d)"

definition rowsMatch :: "int \<Rightarrow> NotifyTarget list \<Rightarrow> ndb \<Rightarrow> bool" where
  "rowsMatch i targets d \<longleftrightarrow>
     list_all (\<lambda>t. row_at i (nt_Addr t) d \<noteq> None) targets \<and>
     card (set (map nt_Addr targets)) = length (filter (\<lambda>r. zn_zone r = i) (nd_rows d))"

text \<open>The targets a zone is to announce to: none when it is disabled, cannot vouch for its data or its list does not
  parse.\<close>

definition zone_targets :: "dns_lib \<Rightarrow> ip6_text \<Rightarrow> int \<Rightarrow> NotifyTarget list \<Rightarrow> zone_row \<Rightarrow> NotifyTarget list option" where
  "zone_targets L T nowMs replicas z =
     (if \<not> z_enabled z then None
      else if \<not> Serving \<lparr>row = z, records = []\<rparr> nowMs then None
      else case ParseNotifyTo L T (z_notify_to z) of
             Inl _ \<Rightarrow> None
           | Inr targets \<Rightarrow> Some (withReplicaTargets targets z replicas))"

definition reconcile_zone :: "dns_lib \<Rightarrow> ip6_text \<Rightarrow> int \<Rightarrow> NotifyTarget list \<Rightarrow> zone_row \<Rightarrow> ndb \<Rightarrow> ndb" where
  "reconcile_zone L T nowMs replicas z d =
     (case zone_targets L T nowMs replicas z of
        None \<Rightarrow> d
      | Some targets \<Rightarrow> if rowsMatch (z_id z) targets d then d else Reconcile (z_id z) (map nt_Addr targets) nowMs d)"

text \<open>The first target of an address stands for the others.\<close>

fun first_addrs :: "string set \<Rightarrow> NotifyTarget list \<Rightarrow> NotifyTarget list" where
  "first_addrs seen [] = []"
| "first_addrs seen (t # ts) =
     (if nt_Addr t \<in> seen then first_addrs seen ts else t # first_addrs (insert (nt_Addr t) seen) ts)"

definition send_target :: "bool \<Rightarrow> 'w sender \<Rightarrow> int \<Rightarrow> ndb \<Rightarrow> zone_row \<Rightarrow> NotifyTarget \<Rightarrow> ndb \<times> 'w \<Rightarrow> ndb \<times> 'w" where
  "send_target attached snd' nowMs d0 z t s =
     (case row_at (z_id z) (nt_Addr t) d0 of None \<Rightarrow> s | Some r \<Rightarrow> snd (maybeSend attached snd' z t r nowMs s))"

definition NotifierPass ::
  "dns_lib \<Rightarrow> ip6_text \<Rightarrow> bool \<Rightarrow> 'w sender \<Rightarrow> int \<Rightarrow> NotifyTarget list option \<Rightarrow> ndb \<times> 'w \<Rightarrow> bool \<times> ndb \<times> 'w" where
  "NotifierPass L T attached snd' nowMs replicas s =
     (case s of (d, w) \<Rightarrow>
        (case replicas of
           None \<Rightarrow> (False, d, w)
         | Some replicas \<Rightarrow>
             let zs = Zones (nd_zdb d);
                 d = fold (reconcile_zone L T nowMs replicas) zs d
             in (True,
                 fold (\<lambda>z s. fold (send_target attached snd' nowMs d z)
                               (first_addrs {} (case zone_targets L T nowMs replicas z of None \<Rightarrow> [] | Some ts \<Rightarrow> ts)) s)
                   zs (d, w))))"

section \<open>A round is bounded\<close>

definition row_id :: "int \<Rightarrow> ndb \<Rightarrow> ZoneNotify option" where
  "row_id i d = find (\<lambda>r. zn_id r = i) (nd_rows d)"

lemma row_id_upd:
  assumes "\<And>r. zn_id (f r) = zn_id r"
  shows "row_id i (upd_notify j f d) = (if i = j then map_option f (row_id i d) else row_id i d)"
proof -
  have "find (\<lambda>r. zn_id r = i) (map (\<lambda>r. if zn_id r = j then f r else r) rs) =
      (if i = j then map_option f (find (\<lambda>r. zn_id r = i) rs) else find (\<lambda>r. zn_id r = i) rs)" for rs
    by (induction rs) (auto simp: assms)
  then show ?thesis by (simp add: row_id_def upd_notify_def)
qed

text \<open>The passes of a zone whose serial does not change, as one row sees them: how often it is sent to.\<close>

fun round_run :: "bool \<Rightarrow> 'w sender \<Rightarrow> zone_row \<Rightarrow> NotifyTarget \<Rightarrow> int \<Rightarrow> int list \<Rightarrow> ndb \<times> 'w \<Rightarrow> nat \<times> ndb \<times> 'w" where
  "round_run attached snd' z t i [] s = (0, s)"
| "round_run attached snd' z t i (now # nows) s =
     (case row_id i (fst s) of
        None \<Rightarrow> (0, s)
      | Some r \<Rightarrow>
          (case maybeSend attached snd' z t r now s of
             (sent, s) \<Rightarrow> (case round_run attached snd' z t i nows s of (n, s) \<Rightarrow> ((if sent then Suc n else n), s))))"

definition tries_left :: "u32 \<Rightarrow> ZoneNotify option \<Rightarrow> nat" where
  "tries_left want r =
     (case r of
        None \<Rightarrow> 0
      | Some r \<Rightarrow> if zn_notifiedAt r \<noteq> 0 \<and> \<not> SerialNewer want (zn_notified r) then 0
                  else if zn_pending r = want then MaxNotifyAttempts - zn_attempts r else MaxNotifyAttempts)"

lemma SerialNewer_irrefl: "\<not> SerialNewer s s"
  by (simp add: SerialNewer_def)

lemma tries_outcome:
  assumes "row_id i d = Some r" "send_now want r now = Some a" "now \<noteq> 0" "zn_id r = i"
  shows "Suc (tries_left want (row_id i (note_outcome i want a now res d))) \<le> tries_left want (row_id i d)"
proof -
  have left: "tries_left want (row_id i d) = MaxNotifyAttempts - a" "a < MaxNotifyAttempts"
    using assms(1,2) by (auto simp: tries_left_def send_now_def Let_def split: if_splits)
  have "Suc (tries_left want (row_id i (note_outcome i want a now res d))) \<le> MaxNotifyAttempts - a"
  proof (cases res)
    case None
    then show ?thesis using left(2) assms(1,3)
      by (simp add: note_outcome_def NoteDelivered_def row_id_upd tries_left_def SerialNewer_irrefl)
  next
    case (Some e)
    then show ?thesis using left(2) assms(1)
      by (cases e) (simp_all add: note_outcome_def NoteAttempt_def row_id_upd tries_left_def, linarith+)
  qed
  then show ?thesis using left(1) by simp
qed

lemma tries_step:
  assumes "row_id i d = Some r" "maybeSend attached snd' z t r now (d, w) = (sent, d', w')" "now \<noteq> 0"
  shows "(if sent then 1 else 0) + tries_left (z_soa_serial z) (row_id i d') \<le> tries_left (z_soa_serial z) (row_id i d)"
proof (cases "send_now (z_soa_serial z) r now")
  case None
  then show ?thesis using assms(2) by (auto simp: maybeSend_def)
next
  case (Some a)
  have "zn_id r = i" using assms(1) by (auto simp: row_id_def find_Some_iff)
  moreover obtain res where "sent" "d' = note_outcome (zn_id r) (z_soa_serial z) a now res d"
    using assms(2) Some by (auto simp: maybeSend_def split: sum.splits prod.splits)
  ultimately show ?thesis using tries_outcome [OF assms(1) Some assms(3)] by simp
qed

lemma round_tries:
  "list_all (\<lambda>t. t \<noteq> 0) nows \<Longrightarrow>
   fst (round_run attached snd' z t i nows s) \<le> tries_left (z_soa_serial z) (row_id i (fst s))"
proof (induction nows arbitrary: s)
  case (Cons now nows)
  obtain d w where s: "s = (d, w)" by fastforce
  show ?case
  proof (cases "row_id i d")
    case (Some r)
    obtain sent d' w' where m: "maybeSend attached snd' z t r now (d, w) = (sent, d', w')" by (metis prod.exhaust)
    have "(if sent then 1 else 0) + tries_left (z_soa_serial z) (row_id i d') \<le> tries_left (z_soa_serial z) (row_id i d)"
      using tries_step [OF Some m] Cons.prems by simp
    moreover have "fst (round_run attached snd' z t i nows (d', w')) \<le> tries_left (z_soa_serial z) (row_id i d')"
      using Cons.IH [of "(d', w')"] Cons.prems by simp
    ultimately show ?thesis by (auto simp: s Some m split: prod.split)
  qed (simp add: s)
qed simp


section \<open>The queue follows the targets\<close>

definition notify_ok :: "ndb \<Rightarrow> bool" where
  "notify_ok d \<longleftrightarrow> distinct (map zn_id (nd_rows d)) \<and> distinct (map (\<lambda>r. (zn_zone r, zn_target r)) (nd_rows d)) \<and>
     (\<forall>r\<in>set (nd_rows d). zn_id r \<le> nd_seq d)"

definition fresh_row :: "int \<Rightarrow> ZoneNotify \<Rightarrow> bool" where
  "fresh_row i r \<longleftrightarrow> zn_zone r = i \<and> zn_attempts r = 0 \<and> zn_notifiedAt r = 0 \<and> zn_nextAt r = 0"

lemma add_target_step:
  assumes "notify_ok d"
  shows "notify_ok (add_target i now t d)"
    "set (nd_rows d) \<subseteq> set (nd_rows (add_target i now t d))"
    "\<exists>r\<in>set (nd_rows (add_target i now t d)). zn_zone r = i \<and> zn_target r = t"
    "r \<in> set (nd_rows (add_target i now t d)) \<Longrightarrow> r \<in> set (nd_rows d) \<or> fresh_row i r \<and> zn_target r = t"
proof -
  show "notify_ok (add_target i now t d)" "set (nd_rows d) \<subseteq> set (nd_rows (add_target i now t d))"
    "\<exists>r\<in>set (nd_rows (add_target i now t d)). zn_zone r = i \<and> zn_target r = t"
    using assms by (force simp: add_target_def notify_ok_def list_ex_iff)+
  show "r \<in> set (nd_rows (add_target i now t d)) \<Longrightarrow> r \<in> set (nd_rows d) \<or> fresh_row i r \<and> zn_target r = t"
    by (auto simp: add_target_def fresh_row_def split: if_splits)
qed

lemma add_targets:
  assumes "notify_ok d"
  shows "notify_ok (fold (add_target i now) ts d) \<and> set (nd_rows d) \<subseteq> set (nd_rows (fold (add_target i now) ts d)) \<and>
    (\<forall>t\<in>set ts. \<exists>r\<in>set (nd_rows (fold (add_target i now) ts d)). zn_zone r = i \<and> zn_target r = t) \<and>
    (\<forall>r\<in>set (nd_rows (fold (add_target i now) ts d)). r \<in> set (nd_rows d) \<or> fresh_row i r \<and> zn_target r \<in> set ts)"
  using assms
proof (induction ts arbitrary: d)
  case (Cons t ts)
  let ?d = "add_target i now t d"
  have ih: "notify_ok (fold (add_target i now) ts ?d) \<and> set (nd_rows ?d) \<subseteq> set (nd_rows (fold (add_target i now) ts ?d)) \<and>
    (\<forall>t\<in>set ts. \<exists>r\<in>set (nd_rows (fold (add_target i now) ts ?d)). zn_zone r = i \<and> zn_target r = t) \<and>
    (\<forall>r\<in>set (nd_rows (fold (add_target i now) ts ?d)). r \<in> set (nd_rows ?d) \<or> fresh_row i r \<and> zn_target r \<in> set ts)"
    by (rule Cons.IH) (rule add_target_step(1) [OF Cons.prems])
  show ?case
    using ih add_target_step(2,3) [OF Cons.prems, where i = i and now = now and t = t]
      add_target_step(4) [OF Cons.prems, where i = i and now = now and t = t]
    by (simp only: fold_simps comp_apply list.set ball_simps) blast
qed simp

text \<open>The queue follows the targets.  After reconciling, the rows of a zone are one for each target that is
  wanted; what was known of a target that stays is kept, a new one starts afresh, and no other zone's rows are
  touched.\<close>

theorem reconcile_exact:
  assumes "notify_ok d"
  shows "notify_ok (Reconcile i targets now d) \<and>
    zn_target ` {r \<in> set (nd_rows (Reconcile i targets now d)). zn_zone r = i} = set targets \<and>
    {r \<in> set (nd_rows (Reconcile i targets now d)). zn_zone r \<noteq> i} = {r \<in> set (nd_rows d). zn_zone r \<noteq> i} \<and>
    {r \<in> set (nd_rows d). zn_zone r = i \<and> zn_target r \<in> set targets} \<subseteq> set (nd_rows (Reconcile i targets now d)) \<and>
    {r \<in> set (nd_rows (Reconcile i targets now d)). r \<notin> set (nd_rows d)} \<subseteq> {r. fresh_row i r}"
proof -
  let ?d = "d\<lparr>nd_rows := filter (\<lambda>r. zn_zone r = i \<longrightarrow> zn_target r \<in> set targets) (nd_rows d)\<rparr>"
  have "notify_ok ?d" using assms by (auto simp: notify_ok_def distinct_map_filter)
  from add_targets [OF this, of i now targets] show ?thesis
    by (auto simp: Reconcile_def fresh_row_def image_iff)
qed

section \<open>Witnesses\<close>

definition nx_row :: "int \<Rightarrow> string \<Rightarrow> ZoneNotify" where
  "nx_row i t = \<lparr>zn_id = i, zn_zone = 1, zn_target = t, zn_pending = 0, zn_notified = 0, zn_notifiedAt = 0, zn_attempts = 0, zn_nextAt = 0,
     zn_lastError = [], zn_created = 0\<rparr>"

definition nx_db :: ndb where
  "nx_db = \<lparr>nd_zdb = \<lparr>db_version = 1, db_subs = [], db_settings = [], db_groups = [], db_clients = [], db_lists = [],
     db_group_lists = [], db_rules = [], seq_groups = 0, seq_clients = 0, seq_lists = 0, seq_rules = 0,
     zd_zones = [ex_row], zd_records = [], zd_keys = [], seq_zones = 1, seq_records = 0, seq_keys = 0\<rparr>,
     nd_rows = [nx_row 1 ''10.0.0.2:53'', nx_row 2 ''10.0.0.3:53''], nd_seq = 2\<rparr>"


theorem reconcile_exact_witness:
  "notify_ok (Reconcile 1 [''10.0.0.3:53'', ''10.0.0.4:53''] 7 nx_db) \<and>
   zn_target ` {r \<in> set (nd_rows (Reconcile 1 [''10.0.0.3:53'', ''10.0.0.4:53''] 7 nx_db)). zn_zone r = 1} = {''10.0.0.3:53'', ''10.0.0.4:53''}"
proof -
  have "notify_ok nx_db" by (simp add: notify_ok_def nx_db_def nx_row_def)
  from reconcile_exact [OF this, of 1 "[''10.0.0.3:53'', ''10.0.0.4:53'']" 7] show ?thesis by simp
qed

end
