(* ===== verification/Auth.thy ===== *)
theory Auth
  imports Prelude
begin

text \<open>
  Authentication: \<open>internal/auth\<close> (passwords, tokens, one-time codes, sessions), its tables in
  \<open>internal/store\<close>, and from \<open>internal/api\<close> the limit on attempts and the gate in front of every handler.

  The primitives are parameters: the password hash with its memory-hard function and encoding, the
  digest of a token, the check of a one-time code at a moment, and the random values an operation draws.
  Times are nanoseconds, stored ones milliseconds.
\<close>

section \<open>Tables\<close>

record user =
  u_id :: int
  u_name :: string
  u_hash :: string
  u_totp :: string
  u_step :: int
  u_created :: int

record auth_token =
  at_id :: int
  at_user :: int
  at_kind :: string
  at_name :: string
  at_hash :: string
  at_scope :: string
  at_created :: int
  at_expires :: int
  at_used :: int

record adb =
  ad_users :: "user list"
  ad_tokens :: "auth_token list"
  ad_useq :: int
  ad_tseq :: int

subsection \<open>Users\<close>

definition user_where :: "(user \<Rightarrow> bool) \<Rightarrow> adb \<Rightarrow> user option" where
  "user_where P d = find P (ad_users d)"

definition ByUsername :: "string \<Rightarrow> adb \<Rightarrow> user option" where
  "ByUsername n = user_where (\<lambda>u. u_name u = n)"

definition ByID :: "int \<Rightarrow> adb \<Rightarrow> user option" where
  "ByID i = user_where (\<lambda>u. u_id u = i)"

definition user_count :: "adb \<Rightarrow> nat" where
  "user_count d = length (ad_users d)"

definition CreateIfNone :: "string \<Rightarrow> string \<Rightarrow> int \<Rightarrow> adb \<Rightarrow> bool \<times> adb" where
  "CreateIfNone name hash created d =
     (if ad_users d \<noteq> [] then (False, d)
      else (True, d\<lparr>ad_users := [\<lparr>u_id = ad_useq d + 1, u_name = name, u_hash = hash, u_totp = [], u_step = 0, u_created = created\<rparr>],
                    ad_useq := ad_useq d + 1\<rparr>))"

definition upd_users :: "int \<Rightarrow> (user \<Rightarrow> user) \<Rightarrow> adb \<Rightarrow> adb" where
  "upd_users i f d = d\<lparr>ad_users := map (\<lambda>u. if u_id u = i then f u else u) (ad_users d)\<rparr>"

definition SetTOTP :: "int \<Rightarrow> string \<Rightarrow> adb \<Rightarrow> adb" where
  "SetTOTP i secret = upd_users i (\<lambda>u. u\<lparr>u_totp := secret, u_step := 0\<rparr>)"

definition SetPassword :: "int \<Rightarrow> string \<Rightarrow> adb \<Rightarrow> adb" where
  "SetPassword i hash = upd_users i (\<lambda>u. u\<lparr>u_hash := hash\<rparr>)"

text \<open>One statement: the step is taken only if it is newer than the last one.\<close>

definition ClaimTOTPStep :: "int \<Rightarrow> int \<Rightarrow> adb \<Rightarrow> bool \<times> adb" where
  "ClaimTOTPStep i step d =
     (length (filter (\<lambda>u. u_id u = i \<and> u_step u < step) (ad_users d)) = 1,
      d\<lparr>ad_users := map (\<lambda>u. if u_id u = i \<and> u_step u < step then u\<lparr>u_step := step\<rparr> else u) (ad_users d)\<rparr>)"

subsection \<open>Tokens\<close>

text \<open>The digest column is unique and the user is a foreign key.\<close>

definition CreateToken :: "auth_token \<Rightarrow> adb \<Rightarrow> int option \<times> adb" where
  "CreateToken t d =
     (if list_ex (\<lambda>x. at_hash x = at_hash t) (ad_tokens d) \<or> \<not> list_ex (\<lambda>u. u_id u = at_user t) (ad_users d) then (None, d)
      else (Some (ad_tseq d + 1),
            d\<lparr>ad_tokens := ad_tokens d @ [t\<lparr>at_id := ad_tseq d + 1\<rparr>], ad_tseq := ad_tseq d + 1\<rparr>))"

definition ByHash :: "string \<Rightarrow> adb \<Rightarrow> auth_token option" where
  "ByHash h d = find (\<lambda>t. at_hash t = h) (ad_tokens d)"

definition DeleteToken :: "int \<Rightarrow> adb \<Rightarrow> adb" where
  "DeleteToken i d = d\<lparr>ad_tokens := filter (\<lambda>t. at_id t \<noteq> i) (ad_tokens d)\<rparr>"

definition ListAPI :: "int \<Rightarrow> adb \<Rightarrow> auth_token list" where
  "ListAPI uid d = sort_key at_id (filter (\<lambda>t. at_user t = uid \<and> at_kind t = ''api'') (ad_tokens d))"

definition upd_tokens :: "int \<Rightarrow> (auth_token \<Rightarrow> auth_token) \<Rightarrow> adb \<Rightarrow> adb" where
  "upd_tokens i f d = d\<lparr>ad_tokens := map (\<lambda>t. if at_id t = i then f t else t) (ad_tokens d)\<rparr>"

definition Touch :: "int \<Rightarrow> int \<Rightarrow> adb \<Rightarrow> adb" where
  "Touch i ts = upd_tokens i (\<lambda>t. t\<lparr>at_used := ts\<rparr>)"

definition SetExpiry :: "int \<Rightarrow> int \<Rightarrow> adb \<Rightarrow> adb" where
  "SetExpiry i ts = upd_tokens i (\<lambda>t. t\<lparr>at_expires := ts\<rparr>)"

definition DeleteExpired :: "int \<Rightarrow> adb \<Rightarrow> adb" where
  "DeleteExpired nowMs d = d\<lparr>ad_tokens := filter (\<lambda>t. \<not> (at_expires t > 0 \<and> at_expires t < nowMs)) (ad_tokens d)\<rparr>"

definition DeleteSessions :: "int \<Rightarrow> int \<Rightarrow> adb \<Rightarrow> adb" where
  "DeleteSessions uid keep d =
     d\<lparr>ad_tokens := filter (\<lambda>t. \<not> (at_user t = uid \<and> at_kind t = ''session'' \<and> at_id t \<noteq> keep)) (ad_tokens d)\<rparr>"

section \<open>Passwords and codes\<close>

record crypto =
  argon2 :: "string \<Rightarrow> u8 list \<Rightarrow> nat \<Rightarrow> nat \<Rightarrow> nat \<Rightarrow> nat \<Rightarrow> u8 list"
  b64 :: "u8 list \<Rightarrow> string"
  unb64 :: "string \<Rightarrow> u8 list option"
  HashToken :: "string \<Rightarrow> string"
  totp_at :: "string \<Rightarrow> string \<Rightarrow> int \<Rightarrow> bool"

definition argonMemory :: nat where "argonMemory = 64 * 1024"
definition argonTime :: nat where "argonTime = 3"
definition argonThreads :: nat where "argonThreads = 2"
definition argonKeyLen :: nat where "argonKeyLen = 32"

definition HashPassword :: "crypto \<Rightarrow> u8 list \<Rightarrow> string \<Rightarrow> string" where
  "HashPassword K salt pw =
     ''$argon2id$v=19$m='' @ dec argonMemory @ '',t='' @ dec argonTime @ '',p='' @ dec argonThreads @ ''$'' @ b64 K salt @ ''$'' @
     b64 K (argon2 K pw salt argonTime argonMemory argonThreads argonKeyLen)"

text \<open>\<open>Sscanf\<close> of a decimal number of a given width: blanks, then digits; the rest stays.\<close>

definition scan_uint :: "nat \<Rightarrow> string \<Rightarrow> (nat \<times> string) option" where
  "scan_uint width s =
     (let s = dropWhile (\<lambda>c. c = CHR '' '') s;
          tok = takeWhile (\<lambda>c. c \<in> set ''0123456789_'') s
      in case undec 0 tok of
           None \<Rightarrow> None
         | Some n \<Rightarrow> if tok = [] \<or> n \<ge> 2 ^ width then None else Some (n, drop (length tok) s))"

definition scan_field :: "string \<Rightarrow> nat \<Rightarrow> string \<Rightarrow> (nat \<times> string) option" where
  "scan_field lit width s = (case CutPrefix s lit of None \<Rightarrow> None | Some s \<Rightarrow> scan_uint width s)"

definition scan_mtp :: "string \<Rightarrow> (nat \<times> nat \<times> nat) option" where
  "scan_mtp s =
     (case scan_field ''m='' 32 s of
        None \<Rightarrow> None
      | Some (m, s) \<Rightarrow>
          (case scan_field '',t='' 32 s of
             None \<Rightarrow> None
           | Some (t, s) \<Rightarrow> (case scan_field '',p='' 8 s of None \<Rightarrow> None | Some (p, _) \<Rightarrow> Some (m, t, p))))"

text \<open>\<open>None\<close> is an error; the callers treat it as no match.\<close>

definition VerifyPassword :: "crypto \<Rightarrow> string \<Rightarrow> string \<Rightarrow> bool option" where
  "VerifyPassword K encoded pw =
     (case Split encoded CHR ''$'' of
        [_, alg, _, params, salt, key] \<Rightarrow>
          if alg \<noteq> ''argon2id'' then None
          else (case (scan_mtp params, unb64 K salt, unb64 K key) of
                  (Some (m, t, p), Some salt, Some want) \<Rightarrow> Some (argon2 K pw salt t m p (length want) = want)
                | _ \<Rightarrow> None)
      | _ \<Rightarrow> None)"

definition totpPeriod :: int where "totpPeriod = 30"

text \<open>The step after, the current one, the one before, in this order.\<close>

definition verifyTOTPStep :: "crypto \<Rightarrow> string \<Rightarrow> string \<Rightarrow> int \<Rightarrow> int option" where
  "verifyTOTPStep K secret code now =
     (let unix = (\<lambda>delta. now div 1000000000 + delta * totpPeriod)
      in map_option (\<lambda>delta. unix delta div totpPeriod) (find (\<lambda>delta. totp_at K code secret (unix delta)) [1, 0, -1]))"

section \<open>The service\<close>

datatype auth_err = ErrBadCredentials | ErrTOTPRequired | ErrSetupDone | ErrInvalidInput | ErrInvalidCode | ErrScope | ErrNotOwned | ErrStore

definition SessionTTL :: int where "SessionTTL = 30 * 24 * 3600 * 1000000000"
definition SessionMaxLifetime :: int where "SessionMaxLifetime = 90 * 24 * 3600 * 1000000000"
definition minPasswordLen :: nat where "minPasswordLen = 8"

abbreviation ms :: "int \<Rightarrow> int" where "ms t \<equiv> t div 1000000"

definition SetupRequired :: "adb \<Rightarrow> bool" where
  "SetupRequired d = (user_count d = 0)"

definition CreateAdmin :: "crypto \<Rightarrow> u8 list \<Rightarrow> int \<Rightarrow> string \<Rightarrow> string \<Rightarrow> adb \<Rightarrow> auth_err option \<times> adb" where
  "CreateAdmin K salt now name pw d =
     (if name = [] then (Some ErrInvalidInput, d)
      else if length pw < minPasswordLen then (Some ErrInvalidInput, d)
      else if user_count d > 0 then (Some ErrSetupDone, d)
      else (case CreateIfNone name (HashPassword K salt pw) (ms now) d of
              (True, d) \<Rightarrow> (None, d)
            | (False, d) \<Rightarrow> (Some ErrSetupDone, d)))"

definition ChangePassword ::
  "crypto \<Rightarrow> u8 list \<Rightarrow> int \<Rightarrow> string \<Rightarrow> string \<Rightarrow> int \<Rightarrow> adb \<Rightarrow> auth_err option \<times> adb" where
  "ChangePassword K salt uid current next keep d =
     (case ByID uid d of
        None \<Rightarrow> (Some ErrBadCredentials, d)
      | Some u \<Rightarrow>
          if VerifyPassword K (u_hash u) current \<noteq> Some True then (Some ErrBadCredentials, d)
          else if length next < minPasswordLen then (Some ErrInvalidInput, d)
          else (None, DeleteSessions uid keep (SetPassword uid (HashPassword K salt next) d)))"

text \<open>The second factor of a login, and the session it opens.\<close>

definition check_code :: "crypto \<Rightarrow> int \<Rightarrow> user \<Rightarrow> string \<Rightarrow> adb \<Rightarrow> auth_err option \<times> adb" where
  "check_code K now u code d =
     (if u_totp u = [] then (None, d)
      else if code = [] then (Some ErrTOTPRequired, d)
      else case verifyTOTPStep K (u_totp u) code now of
             None \<Rightarrow> (Some ErrBadCredentials, d)
           | Some step \<Rightarrow> (case ClaimTOTPStep (u_id u) step d of
                             (True, d) \<Rightarrow> (None, d) | (False, d) \<Rightarrow> (Some ErrBadCredentials, d)))"

definition open_session :: "crypto \<Rightarrow> string \<Rightarrow> int \<Rightarrow> user \<Rightarrow> adb \<Rightarrow> (auth_err + string) \<times> adb" where
  "open_session K plain now u d =
     (case CreateToken \<lparr>at_id = 0, at_user = u_id u, at_kind = ''session'', at_name = [], at_hash = HashToken K plain,
                        at_scope = ''write'', at_created = ms now, at_expires = ms (now + SessionTTL), at_used = 0\<rparr> d of
        (None, d) \<Rightarrow> (Inl ErrStore, d)
      | (Some _, d) \<Rightarrow> (Inr plain, d))"

text \<open>The clock is read for the code and again for the session.\<close>

definition Login ::
  "crypto \<Rightarrow> string \<Rightarrow> int \<times> int \<Rightarrow> string \<Rightarrow> string \<Rightarrow> string \<Rightarrow> adb \<Rightarrow> (auth_err + string) \<times> adb" where
  "Login K plain t name pw code d =
     (case ByUsername name d of
        None \<Rightarrow> (Inl ErrBadCredentials, d)
      | Some u \<Rightarrow>
          if VerifyPassword K (u_hash u) pw \<noteq> Some True then (Inl ErrBadCredentials, d)
          else (case check_code K (fst t) u code d of
                  (Some e, d) \<Rightarrow> (Inl e, d)
                | (None, d) \<Rightarrow> open_session K plain (snd t) u d))"

definition sessionCeiling :: "auth_token \<Rightarrow> int option" where
  "sessionCeiling t =
     (if at_kind t \<noteq> ''session'' \<or> at_created t \<le> 0 then None else Some (at_created t * 1000000 + SessionMaxLifetime))"

text \<open>The sliding renewal: a session past half its time is prolonged, up to the ceiling.\<close>

definition renew_session :: "int \<Rightarrow> auth_token \<Rightarrow> adb \<Rightarrow> adb" where
  "renew_session now t d =
     (if at_kind t = ''session'' \<and> at_expires t > 0 \<and> at_expires t * 1000000 - now < SessionTTL div 2
      then SetExpiry (at_id t) (ms (case sessionCeiling t of None \<Rightarrow> now + SessionTTL | Some c \<Rightarrow> min (now + SessionTTL) c)) d
      else d)"

definition Authenticate :: "crypto \<Rightarrow> int \<Rightarrow> string \<Rightarrow> adb \<Rightarrow> (auth_err + user \<times> auth_token) \<times> adb" where
  "Authenticate K now plain d =
     (case ByHash (HashToken K plain) d of
        None \<Rightarrow> (Inl ErrBadCredentials, d)
      | Some t \<Rightarrow>
          if at_expires t > 0 \<and> at_expires t < ms now then (Inl ErrBadCredentials, DeleteToken (at_id t) d)
          else if (case sessionCeiling t of None \<Rightarrow> False | Some c \<Rightarrow> c \<le> now) then (Inl ErrBadCredentials, DeleteToken (at_id t) d)
          else
            let d = renew_session now t (Touch (at_id t) (ms now) d)
            in (case ByID (at_user t) d of None \<Rightarrow> (Inl ErrBadCredentials, d) | Some u \<Rightarrow> (Inr (u, t), d)))"

definition Logout :: "crypto \<Rightarrow> string \<Rightarrow> adb \<Rightarrow> adb" where
  "Logout K plain d = (case ByHash (HashToken K plain) d of None \<Rightarrow> d | Some t \<Rightarrow> DeleteToken (at_id t) d)"

definition CreateAPIToken ::
  "crypto \<Rightarrow> string \<Rightarrow> int \<Rightarrow> int \<Rightarrow> string \<Rightarrow> string \<Rightarrow> int \<Rightarrow> adb \<Rightarrow> (auth_err + int \<times> string) \<times> adb" where
  "CreateAPIToken K plain now uid name scope expires d =
     (if scope \<noteq> ''read'' \<and> scope \<noteq> ''write'' then (Inl ErrScope, d)
      else case CreateToken \<lparr>at_id = 0, at_user = uid, at_kind = ''api'', at_name = name, at_hash = HashToken K plain, at_scope = scope,
                             at_created = ms now, at_expires = expires, at_used = 0\<rparr> d of
             (None, d) \<Rightarrow> (Inl ErrStore, d)
           | (Some i, d) \<Rightarrow> (Inr (i, plain), d))"

definition RevokeToken :: "int \<Rightarrow> int \<Rightarrow> adb \<Rightarrow> auth_err option \<times> adb" where
  "RevokeToken uid i d =
     (if list_ex (\<lambda>t. at_id t = i) (ListAPI uid d) then (None, DeleteToken i d) else (Some ErrNotOwned, d))"

definition EnableTOTPConfirm :: "crypto \<Rightarrow> int \<Rightarrow> int \<Rightarrow> string \<Rightarrow> string \<Rightarrow> int \<Rightarrow> adb \<Rightarrow> auth_err option \<times> adb" where
  "EnableTOTPConfirm K now uid secret code keep d =
     (if verifyTOTPStep K secret code now = None then (Some ErrInvalidCode, d)
      else (None, DeleteSessions uid keep (SetTOTP uid secret d)))"

definition DisableTOTP :: "crypto \<Rightarrow> int \<Rightarrow> int \<Rightarrow> string \<Rightarrow> int \<Rightarrow> adb \<Rightarrow> auth_err option \<times> adb" where
  "DisableTOTP K now uid code keep d =
     (case ByID uid d of
        None \<Rightarrow> (Some ErrBadCredentials, d)
      | Some u \<Rightarrow>
          if u_totp u = [] then (Some ErrInvalidCode, d)
          else if verifyTOTPStep K (u_totp u) code now = None then (Some ErrInvalidCode, d)
          else (None, DeleteSessions uid keep (SetTOTP uid [] d)))"

section \<open>The limit on attempts\<close>

record attemptEntry =
  ae_count :: nat
  ae_windowStart :: int
  ae_lockedUntil :: int

record attemptLimiter =
  al_entries :: "string \<rightharpoonup> attemptEntry"
  al_swept :: int

definition attemptLimit :: nat where "attemptLimit = 10"
definition attemptWindow :: int where "attemptWindow = 60 * 1000000000"
definition attemptLockout :: int where "attemptLockout = 60 * 1000000000"

definition attempts_sweep :: "int \<Rightarrow> attemptLimiter \<Rightarrow> attemptLimiter" where
  "attempts_sweep now l =
     (if now - al_swept l < attemptWindow then l
      else l\<lparr>al_swept := now,
             al_entries := (\<lambda>k. case al_entries l k of
                                  None \<Rightarrow> None
                                | Some e \<Rightarrow> if now > ae_lockedUntil e \<and> now - ae_windowStart e \<ge> attemptWindow then None else Some e)\<rparr>)"

definition attempts_allow :: "int \<Rightarrow> string \<Rightarrow> attemptLimiter \<Rightarrow> (int \<times> bool) \<times> attemptLimiter" where
  "attempts_allow now key l =
     (let l = attempts_sweep now l;
          e = (case al_entries l key of Some e \<Rightarrow> e | None \<Rightarrow> \<lparr>ae_count = 0, ae_windowStart = now, ae_lockedUntil = 0\<rparr>);
          put = (\<lambda>e. l\<lparr>al_entries := (al_entries l)(key \<mapsto> e)\<rparr>)
      in if now < ae_lockedUntil e then ((ae_lockedUntil e - now, False), put e)
         else
           let e = (if now - ae_windowStart e \<ge> attemptWindow then e\<lparr>ae_count := 0, ae_windowStart := now\<rparr> else e);
               e = e\<lparr>ae_count := ae_count e + 1\<rparr>
           in if ae_count e > attemptLimit then ((attemptLockout, False), put (e\<lparr>ae_lockedUntil := now + attemptLockout\<rparr>))
              else ((0, True), put e))"

section \<open>The gate of the API\<close>

record api_request =
  ar_method :: string
  ar_bearer :: "string option"
  ar_cookie :: "string option"
  ar_fetchSite :: string

text \<open>\<open>ar_bearer\<close> is what follows the scheme of an \<open>Authorization\<close> header of more than the scheme.\<close>

datatype gate = Pass_on user auth_token | Reply_status nat

definition requireAuth :: "crypto \<Rightarrow> int \<Rightarrow> api_request \<Rightarrow> adb \<Rightarrow> gate \<times> adb" where
  "requireAuth K now r d =
     (let safe = (ar_method r = ''GET'' \<or> ar_method r = ''HEAD'');
          (token, viaCookie) = (case ar_bearer r of
             Some b \<Rightarrow> (b, False)
           | None \<Rightarrow> (case ar_cookie r of Some c \<Rightarrow> (c, True) | None \<Rightarrow> ([], False)))
      in if token = [] then (Reply_status 401, d)
         else if viaCookie \<and> \<not> safe \<and> EqualFold (ar_fetchSite r) ''cross-site'' then (Reply_status 403, d)
         else case Authenticate K now token d of
                (Inl _, d) \<Rightarrow> (Reply_status 401, d)
              | (Inr (u, t), d) \<Rightarrow> (if at_scope t = ''read'' \<and> \<not> safe then Reply_status 403 else Pass_on u t, d))"

datatype login_reply = LoggedIn string | Login_status nat

definition handleLogin ::
  "crypto \<Rightarrow> string \<Rightarrow> int \<times> int \<times> int \<Rightarrow> string \<Rightarrow> (string \<times> string \<times> string) option \<Rightarrow> attemptLimiter \<times> adb
   \<Rightarrow> login_reply \<times> attemptLimiter \<times> adb" where
  "handleLogin K plain t ip body s =
     (case s of (l, d) \<Rightarrow>
        (case attempts_allow (fst t) ip l of
           ((_, False), l) \<Rightarrow> (Login_status 429, l, d)
         | ((_, True), l) \<Rightarrow>
             (case body of
                None \<Rightarrow> (Login_status 400, l, d)
              | Some (name, pw, code) \<Rightarrow>
                  if SetupRequired d then (Login_status 409, l, d)
                  else (case Login K plain (snd t) name pw code d of
                          (Inr tok, d) \<Rightarrow> (LoggedIn tok, l, d)
                        | (Inl ErrTOTPRequired, d) \<Rightarrow> (Login_status 428, l, d)
                        | (Inl ErrBadCredentials, d) \<Rightarrow> (Login_status 401, l, d)
                        | (Inl _, d) \<Rightarrow> (Login_status 500, l, d)))))"

definition handleSetup ::
  "crypto \<Rightarrow> u8 list \<Rightarrow> int \<times> int \<Rightarrow> string \<Rightarrow> (string \<times> string \<times> string) option \<Rightarrow> attemptLimiter \<times> adb \<Rightarrow> nat \<times> attemptLimiter \<times> adb" where
  "handleSetup K salt t ip body s =
     (case s of (l, d) \<Rightarrow>
        (case attempts_allow (fst t) ip l of
           ((_, False), l) \<Rightarrow> (429, l, d)
         | ((_, True), l) \<Rightarrow>
             (case body of
                None \<Rightarrow> (400, l, d)
              | Some (name, pw, _) \<Rightarrow>
                  (case CreateAdmin K salt (snd t) name pw d of
                     (None, d) \<Rightarrow> (201, l, d)
                   | (Some ErrSetupDone, d) \<Rightarrow> (409, l, d)
                   | (Some ErrInvalidInput, d) \<Rightarrow> (400, l, d)
                   | (Some _, d) \<Rightarrow> (500, l, d)))))"

text \<open>The caller has passed the gate with the user and the token given.\<close>

definition handlePasswordChange ::
  "crypto \<Rightarrow> u8 list \<Rightarrow> int \<Rightarrow> string \<Rightarrow> user \<Rightarrow> auth_token \<Rightarrow> (string \<times> string) option \<Rightarrow> attemptLimiter \<times> adb \<Rightarrow> nat \<times> attemptLimiter \<times> adb" where
  "handlePasswordChange K salt now ip u t body s =
     (case s of (l, d) \<Rightarrow>
        (case attempts_allow now ip l of
           ((_, False), l) \<Rightarrow> (429, l, d)
         | ((_, True), l) \<Rightarrow>
             (case body of
                None \<Rightarrow> (400, l, d)
              | Some (current, next) \<Rightarrow>
                  (case ChangePassword K salt (u_id u) current next (at_id t) d of
                     (None, d) \<Rightarrow> (204, l, d)
                   | (Some ErrBadCredentials, d) \<Rightarrow> (400, l, d)
                   | (Some ErrInvalidInput, d) \<Rightarrow> (400, l, d)
                   | (Some _, d) \<Rightarrow> (500, l, d)))))"

definition handleLogout :: "crypto \<Rightarrow> string option \<Rightarrow> adb \<Rightarrow> nat \<times> adb" where
  "handleLogout K cookie d = (204, case cookie of None \<Rightarrow> d | Some c \<Rightarrow> Logout K c d)"

definition handleSessionsRevoke :: "user \<Rightarrow> auth_token \<Rightarrow> adb \<Rightarrow> nat \<times> adb" where
  "handleSessionsRevoke u t d = (204, DeleteSessions (u_id u) (at_id t) d)"

end
