(* ===== verification/Auth_Props.thy ===== *)
theory Auth_Props
  imports Auth
begin

text \<open>
  What authentication promises over any history: one administrator, a session that ends, a one-time code that is
  accepted once, and a bounded number of attempts.
\<close>

section \<open>Histories\<close>

text \<open>The operations of the service, each with the time and the random values it draws.\<close>

datatype auth_op =
    OpSetup "u8 list" int string string
  | OpLogin string "int \<times> int" string string string
  | OpAuth int string
  | OpLogout string
  | OpPassword "u8 list" int string string int
  | OpToken string int int string string int
  | OpRevoke int int
  | OpEnable int int string string int
  | OpDisable int int string int
  | OpRevokeOthers int int
  | OpSweep int

fun auth_run :: "crypto \<Rightarrow> auth_op \<Rightarrow> adb \<Rightarrow> adb" where
  "auth_run K (OpSetup salt now n p) d = snd (CreateAdmin K salt now n p d)"
| "auth_run K (OpLogin plain t n p c) d = snd (Login K plain t n p c d)"
| "auth_run K (OpAuth now plain) d = snd (Authenticate K now plain d)"
| "auth_run K (OpLogout plain) d = Logout K plain d"
| "auth_run K (OpPassword salt uid cur nxt keep) d = snd (ChangePassword K salt uid cur nxt keep d)"
| "auth_run K (OpToken plain now uid n sc ex) d = snd (CreateAPIToken K plain now uid n sc ex d)"
| "auth_run K (OpRevoke uid i) d = snd (RevokeToken uid i d)"
| "auth_run K (OpEnable now uid s c keep) d = snd (EnableTOTPConfirm K now uid s c keep d)"
| "auth_run K (OpDisable now uid c keep) d = snd (DisableTOTP K now uid c keep d)"
| "auth_run K (OpRevokeOthers uid keep) d = DeleteSessions uid keep d"
| "auth_run K (OpSweep nowMs) d = DeleteExpired nowMs d"

definition adb_start :: adb where
  "adb_start = \<lparr>ad_users = [], ad_tokens = [], ad_useq = 0, ad_tseq = 0\<rparr>"

text \<open>At most one user; token ids are distinct and below the sequence, digests distinct; a session never
  reaches past its ceiling.\<close>

definition token_ok :: "auth_token \<Rightarrow> bool" where
  "token_ok t \<longleftrightarrow> (at_kind t = ''session'' \<and> 0 < at_created t \<longrightarrow>
     0 < at_expires t \<and> at_expires t * 1000000 \<le> at_created t * 1000000 + SessionMaxLifetime)"

definition adb_ok :: "adb \<Rightarrow> bool" where
  "adb_ok d \<longleftrightarrow> length (ad_users d) \<le> 1 \<and> (\<forall>u\<in>set (ad_users d). u_id u \<le> ad_useq d) \<and>
     distinct (map at_id (ad_tokens d)) \<and> distinct (map at_hash (ad_tokens d)) \<and>
     (\<forall>t\<in>set (ad_tokens d). at_id t \<le> ad_tseq d \<and> token_ok t)"

lemma upd_users_ok: "adb_ok d \<Longrightarrow> (\<And>u. u_id (f u) = u_id u) \<Longrightarrow> adb_ok (upd_users i f d)"
  by (auto simp: adb_ok_def upd_users_def)

lemma filter_tokens_ok: "adb_ok d \<Longrightarrow> adb_ok (d\<lparr>ad_tokens := filter P (ad_tokens d)\<rparr>)"
  by (auto simp: adb_ok_def distinct_map_filter)

lemma upd_tokens_ok:
  assumes "adb_ok d" "\<And>t. at_id (f t) = at_id t" "\<And>t. at_hash (f t) = at_hash t"
    and "\<And>t. t \<in> set (ad_tokens d) \<Longrightarrow> at_id t = i \<Longrightarrow> token_ok (f t)"
  shows "adb_ok (upd_tokens i f d)"
proof -
  have "at_id \<circ> (\<lambda>t. if at_id t = i then f t else t) = at_id" "at_hash \<circ> (\<lambda>t. if at_id t = i then f t else t) = at_hash"
    using assms(2,3) by (auto simp: fun_eq_iff)
  then show ?thesis using assms by (auto simp: adb_ok_def upd_tokens_def)
qed

lemma ByHash_Some: "ByHash h d = Some t \<Longrightarrow> t \<in> set (ad_tokens d) \<and> at_hash t = h"
  by (auto simp: ByHash_def find_Some_iff)

lemma CreateToken_ok:
  assumes "adb_ok d" "token_ok t"
  shows "adb_ok (snd (CreateToken t d))"
  using assms by (fastforce simp: adb_ok_def CreateToken_def token_ok_def list_ex_iff)

lemma ClaimTOTPStep_ok: "adb_ok d \<Longrightarrow> adb_ok (snd (ClaimTOTPStep i s d))"
  by (auto simp: adb_ok_def ClaimTOTPStep_def)

lemma same_token:
  "adb_ok d \<Longrightarrow> t \<in> set (ad_tokens d) \<Longrightarrow> t' \<in> set (ad_tokens d) \<Longrightarrow> at_id t' = at_id t \<Longrightarrow> t' = t"
  by (auto simp: adb_ok_def distinct_map inj_on_def)

lemma Authenticate_ok:
  assumes "adb_ok d" "0 \<le> now"
  shows "adb_ok (snd (Authenticate K now plain d))"
proof (cases "ByHash (HashToken K plain) d")
  case None
  then show ?thesis using assms by (simp add: Authenticate_def)
next
  case (Some t)
  let ?e = "ms (case sessionCeiling t of None \<Rightarrow> now + SessionTTL | Some c \<Rightarrow> min (now + SessionTTL) c)"
  have touch: "adb_ok (Touch (at_id t) (ms now) d)"
    unfolding Touch_def by (rule upd_tokens_ok [OF assms(1)]) (use assms(1) in \<open>auto simp: adb_ok_def token_ok_def\<close>)
  have expiry: "adb_ok (SetExpiry (at_id t) ?e (Touch (at_id t) (ms now) d))"
    unfolding SetExpiry_def
  proof (rule upd_tokens_ok [OF touch])
    fix t'
    assume "t' \<in> set (ad_tokens (Touch (at_id t) (ms now) d))" "at_id t' = at_id t"
    then obtain x where x: "x \<in> set (ad_tokens d)" "at_id x = at_id t" "t' = x\<lparr>at_used := ms now\<rparr>"
      by (auto simp: Touch_def upd_tokens_def split: if_splits)
    then have "x = t" using same_token [OF assms(1)] ByHash_Some [OF Some] by blast
    then show "token_ok (t'\<lparr>at_expires := ?e\<rparr>)"
      using x(3) assms(2) by (auto simp: token_ok_def sessionCeiling_def SessionMaxLifetime_def SessionTTL_def min_def)
  qed simp_all
  then have "adb_ok (renew_session now t (Touch (at_id t) (ms now) d))"
    using touch unfolding renew_session_def by (rule_tac if_split [THEN iffD2]) simp
  then show ?thesis
    using filter_tokens_ok [OF assms(1)] Some
    by (simp add: Authenticate_def DeleteToken_def Let_def split: option.split)
qed

lemma open_session_snd:
  "snd (open_session K plain now u d) =
     snd (CreateToken \<lparr>at_id = 0, at_user = u_id u, at_kind = ''session'', at_name = [], at_hash = HashToken K plain,
       at_scope = ''write'', at_created = ms now, at_expires = ms (now + SessionTTL), at_used = 0\<rparr> d)"
  unfolding open_session_def by (auto split: prod.split option.split)

lemma check_code_snd: "snd (check_code K now u c d) = d \<or> (\<exists>s. snd (check_code K now u c d) = snd (ClaimTOTPStep (u_id u) s d))"
proof (cases "u_totp u = [] \<or> c = [] \<or> verifyTOTPStep K (u_totp u) c now = None")
  case False
  then obtain s where s: "verifyTOTPStep K (u_totp u) c now = Some s" by auto
  have "snd (check_code K now u c d) = snd (ClaimTOTPStep (u_id u) s d)"
    using False s by (auto simp: check_code_def split: prod.split bool.split)
  then show ?thesis by blast
qed (auto simp: check_code_def)

lemma open_session_ok:
  assumes "adb_ok d" "0 \<le> now"
  shows "adb_ok (snd (open_session K plain now u d))"
proof -
  have "adb_ok (snd (CreateToken \<lparr>at_id = 0, at_user = u_id u, at_kind = ''session'', at_name = [], at_hash = HashToken K plain,
      at_scope = ''write'', at_created = ms now, at_expires = ms (now + SessionTTL), at_used = 0\<rparr> d))"
    by (rule CreateToken_ok [OF assms(1)]) (use assms(2) in \<open>auto simp: token_ok_def SessionTTL_def SessionMaxLifetime_def\<close>)
  then show ?thesis by (simp only: open_session_snd)
qed

lemma check_code_ok: "adb_ok d \<Longrightarrow> adb_ok (snd (check_code K now u c d))"
  using ClaimTOTPStep_ok [of d "u_id u"] check_code_snd [of K now u c d] by auto

lemma Login_ok:
  assumes "adb_ok d" "0 \<le> snd t"
  shows "adb_ok (snd (Login K plain t n p c d))"
proof (cases "ByUsername n d")
  case (Some u)
  obtain e d1 where c: "check_code K (fst t) u c d = (e, d1)" by fastforce
  then have "adb_ok d1" using check_code_ok [OF assms(1), of K "fst t" u c] by simp
  then show ?thesis using assms open_session_ok by (auto simp: Login_def Some c split: option.split)
qed (use assms in \<open>simp add: Login_def\<close>)

fun op_time :: "auth_op \<Rightarrow> bool" where
  "op_time (OpLogin plain t n p c) = (0 \<le> snd t)"
| "op_time (OpAuth now plain) = (0 \<le> now)"
| "op_time _ = True"

lemma DeleteSessions_ok: "adb_ok d \<Longrightarrow> adb_ok (DeleteSessions i k d)"
  unfolding DeleteSessions_def by (rule filter_tokens_ok)

lemma SetTOTP_ok: "adb_ok d \<Longrightarrow> adb_ok (SetTOTP i s d)"
  unfolding SetTOTP_def by (rule upd_users_ok) simp_all

lemma SetPassword_ok: "adb_ok d \<Longrightarrow> adb_ok (SetPassword i s d)"
  unfolding SetPassword_def by (rule upd_users_ok) simp_all

lemma CreateAdmin_ok: "adb_ok d \<Longrightarrow> adb_ok (snd (CreateAdmin K salt now n p d))"
  by (simp add: CreateAdmin_def CreateIfNone_def adb_ok_def)

lemma DeleteToken_ok: "adb_ok d \<Longrightarrow> adb_ok (DeleteToken i d)"
  unfolding DeleteToken_def by (rule filter_tokens_ok)

lemma CreateAPIToken_ok:
  assumes "adb_ok d"
  shows "adb_ok (snd (CreateAPIToken K plain now uid n sc ex d))"
proof -
  have "adb_ok (snd (CreateToken \<lparr>at_id = 0, at_user = uid, at_kind = ''api'', at_name = n, at_hash = HashToken K plain, at_scope = sc,
      at_created = ms now, at_expires = ex, at_used = 0\<rparr> d))"
    by (rule CreateToken_ok [OF assms]) (simp add: token_ok_def)
  then show ?thesis using assms by (auto simp: CreateAPIToken_def split: prod.split option.split)
qed

lemma auth_run_ok:
  assumes "adb_ok d" "op_time x"
  shows "adb_ok (auth_run K x d)"
proof (cases x)
  case (OpLogin plain t n p c)
  then show ?thesis using assms by (simp add: Login_ok)
next
  case (OpAuth now plain)
  then show ?thesis using assms by (simp add: Authenticate_ok)
next
  case (OpLogout plain)
  then show ?thesis using assms by (simp add: Logout_def DeleteToken_ok split: option.split)
next
  case (OpPassword salt uid cur nxt keep)
  then show ?thesis using assms by (simp add: ChangePassword_def DeleteSessions_ok SetPassword_ok split: option.split)
next
  case (OpDisable now uid c keep)
  then show ?thesis using assms by (simp add: DisableTOTP_def DeleteSessions_ok SetTOTP_ok split: option.split)
next
  case (OpSweep nowMs)
  then show ?thesis using filter_tokens_ok [OF assms(1)] by (simp add: DeleteExpired_def)
qed (use assms in \<open>simp_all add: CreateAdmin_ok CreateAPIToken_ok RevokeToken_def DeleteToken_ok EnableTOTPConfirm_def
       DeleteSessions_ok SetTOTP_ok\<close>)

lemma auth_history_ok: "adb_ok d \<Longrightarrow> list_all op_time ops \<Longrightarrow> adb_ok (fold (auth_run K) ops d)"
  by (induction ops arbitrary: d) (simp_all add: auth_run_ok)

lemma adb_start_ok: "adb_ok adb_start"
  by (simp add: adb_ok_def adb_start_def)

section \<open>Sessions end\<close>

text \<open>C36: every session ends.  After any history of operations, a token that authenticates is stored, belongs
  to the one user there is, and has not expired; a session is less than ninety days old however often it was
  renewed, and the expiry it is left with lies within those ninety days.\<close>

theorem session_ends:
  assumes "list_all op_time ops" "d = fold (auth_run K) ops adb_start" "0 \<le> now"
    and "Authenticate K now plain d = (Inr (u, t), d')"
  shows "t \<in> set (ad_tokens d) \<and> at_hash t = HashToken K plain \<and> ad_users d = [u] \<and> u_id u = at_user t \<and>
    (0 < at_expires t \<longrightarrow> ms now \<le> at_expires t) \<and>
    (at_kind t = ''session'' \<and> 0 < at_created t \<longrightarrow>
       now < at_created t * 1000000 + SessionMaxLifetime \<and>
       list_all (\<lambda>t'. at_id t' = at_id t \<longrightarrow>
         0 < at_expires t' \<and> at_expires t' * 1000000 \<le> at_created t * 1000000 + SessionMaxLifetime) (ad_tokens d'))"
proof -
  have ok: "adb_ok d" using auth_history_ok [OF adb_start_ok assms(1)] assms(2) by simp
  have ok': "adb_ok d'" using Authenticate_ok [OF ok assms(3), of K plain] assms(4) by simp
  have h: "ByHash (HashToken K plain) d = Some t"
    using assms(4) by (auto simp: Authenticate_def Let_def split: option.splits if_splits)
  then have d': "d' = renew_session now t (Touch (at_id t) (ms now) d)" "ByID (at_user t) d' = Some u"
    and live: "\<not> (at_expires t > 0 \<and> at_expires t < ms now)" "\<not> (case sessionCeiling t of None \<Rightarrow> False | Some c \<Rightarrow> c \<le> now)"
    using assms(4) by (simp_all add: Authenticate_def Let_def split: option.splits if_splits)
  have users: "ad_users d' = ad_users d"
    by (simp add: d'(1) renew_session_def SetExpiry_def Touch_def upd_tokens_def)
  have u: "ad_users d = [u] \<and> u_id u = at_user t"
  proof -
    have "u \<in> set (ad_users d)" "u_id u = at_user t"
      using d'(2) users by (auto simp: ByID_def user_where_def find_Some_iff)
    moreover have "length (ad_users d) \<le> 1" using ok by (simp add: adb_ok_def)
    ultimately show ?thesis by (cases "ad_users d") auto
  qed
  have created: "at_kind t' = at_kind t \<and> at_created t' = at_created t" if mem: "t' \<in> set (ad_tokens d')" "at_id t' = at_id t" for t'
  proof -
    obtain x where "x \<in> set (ad_tokens d)" "at_id x = at_id t" "at_kind t' = at_kind x" "at_created t' = at_created x"
      using mem by (auto simp: d'(1) renew_session_def SetExpiry_def Touch_def upd_tokens_def split: if_splits)
    moreover from this have "x = t" using same_token [OF ok] ByHash_Some [OF h] by blast
    ultimately show ?thesis by simp
  qed
  have "list_all (\<lambda>t'. at_id t' = at_id t \<longrightarrow>
      0 < at_expires t' \<and> at_expires t' * 1000000 \<le> at_created t * 1000000 + SessionMaxLifetime) (ad_tokens d')"
    if "at_kind t = ''session''" "0 < at_created t"
    using ok' created that by (auto simp: adb_ok_def token_ok_def list_all_iff)
  then show ?thesis using ByHash_Some [OF h] u live by (auto simp: sessionCeiling_def)
qed

section \<open>Codes are used once\<close>

text \<open>What the operations other than switching the second factor on or off do to the accounts.\<close>

definition same_accounts :: "adb \<Rightarrow> adb \<Rightarrow> bool" where
  "same_accounts d d' \<longleftrightarrow> list_all2 (\<lambda>u u'. u_id u' = u_id u \<and> u_name u' = u_name u \<and> u_totp u' = u_totp u \<and> u_step u \<le> u_step u')
     (ad_users d) (ad_users d')"

fun keeps_factor :: "auth_op \<Rightarrow> bool" where
  "keeps_factor (OpEnable now uid s c keep) = False"
| "keeps_factor (OpDisable now uid c keep) = False"
| "keeps_factor _ = True"

lemma same_accounts_refl: "ad_users d' = ad_users d \<Longrightarrow> same_accounts d d'"
  by (simp add: same_accounts_def list.rel_refl)

lemma same_accounts_trans: "same_accounts a b \<Longrightarrow> same_accounts b c \<Longrightarrow> same_accounts a c"
  unfolding same_accounts_def by (erule (1) list_all2_trans [rotated]) auto

lemma same_accounts_map:
  "(\<And>u. u_id (f u) = u_id u \<and> u_name (f u) = u_name u \<and> u_totp (f u) = u_totp u \<and> u_step u \<le> u_step (f u)) \<Longrightarrow>
   ad_users d' = map f (ad_users d) \<Longrightarrow> same_accounts d d'"
  by (simp add: same_accounts_def list_all2_conv_all_nth)

lemma CreateToken_users [simp]: "ad_users (snd (CreateToken t d)) = ad_users d"
  by (simp add: CreateToken_def)

lemma Authenticate_users [simp]: "ad_users (snd (Authenticate K now plain d)) = ad_users d"
proof -
  have "ad_users (renew_session now t (Touch i ts d)) = ad_users d" for t i ts
    by (simp add: renew_session_def SetExpiry_def Touch_def upd_tokens_def)
  then show ?thesis by (simp add: Authenticate_def DeleteToken_def Let_def split: option.split)
qed

lemma Claim_same: "same_accounts d (snd (ClaimTOTPStep i s d))"
  by (rule same_accounts_map [where f = "\<lambda>u. if u_id u = i \<and> u_step u < s then u\<lparr>u_step := s\<rparr> else u"])
    (simp_all add: ClaimTOTPStep_def)

lemma open_session_users: "ad_users (snd (open_session K plain now u d)) = ad_users d"
  by (simp only: open_session_snd CreateToken_users)

lemma check_code_same: "same_accounts d (snd (check_code K now u c d))"
  using Claim_same [of d "u_id u"] check_code_snd [of K now u c d] same_accounts_refl [of d d] by auto

lemma Login_same: "same_accounts d (snd (Login K plain t n p c d))"
proof (cases "ByUsername n d")
  case (Some u)
  obtain e d1 where c: "check_code K (fst t) u c d = (e, d1)" by fastforce
  then have "same_accounts d d1" using check_code_same [of d K "fst t" u c] by simp
  then have "same_accounts d (snd (open_session K plain (snd t) u d1))"
    using open_session_users by (simp add: same_accounts_def)
  then show ?thesis using \<open>same_accounts d d1\<close> by (simp add: Login_def Some c same_accounts_refl split: option.split)
qed (simp add: Login_def same_accounts_refl)

lemma check_code_None:
  assumes "check_code K now u c d = (None, d1)" "u_totp u \<noteq> []"
  obtains s where "verifyTOTPStep K (u_totp u) c now = Some s" "ClaimTOTPStep (u_id u) s d = (True, d1)"
  using assms by (auto simp: check_code_def split: if_splits option.splits prod.splits bool.splits)

lemma Login_claims:
  assumes "Login K plain t n p c d = (Inr tok, d')" "ByUsername n d = Some u" "u_totp u \<noteq> []"
  obtains s where "verifyTOTPStep K (u_totp u) c (fst t) = Some s" "fst (ClaimTOTPStep (u_id u) s d)"
    "ad_users d' = ad_users (snd (ClaimTOTPStep (u_id u) s d))"
proof -
  obtain e d1 where c: "check_code K (fst t) u c d = (e, d1)" by fastforce
  then have "e = None" "(Inr tok, d') = open_session K plain (snd t) u d1"
    using assms by (auto simp: Login_def split: if_splits option.splits)
  then show ?thesis
    using check_code_None [of K "fst t" u c d d1] c assms(3) that open_session_users [of K plain "snd t" u d1] by (metis fst_conv snd_conv)
qed

lemma auth_run_same:
  assumes "keeps_factor x" "ad_users d \<noteq> []"
  shows "same_accounts d (auth_run K x d)"
proof (cases x)
  case (OpSetup salt now n p)
  then show ?thesis using assms by (auto intro!: same_accounts_refl simp: CreateAdmin_def CreateIfNone_def)
next
  case (OpLogin plain t n p c)
  then show ?thesis by (simp add: Login_same)
next
  case (OpPassword salt uid cur nxt keep)
  have "same_accounts d (DeleteSessions uid keep (SetPassword uid h d))" for h
    by (rule same_accounts_map [where f = "\<lambda>u. if u_id u = uid then u\<lparr>u_hash := h\<rparr> else u"])
      (simp_all add: DeleteSessions_def SetPassword_def upd_users_def)
  then show ?thesis by (simp add: OpPassword ChangePassword_def same_accounts_refl split: option.split)
next
  case (OpToken plain now uid n sc ex)
  have "ad_users (snd (CreateAPIToken K plain now uid n sc ex d)) = ad_users d"
    by (auto simp: CreateAPIToken_def split: prod.split option.split) (metis CreateToken_users snd_conv)+
  then show ?thesis by (simp add: OpToken same_accounts_refl)
qed (use assms in \<open>auto intro!: same_accounts_refl simp: Logout_def DeleteToken_def RevokeToken_def DeleteSessions_def DeleteExpired_def
       split: option.split\<close>)

lemma same_accounts_nonempty: "same_accounts d d' \<Longrightarrow> ad_users d \<noteq> [] \<Longrightarrow> ad_users d' \<noteq> []"
  by (auto simp: same_accounts_def)

lemma auth_history_same:
  "list_all keeps_factor ops \<Longrightarrow> ad_users d \<noteq> [] \<Longrightarrow> same_accounts d (fold (auth_run K) ops d)"
proof (induction ops arbitrary: d)
  case (Cons x ops)
  then have "same_accounts d (auth_run K x d)" by (simp add: auth_run_same)
  moreover have "same_accounts (auth_run K x d) (fold (auth_run K) ops (auth_run K x d))"
    using Cons same_accounts_nonempty [OF \<open>same_accounts d (auth_run K x d)\<close>] by simp
  ultimately show ?case by (simp add: same_accounts_trans)
qed (simp add: same_accounts_refl)


section \<open>Attempts are bounded\<close>

fun attempts_run :: "string \<Rightarrow> (string \<times> int) list \<Rightarrow> attemptLimiter \<Rightarrow> nat" where
  "attempts_run key [] l = 0"
| "attempts_run key ((k, t) # xs) l =
     (let ((_, fine), l) = attempts_allow t k l in (if k = key \<and> fine then 1 else 0) + attempts_run key xs l)"

definition room :: "int \<Rightarrow> attemptEntry option \<Rightarrow> nat" where
  "room lo e = (case e of None \<Rightarrow> attemptLimit
     | Some e \<Rightarrow> if lo \<le> ae_windowStart e then attemptLimit - ae_count e else (attemptLimit - ae_count e) + attemptLimit)"

lemma room_sweep:
  assumes "now < lo + attemptWindow"
  shows "room lo (al_entries (attempts_sweep now l) k) \<le> room lo (al_entries l k)"
  using assms by (auto simp: room_def attempts_sweep_def split: option.split)

lemma room_allow:
  assumes "lo \<le> now" "now < lo + attemptWindow" "attempts_allow now k l = ((r, fine), l')"
  shows "(if k = key \<and> fine then 1 else 0) + room lo (al_entries l' key) \<le> room lo (al_entries l key)"
proof -
  let ?l = "attempts_sweep now l"
  have "(if k = key \<and> fine then 1 else 0) + room lo (al_entries l' key) \<le> room lo (al_entries ?l key)"
    using assms by (cases "al_entries ?l k")
      (auto simp: attempts_allow_def Let_def room_def attemptLimit_def attemptWindow_def split: if_splits option.split)
  then show ?thesis using room_sweep [OF assms(2), of l key] by linarith
qed

lemma attempts_room:
  "list_all (\<lambda>(_, t). lo \<le> t \<and> t < lo + attemptWindow) xs \<Longrightarrow> attempts_run key xs l \<le> room lo (al_entries l key)"
proof (induction xs arbitrary: l)
  case (Cons x xs)
  obtain k t where x: "x = (k, t)" by fastforce
  obtain r fine l' where a: "attempts_allow t k l = ((r, fine), l')" by (metis prod.exhaust)
  have "(if k = key \<and> fine then 1 else 0) + room lo (al_entries l' key) \<le> room lo (al_entries l key)"
    using Cons.prems x by (intro room_allow [OF _ _ a]) auto
  moreover have "attempts_run key xs l' \<le> room lo (al_entries l' key)" using Cons by simp
  ultimately show ?case by (simp add: x a)
qed simp


text \<open>An attempt made during a lockout is refused and changes nothing: the lockout ends when it was going to end.\<close>

lemma lockout_not_extended:
  assumes "al_entries l k = Some e" "now < ae_lockedUntil e"
  shows "\<not> snd (fst (attempts_allow now k l)) \<and> al_entries (snd (attempts_allow now k l)) k = Some e"
proof -
  have "al_entries (attempts_sweep now l) k = Some e" using assms by (simp add: attempts_sweep_def)
  with assms(2) show ?thesis by (simp add: attempts_allow_def Let_def)
qed

section \<open>Passwords and the gate\<close>

definition b64_laws :: "crypto \<Rightarrow> bool" where
  "b64_laws K \<longleftrightarrow> (\<forall>bs. unb64 K (b64 K bs) = Some bs \<and> CHR ''$'' \<notin> set (b64 K bs)) \<and>
     (\<forall>pw salt t m p n. length (argon2 K pw salt t m p n) = n)"

lemma verify_hash:
  assumes "b64_laws K"
  shows "VerifyPassword K (HashPassword K salt pw) pw' =
    Some (argon2 K pw' salt argonTime argonMemory argonThreads argonKeyLen = argon2 K pw salt argonTime argonMemory argonThreads argonKeyLen)"
proof -
  let ?params = "''m='' @ dec argonMemory @ '',t='' @ dec argonTime @ '',p='' @ dec argonThreads"
  let ?key = "argon2 K pw salt argonTime argonMemory argonThreads argonKeyLen"
  have params: "?params = ''m=65536,t=3,p=2''"
    by (simp add: argonMemory_def argonTime_def argonThreads_def dec.simps char_of_def bit_0)
  have p: "scan_mtp ?params = Some (argonMemory, argonTime, argonThreads)" "CHR ''$'' \<notin> set ?params"
    unfolding params
    by (simp_all add: scan_mtp_def scan_field_def scan_uint_def CutPrefix_def HasPrefix_def Let_def argonMemory_def argonTime_def argonThreads_def)
  have h: "HashPassword K salt pw = [] @ CHR ''$'' # ''argon2id'' @ CHR ''$'' # ''v=19'' @ CHR ''$'' # ?params @ CHR ''$'' # b64 K salt @ CHR ''$'' # b64 K ?key"
    by (simp add: HashPassword_def)
  have b: "CHR ''$'' \<notin> set (b64 K x)" "unb64 K (b64 K x) = Some x" "length ?key = argonKeyLen" for x
    using assms by (simp_all add: b64_laws_def)
  have "CHR ''$'' \<notin> set ''argon2id''" "CHR ''$'' \<notin> set ''v=19''" "CHR ''$'' \<notin> set []" by simp_all
  then have "Split (HashPassword K salt pw) CHR ''$'' = [[], ''argon2id'', ''v=19'', ?params, b64 K salt, b64 K ?key]"
    unfolding h by (simp only: Split_prepend p(2) b Split_single simp_thms)
  then show ?thesis using p(1) b by (simp add: VerifyPassword_def)
qed

text \<open>A changed password locks the others out.  A successful change was made with the old password; from then
  on the account's sessions are gone but for the one that made it, and a login goes by the new password.\<close>

theorem password_change_revokes:
  assumes "b64_laws K" "list_all op_time ops" "d = fold (auth_run K) ops adb_start"
    and "ChangePassword K salt uid current next keep d = (None, d')"
  shows "\<exists>u. ByID uid d = Some u \<and> VerifyPassword K (u_hash u) current = Some True \<and> minPasswordLen \<le> length next \<and>
    list_all (\<lambda>t. \<not> (at_user t = uid \<and> at_kind t = ''session'' \<and> at_id t \<noteq> keep)) (ad_tokens d') \<and>
    (\<forall>plain t p c tok. fst (Login K plain t (u_name u) p c d') = Inr tok \<longrightarrow>
       argon2 K p salt argonTime argonMemory argonThreads argonKeyLen = argon2 K next salt argonTime argonMemory argonThreads argonKeyLen)"
proof -
  obtain u where u: "ByID uid d = Some u" "VerifyPassword K (u_hash u) current = Some True" "minPasswordLen \<le> length next"
    "d' = DeleteSessions uid keep (SetPassword uid (HashPassword K salt next) d)"
    using assms(4) by (auto simp: ChangePassword_def split: option.splits if_splits)
  have "length (ad_users d) \<le> 1" using auth_history_ok [OF adb_start_ok assms(2)] assms(3) by (simp add: adb_ok_def)
  then have "ad_users d = [u]" "u_id u = uid"
    using u(1) by (auto simp: ByID_def user_where_def find_Some_iff le_Suc_eq length_Suc_conv)
  then have "ad_users d' = [u\<lparr>u_hash := HashPassword K salt next\<rparr>]"
    by (simp add: u(4) DeleteSessions_def SetPassword_def upd_users_def)
  then have "ByUsername (u_name u) d' = Some (u\<lparr>u_hash := HashPassword K salt next\<rparr>)"
    by (simp add: ByUsername_def user_where_def)
  then have "argon2 K p salt argonTime argonMemory argonThreads argonKeyLen = argon2 K next salt argonTime argonMemory argonThreads argonKeyLen"
    if "fst (Login K plain t (u_name u) p c d') = Inr tok" for plain t p c tok
    using that verify_hash [OF assms(1)] by (auto simp: Login_def split: if_splits)
  moreover have "list_all (\<lambda>t. \<not> (at_user t = uid \<and> at_kind t = ''session'' \<and> at_id t \<noteq> keep)) (ad_tokens d')"
    by (simp add: u(4) DeleteSessions_def list_all_iff)
  ultimately show ?thesis using u by blast
qed

text \<open>C38: nothing passes the gate without a right.  A request handed on to its handler carries a token that
  authenticates, a read-only token only for reading, and when it came as a cookie a change is not asked for by
  another site.\<close>

theorem gate_is_closed:
  assumes "requireAuth K now r d = (Pass_on u t, d')"
  shows "\<exists>token. token \<noteq> [] \<and> Authenticate K now token d = (Inr (u, t), d') \<and>
    (ar_bearer r = Some token \<or>
     ar_bearer r = None \<and> ar_cookie r = Some token \<and>
       (ar_method r \<in> {''GET'', ''HEAD''} \<or> \<not> EqualFold (ar_fetchSite r) ''cross-site'')) \<and>
    (at_scope t = ''read'' \<longrightarrow> ar_method r \<in> {''GET'', ''HEAD''})"
  using assms by (auto simp: requireAuth_def Let_def split: option.splits if_splits sum.splits prod.splits)

section \<open>Witnesses\<close>

fun hex_text :: "u8 list \<Rightarrow> string" where
  "hex_text [] = []"
| "hex_text (b # bs) = char_of (65 + unat b div 16) # char_of (65 + unat b mod 16) # hex_text bs"

fun hex_read :: "string \<Rightarrow> u8 list option" where
  "hex_read [] = Some []"
| "hex_read [_] = None"
| "hex_read (x # y # s) = map_option ((#) (of_nat ((of_char x - 65) * 16 + (of_char y - 65)))) (hex_read s)"

lemma hex_chars:
  fixes b :: u8
  shows "(of_char (char_of (65 + unat b div 16) :: char) :: nat) = 65 + unat b div 16"
    "(of_char (char_of (65 + unat b mod 16) :: char) :: nat) = 65 + unat b mod 16"
proof -
  have "unat b < 256" using unsigned_less [of b, where ?'a = nat] by simp
  then have "65 + unat b div 16 < 256" "65 + unat b mod 16 < 256" by auto
  then show "(of_char (char_of (65 + unat b div 16) :: char) :: nat) = 65 + unat b div 16"
    "(of_char (char_of (65 + unat b mod 16) :: char) :: nat) = 65 + unat b mod 16"
    by (simp_all add: of_char_of)
qed

lemma hex_read_text: "hex_read (hex_text bs) = Some bs"
proof (induction bs)
  case (Cons b bs)
  have "(of_nat (unat b div 16 * 16 + unat b mod 16) :: u8) = b" by (simp only: div_mult_mod_eq) simp
  then show ?case using Cons by (simp only: hex_text.simps hex_read.simps hex_chars add_diff_cancel_left' option.map)
qed simp

lemma hex_text_dollar: "CHR ''$'' \<notin> set (hex_text bs)"
proof (induction bs)
  case (Cons b bs)
  have d: "c \<noteq> CHR ''$''" if "(of_char c :: nat) = 65 + k" for c k using that by auto
  from Cons d [OF hex_chars(1) [of b]] d [OF hex_chars(2) [of b]] show ?case
    by (simp only: hex_text.simps list.set insert_iff) metis
qed simp

definition ex_crypto :: crypto where
  "ex_crypto = \<lparr>argon2 = (\<lambda>pw salt t m p n. take n (map (\<lambda>c. of_nat (of_char c)) pw @ replicate n 0)),
     b64 = hex_text, unb64 = hex_read, HashToken = (\<lambda>s. s), totp_at = (\<lambda>code secret at. code = secret @ dec (nat (at div 30)))\<rparr>"

lemma ex_crypto_laws: "b64_laws ex_crypto"
  by (simp add: b64_laws_def ex_crypto_def hex_read_text hex_text_dollar min_def)

definition ex_admin :: adb where
  "ex_admin = \<lparr>ad_users = [\<lparr>u_id = 1, u_name = ''admin'', u_hash = HashPassword ex_crypto [] ''password'', u_totp = ''s'', u_step = 0,
     u_created = 0\<rparr>], ad_tokens = [], ad_useq = 1, ad_tseq = 0\<rparr>"

definition ex_setup :: "auth_op list" where
  "ex_setup = [OpSetup [] 0 ''admin'' ''password'', OpEnable 0 1 ''s'' ''s1'' 0]"

lemma ex_code: "verifyTOTPStep ex_crypto ''s'' ''s1'' 0 = Some 1"
  by (simp add: verifyTOTPStep_def ex_crypto_def totpPeriod_def Let_def dec.simps char_of_def bit_0)

lemma ex_setup_run: "fold (auth_run ex_crypto) ex_setup adb_start = ex_admin"
  by (simp add: ex_setup_def adb_start_def ex_admin_def CreateAdmin_def CreateIfNone_def user_count_def minPasswordLen_def
      EnableTOTPConfirm_def ex_code SetTOTP_def upd_users_def DeleteSessions_def)

definition ex_session :: auth_token where
  "ex_session = \<lparr>at_id = 1, at_user = 1, at_kind = ''session'', at_name = [], at_hash = ''tok'', at_scope = ''write'', at_created = 5,
     at_expires = ms (5000000 + SessionTTL), at_used = 0\<rparr>"

lemma ex_login:
  "Login ex_crypto ''tok'' (0, 5000000) ''admin'' ''password'' ''s1'' ex_admin =
     (Inr ''tok'', ex_admin\<lparr>ad_users := map (\<lambda>u. u\<lparr>u_step := 1\<rparr>) (ad_users ex_admin), ad_tokens := [ex_session], ad_tseq := 1\<rparr>)"
proof -
  have "check_code ex_crypto 0 (hd (ad_users ex_admin)) ''s1'' ex_admin =
      (None, ex_admin\<lparr>ad_users := map (\<lambda>u. u\<lparr>u_step := 1\<rparr>) (ad_users ex_admin)\<rparr>)"
    by (simp add: check_code_def ex_admin_def ex_code ClaimTOTPStep_def)
  moreover have "HashToken ex_crypto s = s" for s by (simp add: ex_crypto_def)
  ultimately show ?thesis
    using verify_hash [OF ex_crypto_laws, of "[]" "''password''" "''password''"]
    by (simp add: Login_def ByUsername_def user_where_def ex_admin_def open_session_def CreateToken_def ex_session_def)
qed

theorem session_ends_witness:
  "\<exists>u t d'. Authenticate ex_crypto 7000000 ''tok''
       (fold (auth_run ex_crypto) (ex_setup @ [OpLogin ''tok'' (0, 5000000) ''admin'' ''password'' ''s1'']) adb_start) = (Inr (u, t), d') \<and>
     at_kind t = ''session'' \<and> 7000000 < at_created t * 1000000 + SessionMaxLifetime"
proof -
  let ?d = "fold (auth_run ex_crypto) (ex_setup @ [OpLogin ''tok'' (0, 5000000) ''admin'' ''password'' ''s1'']) adb_start"
  have d: "?d = ex_admin\<lparr>ad_users := map (\<lambda>u. u\<lparr>u_step := 1\<rparr>) (ad_users ex_admin), ad_tokens := [ex_session], ad_tseq := 1\<rparr>"
    by (simp only: fold_append comp_def ex_setup_run) (simp add: ex_login)
  have "HashToken ex_crypto ''tok'' = ''tok''" by (simp add: ex_crypto_def)
  then obtain u d' where a: "Authenticate ex_crypto 7000000 ''tok'' ?d = (Inr (u, ex_session), d')"
    unfolding d by (simp add: Authenticate_def ByHash_def ex_session_def sessionCeiling_def SessionTTL_def SessionMaxLifetime_def
        renew_session_def Touch_def upd_tokens_def ByID_def user_where_def ex_admin_def Let_def)
  have "list_all op_time (ex_setup @ [OpLogin ''tok'' (0, 5000000) ''admin'' ''password'' ''s1''])" by (simp add: ex_setup_def)
  from session_ends [OF this refl _ a] have "7000000 < at_created ex_session * 1000000 + SessionMaxLifetime" by (simp add: ex_session_def)
  then show ?thesis using a by (intro exI [of _ u] exI [of _ ex_session] exI [of _ d']) (simp add: ex_session_def)
qed



theorem gate_is_closed_witness:
  "\<exists>u t d'. requireAuth ex_crypto 7000000 \<lparr>ar_method = ''POST'', ar_bearer = None, ar_cookie = Some ''tok'', ar_fetchSite = ''same-origin''\<rparr>
      (ex_admin\<lparr>ad_tokens := [ex_session], ad_tseq := 1\<rparr>) = (Pass_on u t, d') \<and> at_scope t \<noteq> ''read''"
proof -
  let ?r = "\<lparr>ar_method = ''POST'', ar_bearer = None, ar_cookie = Some ''tok'', ar_fetchSite = ''same-origin''\<rparr>"
  have "HashToken ex_crypto ''tok'' = ''tok''" "\<not> EqualFold ''same-origin'' ''cross-site''" by (simp add: ex_crypto_def, code_simp)
  then obtain u d' where a: "requireAuth ex_crypto 7000000 ?r (ex_admin\<lparr>ad_tokens := [ex_session], ad_tseq := 1\<rparr>) = (Pass_on u ex_session, d')"
    by (simp add: requireAuth_def Authenticate_def ByHash_def ex_session_def sessionCeiling_def SessionTTL_def SessionMaxLifetime_def
        renew_session_def Touch_def upd_tokens_def ByID_def user_where_def ex_admin_def Let_def)
  from gate_is_closed [OF this] have "at_scope ex_session \<noteq> ''read''" by auto
  then show ?thesis using a by blast
qed

theorem password_change_revokes_witness:
  "\<exists>u d'. ChangePassword ex_crypto [1] 1 ''password'' ''better-one'' 0 ex_admin = (None, d') \<and> ByID 1 ex_admin = Some u"
proof -
  obtain d' where a: "ChangePassword ex_crypto [1] 1 ''password'' ''better-one'' 0 ex_admin = (None, d')"
    using verify_hash [OF ex_crypto_laws, of "[]" "''password''" "''password''"]
    by (simp add: ChangePassword_def ByID_def user_where_def ex_admin_def minPasswordLen_def)
  have "list_all op_time ex_setup" by (simp add: ex_setup_def)
  from password_change_revokes [OF ex_crypto_laws this ex_setup_run [symmetric] a] a show ?thesis by blast
qed

end
