(* ===== verification/Spec2Isabelle.thy ===== *)
theory Spec2Isabelle
  imports Serial Filter_Refresh Zone_Refresh Settings_Props Notify_Server_Props Notify_Sender Auth_Props
begin

text \<open>Plan.\<close>

section \<open>The whole pipeline\<close>

text \<open>C1: every query is answered.  Whatever the state of the server and of the network, and whatever
  a stage below the barrier does, the composed handler comes to an end and returns: a panic of a stage
  is turned into an answer, and logging the query never holds it up.\<close>

theorem every_query_returns:
  assumes "0 < o_Buffer (lg_o l)"
  shows "\<exists>resp err l' w'. app_handler V A t r (l, w) = Some (Returned resp err, l', w')"
proof -
  obtain l' where h: "app_handler V A t r (l, w) =
      (case Chain (terminal V) (stages V A t) r w of (out, w') \<Rightarrow> Some (out, l', w'))"
    using app_handler_result [OF assms] by blast
  show ?thesis
    using chain_no_panic [of V A t r w] h by (cases "fst (Chain (terminal V) (stages V A t) r w)") (auto split: prod.splits)
qed

theorem every_query_returns_witness:
  "\<exists>resp err l' w'. app_handler ex_env ex_app ex_times (ex_req ''www.example.com.'') (ex_logger, ex_tail) =
     Some (Returned resp err, l', w')"
  by (rule every_query_returns) (rule ex_env_laws)

text \<open>C2: private names stay in.  A query that the blocking rules of the client's group refuse, one for a
  name inside a zone held here, and one for a name or type a live lease answers to (unless an operator's
  record takes it over) leave the cache, the forwarder and the network exactly as they were: nothing is
  looked up, sent or stored.\<close>

theorem private_names_stay:
  assumes "0 < o_Buffer (lg_o l)" and "answered_here V A t r"
  shows "\<exists>out l'. app_handler V A t r (l, w) = Some (out, l', w)"
proof -
  obtain l' where "app_handler V A t r (l, w) =
      (case Chain (terminal V) (stages V A t) r w of (out, w') \<Rightarrow> Some (out, l', w'))"
    using app_handler_result [OF assms(1)] by blast
  then show ?thesis using chain_stays [OF assms(2), of "terminal V" w] by (auto split: prod.splits)
qed

theorem private_names_stay_witness:
  "list_all (\<lambda>n. \<exists>out l'. app_handler ex_env ex_app ex_times (ex_req n) (ex_logger, ex_tail) = Some (out, l', ex_tail))
     [''x.ads.com.'', ''WWW.e412.in.'', ''my-laptop.lan.'']"
proof -
  have "answered_here ex_env ex_app ex_times (ex_req ''x.ads.com.'')"
    "answered_here ex_env ex_app ex_times (ex_req ''WWW.e412.in.'')"
    "answered_here ex_env ex_app ex_times (ex_req ''my-laptop.lan.'')" by code_simp+
  from this [THEN private_names_stay [OF ex_env_laws(2)]] show ?thesis by (simp only: list.pred_inject simp_thms)
qed



end
